(* ===== verification/Prelude.thy ===== *)
theory Prelude
  imports Main "HOL-Library.Word" "HOL-Library.Char_ord" "HOL-Library.List_Lexorder"
    "HOL-Library.Product_Lexorder"
begin

text \<open>
  The vocabulary shared by every component theory.

  \<^item> Rust's \<^verbatim>\<open>Result\<close> with panics made visible: \<open>Inr\<close> is \<^verbatim>\<open>Ok\<close>, \<open>Inl (Err e)\<close> is
    \<^verbatim>\<open>Err(e)\<close> and \<open>Inl (Panic msg)\<close> is an abort (a failed index, \<^verbatim>\<open>expect\<close>,
    \<^verbatim>\<open>unreachable!\<close>, or an overflowing \<^verbatim>\<open>+\<close>, \<^verbatim>\<open>-\<close>, \<^verbatim>\<open>*\<close>). A theorem that a result
    is never a panic therefore covers the release profile too, where the same operation wraps.
  \<^item> \<^verbatim>\<open>u64\<close>, \<^verbatim>\<open>u32\<close>, \<^verbatim>\<open>usize\<close> and \<^verbatim>\<open>u128\<close> values are natural numbers, and every addition,
    subtraction and multiplication the code makes on them goes through one of the checked, saturating or
    panicking operations below, which write the width out. \<^verbatim>\<open>usize\<close> has 64 bits, so
    \<^verbatim>\<open>u64::try_from(usize)\<close> and \<^verbatim>\<open>usize::try_from(u64)\<close> are the identity. Bit-level code (hash
    mixing, sketches) uses machine words.
  \<^item> Decimal and \<^verbatim>\<open>{:?}\<close> formatting of the messages that errors carry.
\<close>

named_theorems result_simps
named_theorems result_elims

section \<open>Results and panics\<close>

datatype 'e failure = Err 'e | Panic string

type_synonym ('e, 'a) result = "'e failure + 'a"

abbreviation Ok :: "'a \<Rightarrow> ('e, 'a) result" where
  "Ok x \<equiv> Inr x"

abbreviation fail :: "'e \<Rightarrow> ('e, 'a) result" where
  "fail e \<equiv> Inl (Err e)"

abbreviation panic :: "string \<Rightarrow> ('e, 'a) result" where
  "panic s \<equiv> Inl (Panic s)"

text \<open>The \<^verbatim>\<open>?\<close> operator: continue with the value, or return the failure unchanged.\<close>

definition rbind :: "('e, 'a) result \<Rightarrow> ('a \<Rightarrow> ('e, 'b) result) \<Rightarrow> ('e, 'b) result" where
  "rbind m f = (case m of Inl e \<Rightarrow> Inl e | Inr x \<Rightarrow> f x)"

text \<open>A \<^verbatim>\<open>for\<close> loop whose body may return early with a failure.\<close>

fun rfold :: "('x \<Rightarrow> 's \<Rightarrow> ('e, 's) result) \<Rightarrow> 'x list \<Rightarrow> 's \<Rightarrow> ('e, 's) result" where
  "rfold f [] s = Ok s"
| "rfold f (x # xs) s = rbind (f x s) (rfold f xs)"

text \<open>\<^verbatim>\<open>Option::ok_or\<close>.\<close>

definition ok_or :: "'a option \<Rightarrow> 'e \<Rightarrow> ('e, 'a) result" where
  "ok_or m e = (case m of None \<Rightarrow> fail e | Some x \<Rightarrow> Ok x)"

definition or_panic :: "'a option \<Rightarrow> string \<Rightarrow> ('e, 'a) result" where
  "or_panic m s = (case m of None \<Rightarrow> panic s | Some x \<Rightarrow> Ok x)"

definition ensure :: "bool \<Rightarrow> 'e \<Rightarrow> ('e, unit) result" where
  "ensure b e = (if b then Ok () else fail e)"

text \<open>
  Iterator adapters whose closure may fail: collecting \<^verbatim>\<open>map\<close>, short-circuiting \<^verbatim>\<open>all\<close>, and the
  slice index \<^verbatim>\<open>xs[i]\<close>.
\<close>

fun rmap :: "('x \<Rightarrow> ('e, 'a) result) \<Rightarrow> 'x list \<Rightarrow> ('e, 'a list) result" where
  "rmap f [] = Ok []"
| "rmap f (x # xs) = rbind (f x) (\<lambda>y. rbind (rmap f xs) (\<lambda>ys. Ok (y # ys)))"

fun rall :: "('x \<Rightarrow> ('e, bool) result) \<Rightarrow> 'x list \<Rightarrow> ('e, bool) result" where
  "rall f [] = Ok True"
| "rall f (x # xs) = rbind (f x) (\<lambda>b. if b then rall f xs else Ok False)"

definition at_index :: "'a list \<Rightarrow> nat \<Rightarrow> ('e, 'a) result" where
  "at_index xs i = (if i < length xs then Ok (xs ! i) else panic ''index out of bounds'')"

text \<open>\<^verbatim>\<open>Iterator::min_by_key\<close>: the first of the smallest elements.\<close>

fun min_by_key :: "('a \<Rightarrow> 'k::linorder) \<Rightarrow> 'a list \<Rightarrow> 'a option" where
  "min_by_key f [] = None"
| "min_by_key f (x # xs) =
     (case min_by_key f xs of None \<Rightarrow> Some x | Some y \<Rightarrow> Some (if f x \<le> f y then x else y))"

text \<open>\<^verbatim>\<open>Iterator::max_by_key\<close>: the last of the greatest elements.\<close>

fun max_by_key :: "('a \<Rightarrow> 'k::linorder) \<Rightarrow> 'a list \<Rightarrow> 'a option" where
  "max_by_key f [] = None"
| "max_by_key f (x # xs) =
     (case max_by_key f xs of None \<Rightarrow> Some x | Some y \<Rightarrow> Some (if f y < f x then x else y))"

section \<open>Machine integers\<close>

type_synonym u8 = "8 word"
type_synonym u32 = nat
type_synonym u64 = nat
type_synonym usize = nat
type_synonym u128 = nat

definition u32_max :: nat where "u32_max = 2 ^ 32 - 1"
definition u64_max :: nat where "u64_max = 2 ^ 64 - 1"
definition u128_max :: nat where "u128_max = 2 ^ 128 - 1"

definition checked_add :: "u64 \<Rightarrow> u64 \<Rightarrow> u64 option" where
  "checked_add a b = (if a + b \<le> u64_max then Some (a + b) else None)"

definition checked_sub :: "u64 \<Rightarrow> u64 \<Rightarrow> u64 option" where
  "checked_sub a b = (if b \<le> a then Some (a - b) else None)"

definition checked_mul :: "u64 \<Rightarrow> u64 \<Rightarrow> u64 option" where
  "checked_mul a b = (if a * b \<le> u64_max then Some (a * b) else None)"

definition saturating_add :: "u64 \<Rightarrow> u64 \<Rightarrow> u64" where
  "saturating_add a b = min (a + b) u64_max"

definition saturating_sub :: "u64 \<Rightarrow> u64 \<Rightarrow> u64" where
  "saturating_sub a b = a - b"

definition checked_add_u128 :: "u128 \<Rightarrow> u128 \<Rightarrow> u128 option" where
  "checked_add_u128 a b = (if a + b \<le> u128_max then Some (a + b) else None)"

definition checked_mul_u128 :: "u128 \<Rightarrow> u128 \<Rightarrow> u128 option" where
  "checked_mul_u128 a b = (if a * b \<le> u128_max then Some (a * b) else None)"

text \<open>The plain operators, which abort on overflow in a checked build.\<close>

definition add_u64 :: "u64 \<Rightarrow> u64 \<Rightarrow> ('e, u64) result" where
  "add_u64 a b = or_panic (checked_add a b) ''attempt to add with overflow''"

definition sub_u64 :: "u64 \<Rightarrow> u64 \<Rightarrow> ('e, u64) result" where
  "sub_u64 a b = or_panic (checked_sub a b) ''attempt to subtract with overflow''"

definition mul_u128 :: "u128 \<Rightarrow> u128 \<Rightarrow> ('e, u128) result" where
  "mul_u128 a b = or_panic (checked_mul_u128 a b) ''attempt to multiply with overflow''"

section \<open>Bytes and text\<close>

fun le_bytes :: "nat \<Rightarrow> nat \<Rightarrow> u8 list" where
  "le_bytes 0 v = []"
| "le_bytes (Suc n) v = of_nat (v mod 256) # le_bytes n (v div 256)"

definition u64_to_le_bytes :: "u64 \<Rightarrow> u8 list" where
  "u64_to_le_bytes v = le_bytes 8 v"

definition u32_to_le_bytes :: "u32 \<Rightarrow> u8 list" where
  "u32_to_le_bytes v = le_bytes 4 v"

definition as_bytes :: "string \<Rightarrow> u8 list" where
  "as_bytes s = map of_char s"

definition digit_char :: "nat \<Rightarrow> char" where
  "digit_char d = char_of (48 + d)"

fun show_nat :: "nat \<Rightarrow> string" where
  "show_nat n = (if n < 10 then [digit_char n] else show_nat (n div 10) @ [digit_char (n mod 10)])"

declare show_nat.simps [simp del]

definition hex_char :: "nat \<Rightarrow> char" where
  "hex_char d = (if d < 10 then char_of (48 + d) else char_of (87 + d))"

fun show_hex :: "nat \<Rightarrow> string" where
  "show_hex n = (if n < 16 then [hex_char n] else show_hex (n div 16) @ [hex_char (n mod 16)])"

declare show_hex.simps [simp del]

text \<open>The \<^verbatim>\<open>{:?}\<close> form of an ASCII \<^verbatim>\<open>str\<close>.\<close>

definition debug_char :: "char \<Rightarrow> string" where
  "debug_char c = (let n = (of_char c :: nat) in
     if n = 34 then [char_of (92::nat), c]
     else if n = 92 then [c, c]
     else if n = 0 then [char_of (92::nat), CHR ''0'']
     else if n = 9 then [char_of (92::nat), CHR ''t'']
     else if n = 10 then [char_of (92::nat), CHR ''n'']
     else if n = 13 then [char_of (92::nat), CHR ''r'']
     else if n < 32 \<or> n = 127 then [char_of (92::nat), CHR ''u'', char_of (123::nat)] @ show_hex n @ [char_of (125::nat)]
     else [c])"

definition debug_str :: "string \<Rightarrow> string" where
  "debug_str s = [char_of (34::nat)] @ concat (map debug_char s) @ [char_of (34::nat)]"

section \<open>Lemmas on results\<close>

lemma rbind_simps [simp, result_simps]:
  "rbind (Inl e) f = Inl e"
  "rbind (Inr x) f = f x"
  by (simp_all add: rbind_def)

lemma rbind_Inr_iff: "rbind m f = Inr y \<longleftrightarrow> (\<exists>x. m = Inr x \<and> f x = Inr y)"
  by (cases m) auto

lemma rbind_Inl_iff: "rbind m f = Inl e \<longleftrightarrow> m = Inl e \<or> (\<exists>x. m = Inr x \<and> f x = Inl e)"
  by (cases m) auto

lemma rbind_InrE [elim!, result_elims]:
  assumes "rbind m f = Inr y"
  obtains x where "m = Inr x" "f x = Inr y"
  using assms by (auto simp: rbind_Inr_iff)

lemma rbind_InlE [result_elims]:
  assumes "rbind m f = Inl e"
  obtains "m = Inl e" | x where "m = Inr x" "f x = Inl e"
  using assms by (auto simp: rbind_Inl_iff)

lemma rbind_cong [fundef_cong]:
  "m = m' \<Longrightarrow> (\<And>x. m' = Inr x \<Longrightarrow> f x = g x) \<Longrightarrow> rbind m f = rbind m' g"
  by (cases m') auto

lemma rbind_assoc: "rbind (rbind m f) g = rbind m (\<lambda>x. rbind (f x) g)"
  by (cases m) auto

lemma ok_or_simps [simp, result_simps]:
  "ok_or None e = fail e"
  "ok_or (Some x) e = Ok x"
  by (simp_all add: ok_or_def)

lemma ok_or_Inr_iff [simp]: "ok_or m e = Inr x \<longleftrightarrow> m = Some x"
  by (cases m) auto

lemma ok_or_Inl_iff [simp]: "ok_or m e = Inl f \<longleftrightarrow> m = None \<and> f = Err e"
  by (cases m) auto

lemma or_panic_simps [simp, result_simps]:
  "or_panic None s = panic s"
  "or_panic (Some x) s = Ok x"
  by (simp_all add: or_panic_def)

lemma or_panic_Inr_iff [simp]: "or_panic m s = Inr x \<longleftrightarrow> m = Some x"
  by (cases m) auto

lemma or_panic_Inl_iff [simp]: "or_panic m s = Inl f \<longleftrightarrow> m = None \<and> f = Panic s"
  by (cases m) auto

lemma ensure_Inr_iff [simp]: "ensure b e = Inr u \<longleftrightarrow> b"
  by (auto simp: ensure_def)

lemma ensure_Inl_iff [simp]: "ensure b e = Inl f \<longleftrightarrow> \<not> b \<and> f = Err e"
  by (auto simp: ensure_def)

lemma ensure_True [simp]: "ensure True e = Ok ()"
  by (simp add: ensure_def)

lemma ensure_False [simp]: "ensure False e = fail e"
  by (simp add: ensure_def)

lemma rfold_append: "rfold f (xs @ ys) s = rbind (rfold f xs s) (rfold f ys)"
proof (induction xs arbitrary: s)
  case (Cons x xs)
  have "rfold f (xs @ ys) = (\<lambda>s. rbind (rfold f xs s) (rfold f ys))"
    using Cons.IH by (rule ext)
  then show ?case by (simp add: rbind_assoc)
qed simp

text \<open>An invariant of a loop body is an invariant of the loop.\<close>

lemma rfold_invariant:
  assumes "rfold f xs s = Inr t" and "P s"
    and "\<And>x s s'. x \<in> set xs \<Longrightarrow> P s \<Longrightarrow> f x s = Inr s' \<Longrightarrow> P s'"
  shows "P t"
  using assms
proof (induction xs arbitrary: s)
  case (Cons x xs)
  from Cons.prems(1) obtain s' where s': "f x s = Inr s'" "rfold f xs s' = Inr t"
    by auto
  moreover have "P s'"
    using Cons.prems(3) [of x s s'] Cons.prems(2) s'(1) by simp
  ultimately show ?case
    using Cons.IH [of s'] Cons.prems(3) by (meson list.set_intros(2))
qed simp

text \<open>
  A loop whose body, under an invariant, never fails in a way outside \<open>Q\<close>, never does either.
\<close>

lemma rfold_failure:
  assumes "rfold f xs s = Inl e" and "P s"
    and "\<And>x s s'. x \<in> set xs \<Longrightarrow> P s \<Longrightarrow> f x s = Inr s' \<Longrightarrow> P s'"
    and "\<And>x s e. x \<in> set xs \<Longrightarrow> P s \<Longrightarrow> f x s = Inl e \<Longrightarrow> Q e"
  shows "Q e"
  using assms
proof (induction xs arbitrary: s)
  case (Cons x xs)
  show ?case
  proof (cases "f x s")
    case (Inl e')
    with Cons.prems(1) have "f x s = Inl e" by simp
    then show ?thesis using Cons.prems(4) [of x s e] Cons.prems(2) by simp
  next
    case (Inr s')
    have "P s'" using Cons.prems(3) [of x s s'] Cons.prems(2) Inr by simp
    moreover have "rfold f xs s' = Inl e" using Cons.prems(1) Inr by simp
    ultimately show ?thesis
      using Cons.IH [of s'] Cons.prems(3,4) by (meson list.set_intros(2))
  qed
qed simp

text \<open>Loops whose every step succeeds under an invariant.\<close>

lemma rfold_succeeds:
  assumes "P s" and "\<And>x s. x \<in> set xs \<Longrightarrow> P s \<Longrightarrow> \<exists>s'. f x s = Inr s' \<and> P s'"
  shows "\<exists>t. rfold f xs s = Inr t \<and> P t"
  using assms
proof (induction xs arbitrary: s)
  case (Cons x xs)
  obtain s' where "f x s = Inr s'" "P s'"
    using Cons.prems(2) [of x s] Cons.prems(1) by auto
  with Cons.IH [of s'] Cons.prems(2) show ?case by simp
qed simp

lemma rfold_pure:
  assumes "\<And>x s. x \<in> set xs \<Longrightarrow> f x s = Ok (g x s)"
  shows "rfold f xs s = Ok (fold g xs s)"
  using assms by (induction xs arbitrary: s) auto

lemma rmap_pure: "(\<And>x. x \<in> set xs \<Longrightarrow> f x = Ok (g x)) \<Longrightarrow> rmap f xs = Ok (map g xs)"
  by (induction xs) auto

lemma rall_pure: "(\<And>x. x \<in> set xs \<Longrightarrow> f x = Ok (g x)) \<Longrightarrow> rall f xs = Ok (list_all g xs)"
  by (induction xs) auto

lemma at_index_ok [simp]: "i < length xs \<Longrightarrow> at_index xs i = Ok (xs ! i)"
  by (simp add: at_index_def)

lemma at_index_Inr_iff: "at_index xs i = Inr x \<longleftrightarrow> i < length xs \<and> x = xs ! i"
  by (auto simp: at_index_def)

section \<open>Weakest preconditions\<close>

text \<open>
  \<open>wp E m Q\<close>: the computation either returns a value in \<open>Q\<close> or fails in a way \<open>E\<close> allows. The equations
  below compute it through the combinators, so that an operation's specification is proved by unfolding
  the operation and simplifying; \<open>wp_conseq\<close> applies a specification proved before.
\<close>

definition wp :: "('e failure \<Rightarrow> bool) \<Rightarrow> ('e, 'a) result \<Rightarrow> ('a \<Rightarrow> bool) \<Rightarrow> bool" where
  "wp E m Q = (case m of Inl e \<Rightarrow> E e | Inr x \<Rightarrow> Q x)"

lemma wp_simps [simp]:
  "wp E (Inl e) Q = E e"
  "wp E (Inr x) Q = Q x"
  "wp E (rbind m f) Q = wp E m (\<lambda>x. wp E (f x) Q)"
  "wp E (ensure b err) Q' = (if b then Q' () else E (Err err))"
  by (auto simp: wp_def ensure_def rbind_def split: sum.splits)

lemma wp_ok_or: "wp E (ok_or m e) Q = (case m of None \<Rightarrow> E (Err e) | Some x \<Rightarrow> Q x)"
  by (cases m) auto

lemma wp_or_panic: "wp E (or_panic m s) Q = (case m of None \<Rightarrow> E (Panic s) | Some x \<Rightarrow> Q x)"
  by (cases m) auto

lemma wp_if [simp]: "wp E (if b then m else m') Q = (if b then wp E m Q else wp E m' Q)"
  by simp

lemma wp_conseq: "wp E m P \<Longrightarrow> (\<And>x. P x \<Longrightarrow> Q x) \<Longrightarrow> wp E m Q"
  by (auto simp: wp_def split: sum.splits)

lemma wp_value: "wp E m P \<Longrightarrow> (\<And>x. m = Inr x \<Longrightarrow> P x \<Longrightarrow> Q x) \<Longrightarrow> wp E m Q"
  by (auto simp: wp_def split: sum.splits)

lemma wp_mono: "wp E m P \<Longrightarrow> (\<And>e. E e \<Longrightarrow> E' e) \<Longrightarrow> (\<And>x. P x \<Longrightarrow> Q x) \<Longrightarrow> wp E' m Q"
  by (auto simp: wp_def split: sum.splits)

lemma wp_conj: "wp E m P \<Longrightarrow> wp E m Q \<Longrightarrow> wp E m (\<lambda>x. P x \<and> Q x)"
  by (auto simp: wp_def split: sum.splits)

lemma wp_Inr: "wp E m Q \<Longrightarrow> m = Inr x \<Longrightarrow> Q x"
  by simp

lemma wp_Inl: "wp E m Q \<Longrightarrow> m = Inl e \<Longrightarrow> E e"
  by simp

lemma wpI: "(\<And>x. m = Inr x \<Longrightarrow> Q x) \<Longrightarrow> (\<And>e. m = Inl e \<Longrightarrow> E e) \<Longrightarrow> wp E m Q"
  by (auto simp: wp_def split: sum.splits)

lemma wp_bindI: "wp E m P \<Longrightarrow> (\<And>x. P x \<Longrightarrow> wp E (f x) Q) \<Longrightarrow> wp E (rbind m f) Q"
  by (cases m) auto

text \<open>Code that reports every failure as an error value and never aborts.\<close>

definition graceful :: "'e failure \<Rightarrow> bool" where
  "graceful e \<longleftrightarrow> (\<exists>x. e = Err x)"

lemma graceful_simps [simp]: "graceful (Err x)" "\<not> graceful (Panic s)"
  by (simp_all add: graceful_def)

lemma wp_graceful_ok_or [simp]: "wp graceful (ok_or m e) Q \<longleftrightarrow> (\<forall>x. m = Some x \<longrightarrow> Q x)"
  by (cases m) auto

lemma wp_rfold:
  assumes "P [] s"
    and "\<And>ys x zs s. xs = ys @ x # zs \<Longrightarrow> P ys s \<Longrightarrow> wp E (f x s) (P (ys @ [x]))"
  shows "wp E (rfold f xs s) (P xs)"
proof -
  have "wp E (rfold f zs s) (P xs)" if "xs = ys @ zs" "P ys s" for ys zs s
    using that
  proof (induction zs arbitrary: ys s)
    case (Cons x zs)
    have "wp E (f x s) (P (ys @ [x]))" by (rule assms(2) [OF Cons.prems])
    then show ?case
      using Cons.IH [of "ys @ [x]"] Cons.prems(1) by (auto intro: wp_conseq)
  qed simp
  from this [of "[]" xs s] assms(1) show ?thesis by simp
qed

text \<open>A loop with an invariant that does not mention the position.\<close>

lemma wp_rfold_inv:
  assumes "P s" and "\<And>x s. x \<in> set xs \<Longrightarrow> P s \<Longrightarrow> wp E (f x s) P"
  shows "wp E (rfold f xs s) P"
  using assms by (intro wp_rfold [of "\<lambda>_. P"]) auto

section \<open>Lemmas on machine integers\<close>

lemma checked_add_Some_iff [simp]: "checked_add a b = Some c \<longleftrightarrow> c = a + b \<and> a + b \<le> u64_max"
  by (auto simp: checked_add_def)

lemma checked_add_None_iff [simp]: "checked_add a b = None \<longleftrightarrow> u64_max < a + b"
  by (auto simp: checked_add_def)

lemma checked_sub_Some_iff [simp]: "checked_sub a b = Some c \<longleftrightarrow> c = a - b \<and> b \<le> a"
  by (auto simp: checked_sub_def)

lemma checked_sub_None_iff [simp]: "checked_sub a b = None \<longleftrightarrow> a < b"
  by (auto simp: checked_sub_def)

lemma checked_mul_Some_iff [simp]: "checked_mul a b = Some c \<longleftrightarrow> c = a * b \<and> a * b \<le> u64_max"
  by (auto simp: checked_mul_def)

lemma checked_mul_None_iff [simp]: "checked_mul a b = None \<longleftrightarrow> u64_max < a * b"
  by (auto simp: checked_mul_def)

lemma checked_add_u128_Some_iff [simp]:
  "checked_add_u128 a b = Some c \<longleftrightarrow> c = a + b \<and> a + b \<le> u128_max"
  by (auto simp: checked_add_u128_def)

lemma checked_mul_u128_Some_iff [simp]:
  "checked_mul_u128 a b = Some c \<longleftrightarrow> c = a * b \<and> a * b \<le> u128_max"
  by (auto simp: checked_mul_u128_def)

lemma checked_mul_u128_None_iff [simp]: "checked_mul_u128 a b = None \<longleftrightarrow> u128_max < a * b"
  by (auto simp: checked_mul_u128_def)

lemma add_u64_Inr_iff [simp]: "add_u64 a b = Inr c \<longleftrightarrow> c = a + b \<and> a + b \<le> u64_max"
  by (auto simp: add_u64_def)

lemma sub_u64_Inr_iff [simp]: "sub_u64 a b = Inr c \<longleftrightarrow> c = a - b \<and> b \<le> a"
  by (auto simp: sub_u64_def)

lemma sub_u64_ok [simp]: "b \<le> a \<Longrightarrow> sub_u64 a b = Ok (a - b)"
  by (simp add: sub_u64_def checked_sub_def)

lemma add_u64_ok [simp]: "a + b \<le> u64_max \<Longrightarrow> add_u64 a b = Ok (a + b)"
  by (simp add: add_u64_def checked_add_def)

lemma mul_u128_Inr_iff [simp]: "mul_u128 a b = Inr c \<longleftrightarrow> c = a * b \<and> a * b \<le> u128_max"
  by (auto simp: mul_u128_def)

lemma mul_u128_ok:
  assumes "a \<le> u32_max" "b \<le> u64_max"
  shows "mul_u128 a b = Ok (a * b)"
proof -
  have "a * b \<le> u32_max * u64_max"
    using assms by (rule mult_le_mono)
  also have "\<dots> \<le> u128_max"
    by (simp add: u32_max_def u64_max_def u128_max_def)
  finally show ?thesis
    by (simp add: mul_u128_def checked_mul_u128_def)
qed

section \<open>Lemmas on lists\<close>

lemma min_by_key_None_iff [simp]: "min_by_key f xs = None \<longleftrightarrow> xs = []"
  by (cases xs) (auto split: option.splits)

lemma min_by_key_Some:
  "min_by_key f xs = Some x \<Longrightarrow> x \<in> set xs \<and> (\<forall>y\<in>set xs. f x \<le> f y)"
proof (induction xs arbitrary: x)
  case (Cons a xs)
  show ?case
  proof (cases "min_by_key f xs")
    case None
    with Cons.prems show ?thesis by simp
  next
    case (Some y)
    with Cons.IH [OF Some] Cons.prems show ?thesis by (auto split: if_splits)
  qed
qed simp

lemma max_by_key_None_iff [simp]: "max_by_key f xs = None \<longleftrightarrow> xs = []"
  by (cases xs) (auto split: option.splits)

lemma max_by_key_Some:
  "max_by_key f xs = Some x \<Longrightarrow> x \<in> set xs \<and> (\<forall>y\<in>set xs. f y \<le> f x)"
proof (induction xs arbitrary: x)
  case (Cons a xs)
  show ?case
  proof (cases "max_by_key f xs")
    case None
    with Cons.prems show ?thesis by simp
  next
    case (Some y)
    with Cons.IH [OF Some] Cons.prems show ?thesis by (auto split: if_splits)
  qed
qed simp

lemma sum_list_filter_le:
  fixes f :: "'a \<Rightarrow> nat"
  shows "sum_list (map f (filter P xs)) \<le> sum_list (map f xs)"
  by (induction xs) auto

lemma sum_list_partition:
  fixes f :: "'a \<Rightarrow> nat"
  shows "sum_list (map f (filter P xs)) + sum_list (map f (filter (\<lambda>x. \<not> P x) xs)) = sum_list (map f xs)"
  by (induction xs) auto

lemma sum_list_mono_mset:
  fixes f :: "'a \<Rightarrow> nat"
  assumes "distinct xs" "set xs \<subseteq> set ys"
  shows "sum_list (map f xs) \<le> sum_list (map f ys)"
proof -
  have "sum_list (map f xs) = sum f (set xs)"
    using assms(1) by (simp add: sum_list_distinct_conv_sum_set)
  also have "\<dots> \<le> sum f (set ys)"
    using assms(2) by (simp add: sum_mono2)
  also have "\<dots> \<le> sum_list (map f (remdups ys))"
    by (simp add: sum_list_distinct_conv_sum_set)
  also have "\<dots> \<le> sum_list (map f ys)"
    by (induction ys) (auto intro: trans_le_add2)
  finally show ?thesis .
qed

lemma member_le_sum_list_nat:
  fixes f :: "'a \<Rightarrow> nat"
  shows "x \<in> set xs \<Longrightarrow> f x \<le> sum_list (map f xs)"
  by (induction xs) auto

lemma length_le_bytes [simp]: "length (le_bytes n v) = n"
  by (induction n arbitrary: v) auto

lemma length_u64_to_le_bytes [simp]: "length (u64_to_le_bytes v) = 8"
  by (simp add: u64_to_le_bytes_def)

end
