(* ===== verification/Ordered_Map.thy ===== *)
theory Ordered_Map
  imports Prelude
begin

text \<open>
  Rust's \<^verbatim>\<open>BTreeMap\<close> and \<^verbatim>\<open>BTreeSet\<close> as the components use them: lookup, insertion, removal and
  iteration in ascending key order. The locale \<open>ordered_map\<close> states the contract and proves, once, the
  laws of a quantity summed over the entries (the byte and entry ledgers of the simulator and of the page
  cache are such sums). The map itself is an association list with strictly ascending keys, which makes
  iteration order executable; it is interpreted as an \<open>ordered_map\<close> at the end.
\<close>

section \<open>The map\<close>

type_synonym ('k, 'v) btree_map = "('k \<times> 'v) list"

definition bt_wf :: "('k::linorder, 'v) btree_map \<Rightarrow> bool" where
  "bt_wf m \<longleftrightarrow> sorted_wrt (<) (map fst m)"

definition bt_get :: "('k, 'v) btree_map \<Rightarrow> 'k \<Rightarrow> 'v option" where
  "bt_get m = map_of m"

fun bt_insert :: "'k::linorder \<Rightarrow> 'v \<Rightarrow> ('k, 'v) btree_map \<Rightarrow> ('k, 'v) btree_map" where
  "bt_insert k v [] = [(k, v)]"
| "bt_insert k v ((k', v') # m) =
     (if k < k' then (k, v) # (k', v') # m
      else if k = k' then (k, v) # m
      else (k', v') # bt_insert k v m)"

definition bt_remove :: "'k \<Rightarrow> ('k, 'v) btree_map \<Rightarrow> ('k, 'v) btree_map" where
  "bt_remove k m = filter (\<lambda>e. fst e \<noteq> k) m"

definition bt_entries :: "('k, 'v) btree_map \<Rightarrow> ('k \<times> 'v) list" where
  "bt_entries m = m"

definition bt_keys :: "('k, 'v) btree_map \<Rightarrow> 'k list" where
  "bt_keys m = map fst m"

definition bt_values :: "('k, 'v) btree_map \<Rightarrow> 'v list" where
  "bt_values m = map snd m"

text \<open>A quantity summed over the entries of a map.\<close>

definition btotal :: "('k \<Rightarrow> 'v \<Rightarrow> nat) \<Rightarrow> ('k \<times> 'v) list \<Rightarrow> nat" where
  "btotal f es = sum_list (map (\<lambda>(k, v). f k v) es)"

section \<open>The contract\<close>

locale ordered_map =
  fixes invar :: "'m \<Rightarrow> bool"
    and lookup :: "'m \<Rightarrow> 'k::linorder \<Rightarrow> 'v option"
    and insert :: "'k \<Rightarrow> 'v \<Rightarrow> 'm \<Rightarrow> 'm"
    and remove :: "'k \<Rightarrow> 'm \<Rightarrow> 'm"
    and entries :: "'m \<Rightarrow> ('k \<times> 'v) list"
    and empty :: 'm
  assumes entries_sorted: "invar m \<Longrightarrow> sorted_wrt (<) (map fst (entries m))"
    and entries_lookup: "invar m \<Longrightarrow> map_of (entries m) = lookup m"
    and lookup_insert: "invar m \<Longrightarrow> lookup (insert k v m) = (lookup m)(k \<mapsto> v)"
    and lookup_remove: "invar m \<Longrightarrow> lookup (remove k m) = (lookup m)(k := None)"
    and lookup_empty: "lookup empty = Map.empty"
    and invar_insert: "invar m \<Longrightarrow> invar (insert k v m)"
    and invar_remove: "invar m \<Longrightarrow> invar (remove k m)"
    and invar_empty: "invar empty"
begin

lemma distinct_keys: "invar m \<Longrightarrow> distinct (map fst (entries m))"
  using entries_sorted strict_sorted_iff by blast

lemma in_entries_iff: "invar m \<Longrightarrow> (k, v) \<in> set (entries m) \<longleftrightarrow> lookup m k = Some v"
  by (metis distinct_keys entries_lookup map_of_eq_Some_iff)

lemma dom_lookup: "invar m \<Longrightarrow> dom (lookup m) = fst ` set (entries m)"
  by (metis dom_map_of_conv_image_fst entries_lookup)

lemma finite_dom_lookup: "invar m \<Longrightarrow> finite (dom (lookup m))"
  by (simp add: dom_lookup)

lemma total_eq_sum:
  assumes "invar m"
  shows "btotal f (entries m) = (\<Sum>k\<in>dom (lookup m). f k (the (lookup m k)))"
proof -
  have d: "distinct (entries m)"
    using distinct_keys [OF assms] distinct_map by blast
  have inj: "inj_on fst (set (entries m))"
    using distinct_keys [OF assms] by (simp add: distinct_map)
  have "btotal f (entries m) = (\<Sum>(k, v)\<in>set (entries m). f k v)"
    using d by (simp add: btotal_def sum_list_distinct_conv_sum_set)
  also have "\<dots> = (\<Sum>e\<in>set (entries m). f (fst e) (the (lookup m (fst e))))"
    using in_entries_iff [OF assms] by (intro sum.cong) auto
  also have "\<dots> = (\<Sum>k\<in>fst ` set (entries m). f k (the (lookup m k)))"
    using sum.reindex [OF inj, of "\<lambda>k. f k (the (lookup m k))"] by simp
  finally show ?thesis by (simp add: dom_lookup [OF assms])
qed

lemma total_empty: "btotal f (entries empty) = 0"
  using total_eq_sum [OF invar_empty] lookup_empty by simp

lemma total_insert_new:
  assumes "invar m" "lookup m k = None"
  shows "btotal f (entries (insert k v m)) = btotal f (entries m) + f k v"
proof -
  have fin: "finite (dom (lookup m))" and k: "k \<notin> dom (lookup m)"
    using finite_dom_lookup assms by auto
  have "btotal f (entries (insert k v m))
      = (\<Sum>x\<in>Set.insert k (dom (lookup m)). f x (the (((lookup m)(k \<mapsto> v)) x)))"
    using assms by (simp add: total_eq_sum invar_insert lookup_insert)
  also have "\<dots> = f k v + (\<Sum>x\<in>dom (lookup m). f x (the (((lookup m)(k \<mapsto> v)) x)))"
    using fin k by simp
  also have "(\<Sum>x\<in>dom (lookup m). f x (the (((lookup m)(k \<mapsto> v)) x)))
      = (\<Sum>x\<in>dom (lookup m). f x (the (lookup m x)))"
    using k by (intro sum.cong) auto
  finally show ?thesis using assms by (simp add: total_eq_sum)
qed

lemma total_remove:
  assumes "invar m" "lookup m k = Some v"
  shows "btotal f (entries (remove k m)) + f k v = btotal f (entries m)"
proof -
  have fin: "finite (dom (lookup m))" and k: "k \<in> dom (lookup m)"
    using finite_dom_lookup assms by auto
  have "btotal f (entries (remove k m))
      = (\<Sum>x\<in>dom (lookup m) - {k}. f x (the (((lookup m)(k := None)) x)))"
    using assms by (simp add: total_eq_sum invar_remove lookup_remove)
  also have "\<dots> = (\<Sum>x\<in>dom (lookup m) - {k}. f x (the (lookup m x)))"
    by (intro sum.cong) auto
  finally have "btotal f (entries (remove k m)) + f k v = (\<Sum>x\<in>dom (lookup m). f x (the (lookup m x)))"
    using assms(2) sum.remove [OF fin k, of "\<lambda>x. f x (the (lookup m x))"] by simp
  then show ?thesis using assms by (simp add: total_eq_sum)
qed

lemma total_replace:
  assumes "invar m" "lookup m k = Some v"
  shows "btotal f (entries (insert k w m)) + f k v = btotal f (entries m) + f k w"
proof -
  have fin: "finite (dom (lookup m))" and k: "k \<in> dom (lookup m)"
    using finite_dom_lookup assms by auto
  have dom: "dom ((lookup m)(k \<mapsto> w)) = dom (lookup m)"
    using k by auto
  have "btotal f (entries (insert k w m)) = (\<Sum>x\<in>dom (lookup m). f x (the (((lookup m)(k \<mapsto> w)) x)))"
    using assms dom by (simp add: total_eq_sum invar_insert lookup_insert)
  also have "\<dots> = f k w + (\<Sum>x\<in>dom (lookup m) - {k}. f x (the (((lookup m)(k \<mapsto> w)) x)))"
    using sum.remove [OF fin k, of "\<lambda>x. f x (the (((lookup m)(k \<mapsto> w)) x))"] by simp
  also have "(\<Sum>x\<in>dom (lookup m) - {k}. f x (the (((lookup m)(k \<mapsto> w)) x)))
      = (\<Sum>x\<in>dom (lookup m) - {k}. f x (the (lookup m x)))"
    by (intro sum.cong) auto
  finally have "btotal f (entries (insert k w m)) + f k v
      = f k w + (\<Sum>x\<in>dom (lookup m). f x (the (lookup m x)))"
    using assms(2) sum.remove [OF fin k, of "\<lambda>x. f x (the (lookup m x))"] by simp
  then show ?thesis using assms by (simp add: total_eq_sum)
qed

lemma lookup_le_total:
  assumes "invar m" "lookup m k = Some v"
  shows "f k v \<le> btotal f (entries m)"
  using total_remove [OF assms, of f] by simp

lemma total_remove_eq:
  assumes "invar m" "lookup m k = Some v"
  shows "btotal f (entries (remove k m)) = btotal f (entries m) - f k v"
  using total_remove [OF assms, of f] by simp

end

section \<open>The association list keeps the contract\<close>

lemma set_keys_bt_insert [simp]: "fst ` set (bt_insert k v m) = insert k (fst ` set m)"
  by (induction k v m rule: bt_insert.induct) auto

lemma bt_wf_Nil [simp]: "bt_wf []"
  by (simp add: bt_wf_def)

lemma bt_wf_Cons: "bt_wf ((k, v) # m) \<longleftrightarrow> (\<forall>k'\<in>fst ` set m. k < k') \<and> bt_wf m"
  by (auto simp: bt_wf_def)

lemma bt_wf_insert: "bt_wf m \<Longrightarrow> bt_wf (bt_insert k v m)"
proof (induction k v m rule: bt_insert.induct)
  case (2 k v k' v' m)
  then show ?case by (cases "k < k'"; cases "k = k'") (auto simp: bt_wf_Cons)
qed (simp add: bt_wf_def)

lemma bt_get_insert: "bt_wf m \<Longrightarrow> bt_get (bt_insert k v m) = (bt_get m)(k \<mapsto> v)"
proof (induction k v m rule: bt_insert.induct)
  case (2 k v k' v' m)
  have "map_of m k = None" if "k < k'"
    using "2.prems" that by (force simp: bt_wf_Cons map_of_eq_None_iff)
  with 2 show ?case by (auto simp: bt_get_def bt_wf_Cons fun_eq_iff)
qed (simp add: bt_get_def fun_eq_iff)

lemma bt_wf_remove: "bt_wf m \<Longrightarrow> bt_wf (bt_remove k m)"
  by (induction m) (auto simp: bt_wf_Cons bt_remove_def)

lemma bt_get_remove: "bt_get (bt_remove k m) = (bt_get m)(k := None)"
  by (induction m) (auto simp: bt_get_def bt_remove_def fun_eq_iff)

interpretation bt: ordered_map bt_wf bt_get bt_insert bt_remove bt_entries "[]"
  by unfold_locales
    (simp_all add: bt_wf_insert bt_wf_remove bt_get_insert bt_get_remove bt_entries_def,
      simp_all add: bt_wf_def bt_get_def)

lemmas bt_laws [simp] = bt_get_insert bt_get_remove bt_wf_insert bt_wf_remove

lemma bt_entries_id [simp]: "bt_entries m = m"
  by (simp add: bt_entries_def)

lemma bt_get_Nil [simp]: "bt_get [] = Map.empty"
  by (simp add: bt_get_def)

lemmas bt_total_insert_new = bt.total_insert_new [unfolded bt_entries_id]
lemmas bt_total_remove = bt.total_remove [unfolded bt_entries_id]
lemmas bt_total_remove_eq = bt.total_remove_eq [unfolded bt_entries_id]
lemmas bt_total_replace = bt.total_replace [unfolded bt_entries_id]
lemmas bt_get_le_total = bt.lookup_le_total [unfolded bt_entries_id]
lemmas bt_in_iff = bt.in_entries_iff [unfolded bt_entries_id]

lemma bt_in_set: "bt_wf m \<Longrightarrow> e \<in> set m \<longleftrightarrow> bt_get m (fst e) = Some (snd e)"
  by (cases e) (simp add: bt_in_iff)

lemma in_set_bt_values: "bt_wf m \<Longrightarrow> v \<in> set (bt_values m) \<longleftrightarrow> (\<exists>k. bt_get m k = Some v)"
  by (force simp: bt_values_def bt_in_iff [symmetric])

lemma distinct_bt_keys: "bt_wf m \<Longrightarrow> distinct (bt_keys m)"
  using bt.distinct_keys [unfolded bt_entries_id] by (auto simp: bt_keys_def)

lemma set_bt_keys: "set (bt_keys m) = dom (bt_get m)"
  by (simp add: bt_keys_def bt_get_def dom_map_of_conv_image_fst)

lemma total_Nil [simp]: "btotal f [] = 0"
  by (simp add: btotal_def)

lemma total_Cons [simp]: "btotal f (e # m) = f (fst e) (snd e) + btotal f m"
  by (simp add: btotal_def split_beta)

lemma total_append [simp]: "btotal f (xs @ ys) = btotal f xs + btotal f ys"
  by (simp add: btotal_def)

lemma total_mono: "(\<And>k v. (k, v) \<in> set m \<Longrightarrow> f k v \<le> g k v) \<Longrightarrow> btotal f m \<le> btotal g m"
  by (induction m) (auto intro: add_mono)

lemma total_add: "btotal (\<lambda>k v. f k v + g k v) m = btotal f m + btotal g m"
  by (induction m) auto

lemma total_values: "sum_list (map f (bt_values m)) = btotal (\<lambda>k v. f v) m"
  by (induction m) (auto simp: bt_values_def)

lemma total_filter_values:
  "sum_list (map f (filter P (bt_values m))) = btotal (\<lambda>k v. if P v then f v else 0) m"
  by (induction m) (auto simp: bt_values_def)

lemma total_one: "btotal (\<lambda>_ _. Suc 0) m = length m"
  by (induction m) auto

lemma length_bt_insert_new: "bt_wf m \<Longrightarrow> bt_get m k = None \<Longrightarrow> length (bt_insert k v m) = Suc (length m)"
  using bt_total_insert_new [of m k "\<lambda>_ _. 1" v] by (simp add: total_one)

lemma length_bt_remove: "bt_wf m \<Longrightarrow> bt_get m k = Some v \<Longrightarrow> Suc (length (bt_remove k m)) = length m"
  using bt_total_remove [of m k v "\<lambda>_ _. 1"] by (simp add: total_one)

lemma length_bt_replace: "bt_wf m \<Longrightarrow> bt_get m k = Some v \<Longrightarrow> length (bt_insert k w m) = length m"
  using bt_total_replace [of m k v "\<lambda>_ _. 1" w] by (simp add: total_one)

text \<open>A sorted association list is determined by its lookups.\<close>

lemma bt_canonical:
  assumes "bt_wf m"
  shows "m = map (\<lambda>k. (k, the (bt_get m k))) (sorted_list_of_set (dom (bt_get m)))"
proof -
  have sorted: "sorted (map fst m)" and dist: "distinct (map fst m)"
    using assms by (simp_all add: bt_wf_def strict_sorted_iff)
  have "sorted_list_of_set (dom (bt_get m)) = map fst m"
    using sorted_list_of_set.idem_if_sorted_distinct [OF sorted dist] by (simp add: bt_get_def dom_map_of_conv_image_fst)
  moreover have "map (\<lambda>k. (k, the (bt_get m k))) (map fst m) = m"
  proof -
    have "bt_get m (fst e) = Some (snd e)" if "e \<in> set m" for e
      using that dist by (simp add: bt_get_def)
    then show ?thesis by (simp add: map_idI)
  qed
  ultimately show ?thesis by simp
qed

lemma bt_ext: "bt_wf m \<Longrightarrow> bt_wf m' \<Longrightarrow> bt_get m = bt_get m' \<Longrightarrow> m = m'"
  by (metis bt_canonical)

lemma bt_insert_remove: "bt_wf m \<Longrightarrow> bt_insert k v (bt_remove k m) = bt_insert k v m"
  by (rule bt_ext) auto

lemma bt_remove_insert: "bt_wf m \<Longrightarrow> bt_get m k = None \<Longrightarrow> bt_remove k (bt_insert k v m) = m"
  by (rule bt_ext) (auto simp: fun_eq_iff)

end
