(* ===== verification/Sim_Model.thy ===== *)
theory Sim_Model
  imports Ordered_Map
begin

text \<open>
  The closed data model of the cache-policy simulator (\<^verbatim>\<open>crates/runnel-sim/src/model.rs\<close>), its typed
  failures (\<^verbatim>\<open>error.rs\<close>) and its checked counters (\<^verbatim>\<open>metrics.rs\<close>). \<^verbatim>\<open>BTreeMap\<close> fields are
  \<open>btree_map\<close> values. A foreign error value (an I/O error, a JSON error) is kept as its text.
\<close>

section \<open>Failures\<close>

datatype sim_error =
    SimIo string
  | TraceInputSymlink
  | TraceInputNotRegular
  | TraceInputTooLarge u64 u64
  | TraceInputChanged u64 u64 u64
  | SimJson string
  | InvalidTrace string
  | InvalidConfig string
  | CounterOverflow string
  | UnsupportedOracleGeometry string
  | ExactOracleLimit string

section \<open>Pages, events and traces\<close>

definition TRACE_SCHEMA :: string where "TRACE_SCHEMA = ''runnel.cache-trace/1''"
definition PREFETCH_MODEL :: string where "PREFETCH_MODEL = ''instant-between-events-v1''"
definition RESULT_SCHEMA :: string where "RESULT_SCHEMA = ''runnel.cache-result/1''"

type_synonym page_id = u32

datatype page_class = Shared | Expert (pc_layer: u32) (pc_expert: u32) (pc_ordinal: u32)

record page_descriptor =
  pd_id :: page_id
  pd_logical_bytes :: u64
  pd_charge_bytes :: u64
  pd_class :: page_class

record expert_prediction =
  ep_expert :: u32
  ep_score_ppm :: u32

text \<open>
  \<open>RouterSignal sequence request target_step layer predictions\<close> and
  \<open>Demand sequence request step page\<close>.
\<close>

datatype trace_event =
    RouterSignal u64 u64 u64 u32 "expert_prediction list"
  | Demand u64 u64 u64 page_id

fun event_sequence :: "trace_event \<Rightarrow> u64" where
  "event_sequence (RouterSignal s _ _ _ _) = s"
| "event_sequence (Demand s _ _ _) = s"

record trace_header =
  th_kind :: string
  th_schema :: string
  th_trace_id :: string
  th_page_count :: usize
  th_event_count :: usize
  th_charge_quantum :: u64
  th_prefetch_model :: string

type_synonym page_index = "(page_id, usize) btree_map"
type_synonym expert_page_index = "(u32 \<times> u32, page_id list) btree_map"

record validated_trace =
  vt_header :: trace_header
  vt_pages :: "page_descriptor list"
  vt_page_index :: page_index
  vt_expert_pages :: expert_page_index
  vt_events :: "trace_event list"
  vt_sha256 :: string

text \<open>The projection the online policies see: no events.\<close>

record page_catalog =
  ct_pages :: "page_descriptor list"
  ct_page_index :: page_index
  ct_expert_pages :: expert_page_index

definition catalog :: "validated_trace \<Rightarrow> page_catalog" where
  "catalog t = \<lparr>ct_pages = vt_pages t, ct_page_index = vt_page_index t,
     ct_expert_pages = vt_expert_pages t\<rparr>"

definition catalog_page :: "page_catalog \<Rightarrow> page_id \<Rightarrow> (sim_error, page_descriptor) result" where
  "catalog_page c i =
     (case bt_get (ct_page_index c) i of
        None \<Rightarrow> panic ''no entry found for key''
      | Some n \<Rightarrow> if n < length (ct_pages c) then Ok (ct_pages c ! n) else panic ''index out of bounds'')"

definition catalog_expert_pages :: "page_catalog \<Rightarrow> u32 \<Rightarrow> u32 \<Rightarrow> page_id list" where
  "catalog_expert_pages c layer expert =
     (case bt_get (ct_expert_pages c) (layer, expert) of None \<Rightarrow> [] | Some ps \<Rightarrow> ps)"

definition trace_page :: "validated_trace \<Rightarrow> page_id \<Rightarrow> (sim_error, page_descriptor) result" where
  "trace_page t i = catalog_page (catalog t) i"

definition trace_expert_pages :: "validated_trace \<Rightarrow> u32 \<Rightarrow> u32 \<Rightarrow> page_id list" where
  "trace_expert_pages t layer expert = catalog_expert_pages (catalog t) layer expert"

section \<open>Limits and settings\<close>

record sim_limits =
  max_trace_bytes :: usize
  max_line_bytes :: usize
  max_pages :: usize
  max_events :: usize
  max_predictions_per_signal :: usize
  max_exact_oracle_states :: usize

definition default_limits :: sim_limits where
  "default_limits = \<lparr>max_trace_bytes = 5 * 1024 * 1024, max_line_bytes = 16 * 1024,
     max_pages = 4096, max_events = 100000, max_predictions_per_signal = 16,
     max_exact_oracle_states = 1000000\<rparr>"

record tiny_lfu_config =
  tc_sketch_depth :: usize
  tc_sketch_width :: usize
  tc_sample_accesses :: u64

definition tiny_lfu_m3 :: "u64 \<Rightarrow> (sim_error, tiny_lfu_config) result" where
  "tiny_lfu_m3 estimated_entries =
     rbind (ok_or (checked_mul (max estimated_entries 1) 10)
              (InvalidConfig ''TinyLFU M3 sample_accesses overflows u64''))
       (\<lambda>sample. Ok \<lparr>tc_sketch_depth = 4, tc_sketch_width = 2048, tc_sample_accesses = sample\<rparr>)"

record router_policy_config =
  rc_protected_fraction_ppm :: u32
  rc_minimum_score_ppm :: u32
  rc_max_experts_per_signal :: usize
  rc_max_pages_per_signal :: usize
  rc_max_prefetch_bytes_per_signal :: u64

datatype policy_spec =
    Spec_NoCache
  | Spec_Lru
  | Spec_Slru u32
  | Spec_TinyLfu tiny_lfu_config
  | Spec_RouterAdmit router_policy_config
  | Spec_RouterPrefetch router_policy_config
  | Spec_Belady

fun policy_name :: "policy_spec \<Rightarrow> string" where
  "policy_name Spec_NoCache = ''no-cache''"
| "policy_name Spec_Lru = ''lru''"
| "policy_name (Spec_Slru _) = ''slru''"
| "policy_name (Spec_TinyLfu _) = ''tiny-lfu''"
| "policy_name (Spec_RouterAdmit _) = ''router-admit''"
| "policy_name (Spec_RouterPrefetch _) = ''router-prefetch''"
| "policy_name Spec_Belady = ''belady''"

record simulation_config =
  sc_capacity_bytes :: u64
  sc_policy :: policy_spec

section \<open>Counters\<close>

record simulation_metrics =
  demand_accesses :: u64
  demand_logical_bytes :: u64
  ordinary_demand_hits :: u64
  ordinary_demand_hit_bytes :: u64
  useful_prefetch_hits :: u64
  useful_prefetch_hit_bytes :: u64
  demand_misses :: u64
  demand_miss_bytes :: u64
  demand_load_bytes :: u64
  prefetch_offered :: u64
  prefetch_offered_bytes :: u64
  prefetch_admitted :: u64
  prefetch_load_bytes :: u64
  prefetch_useful :: u64
  prefetch_useful_bytes :: u64
  prefetch_wasted :: u64
  prefetch_wasted_bytes :: u64
  prefetch_redundant :: u64
  prefetch_redundant_bytes :: u64
  prefetch_dropped :: u64
  prefetch_dropped_bytes :: u64
  admissions :: u64
  bypasses :: u64
  evictions :: u64
  evicted_charge_bytes :: u64
  final_resident_charge_bytes :: u64
  peak_resident_charge_bytes :: u64
  policy_metadata_bytes :: u64
  policy_metadata_limit_bytes :: u64
  total_physical_load_bytes :: u64

definition default_metrics :: simulation_metrics where
  "default_metrics = \<lparr>demand_accesses = 0, demand_logical_bytes = 0, ordinary_demand_hits = 0,
     ordinary_demand_hit_bytes = 0, useful_prefetch_hits = 0, useful_prefetch_hit_bytes = 0,
     demand_misses = 0, demand_miss_bytes = 0, demand_load_bytes = 0, prefetch_offered = 0,
     prefetch_offered_bytes = 0, prefetch_admitted = 0, prefetch_load_bytes = 0,
     prefetch_useful = 0, prefetch_useful_bytes = 0, prefetch_wasted = 0,
     prefetch_wasted_bytes = 0, prefetch_redundant = 0, prefetch_redundant_bytes = 0,
     prefetch_dropped = 0, prefetch_dropped_bytes = 0, admissions = 0, bypasses = 0,
     evictions = 0, evicted_charge_bytes = 0, final_resident_charge_bytes = 0,
     peak_resident_charge_bytes = 0, policy_metadata_bytes = 0,
     policy_metadata_limit_bytes = 0, total_physical_load_bytes = 0\<rparr>"

text \<open>
  \<^verbatim>\<open>SimulationMetrics::add(&mut metrics.field, value, name)\<close>: the field is given by its reader and its
  updater.
\<close>

definition metric_add ::
  "('m \<Rightarrow> u64) \<Rightarrow> ((u64 \<Rightarrow> u64) \<Rightarrow> 'm \<Rightarrow> 'm) \<Rightarrow> u64 \<Rightarrow> string \<Rightarrow> 'm \<Rightarrow> (sim_error, 'm) result" where
  "metric_add field update value name m =
     rbind (ok_or (checked_add (field m) value) (CounterOverflow name)) (\<lambda>v. Ok (update (\<lambda>_. v) m))"

definition finish :: "simulation_metrics \<Rightarrow> (sim_error, simulation_metrics) result" where
  "finish m =
    (let ovf = CounterOverflow; bad = InvalidConfig in
     rbind (ok_or (checked_add (demand_load_bytes m) (prefetch_load_bytes m))
              (ovf ''total_physical_load_bytes'')) (\<lambda>total.
     rbind (ok_or (Option.bind (checked_add (ordinary_demand_hits m) (useful_prefetch_hits m))
                     (\<lambda>v. checked_add v (demand_misses m)))
              (ovf ''demand_accesses identity'')) (\<lambda>hits.
     rbind (ensure (hits = demand_accesses m)
              (bad ''demand hit/miss accounting identity failed'')) (\<lambda>_.
     rbind (ok_or (Option.bind (checked_add (ordinary_demand_hit_bytes m) (useful_prefetch_hit_bytes m))
                     (\<lambda>v. checked_add v (demand_miss_bytes m)))
              (ovf ''demand_logical_bytes identity'')) (\<lambda>bytes.
     rbind (ensure (bytes = demand_logical_bytes m)
              (bad ''demand byte accounting identity failed'')) (\<lambda>_.
     rbind (ensure (demand_load_bytes m = demand_miss_bytes m)
              (bad ''every modeled demand miss must account one physical fill'')) (\<lambda>_.
     rbind (ok_or (Option.bind (checked_add (prefetch_admitted m) (prefetch_redundant m))
                     (\<lambda>v. checked_add v (prefetch_dropped m)))
              (ovf ''prefetch offer identity'')) (\<lambda>offers.
     rbind (ensure (offers = prefetch_offered m)
              (bad ''prefetch offer classification identity failed'')) (\<lambda>_.
     rbind (ok_or (Option.bind (checked_add (prefetch_load_bytes m) (prefetch_redundant_bytes m))
                     (\<lambda>v. checked_add v (prefetch_dropped_bytes m)))
              (ovf ''prefetch offer byte identity'')) (\<lambda>offer_bytes.
     rbind (ensure (offer_bytes = prefetch_offered_bytes m)
              (bad ''prefetch offer byte classification identity failed'')) (\<lambda>_.
     rbind (ok_or (checked_add (prefetch_useful m) (prefetch_wasted m))
              (ovf ''prefetch count identity'')) (\<lambda>prefetches.
     rbind (ensure (prefetches = prefetch_admitted m)
              (bad ''admitted prefetch classification identity failed'')) (\<lambda>_.
     rbind (ok_or (checked_add (prefetch_useful_bytes m) (prefetch_wasted_bytes m))
              (ovf ''prefetch byte identity'')) (\<lambda>prefetch_bytes.
     rbind (ensure (prefetch_bytes = prefetch_load_bytes m)
              (bad ''prefetch byte classification identity failed'')) (\<lambda>_.
     Ok (m\<lparr>total_physical_load_bytes := total\<rparr>))))))))))))))))"

record simulation_result =
  sr_schema :: string
  sr_trace_id :: string
  sr_trace_sha256 :: string
  sr_policy :: string
  sr_policy_spec :: policy_spec
  sr_capacity_bytes :: u64
  sr_oracle_optimal :: bool
  sr_metrics :: simulation_metrics
  sr_decision_sha256 :: string

section \<open>Lemmas\<close>

lemma metric_add_Inr_iff [simp]:
  "metric_add g u v n m = Inr m' \<longleftrightarrow> g m + v \<le> u64_max \<and> m' = u (\<lambda>_. g m + v) m"
  by (auto simp: metric_add_def rbind_Inr_iff)

lemma metric_add_Inl_iff [simp]:
  "metric_add g u v n m = Inl e \<longleftrightarrow> u64_max < g m + v \<and> e = Err (CounterOverflow n)"
  by (auto simp: metric_add_def rbind_Inl_iff)

end
