(* ===== verification/Sim_Trace.thy ===== *)
theory Sim_Trace
  imports Sim_Model
begin

text \<open>
  The canonical trace parser and serializer (\<^verbatim>\<open>crates/runnel-sim/src/trace.rs\<close>).

  \<^verbatim>\<open>serde_json\<close>, \<^verbatim>\<open>sha2\<close> and \<^verbatim>\<open>hex\<close> are third-party packages. A \<open>serde\<close> value carries the two
  JSON functions the code calls for one record type (each may fail with a message), and \<open>sha_hex\<close>
  stands for \<^verbatim>\<open>hex::encode(Sha256::digest(bytes))\<close>; both are arguments of the definitions that use
  them. \<^verbatim>\<open>BTreeSet\<close> values are \<open>btree_map\<close>s to \<open>unit\<close>.
\<close>

section \<open>Sets\<close>

type_synonym 'k btree_set = "('k, unit) btree_map"

definition bs_member :: "'k btree_set \<Rightarrow> 'k \<Rightarrow> bool" where
  "bs_member s k \<longleftrightarrow> bt_get s k \<noteq> None"

definition bs_insert :: "'k::linorder \<Rightarrow> 'k btree_set \<Rightarrow> 'k btree_set" where
  "bs_insert k s = bt_insert k () s"

section \<open>The JSON interface\<close>

record 'a serde =
  sd_from_slice :: "u8 list \<Rightarrow> string + 'a"
  sd_to_vec :: "'a \<Rightarrow> string + u8 list"

record trace_serde =
  ts_header :: "trace_header serde"
  ts_page :: "page_descriptor serde"
  ts_event :: "trace_event serde"

definition from_slice :: "'a serde \<Rightarrow> u8 list \<Rightarrow> (sim_error, 'a) result" where
  "from_slice sd line = (case sd_from_slice sd line of Inl m \<Rightarrow> fail (SimJson m) | Inr v \<Rightarrow> Ok v)"

definition to_vec :: "'a serde \<Rightarrow> 'a \<Rightarrow> (sim_error, u8 list) result" where
  "to_vec sd v = (case sd_to_vec sd v of Inl m \<Rightarrow> fail (SimJson m) | Inr b \<Rightarrow> Ok b)"

section \<open>Framing\<close>

definition LF :: u8 where "LF = 10"
definition CR :: u8 where "CR = 13"

definition ends_with_lf :: "u8 list \<Rightarrow> bool" where
  "ends_with_lf bytes \<longleftrightarrow> bytes \<noteq> [] \<and> last bytes = LF"

definition validate_framing :: "u8 list \<Rightarrow> sim_limits \<Rightarrow> (sim_error, unit) result" where
  "validate_framing bytes limits =
     rbind (ensure (length bytes \<le> max_trace_bytes limits)
        (InvalidTrace (''trace is '' @ show_nat (length bytes) @ '' bytes, limit is '' @
           show_nat (max_trace_bytes limits)))) (\<lambda>_.
     rbind (ensure (bytes \<noteq> [] \<and> ends_with_lf bytes)
        (InvalidTrace ''canonical trace must end with LF'')) (\<lambda>_.
     rbind (ensure (CR \<notin> set bytes)
        (InvalidTrace ''canonical trace must not contain CR bytes'')) (\<lambda>_.
     ensure (\<forall>b\<in>set bytes. b < 128)
        (InvalidTrace ''canonical trace must contain ASCII bytes only''))))"

text \<open>\<^verbatim>\<open>slice.split(|byte| *byte == LF)\<close>: the pieces between separators, at least one.\<close>

fun split_lf :: "u8 list \<Rightarrow> u8 list list" where
  "split_lf [] = [[]]"
| "split_lf (b # bs) =
     (if b = LF then [] # split_lf bs
      else case split_lf bs of [] \<Rightarrow> [[b]] | l # ls \<Rightarrow> (b # l) # ls)"

definition parse_canonical_record ::
  "'a serde \<Rightarrow> u8 list \<Rightarrow> usize \<Rightarrow> sim_limits \<Rightarrow> (sim_error, 'a) result" where
  "parse_canonical_record sd line line_number limits =
     (if line = [] then fail (InvalidTrace (''line '' @ show_nat line_number @ '' is empty''))
      else if length line > max_line_bytes limits then
        fail (InvalidTrace (''line '' @ show_nat line_number @ '' is '' @ show_nat (length line) @
          '' bytes, limit is '' @ show_nat (max_line_bytes limits)))
      else
        rbind (from_slice sd line) (\<lambda>value.
        rbind (to_vec sd value) (\<lambda>encoded.
        if encoded \<noteq> line then
          fail (InvalidTrace (''line '' @ show_nat line_number @ '' is not canonical compact JSON''))
        else Ok value)))"

section \<open>Header\<close>

definition HEADER_KIND :: string where "HEADER_KIND = ''header''"
definition MAX_TRACE_ID_BYTES :: nat where "MAX_TRACE_ID_BYTES = 64"
definition SCORE_SCALE_PPM :: nat where "SCORE_SCALE_PPM = 1000000"

definition is_ascii_lowercase :: "char \<Rightarrow> bool" where
  "is_ascii_lowercase c \<longleftrightarrow> 97 \<le> (of_char c :: nat) \<and> (of_char c :: nat) \<le> 122"

definition is_ascii_digit :: "char \<Rightarrow> bool" where
  "is_ascii_digit c \<longleftrightarrow> 48 \<le> (of_char c :: nat) \<and> (of_char c :: nat) \<le> 57"

definition validate_trace_id :: "string \<Rightarrow> (sim_error, unit) result" where
  "validate_trace_id trace_id =
     (let valid_first = (case trace_id of [] \<Rightarrow> False | c # _ \<Rightarrow> is_ascii_lowercase c \<or> is_ascii_digit c);
          valid_rest = list_all (\<lambda>c. is_ascii_lowercase c \<or> is_ascii_digit c \<or> c \<in> {CHR ''.'', CHR ''_'', CHR ''-''})
                         (drop 1 trace_id)
      in ensure (\<not> (length trace_id > MAX_TRACE_ID_BYTES \<or> \<not> valid_first \<or> \<not> valid_rest))
           (InvalidTrace (''trace_id must be 1-'' @ show_nat MAX_TRACE_ID_BYTES @
              '' bytes and match [a-z0-9][a-z0-9._-]*'')))"

definition validate_header :: "trace_header \<Rightarrow> sim_limits \<Rightarrow> (sim_error, unit) result" where
  "validate_header header limits =
     rbind (ensure (th_kind header = HEADER_KIND)
        (InvalidTrace (''header kind must be '' @ debug_str HEADER_KIND))) (\<lambda>_.
     rbind (ensure (th_schema header = TRACE_SCHEMA)
        (InvalidTrace (''unsupported trace schema '' @ debug_str (th_schema header)))) (\<lambda>_.
     rbind (ensure (th_prefetch_model header = PREFETCH_MODEL)
        (InvalidTrace (''unsupported prefetch model '' @ debug_str (th_prefetch_model header)))) (\<lambda>_.
     rbind (validate_trace_id (th_trace_id header)) (\<lambda>_.
     rbind (ensure (th_page_count header \<le> max_pages limits)
        (InvalidTrace (''header declares '' @ show_nat (th_page_count header) @ '' pages, limit is '' @
           show_nat (max_pages limits)))) (\<lambda>_.
     rbind (ensure (th_event_count header \<le> max_events limits)
        (InvalidTrace (''header declares '' @ show_nat (th_event_count header) @ '' events, limit is '' @
           show_nat (max_events limits)))) (\<lambda>_.
     ensure (th_charge_quantum header \<noteq> 0)
        (InvalidTrace ''charge_quantum must be greater than zero'')))))))"

section \<open>Catalog\<close>

record page_scan =
  ps_index :: page_index
  ps_tuples :: "(u32 \<times> u32 \<times> u32) btree_set"
  ps_ordinals :: "(u32 \<times> u32, (u32 \<times> page_id) list) btree_map"

definition validate_page ::
  "trace_header \<Rightarrow> usize \<times> page_descriptor \<Rightarrow> page_scan \<Rightarrow> (sim_error, page_scan) result" where
  "validate_page header ip st = (case ip of (index, page) \<Rightarrow>
     rbind (ensure (index \<le> u32_max) (InvalidTrace ''page index does not fit in u32'')) (\<lambda>_.
     rbind (ensure (pd_id page = index)
        (InvalidTrace (''catalog page '' @ show_nat index @ '' must have id '' @ show_nat index @
           '', found '' @ show_nat (pd_id page)))) (\<lambda>_.
     rbind (ensure (\<not> (pd_logical_bytes page = 0 \<or> pd_charge_bytes page = 0))
        (InvalidTrace (''page '' @ show_nat (pd_id page) @ '' byte sizes must be greater than zero''))) (\<lambda>_.
     rbind (ensure (pd_logical_bytes page \<le> pd_charge_bytes page)
        (InvalidTrace (''page '' @ show_nat (pd_id page) @ '' logical_bytes exceeds charge_bytes''))) (\<lambda>_.
     rbind (ensure (pd_charge_bytes page mod th_charge_quantum header = 0)
        (InvalidTrace (''page '' @ show_nat (pd_id page) @
           '' charge_bytes is not divisible by charge_quantum''))) (\<lambda>_.
     let st = st\<lparr>ps_index := bt_insert (pd_id page) index (ps_index st)\<rparr> in
     (case pd_class page of
        Shared \<Rightarrow> Ok st
      | Expert layer expert ordinal \<Rightarrow>
          if bs_member (ps_tuples st) (layer, expert, ordinal) then
            fail (InvalidTrace (''duplicate expert page tuple ('' @ show_nat layer @ '', '' @
              show_nat expert @ '', '' @ show_nat ordinal @ '')''))
          else Ok (st\<lparr>ps_tuples := bs_insert (layer, expert, ordinal) (ps_tuples st),
            ps_ordinals := bt_insert (layer, expert)
              ((case bt_get (ps_ordinals st) (layer, expert) of None \<Rightarrow> [] | Some es \<Rightarrow> es)
                 @ [(ordinal, pd_id page)]) (ps_ordinals st)\<rparr>))))))))"

definition validate_pages ::
  "trace_header \<Rightarrow> page_descriptor list \<Rightarrow> (sim_error, page_index \<times> expert_page_index) result" where
  "validate_pages header pages =
     rbind (rfold (validate_page header) (enumerate 0 pages)
              \<lparr>ps_index = [], ps_tuples = [], ps_ordinals = []\<rparr>) (\<lambda>st.
     Ok (ps_index st, map (\<lambda>(key, es). (key, map snd (sort_key (\<lambda>e. e) es))) (ps_ordinals st)))"

section \<open>Events\<close>

definition validate_prediction ::
  "usize \<Rightarrow> u32 \<Rightarrow> expert_page_index \<Rightarrow> expert_prediction \<Rightarrow> u32 btree_set \<times> u64
    \<Rightarrow> (sim_error, u32 btree_set \<times> u64) result" where
  "validate_prediction event_index layer expert_pages prediction st = (case st of (experts, score_sum) \<Rightarrow>
     rbind (ensure (ep_score_ppm prediction \<le> SCORE_SCALE_PPM)
        (InvalidTrace (''router event '' @ show_nat event_index @ '' score exceeds 1,000,000 ppm''))) (\<lambda>_.
     rbind (ok_or (checked_add score_sum (ep_score_ppm prediction))
        (InvalidTrace ''router score sum overflow'')) (\<lambda>score_sum.
     rbind (ensure (score_sum \<le> SCORE_SCALE_PPM)
        (InvalidTrace (''router event '' @ show_nat event_index @ '' scores sum above 1,000,000 ppm''))) (\<lambda>_.
     rbind (ensure (\<not> bs_member experts (ep_expert prediction))
        (InvalidTrace (''router event '' @ show_nat event_index @ '' repeats expert '' @
           show_nat (ep_expert prediction)))) (\<lambda>_.
     rbind (ensure (bt_get expert_pages (layer, ep_expert prediction) \<noteq> None)
        (InvalidTrace (''router event '' @ show_nat event_index @ '' references expert '' @
           show_nat (ep_expert prediction) @ '' absent from layer '' @ show_nat layer))) (\<lambda>_.
     Ok (bs_insert (ep_expert prediction) experts, score_sum)))))))"

definition validate_predictions ::
  "usize \<Rightarrow> u32 \<Rightarrow> expert_prediction list \<Rightarrow> expert_page_index \<Rightarrow> sim_limits \<Rightarrow> (sim_error, unit) result" where
  "validate_predictions event_index layer predictions expert_pages limits =
     rbind (ensure (length predictions \<le> max_predictions_per_signal limits)
        (InvalidTrace (''router event '' @ show_nat event_index @ '' contains '' @
           show_nat (length predictions) @ '' predictions, limit is '' @
           show_nat (max_predictions_per_signal limits)))) (\<lambda>_.
     rbind (rfold (validate_prediction event_index layer expert_pages) predictions ([], 0)) (\<lambda>_.
     Ok ()))"

record event_scan =
  es_latest :: "(u64, u64) btree_map"
  es_realized :: "(u64 \<times> u64) btree_set"
  es_targets :: "(u64 \<times> u64 \<times> u32) btree_set"

definition validate_event ::
  "page_index \<Rightarrow> expert_page_index \<Rightarrow> sim_limits \<Rightarrow> usize \<times> trace_event \<Rightarrow> event_scan
    \<Rightarrow> (sim_error, event_scan) result" where
  "validate_event index expert_pages limits ie st = (case ie of (i, event) \<Rightarrow>
     rbind (ensure (event_sequence event = i)
        (InvalidTrace (''event '' @ show_nat i @ '' must have sequence '' @ show_nat i @ '', found '' @
           show_nat (event_sequence event)))) (\<lambda>_.
     (case event of
        Demand _ request step page \<Rightarrow>
          rbind (ensure (bt_get index page \<noteq> None)
             (InvalidTrace (''demand event '' @ show_nat i @ '' references unknown page '' @ show_nat page))) (\<lambda>_.
          rbind (ensure (\<not> (case bt_get (es_latest st) request of None \<Rightarrow> False | Some latest \<Rightarrow> step < latest))
             (InvalidTrace (''request '' @ show_nat request @ '' demand step '' @ show_nat step @
                '' regresses from its latest realized step''))) (\<lambda>_.
          Ok (st\<lparr>es_latest := bt_insert request step (es_latest st),
                 es_realized := bs_insert (request, step) (es_realized st)\<rparr>)))
      | RouterSignal _ request target_step layer predictions \<Rightarrow>
          rbind (ensure (\<not> (case bt_get (es_latest st) request of None \<Rightarrow> False | Some latest \<Rightarrow> target_step \<le> latest))
             (InvalidTrace (''request '' @ show_nat request @ '' router target step '' @ show_nat target_step @
                '' is not later than its latest realized step''))) (\<lambda>_.
          rbind (ensure (\<not> bs_member (es_targets st) (request, target_step, layer))
             (InvalidTrace (''duplicate router signal target ('' @ show_nat request @ '', '' @
                show_nat target_step @ '', '' @ show_nat layer @ '')''))) (\<lambda>_.
          rbind (validate_predictions i layer predictions expert_pages limits) (\<lambda>_.
          Ok (st\<lparr>es_targets := bs_insert (request, target_step, layer) (es_targets st)\<rparr>)))))))"

definition validate_target ::
  "(u64 \<times> u64) btree_set \<Rightarrow> u64 \<times> u64 \<times> u32 \<Rightarrow> unit \<Rightarrow> (sim_error, unit) result" where
  "validate_target realized target u = (case target of (request, target_step, layer) \<Rightarrow>
     ensure (bs_member realized (request, target_step))
       (InvalidTrace (''router signal target ('' @ show_nat request @ '', '' @ show_nat target_step @
          '', '' @ show_nat layer @ '') has no later realized demand'')))"

definition validate_events ::
  "trace_event list \<Rightarrow> page_index \<Rightarrow> expert_page_index \<Rightarrow> sim_limits \<Rightarrow> (sim_error, unit) result" where
  "validate_events events index expert_pages limits =
     rbind (rfold (validate_event index expert_pages limits) (enumerate 0 events)
              \<lparr>es_latest = [], es_realized = [], es_targets = []\<rparr>) (\<lambda>st.
     rfold (validate_target (es_realized st)) (bt_keys (es_targets st)) ())"

section \<open>Parsing and serializing\<close>

text \<open>
  The two record loops of \<^verbatim>\<open>parse_trace\<close>: read \<open>n\<close> more records, numbering lines and records; \<open>missing\<close>
  is the message for a line that is not there.
\<close>

fun parse_records ::
  "'a serde \<Rightarrow> (usize \<Rightarrow> string) \<Rightarrow> sim_limits \<Rightarrow> nat \<Rightarrow> usize \<Rightarrow> usize \<Rightarrow> u8 list list
    \<Rightarrow> (sim_error, 'a list \<times> usize \<times> u8 list list) result" where
  "parse_records sd missing limits 0 index line_number lines = Ok ([], line_number, lines)"
| "parse_records sd missing limits (Suc n) index line_number lines =
     rbind (ok_or (checked_add line_number 1) (InvalidTrace ''trace line number overflow'')) (\<lambda>line_number.
     (case lines of
        [] \<Rightarrow> fail (InvalidTrace (missing index))
      | line # rest \<Rightarrow>
          rbind (parse_canonical_record sd line line_number limits) (\<lambda>value.
          rbind (parse_records sd missing limits n (Suc index) line_number rest) (\<lambda>(values, r).
          Ok (value # values, r)))))"

definition parse_trace ::
  "trace_serde \<Rightarrow> (u8 list \<Rightarrow> string) \<Rightarrow> u8 list \<Rightarrow> sim_limits \<Rightarrow> (sim_error, validated_trace) result" where
  "parse_trace ts sha_hex bytes limits =
     rbind (validate_framing bytes limits) (\<lambda>_.
     (case split_lf (take (length bytes - 1) bytes) of
        [] \<Rightarrow> fail (InvalidTrace ''trace is missing its header record'')
      | header_line # lines \<Rightarrow>
     rbind (parse_canonical_record (ts_header ts) header_line 1 limits) (\<lambda>header.
     rbind (validate_header header limits) (\<lambda>_.
     rbind (parse_records (ts_page ts)
              (\<lambda>i. ''catalog ended before declared page '' @ show_nat i) limits
              (th_page_count header) 0 1 lines) (\<lambda>(pages, line_number, lines).
     rbind (parse_records (ts_event ts)
              (\<lambda>i. ''event stream ended before declared event '' @ show_nat i) limits
              (th_event_count header) 0 line_number lines) (\<lambda>(events, line_number, lines).
     rbind (ensure (lines = [])
        (InvalidTrace ''trace contains records beyond its declared catalog and event counts'')) (\<lambda>_.
     rbind (validate_pages header pages) (\<lambda>(index, expert_pages).
     rbind (validate_events events index expert_pages limits) (\<lambda>_.
     Ok \<lparr>vt_header = header, vt_pages = pages, vt_page_index = index,
         vt_expert_pages = expert_pages, vt_events = events, vt_sha256 = sha_hex bytes\<rparr>)))))))))"

definition append_record ::
  "'a serde \<Rightarrow> sim_limits \<Rightarrow> 'a \<Rightarrow> u8 list \<Rightarrow> (sim_error, u8 list) result" where
  "append_record sd limits value out =
     rbind (to_vec sd value) (\<lambda>line.
     rbind (ensure (length line \<le> max_line_bytes limits)
        (InvalidTrace (''serialized record is '' @ show_nat (length line) @ '' bytes, line limit is '' @
           show_nat (max_line_bytes limits)))) (\<lambda>_.
     rbind (ok_or (Option.bind (checked_add (length out) (length line)) (\<lambda>n. checked_add n 1))
        (InvalidTrace ''serialized trace length overflow'')) (\<lambda>new_len.
     rbind (ensure (new_len \<le> max_trace_bytes limits)
        (InvalidTrace (''serialized trace exceeds '' @ show_nat (max_trace_bytes limits) @ '' byte limit''))) (\<lambda>_.
     Ok (out @ line @ [LF])))))"

definition check_prediction_count ::
  "sim_limits \<Rightarrow> trace_event \<Rightarrow> unit \<Rightarrow> (sim_error, unit) result" where
  "check_prediction_count limits event u = (case event of
      RouterSignal _ _ _ _ predictions \<Rightarrow>
        ensure (length predictions \<le> max_predictions_per_signal limits)
          (InvalidTrace (''router signal contains '' @ show_nat (length predictions) @
             '' predictions, limit is '' @ show_nat (max_predictions_per_signal limits)))
    | Demand _ _ _ _ \<Rightarrow> Ok ())"

definition serialize_trace ::
  "trace_serde \<Rightarrow> (u8 list \<Rightarrow> string) \<Rightarrow> trace_header \<Rightarrow> page_descriptor list \<Rightarrow> trace_event list
    \<Rightarrow> sim_limits \<Rightarrow> (sim_error, u8 list) result" where
  "serialize_trace ts sha_hex header pages events limits =
     rbind (validate_header header limits) (\<lambda>_.
     rbind (ensure (th_page_count header = length pages)
        (InvalidTrace (''header declares '' @ show_nat (th_page_count header) @
           '' pages but serializer received '' @ show_nat (length pages)))) (\<lambda>_.
     rbind (ensure (th_event_count header = length events)
        (InvalidTrace (''header declares '' @ show_nat (th_event_count header) @
           '' events but serializer received '' @ show_nat (length events)))) (\<lambda>_.
     rbind (rfold (check_prediction_count limits) events ()) (\<lambda>_.
     rbind (append_record (ts_header ts) limits header []) (\<lambda>out.
     rbind (rfold (append_record (ts_page ts) limits) pages out) (\<lambda>out.
     rbind (rfold (append_record (ts_event ts) limits) events out) (\<lambda>out.
     rbind (parse_trace ts sha_hex out limits) (\<lambda>parsed.
     rbind (ensure (vt_header parsed = header \<and> vt_pages parsed = pages \<and> vt_events parsed = events)
        (InvalidTrace ''canonical serialization failed its typed round trip'')) (\<lambda>_.
     Ok out)))))))))"

section \<open>Well-formed traces\<close>

definition is_expert_page :: "u32 \<Rightarrow> u32 \<Rightarrow> page_descriptor \<Rightarrow> bool" where
  "is_expert_page layer expert page = (case pd_class page of
     Shared \<Rightarrow> False | Expert l e _ \<Rightarrow> l = layer \<and> e = expert)"

text \<open>The (ordinal, page) pairs of one expert, in catalog order.\<close>

definition expert_list :: "page_descriptor list \<Rightarrow> u32 \<times> u32 \<Rightarrow> (u32 \<times> page_id) list" where
  "expert_list pages key = map (\<lambda>page. (pc_ordinal (pd_class page), pd_id page))
     (filter (is_expert_page (fst key) (snd key)) pages)"

definition wf_page :: "trace_header \<Rightarrow> usize \<Rightarrow> page_descriptor \<Rightarrow> bool" where
  "wf_page header i page \<longleftrightarrow> i \<le> u32_max \<and> pd_id page = i \<and> 0 < pd_logical_bytes page
     \<and> pd_logical_bytes page \<le> pd_charge_bytes page
     \<and> pd_charge_bytes page mod th_charge_quantum header = 0"

definition wf_catalog :: "trace_header \<Rightarrow> page_catalog \<Rightarrow> bool" where
  "wf_catalog header c \<longleftrightarrow>
     (\<forall>i<length (ct_pages c). wf_page header i (ct_pages c ! i))
     \<and> distinct (filter (\<lambda>cl. cl \<noteq> Shared) (map pd_class (ct_pages c)))
     \<and> bt_wf (ct_page_index c)
     \<and> (\<forall>i. bt_get (ct_page_index c) i = (if i < length (ct_pages c) then Some i else None))
     \<and> bt_wf (ct_expert_pages c)
     \<and> (\<forall>key. bt_get (ct_expert_pages c) key =
          (if expert_list (ct_pages c) key = [] then None
           else Some (map snd (sort (expert_list (ct_pages c) key)))))"

definition demand_steps :: "trace_event list \<Rightarrow> u64 \<Rightarrow> u64 list" where
  "demand_steps events request = List.map_filter (\<lambda>ev. case ev of
     Demand _ r step _ \<Rightarrow> if r = request then Some step else None
   | RouterSignal _ _ _ _ _ \<Rightarrow> None) events"

definition signal_targets :: "trace_event list \<Rightarrow> (u64 \<times> u64 \<times> u32) list" where
  "signal_targets events = List.map_filter (\<lambda>ev. case ev of
     RouterSignal _ r step layer _ \<Rightarrow> Some (r, step, layer) | Demand _ _ _ _ \<Rightarrow> None) events"

definition wf_predictions :: "page_catalog \<Rightarrow> sim_limits \<Rightarrow> u32 \<Rightarrow> expert_prediction list \<Rightarrow> bool" where
  "wf_predictions c limits layer predictions \<longleftrightarrow>
     length predictions \<le> max_predictions_per_signal limits
     \<and> distinct (map ep_expert predictions)
     \<and> sum_list (map ep_score_ppm predictions) \<le> SCORE_SCALE_PPM
     \<and> (\<forall>q\<in>set predictions. expert_list (ct_pages c) (layer, ep_expert q) \<noteq> [])"

fun wf_event :: "page_catalog \<Rightarrow> sim_limits \<Rightarrow> trace_event list \<Rightarrow> trace_event \<Rightarrow> bool" where
  "wf_event c limits before (Demand sequence request step page) \<longleftrightarrow>
     sequence = length before \<and> page < length (ct_pages c)
     \<and> (\<forall>s\<in>set (demand_steps before request). s \<le> step)"
| "wf_event c limits before (RouterSignal sequence request target layer predictions) \<longleftrightarrow>
     sequence = length before \<and> (\<forall>s\<in>set (demand_steps before request). s < target)
     \<and> (request, target, layer) \<notin> set (signal_targets before)
     \<and> wf_predictions c limits layer predictions"

definition wf_events :: "page_catalog \<Rightarrow> sim_limits \<Rightarrow> trace_event list \<Rightarrow> bool" where
  "wf_events c limits events \<longleftrightarrow>
     (\<forall>i<length events. wf_event c limits (take i events) (events ! i))
     \<and> (\<forall>(r, step, layer)\<in>set (signal_targets events). step \<in> set (demand_steps events r))"

definition wf_header :: "sim_limits \<Rightarrow> trace_header \<Rightarrow> bool" where
  "wf_header limits header \<longleftrightarrow> th_kind header = HEADER_KIND \<and> th_schema header = TRACE_SCHEMA
     \<and> th_prefetch_model header = PREFETCH_MODEL \<and> 0 < th_charge_quantum header
     \<and> th_page_count header \<le> max_pages limits \<and> th_event_count header \<le> max_events limits
     \<and> 0 < length (th_trace_id header) \<and> length (th_trace_id header) \<le> MAX_TRACE_ID_BYTES"

definition wf_trace :: "sim_limits \<Rightarrow> validated_trace \<Rightarrow> bool" where
  "wf_trace limits t \<longleftrightarrow> wf_header limits (vt_header t)
     \<and> length (vt_pages t) = th_page_count (vt_header t)
     \<and> length (vt_events t) = th_event_count (vt_header t)
     \<and> wf_catalog (vt_header t) (catalog t) \<and> wf_events (catalog t) limits (vt_events t)"

section \<open>The validator accepts well-formed traces only\<close>

lemma bs_member_Nil [simp]: "\<not> bs_member [] k"
  by (simp add: bs_member_def)

lemma bt_wf_bs_insert [simp]: "bt_wf s \<Longrightarrow> bt_wf (bs_insert k s)"
  by (simp add: bs_insert_def)

lemma bs_member_insert [simp]: "bt_wf s \<Longrightarrow> bs_member (bs_insert k s) x \<longleftrightarrow> x = k \<or> bs_member s x"
  by (simp add: bs_member_def bs_insert_def)

lemma bs_member_keys: "bs_member s k \<longleftrightarrow> k \<in> set (bt_keys s)"
  by (auto simp: bs_member_def set_bt_keys)

definition page_scan_ok :: "trace_header \<Rightarrow> page_descriptor list \<Rightarrow> page_scan \<Rightarrow> bool" where
  "page_scan_ok header pages st \<longleftrightarrow>
     (\<forall>i<length pages. wf_page header i (pages ! i))
     \<and> distinct (filter (\<lambda>cl. cl \<noteq> Shared) (map pd_class pages))
     \<and> bt_wf (ps_index st) \<and> (\<forall>i. bt_get (ps_index st) i = (if i < length pages then Some i else None))
     \<and> bt_wf (ps_tuples st) \<and> (\<forall>l e ord. bs_member (ps_tuples st) (l, e, ord) \<longleftrightarrow> Expert l e ord \<in> pd_class ` set pages)
     \<and> bt_wf (ps_ordinals st)
     \<and> (\<forall>key. bt_get (ps_ordinals st) key = (if expert_list pages key = [] then None else Some (expert_list pages key)))"

lemma expert_list_snoc:
  "expert_list (pages @ [page]) key = expert_list pages key @
     (if is_expert_page (fst key) (snd key) page then [(pc_ordinal (pd_class page), pd_id page)] else [])"
  by (simp add: expert_list_def)

lemma wf_pages_snoc:
  "(\<forall>i<length pages. wf_page header i (pages ! i)) \<Longrightarrow> wf_page header (length pages) page \<Longrightarrow>
   (\<forall>i<length (pages @ [page]). wf_page header i ((pages @ [page]) ! i))"
  by (auto simp: nth_append less_Suc_eq)

lemma validate_page_ok:
  assumes "validate_page header (length pages, page) st = Ok st'" "page_scan_ok header pages st"
  shows "page_scan_ok header (pages @ [page]) st'"
proof -
  let ?st = "st\<lparr>ps_index := bt_insert (pd_id page) (length pages) (ps_index st)\<rparr>"
  have wf: "wf_page header (length pages) page"
    using assms(1) by (auto simp: validate_page_def wf_page_def)
  show ?thesis
  proof (cases "pd_class page")
    case Shared
    with assms(1) have "st' = ?st" by (auto simp: validate_page_def Let_def)
    with Shared assms(2) wf show ?thesis
      unfolding page_scan_ok_def
      by (simp add: wf_pages_snoc expert_list_snoc is_expert_page_def wf_page_def [of _ "length pages"])
  next
    case (Expert l e ord)
    with assms(1) have fresh: "\<not> bs_member (ps_tuples st) (l, e, ord)"
      and st'_eq: "st' = ?st\<lparr>ps_tuples := bs_insert (l, e, ord) (ps_tuples st),
            ps_ordinals := bt_insert (l, e)
              ((case bt_get (ps_ordinals st) (l, e) of None \<Rightarrow> [] | Some es \<Rightarrow> es)
                 @ [(ord, pd_id page)]) (ps_ordinals st)\<rparr>"
      by (auto simp: validate_page_def Let_def split: if_splits)
    have "(case bt_get (ps_ordinals st) (l, e) of None \<Rightarrow> [] | Some es \<Rightarrow> es) = expert_list pages (l, e)"
      using assms(2) by (simp add: page_scan_ok_def)
    with st'_eq fresh Expert assms(2) wf show ?thesis
      unfolding page_scan_ok_def
      by (simp add: wf_pages_snoc expert_list_snoc is_expert_page_def wf_page_def [of _ "length pages"])
  qed
qed

lemma validate_pages_scan:
  "rfold (validate_page header) (enumerate 0 pages) \<lparr>ps_index = [], ps_tuples = [], ps_ordinals = []\<rparr> = Ok st
    \<Longrightarrow> page_scan_ok header pages st"
proof (induction pages arbitrary: st rule: rev_induct)
  case Nil
  then show ?case by (auto simp: page_scan_ok_def expert_list_def)
next
  case (snoc page pages)
  then obtain st0 where "page_scan_ok header pages st0" "validate_page header (length pages, page) st0 = Ok st"
    by (auto simp: enumerate_append_eq rfold_append)
  then show ?case by (rule validate_page_ok [rotated])
qed

lemma bt_get_map_values: "bt_get (map (\<lambda>(k, v). (k, f v)) m) k = map_option f (bt_get m k)"
  by (induction m) (auto simp: bt_get_def)

lemma bt_wf_map_values: "bt_wf m \<Longrightarrow> bt_wf (map (\<lambda>(k, v). (k, f v)) m)"
  by (simp add: bt_wf_def comp_def case_prod_beta)

lemma validate_pages_ok:
  assumes "validate_pages header pages = Ok (index, expert_pages)"
  shows "wf_catalog header \<lparr>ct_pages = pages, ct_page_index = index, ct_expert_pages = expert_pages\<rparr>"
proof -
  obtain st where "rfold (validate_page header) (enumerate 0 pages)
      \<lparr>ps_index = [], ps_tuples = [], ps_ordinals = []\<rparr> = Ok st"
    and r: "index = ps_index st"
      "expert_pages = map (\<lambda>(key, es). (key, map snd (sort es))) (ps_ordinals st)"
    using assms by (auto simp: validate_pages_def)
  then have "page_scan_ok header pages st" by (intro validate_pages_scan)
  then show ?thesis
    using r by (simp add: page_scan_ok_def wf_catalog_def bt_get_map_values bt_wf_map_values)
qed

lemma demand_steps_snoc:
  "demand_steps (events @ [ev]) r = demand_steps events r @
     (case ev of Demand _ r' step _ \<Rightarrow> if r' = r then [step] else [] | RouterSignal _ _ _ _ _ \<Rightarrow> [])"
  by (auto simp: demand_steps_def map_filter_def split: trace_event.splits)

lemma signal_targets_snoc:
  "signal_targets (events @ [ev]) = signal_targets events @
     (case ev of RouterSignal _ r step layer _ \<Rightarrow> [(r, step, layer)] | Demand _ _ _ _ \<Rightarrow> [])"
  by (auto simp: signal_targets_def map_filter_def split: trace_event.splits)

lemma validate_predictions_scan:
  assumes "rfold (validate_prediction i layer expert_pages) predictions ([], 0) = Ok (experts, score_sum)"
  shows "bt_wf experts \<and> (\<forall>x. bs_member experts x \<longleftrightarrow> x \<in> ep_expert ` set predictions)
    \<and> distinct (map ep_expert predictions) \<and> score_sum = sum_list (map ep_score_ppm predictions)
    \<and> score_sum \<le> SCORE_SCALE_PPM
    \<and> (\<forall>q\<in>set predictions. bt_get expert_pages (layer, ep_expert q) \<noteq> None)"
  using assms
proof (induction predictions arbitrary: experts score_sum rule: rev_induct)
  case (snoc q predictions)
  then obtain experts0 sum0 where
    "rfold (validate_prediction i layer expert_pages) predictions ([], 0) = Ok (experts0, sum0)"
    and step: "validate_prediction i layer expert_pages q (experts0, sum0) = Ok (experts, score_sum)"
    by (auto simp: rfold_append)
  from snoc.IH [OF this(1)] step show ?case
    by (auto simp: validate_prediction_def)
qed (auto simp: SCORE_SCALE_PPM_def)

lemma validate_predictions_ok:
  assumes "validate_predictions i layer predictions (ct_expert_pages c) limits = Ok ()" "wf_catalog header c"
  shows "wf_predictions c limits layer predictions"
proof -
  obtain experts score_sum where
    "rfold (validate_prediction i layer (ct_expert_pages c)) predictions ([], 0) = Ok (experts, score_sum)"
    "length predictions \<le> max_predictions_per_signal limits"
    using assms(1) by (auto simp: validate_predictions_def)
  with validate_predictions_scan [OF this(1)] assms(2) show ?thesis
    by (auto simp: wf_predictions_def wf_catalog_def)
qed

fun latest_step :: "u64 list \<Rightarrow> u64 option \<Rightarrow> bool" where
  "latest_step steps None \<longleftrightarrow> steps = []"
| "latest_step steps (Some latest) \<longleftrightarrow> latest \<in> set steps \<and> (\<forall>s\<in>set steps. s \<le> latest)"

definition event_scan_ok :: "page_catalog \<Rightarrow> sim_limits \<Rightarrow> trace_event list \<Rightarrow> event_scan \<Rightarrow> bool" where
  "event_scan_ok c limits events st \<longleftrightarrow>
     (\<forall>i<length events. wf_event c limits (take i events) (events ! i))
     \<and> bt_wf (es_latest st) \<and> bt_wf (es_realized st) \<and> bt_wf (es_targets st)
     \<and> (\<forall>r. latest_step (demand_steps events r) (bt_get (es_latest st) r))
     \<and> (\<forall>r s. bs_member (es_realized st) (r, s) \<longleftrightarrow> s \<in> set (demand_steps events r))
     \<and> (\<forall>x. bs_member (es_targets st) x \<longleftrightarrow> x \<in> set (signal_targets events))"

lemma wf_events_snoc:
  "(\<forall>i<length events. wf_event c limits (take i events) (events ! i)) \<Longrightarrow> wf_event c limits events ev \<Longrightarrow>
   (\<forall>i<length (events @ [ev]). wf_event c limits (take i (events @ [ev])) ((events @ [ev]) ! i))"
  by (auto simp: nth_append less_Suc_eq)

lemma validate_demand_ok:
  assumes "validate_event (ct_page_index c) (ct_expert_pages c) limits (length events, Demand sq r step page) st = Ok st'"
    and "event_scan_ok c limits events st" "wf_catalog header c"
  shows "event_scan_ok c limits (events @ [Demand sq r step page]) st'"
proof -
  have guards: "sq = length events" "page < length (ct_pages c)"
      "\<not> (case bt_get (es_latest st) r of None \<Rightarrow> False | Some latest \<Rightarrow> step < latest)"
    and st': "st' = st\<lparr>es_latest := bt_insert r step (es_latest st), es_realized := bs_insert (r, step) (es_realized st)\<rparr>"
    using assms(1,3) by (auto simp: validate_event_def wf_catalog_def split: if_splits)
  have le: "s \<le> step" if "s \<in> set (demand_steps events r)" for s
  proof (cases "bt_get (es_latest st) r")
    case None
    with assms(2) that show ?thesis
      by (metis event_scan_ok_def latest_step.simps(1) list.set(1) empty_iff)
  next
    case (Some latest)
    then have "s \<le> latest"
      using assms(2) that by (metis event_scan_ok_def latest_step.simps(2))
    with Some guards(3) show ?thesis by simp
  qed
  let ?es = "events @ [Demand sq r step page]"
  have "wf_event c limits events (Demand sq r step page)" using guards le by simp
  with assms(2) have wf: "\<forall>i<length ?es. wf_event c limits (take i ?es) (?es ! i)"
    by (intro wf_events_snoc) (simp_all add: event_scan_ok_def)
  show ?thesis
    unfolding event_scan_ok_def
  proof (intro conjI)
    show "\<forall>r. latest_step (demand_steps ?es r) (bt_get (es_latest st') r)"
      using assms(2) st' le by (auto simp: event_scan_ok_def demand_steps_snoc)
    show "\<forall>r s. bs_member (es_realized st') (r, s) \<longleftrightarrow> s \<in> set (demand_steps ?es r)"
      using assms(2) st' by (auto simp: event_scan_ok_def demand_steps_snoc)
  qed (use assms(2) st' wf in \<open>simp_all add: event_scan_ok_def signal_targets_snoc\<close>)
qed

lemma validate_signal_ok:
  assumes "validate_event (ct_page_index c) (ct_expert_pages c) limits (length events, RouterSignal sq r tgt layer ps) st = Ok st'"
    and "event_scan_ok c limits events st" "wf_catalog header c"
  shows "event_scan_ok c limits (events @ [RouterSignal sq r tgt layer ps]) st'"
proof -
  have guards: "sq = length events" "\<not> bs_member (es_targets st) (r, tgt, layer)"
      "\<not> (case bt_get (es_latest st) r of None \<Rightarrow> False | Some latest \<Rightarrow> tgt \<le> latest)"
    and preds: "validate_predictions (length events) layer ps (ct_expert_pages c) limits = Ok ()"
    and st': "st' = st\<lparr>es_targets := bs_insert (r, tgt, layer) (es_targets st)\<rparr>"
    using assms(1) by (auto simp: validate_event_def)
  have "s < tgt" if "s \<in> set (demand_steps events r)" for s
  proof (cases "bt_get (es_latest st) r")
    case None
    with assms(2) that show ?thesis
      by (metis event_scan_ok_def latest_step.simps(1) list.set(1) empty_iff)
  next
    case (Some latest)
    then have "s \<le> latest"
      using assms(2) that by (metis event_scan_ok_def latest_step.simps(2))
    with Some guards(3) show ?thesis by simp
  qed
  moreover have "(r, tgt, layer) \<notin> set (signal_targets events)"
    using guards(2) assms(2) by (simp add: event_scan_ok_def)
  ultimately have "wf_event c limits events (RouterSignal sq r tgt layer ps)"
    using guards validate_predictions_ok [OF preds assms(3)] by simp
  with assms(2) have wf: "\<forall>i<length (events @ [RouterSignal sq r tgt layer ps]).
      wf_event c limits (take i (events @ [RouterSignal sq r tgt layer ps])) ((events @ [RouterSignal sq r tgt layer ps]) ! i)"
    by (intro wf_events_snoc) (simp_all add: event_scan_ok_def)
  show ?thesis
    unfolding event_scan_ok_def
  proof (intro conjI)
    show "\<forall>x. bs_member (es_targets st') x \<longleftrightarrow> x \<in> set (signal_targets (events @ [RouterSignal sq r tgt layer ps]))"
      using assms(2) st' by (auto simp: event_scan_ok_def signal_targets_snoc)
  qed (use assms(2) st' wf in \<open>simp_all add: event_scan_ok_def demand_steps_snoc\<close>)
qed

lemma validate_events_scan:
  assumes "wf_catalog header c"
  shows "rfold (validate_event (ct_page_index c) (ct_expert_pages c) limits) (enumerate 0 events)
     \<lparr>es_latest = [], es_realized = [], es_targets = []\<rparr> = Ok st \<Longrightarrow> event_scan_ok c limits events st"
proof (induction events arbitrary: st rule: rev_induct)
  case Nil
  then show ?case by (auto simp: event_scan_ok_def demand_steps_def signal_targets_def map_filter_def)
next
  case (snoc ev events)
  then obtain st0 where st0: "event_scan_ok c limits events st0"
    "validate_event (ct_page_index c) (ct_expert_pages c) limits (length events, ev) st0 = Ok st"
    by (auto simp: enumerate_append_eq rfold_append)
  show ?case
  proof (cases ev)
    case RouterSignal
    with st0 show ?thesis by (auto intro: validate_signal_ok [OF _ _ assms])
  next
    case Demand
    with st0 show ?thesis by (auto intro: validate_demand_ok [OF _ _ assms])
  qed
qed

lemma validate_targets_ok:
  "rfold (validate_target realized) targets () = Ok () \<longleftrightarrow> (\<forall>(r, s, l)\<in>set targets. bs_member realized (r, s))"
  by (induction targets) (auto simp: validate_target_def rbind_Inr_iff)

lemma validate_events_ok:
  assumes "validate_events events (ct_page_index c) (ct_expert_pages c) limits = Ok ()" "wf_catalog header c"
  shows "wf_events c limits events"
proof -
  obtain st where "rfold (validate_event (ct_page_index c) (ct_expert_pages c) limits) (enumerate 0 events)
      \<lparr>es_latest = [], es_realized = [], es_targets = []\<rparr> = Ok st"
    and "rfold (validate_target (es_realized st)) (bt_keys (es_targets st)) () = Ok ()"
    using assms(1) by (auto simp: validate_events_def)
  with validate_events_scan [OF assms(2) this(1)] show ?thesis
    by (fastforce simp: wf_events_def event_scan_ok_def validate_targets_ok bs_member_keys)
qed

lemma validate_header_ok: "validate_header header limits = Ok () \<Longrightarrow> wf_header limits header"
  by (auto simp: validate_header_def validate_trace_id_def wf_header_def Let_def split: list.splits)

section \<open>Canonical bytes\<close>

definition encodes :: "'a serde \<Rightarrow> sim_limits \<Rightarrow> 'a \<Rightarrow> u8 list \<Rightarrow> bool" where
  "encodes sd limits value line \<longleftrightarrow> sd_to_vec sd value = Inr line \<and> length line \<le> max_line_bytes limits"

definition unlines :: "u8 list list \<Rightarrow> u8 list" where
  "unlines ls = concat (map (\<lambda>l. l @ [LF]) ls)"

lemma unlines_simps [simp]:
  "unlines [] = []" "unlines (l # ls) = l @ LF # unlines ls" "unlines (ls @ ls') = unlines ls @ unlines ls'"
  by (simp_all add: unlines_def)

lemma unlines_split_lf: "unlines (split_lf bs) = bs @ [LF]"
  by (induction bs) (auto split: list.splits)

lemma parse_canonical_record_ok:
  "parse_canonical_record sd line n limits = Ok v \<Longrightarrow> encodes sd limits v line"
  by (auto simp: parse_canonical_record_def encodes_def from_slice_def to_vec_def
      split: if_splits sum.splits)

lemma parse_records_ok:
  "parse_records sd missing limits n i ln lines = Ok (vals, ln', rest) \<Longrightarrow>
   length vals = n \<and> (\<exists>encs. lines = encs @ rest \<and> list_all2 (encodes sd limits) vals encs)"
proof (induction n arbitrary: i ln lines vals)
  case (Suc n)
  from Suc.prems obtain line ls v vs where
    v: "lines = line # ls" "parse_canonical_record sd line (ln + 1) limits = Ok v" "vals = v # vs"
    "parse_records sd missing limits n (Suc i) (ln + 1) ls = Ok (vs, ln', rest)"
    by (auto split: list.splits)
  from Suc.IH [OF v(4)]
  obtain encs where "length vs = n" "ls = encs @ rest" "list_all2 (encodes sd limits) vs encs"
    by auto
  then show ?case
    using v parse_canonical_record_ok [OF v(2)] by (intro conjI exI [of _ "line # encs"]) auto
qed simp

lemma parse_trace_ok:
  assumes "parse_trace ts sha_hex bytes limits = Ok t"
  shows "wf_trace limits t" "vt_sha256 t = sha_hex bytes"
    and "validate_framing bytes limits = Ok ()" "validate_header (vt_header t) limits = Ok ()"
    and "\<exists>h ps es. bytes = unlines (h # ps @ es) \<and> encodes (ts_header ts) limits (vt_header t) h
      \<and> list_all2 (encodes (ts_page ts) limits) (vt_pages t) ps
      \<and> list_all2 (encodes (ts_event ts) limits) (vt_events t) es"
proof -
  from assms obtain hl ls header pages ln1 ls1 events ln2 index experts where
    frame: "validate_framing bytes limits = Ok ()" and
    split: "split_lf (take (length bytes - 1) bytes) = hl # ls" and
    head: "parse_canonical_record (ts_header ts) hl 1 limits = Ok header" "validate_header header limits = Ok ()" and
    pages: "parse_records (ts_page ts) (\<lambda>i. ''catalog ended before declared page '' @ show_nat i) limits
      (th_page_count header) 0 1 ls = Ok (pages, ln1, ls1)" and
    events: "parse_records (ts_event ts) (\<lambda>i. ''event stream ended before declared event '' @ show_nat i) limits
      (th_event_count header) 0 ln1 ls1 = Ok (events, ln2, [])" and
    valid: "validate_pages header pages = Ok (index, experts)" "validate_events events index experts limits = Ok ()" and
    t: "t = \<lparr>vt_header = header, vt_pages = pages, vt_page_index = index,
         vt_expert_pages = experts, vt_events = events, vt_sha256 = sha_hex bytes\<rparr>"
    by (auto simp: parse_trace_def split: list.splits)
  let ?c = "\<lparr>ct_pages = pages, ct_page_index = index, ct_expert_pages = experts\<rparr>"
  have cat: "wf_catalog header ?c" by (rule validate_pages_ok [OF valid(1)])
  have ev: "wf_events ?c limits events"
    using valid(2) by (intro validate_events_ok [OF _ cat]) simp
  show "wf_trace limits t"
    using t cat ev validate_header_ok [OF head(2)] parse_records_ok [OF pages] parse_records_ok [OF events]
    by (auto simp: wf_trace_def catalog_def)
  show "vt_sha256 t = sha_hex bytes" "validate_framing bytes limits = Ok ()"
    "validate_header (vt_header t) limits = Ok ()"
    using t frame head(2) by simp_all
  obtain ps where ps: "ls = ps @ ls1" "list_all2 (encodes (ts_page ts) limits) pages ps"
    using parse_records_ok [OF pages] by auto
  have es: "list_all2 (encodes (ts_event ts) limits) events ls1"
    using parse_records_ok [OF events] by auto
  have "bytes \<noteq> []" "last bytes = LF"
    using frame by (auto simp: validate_framing_def ends_with_lf_def)
  then have "bytes = take (length bytes - 1) bytes @ [LF]"
    by (metis append_butlast_last_id butlast_conv_take)
  then have "bytes = unlines (hl # ps @ ls1)"
    using unlines_split_lf [of "take (length bytes - 1) bytes"] split ps(1) by simp
  with ps es parse_canonical_record_ok [OF head(1)] t
  show "\<exists>h ps es. bytes = unlines (h # ps @ es) \<and> encodes (ts_header ts) limits (vt_header t) h
      \<and> list_all2 (encodes (ts_page ts) limits) (vt_pages t) ps
      \<and> list_all2 (encodes (ts_event ts) limits) (vt_events t) es"
    by auto
qed

lemma list_all2_encodes_unique:
  "list_all2 (encodes sd limits) vs ls \<Longrightarrow> list_all2 (encodes sd limits') vs ls' \<Longrightarrow> ls = ls'"
proof (induction vs ls arbitrary: ls' rule: list_all2_induct)
  case (Cons v vs l ls)
  then show ?case by (cases ls') (auto simp: encodes_def)
qed simp

lemma append_records_ok:
  assumes "list_all2 (encodes sd limits) vs ls" "length out + length (unlines ls) \<le> max_trace_bytes limits"
    "max_trace_bytes limits \<le> u64_max"
  shows "rfold (append_record sd limits) vs out = Ok (out @ unlines ls)"
  using assms
proof (induction vs ls arbitrary: out rule: list_all2_induct)
  case (Cons v vs l ls)
  have "append_record sd limits v out = Ok (out @ l @ [LF])"
    using Cons.prems Cons.hyps(1)
    by (simp add: append_record_def to_vec_def encodes_def checked_add_def ensure_def)
  with Cons.IH [of "out @ l @ [LF]"] Cons.prems show ?case by simp
qed simp

lemma prediction_counts_ok:
  assumes "wf_trace limits t"
  shows "rfold (check_prediction_count limits) (vt_events t) () = Ok ()"
proof -
  have "rfold (check_prediction_count limits) evs () = Ok ()" if "set evs \<subseteq> set (vt_events t)" for evs
    using that
  proof (induction evs)
    case (Cons ev evs)
    have "check_prediction_count limits ev () = Ok ()"
    proof (cases ev)
      case (RouterSignal sq r st l ps)
      then obtain i where "i < length (vt_events t)" "vt_events t ! i = RouterSignal sq r st l ps"
        using Cons.prems by (auto simp: in_set_conv_nth)
      then have "wf_event (catalog t) limits (take i (vt_events t)) (RouterSignal sq r st l ps)"
        using assms unfolding wf_trace_def wf_events_def by metis
      then show ?thesis using RouterSignal by (simp add: check_prediction_count_def wf_predictions_def)
    qed (simp add: check_prediction_count_def)
    with Cons show ?case by simp
  qed simp
  then show ?thesis by simp
qed

lemma serialize_parsed:
  assumes parsed: "parse_trace ts sha_hex bytes limits = Ok t" and size: "max_trace_bytes limits \<le> u64_max"
  shows "serialize_trace ts sha_hex (vt_header t) (vt_pages t) (vt_events t) limits = Ok bytes"
proof -
  note P = parse_trace_ok [OF parsed]
  obtain h ps es where b: "bytes = unlines (h # ps @ es)" "encodes (ts_header ts) limits (vt_header t) h"
    "list_all2 (encodes (ts_page ts) limits) (vt_pages t) ps" "list_all2 (encodes (ts_event ts) limits) (vt_events t) es"
    using P(5) by blast
  have len: "length (unlines (h # ps @ es)) \<le> max_trace_bytes limits"
    using P(3) b(1) by (auto simp: validate_framing_def)
  have "rfold (append_record (ts_header ts) limits) [vt_header t] [] = Ok ([] @ unlines [h])"
    using b(2) len size by (intro append_records_ok) auto
  then have head: "append_record (ts_header ts) limits (vt_header t) [] = Ok (unlines [h])"
    by (auto simp: rbind_Inr_iff)
  have pages: "rfold (append_record (ts_page ts) limits) (vt_pages t) (unlines [h]) = Ok (unlines [h] @ unlines ps)"
    using b(3) len size by (intro append_records_ok) auto
  have events: "rfold (append_record (ts_event ts) limits) (vt_events t) (unlines [h] @ unlines ps) = Ok bytes"
    using append_records_ok [OF b(4), of "unlines [h] @ unlines ps"] len size b(1) by simp
  have counts: "th_page_count (vt_header t) = length (vt_pages t)" "th_event_count (vt_header t) = length (vt_events t)"
    using P(1) by (simp_all add: wf_trace_def)
  show ?thesis
    by (simp add: serialize_trace_def P(4) counts prediction_counts_ok [OF P(1)] head pages events parsed
        del: unlines_simps)
qed

end
