(* ===== verification/Sim_Oracle.thy ===== *)
theory Sim_Oracle
  imports Sim_Trace
begin

text \<open>
  The offline reference algorithms (\<^verbatim>\<open>crates/runnel-sim/src/oracle/mod.rs\<close>): the uniform-geometry Belady
  replay and the exact dynamic program over resident subsets. Masks (\<^verbatim>\<open>u32\<close>, at most 18 bits in use) are
  natural numbers with their bitwise operations; \<^verbatim>\<open>debug_assert!\<close> is a panic.
\<close>

unbundle bit_operations_syntax

section \<open>Belady replay\<close>

definition MAX_EXACT_PAGES :: nat where "MAX_EXACT_PAGES = 18"
definition MAX_EXACT_DEMANDS :: nat where "MAX_EXACT_DEMANDS = 200"

text \<open>The name as the messages spell it, in UTF-8.\<close>

definition BELADY :: string where
  "BELADY = ''B'' @ [CHR 0xC3, CHR 0xA9] @ ''l'' @ [CHR 0xC3, CHR 0xA1] @ ''dy''"

definition DECISION_SCHEMA :: "u8 list" where
  "DECISION_SCHEMA = as_bytes ''runnel.belady-decisions/1'' @ [10]"

record belady_replay =
  br_metrics :: simulation_metrics
  br_decision_sha256 :: string
  br_oracle_optimal :: bool

type_synonym future_index = "(page_id, u64 list) btree_map"

definition uniform_page :: "page_descriptor \<Rightarrow> page_descriptor \<Rightarrow> unit \<Rightarrow> (sim_error, unit) result" where
  "uniform_page first page u =
     (if pd_charge_bytes page \<noteq> pd_charge_bytes first then
        fail (UnsupportedOracleGeometry (''page '' @ show_nat (pd_id page) @ '' charge '' @
          show_nat (pd_charge_bytes page) @ '' differs from uniform charge '' @ show_nat (pd_charge_bytes first)))
      else if pd_logical_bytes page \<noteq> pd_logical_bytes first then
        fail (UnsupportedOracleGeometry (''page '' @ show_nat (pd_id page) @ '' logical cost '' @
          show_nat (pd_logical_bytes page) @ '' differs from uniform cost '' @ show_nat (pd_logical_bytes first)))
      else Ok ())"

definition uniform_geometry :: "validated_trace \<Rightarrow> (sim_error, u64 \<times> u64) result" where
  "uniform_geometry t =
     (case vt_pages t of
        [] \<Rightarrow> Ok (1, 0)
      | first # rest \<Rightarrow>
          if pd_charge_bytes first = 0 then
            fail (UnsupportedOracleGeometry (BELADY @ '' requires a positive uniform charge''))
          else rbind (rfold (uniform_page first) rest ()) (\<lambda>_.
            Ok (pd_charge_bytes first, pd_logical_bytes first)))"

definition note_demand :: "trace_event \<Rightarrow> u64 \<times> future_index \<Rightarrow> u64 \<times> future_index" where
  "note_demand event st = (case event of
      RouterSignal _ _ _ _ _ \<Rightarrow> st
    | Demand _ _ _ page \<Rightarrow> (case st of (demand_ordinal, future) \<Rightarrow>
        (saturating_add demand_ordinal 1,
         bt_insert page ((case bt_get future page of None \<Rightarrow> [] | Some positions \<Rightarrow> positions) @ [demand_ordinal]) future)))"

definition future_demands :: "validated_trace \<Rightarrow> future_index" where
  "future_demands t = snd (fold note_demand (vt_events t) (0, []))"

definition pop_current_demand :: "future_index \<Rightarrow> page_id \<Rightarrow> (sim_error, future_index) result" where
  "pop_current_demand future page =
     (case bt_get future page of
        Some (position # positions) \<Rightarrow> Ok (bt_insert page positions future)
      | _ \<Rightarrow> fail (InvalidConfig (BELADY @ '' future-demand index became inconsistent'')))"

definition next_use :: "future_index \<Rightarrow> page_id \<Rightarrow> u64" where
  "next_use future page =
     (case bt_get future page of Some (position # positions) \<Rightarrow> position | _ \<Rightarrow> u64_max)"

definition farthest_victim :: "page_id btree_set \<Rightarrow> page_id \<Rightarrow> future_index \<Rightarrow> (sim_error, page_id) result" where
  "farthest_victim residents candidate future =
     or_panic (max_by_key (\<lambda>page. (next_use future page, page = candidate, page)) (bt_keys residents @ [candidate]))
       ''candidate guarantees a nonempty victim set''"

record belady_state =
  be_future :: future_index
  be_residents :: "page_id btree_set"
  be_charge :: u64
  be_metrics :: simulation_metrics
  be_decisions :: "u8 list"
  be_ordinal :: u64

definition belady_add ::
  "(simulation_metrics \<Rightarrow> u64) \<Rightarrow> ((u64 \<Rightarrow> u64) \<Rightarrow> simulation_metrics \<Rightarrow> simulation_metrics)
    \<Rightarrow> u64 \<Rightarrow> string \<Rightarrow> belady_state \<Rightarrow> (sim_error, belady_state) result" where
  "belady_add field update value name b =
     rbind (metric_add field update value name (be_metrics b)) (\<lambda>m. Ok (b\<lparr>be_metrics := m\<rparr>))"

definition belady_admit :: "page_id \<Rightarrow> u64 \<Rightarrow> belady_state \<Rightarrow> (sim_error, belady_state) result" where
  "belady_admit page charge b =
     (if bs_member (be_residents b) page then panic (''a '' @ BELADY @ '' admission must insert an absent page'')
      else
        rbind (ok_or (checked_add (be_charge b) charge) (CounterOverflow ''belady resident charge'')) (\<lambda>resident_charge.
        rbind (belady_add admissions admissions_update 1 ''admissions''
                 (b\<lparr>be_residents := bs_insert page (be_residents b), be_charge := resident_charge\<rparr>)) (\<lambda>b.
        Ok (b\<lparr>be_metrics := (be_metrics b)\<lparr>peak_resident_charge_bytes :=
              max (peak_resident_charge_bytes (be_metrics b)) resident_charge\<rparr>\<rparr>))))"

definition update_decision :: "page_id \<Rightarrow> string \<Rightarrow> page_id option \<Rightarrow> belady_state \<Rightarrow> belady_state" where
  "update_decision page action victim b =
     b\<lparr>be_decisions := be_decisions b @ as_bytes (''demand='' @ show_nat (be_ordinal b) @ '';page='' @ show_nat page
        @ '';action='' @ action @ '';victim='' @ (case victim of None \<Rightarrow> ''-'' | Some v \<Rightarrow> show_nat v)) @ [10]\<rparr>"

text \<open>The two ways a miss with every slot taken ends: the page is bypassed, or it replaces the victim.\<close>

definition belady_bypass :: "page_id \<Rightarrow> belady_state \<Rightarrow> (sim_error, belady_state) result" where
  "belady_bypass page b =
     rbind (belady_add bypasses bypasses_update 1 ''bypasses'' b) (\<lambda>b.
     Ok (update_decision page ''bypass'' None b))"

definition belady_replace :: "u64 \<Rightarrow> page_id \<Rightarrow> page_id \<Rightarrow> belady_state \<Rightarrow> (sim_error, belady_state) result" where
  "belady_replace charge page victim b =
     (if \<not> bs_member (be_residents b) victim then panic (''selected '' @ BELADY @ '' victim must be resident'')
      else
        rbind (ok_or (checked_sub (be_charge b) charge) (CounterOverflow ''belady resident charge subtraction'')) (\<lambda>c.
        rbind (belady_add evictions evictions_update 1 ''evictions''
                 (b\<lparr>be_residents := bt_remove victim (be_residents b), be_charge := c\<rparr>)) (\<lambda>b.
        rbind (belady_add evicted_charge_bytes evicted_charge_bytes_update charge ''evicted_charge_bytes'' b) (\<lambda>b.
        rbind (belady_admit page charge b) (\<lambda>b.
        Ok (update_decision page ''admit'' (Some victim) b))))))"

definition belady_place :: "nat \<Rightarrow> u64 \<Rightarrow> page_id \<Rightarrow> belady_state \<Rightarrow> (sim_error, belady_state) result" where
  "belady_place slot_capacity charge page b =
     (if slot_capacity = 0 then belady_bypass page b
      else if length (be_residents b) < slot_capacity then
        rbind (belady_admit page charge b) (\<lambda>b. Ok (update_decision page ''admit'' None b))
      else
        rbind (farthest_victim (be_residents b) page (be_future b)) (\<lambda>victim.
        if victim = page then belady_bypass page b
        else belady_replace charge page victim b))"

definition belady_miss ::
  "nat \<Rightarrow> u64 \<Rightarrow> page_descriptor \<Rightarrow> page_id \<Rightarrow> belady_state \<Rightarrow> (sim_error, belady_state) result" where
  "belady_miss slot_capacity charge descriptor page b =
     rbind (belady_add demand_misses demand_misses_update 1 ''demand_misses'' b) (\<lambda>b.
     rbind (belady_add demand_miss_bytes demand_miss_bytes_update (pd_logical_bytes descriptor) ''demand_miss_bytes'' b) (\<lambda>b.
     rbind (belady_add demand_load_bytes demand_load_bytes_update (pd_logical_bytes descriptor) ''demand_load_bytes'' b) (\<lambda>b.
     belady_place slot_capacity charge page b)))"

definition belady_demand ::
  "validated_trace \<Rightarrow> u64 \<Rightarrow> nat \<Rightarrow> u64 \<Rightarrow> page_id \<Rightarrow> belady_state \<Rightarrow> (sim_error, belady_state) result" where
  "belady_demand t capacity_bytes slot_capacity charge page b =
     rbind (pop_current_demand (be_future b) page) (\<lambda>future.
     rbind (trace_page t page) (\<lambda>descriptor.
     rbind (belady_add demand_accesses demand_accesses_update 1 ''demand_accesses'' (b\<lparr>be_future := future\<rparr>)) (\<lambda>b.
     rbind (belady_add demand_logical_bytes demand_logical_bytes_update (pd_logical_bytes descriptor)
              ''demand_logical_bytes'' b) (\<lambda>b.
     rbind (if bs_member (be_residents b) page then
              rbind (belady_add ordinary_demand_hits ordinary_demand_hits_update 1 ''ordinary_demand_hits'' b) (\<lambda>b.
              rbind (belady_add ordinary_demand_hit_bytes ordinary_demand_hit_bytes_update (pd_logical_bytes descriptor)
                       ''ordinary_demand_hit_bytes'' b) (\<lambda>b.
              Ok (update_decision page ''hit'' None b)))
            else belady_miss slot_capacity charge descriptor page b) (\<lambda>b.
     rbind (ensure (be_charge b \<le> capacity_bytes) (InvalidConfig (BELADY @ '' resident charge exceeded capacity''))) (\<lambda>_.
     rbind (ok_or (checked_add (be_ordinal b) 1) (CounterOverflow ''belady demand ordinal'')) (\<lambda>ordinal.
     Ok (b\<lparr>be_ordinal := ordinal\<rparr>))))))))"

definition belady_event ::
  "validated_trace \<Rightarrow> u64 \<Rightarrow> nat \<Rightarrow> u64 \<Rightarrow> trace_event \<Rightarrow> belady_state \<Rightarrow> (sim_error, belady_state) result" where
  "belady_event t capacity_bytes slot_capacity charge event b = (case event of
      RouterSignal _ _ _ _ _ \<Rightarrow> Ok b
    | Demand _ _ _ page \<Rightarrow> belady_demand t capacity_bytes slot_capacity charge page b)"

definition simulate_belady ::
  "(u8 list \<Rightarrow> string) \<Rightarrow> validated_trace \<Rightarrow> u64 \<Rightarrow> (sim_error, belady_replay) result" where
  "simulate_belady sha_hex t capacity_bytes =
     rbind (uniform_geometry t) (\<lambda>(uniform_charge, _).
     let slot_capacity = min (capacity_bytes div uniform_charge) (length (vt_pages t)) in
     rbind (rfold (belady_event t capacity_bytes slot_capacity uniform_charge) (vt_events t)
              \<lparr>be_future = future_demands t, be_residents = [], be_charge = 0, be_metrics = default_metrics,
               be_decisions = DECISION_SCHEMA, be_ordinal = 0\<rparr>) (\<lambda>b.
     rbind (finish ((be_metrics b)\<lparr>final_resident_charge_bytes := be_charge b\<rparr>)) (\<lambda>metrics.
     Ok \<lparr>br_metrics = metrics, br_decision_sha256 = sha_hex (be_decisions b), br_oracle_optimal = True\<rparr>)))"

section \<open>Exact dynamic program\<close>

definition demand_pages :: "trace_event list \<Rightarrow> page_id list" where
  "demand_pages events = List.map_filter (\<lambda>event. case event of
     Demand _ _ _ page \<Rightarrow> Some page | RouterSignal _ _ _ _ _ \<Rightarrow> None) events"

definition consume_state_budget :: "usize \<Rightarrow> usize \<Rightarrow> (sim_error, usize) result" where
  "consume_state_budget maximum explored =
     rbind (ok_or (checked_add explored 1) (ExactOracleLimit ''state budget overflowed'')) (\<lambda>explored.
     rbind (ensure (explored \<le> maximum)
        (ExactOracleLimit (''explored more than '' @ show_nat maximum @ '' transition states''))) (\<lambda>_.
     Ok explored))"

type_synonym frontier = "(nat, u64) btree_map"

definition insert_minimum :: "nat \<Rightarrow> u64 \<Rightarrow> frontier \<Rightarrow> frontier" where
  "insert_minimum state cost f =
     (case bt_get f state of
        None \<Rightarrow> bt_insert state cost f
      | Some current \<Rightarrow> bt_insert state (min current cost) f)"

fun trailing_zeros :: "nat \<Rightarrow> nat" where
  "trailing_zeros n = (if n = 0 then 32 else if odd n then 0 else Suc (trailing_zeros (n div 2)))"

declare trailing_zeros.simps [simp del]

lemma and_le_nat: "a AND b \<le> (a::nat)"
proof -
  have "int (a AND b) = int a AND int b" by (simp add: of_nat_and_eq)
  also have "\<dots> \<le> int a" by (rule AND_upper1) simp
  finally show ?thesis by simp
qed

lemma and_pred_less: "0 < r \<Longrightarrow> (r - Suc 0) AND s < (r::nat)"
  using and_le_nat [of "r - Suc 0" s] by simp

lemma and_self_pred_less: "0 < r \<Longrightarrow> r AND (r - Suc 0) < (r::nat)"
  using and_pred_less [of r r] by (simp add: and.commute)

text \<open>\<^verbatim>\<open>subset_charge\<close>: the \<^verbatim>\<open>while remaining != 0\<close> loop clears the lowest set bit each time.\<close>

function subset_charge_loop :: "u64 list \<Rightarrow> nat \<Rightarrow> u64 \<Rightarrow> (sim_error, u64) result" where
  "subset_charge_loop charges remaining acc =
     (if remaining = 0 then Ok acc
      else
        rbind (at_index charges (trailing_zeros remaining)) (\<lambda>charge.
        rbind (ok_or (checked_add acc charge) (CounterOverflow ''exact resident charge'')) (\<lambda>acc.
        subset_charge_loop charges (remaining AND (remaining - 1)) acc)))"
  by pat_completeness auto

termination
  by (relation "measure (\<lambda>(charges, remaining, acc). remaining)") (auto simp: and_self_pred_less)

declare subset_charge_loop.simps [simp del]

definition subset_charge :: "nat \<Rightarrow> u64 list \<Rightarrow> (sim_error, u64) result" where
  "subset_charge m charges = subset_charge_loop charges m 0"

text \<open>What the transition of one demand needs: its bit, the charges, and the limits.\<close>

record exact_step =
  xs_bit :: nat
  xs_charges :: "u64 list"
  xs_logical_costs :: "u64 list"
  xs_capacity_bytes :: u64
  xs_max_states :: usize

text \<open>The inner \<^verbatim>\<open>loop\<close>: every submask of \<open>state\<close>, from \<open>state\<close> down to zero.\<close>

function admit_subsets ::
  "exact_step \<Rightarrow> nat \<Rightarrow> u64 \<Rightarrow> nat \<Rightarrow> usize \<times> frontier \<Rightarrow> (sim_error, usize \<times> frontier) result" where
  "admit_subsets x state miss_cost retained st =
     rbind (consume_state_budget (xs_max_states x) (fst st)) (\<lambda>explored.
     rbind (subset_charge retained (xs_charges x)) (\<lambda>retained_charge.
     rbind (at_index (xs_charges x) (xs_bit x)) (\<lambda>charge.
     let next_frontier =
       (case checked_add retained_charge charge of
          Some c \<Rightarrow> if c \<le> xs_capacity_bytes x
            then insert_minimum (retained OR push_bit (xs_bit x) 1) miss_cost (snd st) else snd st
        | None \<Rightarrow> snd st) in
     if retained = 0 then Ok (explored, next_frontier)
     else admit_subsets x state miss_cost ((retained - 1) AND state) (explored, next_frontier))))"
  by pat_completeness auto

termination
  by (relation "measure (\<lambda>(x, state, miss_cost, retained, st). retained)") (auto simp: and_pred_less)

declare admit_subsets.simps [simp del]

definition expand_state ::
  "exact_step \<Rightarrow> nat \<times> u64 \<Rightarrow> usize \<times> frontier \<Rightarrow> (sim_error, usize \<times> frontier) result" where
  "expand_state x entry st = (case entry of (state, cost) \<Rightarrow>
     if state AND push_bit (xs_bit x) 1 \<noteq> 0 then
       rbind (consume_state_budget (xs_max_states x) (fst st)) (\<lambda>explored.
       Ok (explored, insert_minimum state cost (snd st)))
     else
       rbind (at_index (xs_logical_costs x) (xs_bit x)) (\<lambda>logical_cost.
       rbind (ok_or (checked_add cost logical_cost) (CounterOverflow ''exact variable-byte cost'')) (\<lambda>miss_cost.
       rbind (consume_state_budget (xs_max_states x) (fst st)) (\<lambda>explored.
       let next_frontier = insert_minimum state miss_cost (snd st) in
       rbind (at_index (xs_charges x) (xs_bit x)) (\<lambda>charge.
       if charge \<le> xs_capacity_bytes x then admit_subsets x state miss_cost state (explored, next_frontier)
       else Ok (explored, next_frontier))))))"

definition exact_demand ::
  "(page_id, usize) btree_map \<Rightarrow> u64 list \<Rightarrow> u64 list \<Rightarrow> u64 \<Rightarrow> usize \<Rightarrow> page_id \<Rightarrow> usize \<times> frontier
    \<Rightarrow> (sim_error, usize \<times> frontier) result" where
  "exact_demand bit_for_page charges logical_costs capacity_bytes max_states page st =
     rbind (or_panic (bt_get bit_for_page page) ''no entry found for key'') (\<lambda>b.
     rfold (expand_state \<lparr>xs_bit = b, xs_charges = charges, xs_logical_costs = logical_costs,
              xs_capacity_bytes = capacity_bytes, xs_max_states = max_states\<rparr>)
       (bt_entries (snd st)) (fst st, []))"

definition exact_variable_byte_cost ::
  "validated_trace \<Rightarrow> u64 \<Rightarrow> sim_limits \<Rightarrow> (sim_error, u64) result" where
  "exact_variable_byte_cost t capacity_bytes limits =
     (if max_exact_oracle_states limits = 0 then
        fail (ExactOracleLimit ''max_exact_oracle_states must be positive'')
      else
        let demands = demand_pages (vt_events t);
            ordered_pages = bt_keys (fold bs_insert demands []) in
        if length demands > MAX_EXACT_DEMANDS then
          fail (ExactOracleLimit (show_nat (length demands) @ '' demands exceed the '' @
            show_nat MAX_EXACT_DEMANDS @ ''-demand limit''))
        else if length ordered_pages > MAX_EXACT_PAGES then
          fail (ExactOracleLimit (show_nat (length ordered_pages) @ '' distinct demanded pages exceed the '' @
            show_nat MAX_EXACT_PAGES @ ''-page limit''))
        else if demands = [] then Ok 0
        else
          let bit_for_page = fold (\<lambda>(b, page). bt_insert page b) (enumerate 0 ordered_pages) [] in
          rbind (rmap (\<lambda>page. rbind (trace_page t page) (\<lambda>d. Ok (pd_charge_bytes d))) ordered_pages) (\<lambda>charges.
          rbind (rmap (\<lambda>page. rbind (trace_page t page) (\<lambda>d. Ok (pd_logical_bytes d))) ordered_pages) (\<lambda>logical_costs.
          rbind (rfold (exact_demand bit_for_page charges logical_costs capacity_bytes (max_exact_oracle_states limits))
                   demands (1, [(0, 0)])) (\<lambda>(explored, frontier).
          ok_or (min_by_key (\<lambda>cost. cost) (bt_values frontier))
            (InvalidConfig ''exact oracle produced no terminal state'')))))"

end
