(* ===== verification/Sim_TinyLfu.thy ===== *)
theory Sim_TinyLfu
  imports Sim_Model
begin

text \<open>
  The TinyLFU frequency sketch of the simulator (\<^verbatim>\<open>TinyLfu\<close> in \<^verbatim>\<open>crates/runnel-sim/src/policy/mod.rs\<close>): a
  count-min sketch with conservative update and 4-bit counters behind a doorkeeper bitmap, halved every
  \<^verbatim>\<open>sample_accesses\<close> observations. Hashing is on 64-bit words, the doorkeeper on bytes; the \<^verbatim>\<open>u8\<close> counters
  are natural numbers with their saturation written out. Every slice index is checked, so that
  \<open>observe_ok\<close> and \<open>estimate_ok\<close> prove the indices in range.
\<close>

unbundle bit_operations_syntax

section \<open>Definitions\<close>

definition SKETCH_COUNTER_MAX :: nat where "SKETCH_COUNTER_MAX = 15"

definition HASH_SEEDS :: "64 word list" where
  "HASH_SEEDS =
     [0x243f6a8885a308d3, 0x13198a2e03707344, 0xa4093822299f31d0, 0x082efa98ec4e6c89,
      0x452821e638d01377, 0xbe5466cf34e90c6c, 0xc0ac29b7c97c50dd, 0x3f84d5b5b5470917]"

record tiny_lfu =
  tl_depth :: usize
  tl_width :: usize
  tl_counters :: "nat list"
  tl_doorkeeper :: "u8 list"
  tl_sample_accesses :: u64
  tl_observed :: u64

definition tiny_new :: "tiny_lfu_config \<Rightarrow> (sim_error, tiny_lfu) result" where
  "tiny_new config =
     rbind (ensure (1 \<le> tc_sketch_depth config \<and> tc_sketch_depth config \<le> length HASH_SEEDS)
        (InvalidConfig ''TinyLFU sketch_depth must be between 1 and 8'')) (\<lambda>_.
     rbind (ensure (64 \<le> tc_sketch_width config \<and> tc_sketch_width config \<le> 65536)
        (InvalidConfig ''TinyLFU sketch_width must be between 64 and 65536'')) (\<lambda>_.
     rbind (ensure (tc_sample_accesses config \<noteq> 0)
        (InvalidConfig ''TinyLFU sample_accesses must be positive'')) (\<lambda>_.
     rbind (ok_or (checked_mul (tc_sketch_depth config) (tc_sketch_width config))
        (InvalidConfig ''TinyLFU sketch allocation overflows'')) (\<lambda>counter_len.
     rbind (ok_or (checked_add (tc_sketch_width config) 7)
        (InvalidConfig ''TinyLFU doorkeeper allocation overflows'')) (\<lambda>door_bits.
     Ok \<lparr>tl_depth = tc_sketch_depth config, tl_width = tc_sketch_width config,
         tl_counters = replicate counter_len 0, tl_doorkeeper = replicate (door_bits div 8) 0,
         tl_sample_accesses = tc_sample_accesses config, tl_observed = 0\<rparr>)))))"

definition splitmix :: "64 word \<Rightarrow> 64 word" where
  "splitmix v0 =
     (let v1 = v0 + 0x9e3779b97f4a7c15;
          v2 = (v1 XOR drop_bit 30 v1) * 0xbf58476d1ce4e5b9;
          v3 = (v2 XOR drop_bit 27 v2) * 0x94d049bb133111eb
      in v3 XOR drop_bit 31 v3)"

definition column :: "tiny_lfu \<Rightarrow> page_id \<Rightarrow> usize \<Rightarrow> (sim_error, usize) result" where
  "column t page row =
     rbind (at_index HASH_SEEDS row) (\<lambda>seed.
     let hash = splitmix (of_nat page XOR seed) in
     if tl_width t = 0 then panic ''attempt to calculate the remainder with a divisor of zero''
     else Ok (unat hash mod tl_width t))"

definition door_contains :: "tiny_lfu \<Rightarrow> page_id \<Rightarrow> (sim_error, bool) result" where
  "door_contains t page =
     rall (\<lambda>row.
       rbind (column t page row) (\<lambda>column.
       rbind (at_index (tl_doorkeeper t) (column div 8)) (\<lambda>byte.
       Ok (byte AND push_bit (column mod 8) 1 \<noteq> 0)))) [0..<tl_depth t]"

definition set_door_row :: "page_id \<Rightarrow> usize \<Rightarrow> tiny_lfu \<Rightarrow> (sim_error, tiny_lfu) result" where
  "set_door_row page row t =
     rbind (column t page row) (\<lambda>column.
     rbind (at_index (tl_doorkeeper t) (column div 8)) (\<lambda>byte.
     Ok (t\<lparr>tl_doorkeeper := (tl_doorkeeper t)[column div 8 := byte OR push_bit (column mod 8) 1]\<rparr>)))"

definition set_door :: "tiny_lfu \<Rightarrow> page_id \<Rightarrow> (sim_error, tiny_lfu) result" where
  "set_door t page = rfold (set_door_row page) [0..<tl_depth t] t"

definition counter_minimum :: "tiny_lfu \<Rightarrow> page_id \<Rightarrow> (sim_error, nat) result" where
  "counter_minimum t page =
     rbind (rmap (\<lambda>row.
       rbind (column t page row) (\<lambda>column.
       at_index (tl_counters t) (row * tl_width t + column))) [0..<tl_depth t]) (\<lambda>cs.
     Ok (case cs of [] \<Rightarrow> 0 | c # cs' \<Rightarrow> fold min cs' c))"

definition estimate :: "tiny_lfu \<Rightarrow> page_id \<Rightarrow> (sim_error, u64) result" where
  "estimate t page =
     rbind (counter_minimum t page) (\<lambda>minimum.
     rbind (door_contains t page) (\<lambda>door.
     Ok (minimum + (if door then 1 else 0))))"

definition bump_row :: "page_id \<Rightarrow> nat \<Rightarrow> usize \<Rightarrow> tiny_lfu \<Rightarrow> (sim_error, tiny_lfu) result" where
  "bump_row page minimum row t =
     rbind (column t page row) (\<lambda>column.
     let index = row * tl_width t + column in
     rbind (at_index (tl_counters t) index) (\<lambda>counter.
     if counter = minimum then
       Ok (t\<lparr>tl_counters := (tl_counters t)[index := min (min (counter + 1) 255) SKETCH_COUNTER_MAX]\<rparr>)
     else Ok t))"

definition observe :: "tiny_lfu \<Rightarrow> page_id \<Rightarrow> (sim_error, tiny_lfu) result" where
  "observe t page =
     rbind (door_contains t page) (\<lambda>door.
     rbind (if door then
              rbind (counter_minimum t page) (\<lambda>minimum.
              rfold (bump_row page minimum) [0..<tl_depth t] t)
            else set_door t page) (\<lambda>t.
     rbind (add_u64 (tl_observed t) 1) (\<lambda>observed.
     if observed \<ge> tl_sample_accesses t then
       Ok (t\<lparr>tl_counters := map (\<lambda>c. c div 2) (tl_counters t),
             tl_doorkeeper := map (\<lambda>_. 0) (tl_doorkeeper t),
             tl_observed := observed div 2\<rparr>)
     else Ok (t\<lparr>tl_observed := observed\<rparr>))))"

definition metadata_bytes :: "tiny_lfu \<Rightarrow> u64" where
  "metadata_bytes t = length (tl_counters t) + length (tl_doorkeeper t)"

section \<open>The sketch as a function of its cells\<close>

definition tiny_wf :: "tiny_lfu \<Rightarrow> bool" where
  "tiny_wf t \<longleftrightarrow> 1 \<le> tl_depth t \<and> tl_depth t \<le> 8 \<and> 64 \<le> tl_width t \<and> tl_width t \<le> 65536
     \<and> length (tl_counters t) = tl_depth t * tl_width t
     \<and> length (tl_doorkeeper t) = (tl_width t + 7) div 8
     \<and> (\<forall>c\<in>set (tl_counters t). c \<le> SKETCH_COUNTER_MAX)
     \<and> tl_observed t < tl_sample_accesses t \<and> tl_sample_accesses t \<le> u64_max"

definition col :: "tiny_lfu \<Rightarrow> page_id \<Rightarrow> usize \<Rightarrow> usize" where
  "col t page row = unat (splitmix (of_nat page XOR HASH_SEEDS ! row)) mod tl_width t"

definition cell_index :: "tiny_lfu \<Rightarrow> page_id \<Rightarrow> usize \<Rightarrow> usize" where
  "cell_index t page row = row * tl_width t + col t page row"

definition cell_min :: "tiny_lfu \<Rightarrow> page_id \<Rightarrow> nat" where
  "cell_min t page = Min ((\<lambda>row. tl_counters t ! cell_index t page row) ` {..<tl_depth t})"

definition door_bit :: "tiny_lfu \<Rightarrow> page_id \<Rightarrow> usize \<Rightarrow> bool" where
  "door_bit t page row = bit (tl_doorkeeper t ! (col t page row div 8)) (col t page row mod 8)"

definition in_door :: "tiny_lfu \<Rightarrow> page_id \<Rightarrow> bool" where
  "in_door t page \<longleftrightarrow> (\<forall>row<tl_depth t. door_bit t page row)"

definition freq :: "tiny_lfu \<Rightarrow> page_id \<Rightarrow> nat" where
  "freq t page = cell_min t page + (if in_door t page then 1 else 0)"

lemma length_HASH_SEEDS [simp]: "length HASH_SEEDS = 8"
  by (simp add: HASH_SEEDS_def)

lemma col_less: "tiny_wf t \<Longrightarrow> col t page row < tl_width t"
  by (simp add: col_def tiny_wf_def)

lemma col_cong: "tl_width t' = tl_width t \<Longrightarrow> col t' page row = col t page row"
  by (simp add: col_def)

lemma cell_index_cong: "tl_width t' = tl_width t \<Longrightarrow> cell_index t' page row = cell_index t page row"
  by (simp add: cell_index_def col_def)

lemma column_ok: "tiny_wf t \<Longrightarrow> row < tl_depth t \<Longrightarrow> column t page row = Ok (col t page row)"
  by (auto simp: column_def col_def tiny_wf_def Let_def)

lemma cell_index_less:
  assumes "tiny_wf t" "row < tl_depth t"
  shows "cell_index t page row < length (tl_counters t)"
proof -
  have "cell_index t page row < row * tl_width t + tl_width t"
    using col_less [OF assms(1)] by (simp add: cell_index_def)
  also have "\<dots> = Suc row * tl_width t" by simp
  also have "\<dots> \<le> tl_depth t * tl_width t" using assms(2) by (intro mult_le_mono1) simp
  finally show ?thesis using assms(1) by (simp add: tiny_wf_def)
qed

lemma cell_index_inj:
  assumes "tiny_wf t" "cell_index t p row = cell_index t q row'"
  shows "row = row'"
proof -
  have "cell_index t x r div tl_width t = r" for x r
    using col_less [OF assms(1), of x r] by (simp add: cell_index_def)
  with assms(2) show ?thesis by metis
qed

lemma door_index_less: "tiny_wf t \<Longrightarrow> col t page row div 8 < length (tl_doorkeeper t)"
  using col_less [of t page row] by (simp add: tiny_wf_def)

lemma door_contains_ok: "tiny_wf t \<Longrightarrow> door_contains t page = Ok (in_door t page)"
proof -
  assume wf: "tiny_wf t"
  have "door_contains t page = Ok (list_all (door_bit t page) [0..<tl_depth t])"
    unfolding door_contains_def
    by (rule rall_pure)
       (simp add: wf column_ok door_index_less door_bit_def push_bit_eq_mult and_exp_eq_0_iff_not_bit)
  then show ?thesis by (auto simp: in_door_def list_all_iff)
qed

lemma counter_minimum_ok:
  assumes "tiny_wf t"
  shows "counter_minimum t page = Ok (cell_min t page)"
proof -
  let ?f = "\<lambda>row. tl_counters t ! cell_index t page row"
  have r: "rmap (\<lambda>row. rbind (column t page row) (\<lambda>column. at_index (tl_counters t) (row * tl_width t + column)))
      [0..<tl_depth t] = Ok (map ?f [0..<tl_depth t])"
    using cell_index_less [OF assms]
    by (intro rmap_pure) (simp add: assms column_ok cell_index_def)
  obtain d where d: "tl_depth t = Suc d"
    using assms by (cases "tl_depth t") (auto simp: tiny_wf_def)
  have "fold min (map ?f [1..<Suc d]) (?f 0) = Min (set (?f 0 # map ?f [1..<Suc d]))"
    by (simp only: Min.set_eq_fold)
  also have "set (?f 0 # map ?f [1..<Suc d]) = ?f ` {..<Suc d}"
  proof -
    have "{..<Suc d} = insert 0 {1..<Suc d}" by auto
    then show ?thesis by (simp only: list.set set_map set_upt image_insert)
  qed
  finally have m: "fold min (map ?f [1..<Suc d]) (?f 0) = cell_min t page"
    by (simp add: cell_min_def d)
  have l: "map ?f [0..<Suc d] = ?f 0 # map ?f [1..<Suc d]"
    by (simp add: upt_conv_Cons del: upt_Suc)
  show ?thesis
    unfolding counter_minimum_def r rbind_simps unfolding d l by (simp only: list.case m)
qed

lemma estimate_freq: "tiny_wf t \<Longrightarrow> estimate t page = Ok (freq t page)"
  by (simp add: estimate_def counter_minimum_ok door_contains_ok freq_def)

lemma cell_min_le: "row < tl_depth t \<Longrightarrow> cell_min t page \<le> tl_counters t ! cell_index t page row"
  by (simp add: cell_min_def)

lemma cell_min_attained:
  assumes "tiny_wf t"
  obtains row where "row < tl_depth t" "tl_counters t ! cell_index t page row = cell_min t page"
proof -
  have "cell_min t page \<in> (\<lambda>row. tl_counters t ! cell_index t page row) ` {..<tl_depth t}"
    unfolding cell_min_def using assms by (intro Min_in) (auto simp: tiny_wf_def lessThan_empty_iff)
  with that show ?thesis by auto
qed

lemma cell_min_geI:
  assumes "tiny_wf t" "\<And>row. row < tl_depth t \<Longrightarrow> n \<le> tl_counters t ! cell_index t page row"
  shows "n \<le> cell_min t page"
proof -
  obtain row where "row < tl_depth t" "tl_counters t ! cell_index t page row = cell_min t page"
    using assms(1) by (rule cell_min_attained)
  with assms(2) [of row] show ?thesis by simp
qed

lemma cell_min_max:
  assumes "tiny_wf t"
  shows "cell_min t page \<le> SKETCH_COUNTER_MAX"
proof -
  obtain row where "row < tl_depth t" "tl_counters t ! cell_index t page row = cell_min t page"
    using assms by (rule cell_min_attained)
  moreover from this(1) have "tl_counters t ! cell_index t page row \<in> set (tl_counters t)"
    using cell_index_less [OF assms] by simp
  ultimately show ?thesis using assms by (auto simp: tiny_wf_def)
qed

lemma freq_le: "tiny_wf t \<Longrightarrow> freq t page \<le> 16"
  using cell_min_max [of t page] by (simp add: freq_def SKETCH_COUNTER_MAX_def)

section \<open>Observation\<close>

lemma column_counters [simp]: "column (t\<lparr>tl_counters := cs\<rparr>) = column t"
  by (simp add: column_def fun_eq_iff cong: if_cong)

lemma column_doorkeeper [simp]: "column (t\<lparr>tl_doorkeeper := ds\<rparr>) = column t"
  by (simp add: column_def fun_eq_iff cong: if_cong)

definition bumped :: "tiny_lfu \<Rightarrow> page_id \<Rightarrow> nat \<Rightarrow> nat \<Rightarrow> nat list" where
  "bumped t page m n = map (\<lambda>i. if (\<exists>row<n. i = cell_index t page row) \<and> tl_counters t ! i = m
     then min (m + 1) SKETCH_COUNTER_MAX else tl_counters t ! i) [0..<length (tl_counters t)]"

lemma length_bumped [simp]: "length (bumped t page m n) = length (tl_counters t)"
  by (simp add: bumped_def)

lemma nth_bumped:
  "i < length (tl_counters t) \<Longrightarrow> bumped t page m n ! i =
     (if (\<exists>row<n. i = cell_index t page row) \<and> tl_counters t ! i = m
      then min (m + 1) SKETCH_COUNTER_MAX else tl_counters t ! i)"
  by (simp add: bumped_def cong: if_cong)

lemma bump_rows:
  assumes "tiny_wf t" "n \<le> tl_depth t"
  shows "rfold (bump_row page m) [0..<n] t = Ok (t\<lparr>tl_counters := bumped t page m n\<rparr>)"
  using assms(2)
proof (induction n)
  case 0
  have "bumped t page m 0 = tl_counters t"
    by (simp add: bumped_def map_nth)
  then show ?case by simp
next
  case (Suc n)
  let ?i = "cell_index t page n" and ?b = "bumped t page m n"
  have i: "?i < length (tl_counters t)"
    using cell_index_less [OF assms(1)] Suc.prems by simp
  have fresh: "?b ! ?i = tl_counters t ! ?i"
    using i cell_index_inj [OF assms(1)] by (auto simp: nth_bumped)
  have step: "bumped t page m (Suc n) =
      (if ?b ! ?i = m then ?b[?i := min (m + 1) SKETCH_COUNTER_MAX] else ?b)"
  proof (rule nth_equalityI, goal_cases)
    case (2 j)
    have "(\<exists>row<Suc n. j = cell_index t page row) \<longleftrightarrow> j = ?i \<or> (\<exists>row<n. j = cell_index t page row)"
      by (auto simp: less_Suc_eq)
    with 2 fresh i show ?case by (cases "j = ?i") (auto simp: nth_bumped)
  qed simp
  have "min (min (m + 1) 255) SKETCH_COUNTER_MAX = min (m + 1) SKETCH_COUNTER_MAX"
    by (simp add: SKETCH_COUNTER_MAX_def)
  then show ?case
    using Suc i column_ok [OF assms(1), of n page] step
    by (simp add: rfold_append bump_row_def Let_def cell_index_def [symmetric])
qed

lemma set_door_rows:
  assumes "tiny_wf t" "n \<le> tl_depth t"
  shows "\<exists>d. rfold (set_door_row page) [0..<n] t = Ok (t\<lparr>tl_doorkeeper := d\<rparr>)
     \<and> length d = length (tl_doorkeeper t)
     \<and> (\<forall>i b. i < length d \<and> b < 8 \<longrightarrow> bit (d ! i) b \<longleftrightarrow>
          bit (tl_doorkeeper t ! i) b \<or> (\<exists>row<n. col t page row div 8 = i \<and> col t page row mod 8 = b))"
  using assms(2)
proof (induction n)
  case 0
  show ?case by (intro exI [of _ "tl_doorkeeper t"]) simp
next
  case (Suc n)
  then obtain d where d: "rfold (set_door_row page) [0..<n] t = Ok (t\<lparr>tl_doorkeeper := d\<rparr>)"
    "length d = length (tl_doorkeeper t)"
    "\<And>i b. i < length d \<Longrightarrow> b < 8 \<Longrightarrow> bit (d ! i) b \<longleftrightarrow>
       bit (tl_doorkeeper t ! i) b \<or> (\<exists>row<n. col t page row div 8 = i \<and> col t page row mod 8 = b)"
    by (auto simp: Suc_le_eq)
  let ?c = "col t page n"
  let ?d = "d[?c div 8 := d ! (?c div 8) OR push_bit (?c mod 8) 1]"
  have i: "?c div 8 < length d"
    using door_index_less [OF assms(1)] d(2) by simp
  have "rfold (set_door_row page) [0..<Suc n] t = Ok (t\<lparr>tl_doorkeeper := ?d\<rparr>)"
    using Suc.prems d(1) i column_ok [OF assms(1), of n page]
    by (simp add: rfold_append set_door_row_def)
  moreover have "bit (?d ! i) b \<longleftrightarrow> bit (d ! i) b \<or> (?c div 8 = i \<and> ?c mod 8 = b)"
    if "i < length d" "b < 8" for i b
    using that i by (auto simp: nth_list_update bit_or_iff bit_exp_iff possible_bit_word)
  ultimately show ?case
    using d(2,3) by (intro exI [of _ ?d]) (auto simp: less_Suc_eq)
qed

lemma tiny_wf_update:
  assumes "tiny_wf t" "length cs = length (tl_counters t)" "\<forall>c\<in>set cs. c \<le> SKETCH_COUNTER_MAX"
    "length ds = length (tl_doorkeeper t)"
  shows "tiny_wf (t\<lparr>tl_counters := cs, tl_doorkeeper := ds\<rparr>)"
  using assms by (simp add: tiny_wf_def)

lemma freq_door:
  assumes "tiny_wf t"
    and "length d = length (tl_doorkeeper t)"
    and "\<And>i b. i < length d \<Longrightarrow> b < 8 \<Longrightarrow> bit (d ! i) b \<longleftrightarrow> bit (tl_doorkeeper t ! i) b
          \<or> (\<exists>row<tl_depth t. col t page row div 8 = i \<and> col t page row mod 8 = b)"
  shows "in_door (t\<lparr>tl_doorkeeper := d\<rparr>) page"
    and "in_door t q \<Longrightarrow> in_door (t\<lparr>tl_doorkeeper := d\<rparr>) q"
    and "cell_min (t\<lparr>tl_doorkeeper := d\<rparr>) q = cell_min t q"
proof -
  have bound: "col t x row div 8 < length d" for x row
    using door_index_less [OF assms(1), of x row] assms(2) by simp
  show "in_door (t\<lparr>tl_doorkeeper := d\<rparr>) page"
    using assms(3) bound by (auto simp: in_door_def door_bit_def col_def)
  show "in_door t q \<Longrightarrow> in_door (t\<lparr>tl_doorkeeper := d\<rparr>) q"
    using assms(3) bound by (auto simp: in_door_def door_bit_def col_def)
  show "cell_min (t\<lparr>tl_doorkeeper := d\<rparr>) q = cell_min t q"
    by (simp add: cell_min_def cell_index_def col_def)
qed

lemma cell_min_counters:
  assumes "tiny_wf t" "tiny_wf (t\<lparr>tl_counters := cs\<rparr>)"
    and "\<And>i. i < length (tl_counters t) \<Longrightarrow> tl_counters t ! i \<le> cs ! i"
  shows "cell_min t q \<le> cell_min (t\<lparr>tl_counters := cs\<rparr>) q"
proof (rule cell_min_geI [OF assms(2)])
  fix row assume "row < tl_depth (t\<lparr>tl_counters := cs\<rparr>)"
  then show "cell_min t q \<le> tl_counters (t\<lparr>tl_counters := cs\<rparr>) ! cell_index (t\<lparr>tl_counters := cs\<rparr>) q row"
    using order_trans [OF cell_min_le assms(3), of row q] cell_index_less [OF assms(1)]
    by (simp add: cell_index_def col_def)
qed

lemma bumped_counters:
  fixes page :: page_id
  assumes "tiny_wf t"
  defines "u \<equiv> t\<lparr>tl_counters := bumped t page (cell_min t page) (tl_depth t)\<rparr>"
  shows "tiny_wf u" "cell_min t q \<le> cell_min u q"
    and "cell_min u page = min (cell_min t page + 1) SKETCH_COUNTER_MAX"
proof -
  let ?m = "cell_min t page" and ?cs = "bumped t page (cell_min t page) (tl_depth t)"
  have m: "?m \<le> SKETCH_COUNTER_MAX" by (rule cell_min_max [OF assms(1)])
  have old: "c \<le> SKETCH_COUNTER_MAX" if "c \<in> set (tl_counters t)" for c
    using that assms(1) by (simp add: tiny_wf_def)
  have "?cs ! i \<le> SKETCH_COUNTER_MAX" if "i < length (tl_counters t)" for i
    using that old [OF nth_mem [OF that]] by (simp add: nth_bumped)
  then have "\<forall>c\<in>set ?cs. c \<le> SKETCH_COUNTER_MAX"
    by (metis in_set_conv_nth length_bumped)
  then show wf: "tiny_wf u"
    using tiny_wf_update [OF assms(1), of ?cs "tl_doorkeeper t"] by (simp add: u_def)
  show "cell_min t q \<le> cell_min u q"
    unfolding u_def using m wf u_def
    by (intro cell_min_counters assms(1)) (auto simp: nth_bumped)
  have cell: "tl_counters u ! cell_index u page row = max (tl_counters t ! cell_index t page row) (min (?m + 1) SKETCH_COUNTER_MAX)"
    if "row < tl_depth t" for row
    using that cell_index_less [OF assms(1) that, of page] cell_min_le [OF that, of page] m
    by (auto simp: u_def nth_bumped cell_index_def col_def)
  have "min (?m + 1) SKETCH_COUNTER_MAX \<le> cell_min u page"
    using cell by (intro cell_min_geI [OF wf]) (simp add: u_def)
  moreover obtain row where "row < tl_depth t" "tl_counters t ! cell_index t page row = ?m"
    using assms(1) by (rule cell_min_attained)
  then have "cell_min u page \<le> min (?m + 1) SKETCH_COUNTER_MAX"
    using cell [of row] cell_min_le [of row u page] m by (simp add: u_def)
  ultimately show "cell_min u page = min (?m + 1) SKETCH_COUNTER_MAX" by (rule antisym [rotated])
qed

lemma in_door_counters [simp]: "in_door (t\<lparr>tl_counters := cs\<rparr>) q = in_door t q"
  by (simp add: in_door_def door_bit_def col_def)

text \<open>One observation before aging: the page's estimate grows by one up to 16, no estimate shrinks.\<close>

definition observe_unaged :: "tiny_lfu \<Rightarrow> page_id \<Rightarrow> (sim_error, tiny_lfu) result" where
  "observe_unaged t page =
     rbind (door_contains t page) (\<lambda>door.
     if door then
       rbind (counter_minimum t page) (\<lambda>minimum. rfold (bump_row page minimum) [0..<tl_depth t] t)
     else set_door t page)"

lemma observe_unaged_ok:
  assumes "tiny_wf t"
  obtains u where "observe_unaged t page = Ok u" "tiny_wf u" "tl_observed u = tl_observed t"
    "tl_sample_accesses u = tl_sample_accesses t" "tl_depth u = tl_depth t" "tl_width u = tl_width t"
    "freq u page = min (freq t page + 1) 16" "\<And>q. freq t q \<le> freq u q"
proof (cases "in_door t page")
  case True
  let ?u = "t\<lparr>tl_counters := bumped t page (cell_min t page) (tl_depth t)\<rparr>"
  have "observe_unaged t page = Ok ?u"
    using True by (simp add: observe_unaged_def door_contains_ok counter_minimum_ok bump_rows assms)
  moreover have "freq ?u page = min (freq t page + 1) 16" "\<And>q. freq t q \<le> freq ?u q"
    using bumped_counters(2,3) [OF assms, where page = page] True
    by (simp_all add: freq_def SKETCH_COUNTER_MAX_def)
  ultimately show ?thesis
    using that [of ?u] bumped_counters(1) [OF assms, of page] by simp
next
  case False
  obtain d where d: "rfold (set_door_row page) [0..<tl_depth t] t = Ok (t\<lparr>tl_doorkeeper := d\<rparr>)"
    "length d = length (tl_doorkeeper t)"
    "\<And>i b. i < length d \<Longrightarrow> b < 8 \<Longrightarrow> bit (d ! i) b \<longleftrightarrow> bit (tl_doorkeeper t ! i) b
       \<or> (\<exists>row<tl_depth t. col t page row div 8 = i \<and> col t page row mod 8 = b)"
    using set_door_rows [OF assms, of "tl_depth t" page] by auto
  let ?u = "t\<lparr>tl_doorkeeper := d\<rparr>"
  have "observe_unaged t page = Ok ?u"
    using False d(1) by (simp add: observe_unaged_def door_contains_ok set_door_def assms)
  moreover have "tiny_wf ?u"
    using tiny_wf_update [OF assms, of "tl_counters t" d] d(2) assms by (simp add: tiny_wf_def)
  moreover have "freq ?u page = min (freq t page + 1) 16" "\<And>q. freq t q \<le> freq ?u q"
    using freq_door [OF assms d(2,3)] False cell_min_max [OF assms, of page]
    by (simp_all add: freq_def SKETCH_COUNTER_MAX_def)
  ultimately show ?thesis using that [of ?u] by simp
qed

lemma observe_alt:
  "observe t page = rbind (observe_unaged t page) (\<lambda>t.
     rbind (add_u64 (tl_observed t) 1) (\<lambda>observed.
     if observed \<ge> tl_sample_accesses t then
       Ok (t\<lparr>tl_counters := map (\<lambda>c. c div 2) (tl_counters t),
             tl_doorkeeper := map (\<lambda>_. 0) (tl_doorkeeper t), tl_observed := observed div 2\<rparr>)
     else Ok (t\<lparr>tl_observed := observed\<rparr>)))"
  by (simp add: observe_def observe_unaged_def rbind_assoc)

lemma freq_observed [simp]: "freq (t\<lparr>tl_observed := n\<rparr>) q = freq t q"
  by (simp add: freq_def cell_min_def cell_index_def col_def in_door_def door_bit_def)

lemma tiny_wf_aged:
  assumes "tiny_wf u" "tl_observed u + 1 \<ge> tl_sample_accesses u"
  shows "tiny_wf (u\<lparr>tl_counters := map (\<lambda>c. c div 2) (tl_counters u),
            tl_doorkeeper := map (\<lambda>_. 0) (tl_doorkeeper u), tl_observed := (tl_observed u + 1) div 2\<rparr>)"
    (is "tiny_wf ?v")
  using assms by (auto simp: tiny_wf_def SKETCH_COUNTER_MAX_def intro: order_trans [OF div_le_dividend])

lemma freq_aged:
  assumes "tiny_wf u"
  shows "freq (u\<lparr>tl_counters := map (\<lambda>c. c div 2) (tl_counters u),
            tl_doorkeeper := map (\<lambda>_. 0) (tl_doorkeeper u), tl_observed := n\<rparr>) q = cell_min u q div 2"
    (is "freq ?v q = _")
proof -
  have cells: "tl_counters ?v ! cell_index ?v q row = (tl_counters u ! cell_index u q row) div 2"
    if "row < tl_depth u" for row
    using cell_index_less [OF assms that, of q] by (simp add: cell_index_def col_def)
  have depth: "0 < tl_depth u" using assms by (simp add: tiny_wf_def)
  have "cell_min ?v q = Min ((\<lambda>c. c div 2) ` (\<lambda>row. tl_counters u ! cell_index u q row) ` {..<tl_depth u})"
    unfolding cell_min_def image_image using cells by (intro arg_cong [of _ _ Min] image_cong) auto
  also have "\<dots> = cell_min u q div 2"
    unfolding cell_min_def using depth
    by (intro mono_Min_commute [symmetric]) (auto intro!: monoI div_le_mono simp: lessThan_empty_iff)
  finally have "cell_min ?v q = cell_min u q div 2" .
  moreover have "\<not> in_door ?v q"
    using depth door_index_less [OF assms, of q 0]
    by (auto simp: in_door_def door_bit_def col_def intro!: exI [of _ 0])
  ultimately show ?thesis by (simp add: freq_def)
qed

lemma observe_total:
  assumes "tiny_wf t"
  obtains t' where "observe t page = Ok t'" "tiny_wf t'" "tl_depth t' = tl_depth t"
    "tl_width t' = tl_width t" "tl_sample_accesses t' = tl_sample_accesses t"
proof -
  obtain u where u: "observe_unaged t page = Ok u" "tiny_wf u" "tl_observed u = tl_observed t"
    "tl_sample_accesses u = tl_sample_accesses t" "tl_depth u = tl_depth t" "tl_width u = tl_width t"
    using observe_unaged_ok [OF assms, of page] by metis
  have b: "tl_observed u + 1 \<le> u64_max" using u(2) by (simp add: tiny_wf_def)
  show ?thesis
  proof (cases "tl_observed u + 1 \<ge> tl_sample_accesses u")
    case True
    with u b tiny_wf_aged [OF u(2) True] show ?thesis
      by (intro that) (simp add: observe_alt, simp_all)
  next
    case False
    moreover have "tiny_wf (u\<lparr>tl_observed := Suc (tl_observed u)\<rparr>)"
      using u(2) False by (simp add: tiny_wf_def)
    ultimately show ?thesis using u b
      by (intro that) (simp add: observe_alt, simp_all)
  qed
qed

lemma observe_counts:
  assumes "tiny_wf t" "tl_observed t + 1 < tl_sample_accesses t"
  obtains t' where "observe t page = Ok t'" "tiny_wf t'" "tl_observed t' = tl_observed t + 1"
    "tl_sample_accesses t' = tl_sample_accesses t"
    "freq t' page = min (freq t page + 1) 16" "\<And>q. freq t q \<le> freq t' q"
proof -
  obtain u where u: "observe_unaged t page = Ok u" "tiny_wf u" "tl_observed u = tl_observed t"
    "tl_sample_accesses u = tl_sample_accesses t"
    "freq u page = min (freq t page + 1) 16" "\<And>q. freq t q \<le> freq u q"
    using observe_unaged_ok [OF assms(1), of page] by metis
  have "tl_observed u + 1 \<le> u64_max" using u(2) by (simp add: tiny_wf_def)
  then have "observe t page = Ok (u\<lparr>tl_observed := tl_observed u + 1\<rparr>)"
    using u assms(2) by (simp add: observe_alt)
  moreover have "tiny_wf (u\<lparr>tl_observed := tl_observed u + 1\<rparr>)"
    using u assms(2) by (simp add: tiny_wf_def)
  ultimately show ?thesis using that u by simp
qed

lemma tiny_new_wf:
  assumes "tiny_new config = Ok t" "tc_sample_accesses config \<le> u64_max"
  shows "tiny_wf t" "tl_observed t = 0" "tl_sample_accesses t = tc_sample_accesses config"
  using assms by (auto simp: tiny_new_def tiny_wf_def)

lemma observe_sequence:
  assumes "tiny_wf t" "tl_observed t + length ps < tl_sample_accesses t"
  shows "\<exists>t'. rfold (\<lambda>p t. observe t p) ps t = Ok t' \<and> tiny_wf t'
     \<and> (\<forall>q. min (freq t q + count_list ps q) 16 \<le> freq t' q)"
  using assms
proof (induction ps arbitrary: t)
  case Nil
  then show ?case by simp
next
  case (Cons p ps)
  obtain u where u: "observe t p = Ok u" "tiny_wf u" "tl_observed u = tl_observed t + 1"
    "tl_sample_accesses u = tl_sample_accesses t"
    "freq u p = min (freq t p + 1) 16" "\<And>q. freq t q \<le> freq u q"
    using observe_counts [OF Cons.prems(1), of p] Cons.prems(2) by auto
  obtain t' where t': "rfold (\<lambda>p t. observe t p) ps u = Ok t'" "tiny_wf t'"
    "\<And>q. min (freq u q + count_list ps q) 16 \<le> freq t' q"
    using Cons.IH [OF u(2)] u Cons.prems(2) by auto
  have "min (freq t q + count_list (p # ps) q) 16 \<le> freq t' q" for q
    using t'(3) [of q] u(5) u(6) [of q] by (cases "p = q") auto
  with u(1) t' show ?case by auto
qed

end
