(* ===== verification/Sim_Policy.thy ===== *)
theory Sim_Policy
  imports Sim_TinyLfu
begin

text \<open>
  The online cache policies (\<^verbatim>\<open>crates/runnel-sim/src/policy/mod.rs\<close>): segment bookkeeping of LRU and
  segmented LRU, TinyLFU and router admission, router-signal metadata, and the victim plans for demand
  loads and for prefetch groups. \<^verbatim>\<open>PolicyStateKind\<close> is the datatype \<open>policy_state\<close> (the struct
  \<^verbatim>\<open>PolicyState\<close> only wraps it). The sort keys of the victim plans look pages up in the catalog, which
  indexes; they are computed for every entry before sorting.

  \<^verbatim>\<open>rebalance_protected\<close> is a \<^verbatim>\<open>loop\<close>: the model carries a bound on its iterations, and
  running into the bound is a panic. \<open>on_hit\<close> supplies one iteration more than there are residents, and
  \<open>rebalance_ok\<close> shows that this never runs out.
\<close>

section \<open>State\<close>

definition PPM :: u64 where "PPM = 1000000"
definition ROUTER_SIGNAL_BASE_BYTES :: u64 where "ROUTER_SIGNAL_BASE_BYTES = 24"
definition ROUTER_PREDICTION_BYTES :: u64 where "ROUTER_PREDICTION_BYTES = 8"

definition router_signal_metadata_bytes :: "usize \<Rightarrow> (sim_error, u64) result" where
  "router_signal_metadata_bytes prediction_count =
     rbind (ok_or (checked_mul prediction_count ROUTER_PREDICTION_BYTES)
              (CounterOverflow ''router prediction metadata'')) (\<lambda>bytes.
     ok_or (checked_add ROUTER_SIGNAL_BASE_BYTES bytes) (CounterOverflow ''router signal metadata''))"

datatype segment = Seg_Lru | Seg_Probation | Seg_Protected

record resident_entry =
  re_page :: page_id
  re_charge_bytes :: u64
  re_logical_bytes :: u64
  re_last_touch :: u64
  re_segment :: segment
  re_prefetched_unused :: bool

type_synonym residents = "(page_id, resident_entry) btree_map"

record demand_plan =
  dp_resident_bytes :: u64
  dp_capacity_bytes :: u64
  dp_candidate :: page_descriptor
  dp_request :: u64
  dp_step :: u64

record prefetch_plan =
  pp_resident_bytes :: u64
  pp_capacity_bytes :: u64
  pp_absent_pages :: "page_id list"
  pp_request :: u64
  pp_target_step :: u64
  pp_candidate_score :: u32

record active_signal =
  as_scores :: "(u32, u32) btree_map"

type_synonym request_signals = "(u64 \<times> u32, active_signal) btree_map"
type_synonym active_signals = "(u64, request_signals) btree_map"

record router_state =
  rs_protected_target :: u64
  rs_config :: router_policy_config
  rs_prefetch :: bool
  rs_active :: active_signals
  rs_current_metadata_bytes :: u64
  rs_peak_metadata_bytes :: u64
  rs_recorded_metadata_bytes :: u64
  rs_metadata_limit_bytes :: u64

datatype policy_state =
    Kind_NoCache
  | Kind_Lru
  | Kind_Slru u64
  | Kind_TinyLfu tiny_lfu
  | Kind_Router router_state

definition fraction_target :: "u64 \<Rightarrow> u32 \<Rightarrow> (sim_error, u64) result" where
  "fraction_target capacity_bytes fraction =
     (if fraction > 1000000 then fail (InvalidConfig ''protected_fraction_ppm exceeds one million'')
      else rbind (mul_u128 capacity_bytes fraction) (\<lambda>product.
        Ok ((product div PPM) mod 2 ^ 64)))"

definition router_new ::
  "bool \<Rightarrow> router_policy_config \<Rightarrow> u64 \<Rightarrow> u64 \<Rightarrow> (sim_error, policy_state) result" where
  "router_new prefetch config capacity_bytes limit =
     (if rc_minimum_score_ppm config > 1000000 then
        fail (InvalidConfig ''router minimum_score_ppm exceeds one million'')
      else if rc_max_experts_per_signal config = 0 \<or> rc_max_pages_per_signal config = 0 then
        fail (InvalidConfig ''router expert and page limits must be positive'')
      else rbind (fraction_target capacity_bytes (rc_protected_fraction_ppm config)) (\<lambda>target.
        Ok (Kind_Router \<lparr>rs_protected_target = target, rs_config = config, rs_prefetch = prefetch,
          rs_active = [], rs_current_metadata_bytes = 0, rs_peak_metadata_bytes = 0,
          rs_recorded_metadata_bytes = 0, rs_metadata_limit_bytes = limit\<rparr>)))"

fun policy_new :: "policy_spec \<Rightarrow> u64 \<Rightarrow> u64 \<Rightarrow> (sim_error, policy_state) result" where
  "policy_new Spec_NoCache capacity_bytes limit = Ok Kind_NoCache"
| "policy_new Spec_Lru capacity_bytes limit = Ok Kind_Lru"
| "policy_new (Spec_Slru fraction) capacity_bytes limit =
     rbind (fraction_target capacity_bytes fraction) (\<lambda>target. Ok (Kind_Slru target))"
| "policy_new (Spec_TinyLfu config) capacity_bytes limit =
     rbind (tiny_new config) (\<lambda>tiny. Ok (Kind_TinyLfu tiny))"
| "policy_new (Spec_RouterAdmit config) capacity_bytes limit = router_new False config capacity_bytes limit"
| "policy_new (Spec_RouterPrefetch config) capacity_bytes limit = router_new True config capacity_bytes limit"
| "policy_new Spec_Belady capacity_bytes limit =
     fail (InvalidConfig ''Belady does not use the online policy kernel'')"

section \<open>Observers\<close>

fun is_no_cache :: "policy_state \<Rightarrow> bool" where
  "is_no_cache Kind_NoCache = True"
| "is_no_cache _ = False"

fun prefetch_enabled :: "policy_state \<Rightarrow> bool" where
  "prefetch_enabled (Kind_Router r) = rs_prefetch r"
| "prefetch_enabled _ = False"

fun initial_segment :: "policy_state \<Rightarrow> segment" where
  "initial_segment (Kind_Slru _) = Seg_Probation"
| "initial_segment (Kind_Router _) = Seg_Probation"
| "initial_segment _ = Seg_Lru"

fun router_config :: "policy_state \<Rightarrow> router_policy_config option" where
  "router_config (Kind_Router r) = Some (rs_config r)"
| "router_config _ = None"

definition active_score :: "policy_state \<Rightarrow> u64 \<Rightarrow> u64 \<Rightarrow> page_descriptor \<Rightarrow> u32" where
  "active_score p request step page =
     (case p of
        Kind_Router r \<Rightarrow>
          (case pd_class page of
             Shared \<Rightarrow> 0
           | Expert layer expert _ \<Rightarrow>
               (case Option.bind (bt_get (rs_active r) request) (\<lambda>signals. bt_get signals (step, layer)) of
                  None \<Rightarrow> 0
                | Some signal \<Rightarrow> (case bt_get (as_scores signal) expert of None \<Rightarrow> 0 | Some score \<Rightarrow> score)))
      | _ \<Rightarrow> 0)"

section \<open>Signal metadata\<close>

fun observe_demand :: "policy_state \<Rightarrow> page_id \<Rightarrow> (sim_error, policy_state) result" where
  "observe_demand (Kind_TinyLfu tiny) page = rbind (observe tiny page) (\<lambda>tiny. Ok (Kind_TinyLfu tiny))"
| "observe_demand p page = Ok p"

definition retire_signal ::
  "request_signals \<Rightarrow> u64 \<times> u32 \<Rightarrow> u64 \<Rightarrow> (sim_error, u64) result" where
  "retire_signal signals key retired_bytes =
     rbind (or_panic (bt_get signals key) ''no entry found for key'') (\<lambda>signal.
     rbind (router_signal_metadata_bytes (length (as_scores signal))) (\<lambda>bytes.
     ok_or (checked_add retired_bytes bytes) (CounterOverflow ''retired router metadata'')))"

definition enter_demand_step :: "policy_state \<Rightarrow> u64 \<Rightarrow> u64 \<Rightarrow> (sim_error, policy_state) result" where
  "enter_demand_step p request step =
     (case p of
        Kind_Router r \<Rightarrow>
          (case bt_get (rs_active r) request of
             None \<Rightarrow> Ok p
           | Some signals \<Rightarrow>
               let retired = takeWhile (\<lambda>(target_step, _). target_step < step) (bt_keys signals) in
               rbind (rfold (retire_signal signals) retired 0) (\<lambda>retired_bytes.
               let signals = fold bt_remove retired signals;
                   active = (if signals = [] then bt_remove request (rs_active r)
                             else bt_insert request signals (rs_active r)) in
               rbind (ok_or (checked_sub (rs_current_metadata_bytes r) retired_bytes)
                        (InvalidConfig ''router metadata ledger underflow'')) (\<lambda>current.
               Ok (Kind_Router (r\<lparr>rs_active := active, rs_current_metadata_bytes := current\<rparr>)))))
      | _ \<Rightarrow> Ok p)"

definition collect_scores :: "expert_prediction list \<Rightarrow> (u32, u32) btree_map" where
  "collect_scores predictions =
     fold (\<lambda>prediction. bt_insert (ep_expert prediction) (ep_score_ppm prediction)) predictions []"

definition record_signal ::
  "policy_state \<Rightarrow> u64 \<Rightarrow> u64 \<Rightarrow> u32 \<Rightarrow> expert_prediction list \<Rightarrow> (sim_error, policy_state) result" where
  "record_signal p request target_step layer predictions =
     (if predictions = [] then Ok p
      else case p of
        Kind_Router r \<Rightarrow>
          let scores = collect_scores predictions;
              signals = (case bt_get (rs_active r) request of None \<Rightarrow> [] | Some signals \<Rightarrow> signals) in
          rbind (ensure (length scores = length predictions)
             (InvalidConfig ''router signal contains duplicate selected experts'')) (\<lambda>_.
          rbind (ensure (bt_get signals (target_step, layer) = None)
             (InvalidConfig ''router signal target was recorded more than once'')) (\<lambda>_.
          rbind (router_signal_metadata_bytes (length scores)) (\<lambda>charge.
          rbind (ok_or (checked_add (rs_current_metadata_bytes r) charge)
             (CounterOverflow ''current router metadata'')) (\<lambda>next_current.
          rbind (ok_or (checked_add (rs_recorded_metadata_bytes r) charge)
             (CounterOverflow ''recorded router metadata'')) (\<lambda>next_recorded.
          rbind (ensure (\<not> (next_current > rs_metadata_limit_bytes r \<or> next_recorded > rs_metadata_limit_bytes r))
             (InvalidConfig ''router metadata exceeded its precomputed ceiling'')) (\<lambda>_.
          Ok (Kind_Router (r\<lparr>
            rs_active := bt_insert request (bt_insert (target_step, layer) \<lparr>as_scores = scores\<rparr> signals) (rs_active r),
            rs_current_metadata_bytes := next_current,
            rs_peak_metadata_bytes := max (rs_peak_metadata_bytes r) next_current,
            rs_recorded_metadata_bytes := next_recorded\<rparr>))))))))
      | _ \<Rightarrow> Ok p)"

definition recompute_signal :: "active_signal \<Rightarrow> u64 \<Rightarrow> (sim_error, u64) result" where
  "recompute_signal signal recomputed =
     rbind (ensure (as_scores signal \<noteq> [])
        (InvalidConfig ''router metadata retained an empty signal'')) (\<lambda>_.
     rbind (router_signal_metadata_bytes (length (as_scores signal))) (\<lambda>bytes.
     ok_or (checked_add recomputed bytes) (CounterOverflow ''recomputed router metadata'')))"

definition recompute_request :: "request_signals \<Rightarrow> u64 \<Rightarrow> (sim_error, u64) result" where
  "recompute_request signals recomputed =
     rbind (ensure (signals \<noteq> [])
        (InvalidConfig ''router metadata retained an empty request map'')) (\<lambda>_.
     rfold recompute_signal (bt_values signals) recomputed)"

definition finish_metadata :: "policy_state \<Rightarrow> (sim_error, u64 \<times> u64) result" where
  "finish_metadata p =
     (case p of
        Kind_TinyLfu tiny \<Rightarrow> Ok (metadata_bytes tiny, metadata_bytes tiny)
      | Kind_Router r \<Rightarrow>
          rbind (rfold recompute_request (bt_values (rs_active r)) 0) (\<lambda>recomputed_current.
          rbind (ensure (recomputed_current = rs_current_metadata_bytes r)
             (InvalidConfig ''router metadata ledger does not match live state'')) (\<lambda>_.
          rbind (ensure (\<not> (rs_current_metadata_bytes r > rs_peak_metadata_bytes r
                          \<or> rs_peak_metadata_bytes r > rs_metadata_limit_bytes r))
             (InvalidConfig ''router metadata peak/ceiling accounting failed'')) (\<lambda>_.
          rbind (ensure (rs_recorded_metadata_bytes r = rs_metadata_limit_bytes r)
             (InvalidConfig ''router metadata did not consume its precomputed signal ceiling'')) (\<lambda>_.
          Ok (rs_peak_metadata_bytes r, rs_metadata_limit_bytes r)))))
      | _ \<Rightarrow> Ok (0, 0))"

section \<open>Hits\<close>

fun protected_target :: "policy_state \<Rightarrow> u64 option" where
  "protected_target (Kind_Slru target) = Some target"
| "protected_target (Kind_Router r) = Some (rs_protected_target r)"
| "protected_target _ = None"

definition protected_entries :: "residents \<Rightarrow> resident_entry list" where
  "protected_entries residents = filter (\<lambda>entry. re_segment entry = Seg_Protected) (bt_values residents)"

definition protected_bytes :: "residents \<Rightarrow> (sim_error, u64) result" where
  "protected_bytes residents =
     rfold (\<lambda>entry total. add_u64 total (re_charge_bytes entry)) (protected_entries residents) 0"

fun rebalance_protected :: "nat \<Rightarrow> u64 \<Rightarrow> u64 \<Rightarrow> residents \<Rightarrow> (sim_error, residents) result" where
  "rebalance_protected 0 target touch residents = panic ''rebalance_protected loop bound''"
| "rebalance_protected (Suc fuel) target touch residents =
     rbind (protected_bytes residents) (\<lambda>bytes.
     if bytes \<le> target then Ok residents
     else
       rbind (or_panic (min_by_key (\<lambda>entry. (re_last_touch entry, re_page entry)) (protected_entries residents))
                ''positive protected bytes imply an entry'') (\<lambda>victim.
       rbind (or_panic (bt_get residents (re_page victim)) ''selected resident'') (\<lambda>demoted.
       rebalance_protected fuel target touch
         (bt_insert (re_page victim) (demoted\<lparr>re_segment := Seg_Probation, re_last_touch := touch\<rparr>) residents))))"

definition on_hit :: "policy_state \<Rightarrow> residents \<Rightarrow> page_id \<Rightarrow> u64 \<Rightarrow> (sim_error, residents) result" where
  "on_hit p residents page touch =
     (case bt_get residents page of
        None \<Rightarrow> Ok residents
      | Some entry \<Rightarrow>
          let entry = entry\<lparr>re_last_touch := touch\<rparr> in
          (case protected_target p of
             None \<Rightarrow> Ok (bt_insert page entry residents)
           | Some target \<Rightarrow>
               if re_segment entry = Seg_Probation \<and> target > 0 \<and> re_charge_bytes entry \<le> target then
                 rebalance_protected (Suc (length residents)) target touch
                   (bt_insert page (entry\<lparr>re_segment := Seg_Protected\<rparr>) residents)
               else Ok (bt_insert page entry residents)))"

section \<open>Victim plans\<close>

definition segment_rank :: "policy_state \<Rightarrow> resident_entry \<Rightarrow> nat" where
  "segment_rank p entry =
     (case protected_target p of
        None \<Rightarrow> 0
      | Some _ \<Rightarrow> (case re_segment entry of Seg_Probation \<Rightarrow> 0 | Seg_Protected \<Rightarrow> 1 | Seg_Lru \<Rightarrow> 2))"

definition demand_sort_key ::
  "policy_state \<Rightarrow> page_catalog \<Rightarrow> u64 \<Rightarrow> u64 \<Rightarrow> resident_entry
    \<Rightarrow> (sim_error, nat \<times> u32 \<times> u64 \<times> page_id) result" where
  "demand_sort_key p c request step entry =
     rbind (catalog_page c (re_page entry)) (\<lambda>page.
     Ok (segment_rank p entry, active_score p request step page, re_last_touch entry, re_page entry))"

text \<open>\<^verbatim>\<open>sort_by_key\<close> with a key that may panic; the sort is stable.\<close>

definition sort_by_key ::
  "('a \<Rightarrow> (sim_error, 'k::linorder) result) \<Rightarrow> 'a list \<Rightarrow> (sim_error, 'a list) result" where
  "sort_by_key key xs =
     rbind (rmap (\<lambda>x. rbind (key x) (\<lambda>k. Ok (k, x))) xs) (\<lambda>kxs. Ok (map snd (sort_key fst kxs)))"

fun collect_victims ::
  "u64 \<Rightarrow> resident_entry list \<Rightarrow> u64 \<Rightarrow> (sim_error, page_id list \<times> u64) result" where
  "collect_victims needed [] bytes = Ok ([], bytes)"
| "collect_victims needed (entry # entries) bytes =
     rbind (ok_or (checked_add bytes (re_charge_bytes entry)) (CounterOverflow ''victim plan bytes'')) (\<lambda>bytes.
     if bytes \<ge> needed then Ok ([re_page entry], bytes)
     else rbind (collect_victims needed entries bytes) (\<lambda>(victims, bytes). Ok (re_page entry # victims, bytes)))"

definition victim_charge :: "residents \<Rightarrow> page_id list \<Rightarrow> string \<Rightarrow> (sim_error, u128) result" where
  "victim_charge residents victims name =
     rfold (\<lambda>page total.
       rbind (or_panic (bt_get residents page) ''no entry found for key'') (\<lambda>entry.
       ok_or (checked_add_u128 total (re_charge_bytes entry)) (CounterOverflow name))) victims 0"

definition admit_demand ::
  "policy_state \<Rightarrow> page_catalog \<Rightarrow> residents \<Rightarrow> page_descriptor \<Rightarrow> page_id list \<Rightarrow> u64 \<Rightarrow> u64
    \<Rightarrow> (sim_error, bool) result" where
  "admit_demand p c residents candidate victims request step =
     (case p of
        Kind_TinyLfu tiny \<Rightarrow>
          if victims = [] then Ok True
          else
            rbind (estimate tiny (pd_id candidate)) (\<lambda>candidate_frequency.
            rbind (victim_charge residents victims ''TinyLFU victim charge'') (\<lambda>charge.
            rbind (rfold (\<lambda>page total.
                     rbind (estimate tiny page) (\<lambda>frequency.
                     ok_or (checked_add_u128 total frequency) (CounterOverflow ''TinyLFU victim frequency'')))
                     victims 0) (\<lambda>victim_frequency.
            rbind (ok_or (checked_mul_u128 candidate_frequency charge)
                     (CounterOverflow ''TinyLFU candidate density'')) (\<lambda>lhs.
            rbind (ok_or (checked_mul_u128 victim_frequency (pd_charge_bytes candidate))
                     (CounterOverflow ''TinyLFU victim density'')) (\<lambda>rhs.
            Ok (lhs > rhs))))))
      | Kind_Router r \<Rightarrow>
          if rs_active r = [] then Ok True
          else
            let candidate_score = active_score p request step candidate in
            rbind (victim_charge residents victims ''router victim charge'') (\<lambda>charge.
            rbind (rfold (\<lambda>page total.
                     rbind (catalog_page c page) (\<lambda>descriptor.
                     ok_or (checked_add_u128 total (active_score p request step descriptor))
                       (CounterOverflow ''router victim score'')))
                     victims 0) (\<lambda>victim_score.
            if candidate_score = 0 \<and> victim_score = 0 then Ok True
            else
              rbind (ok_or (checked_mul_u128 candidate_score charge)
                       (CounterOverflow ''router candidate density'')) (\<lambda>lhs.
              rbind (ok_or (checked_mul_u128 victim_score (pd_charge_bytes candidate))
                       (CounterOverflow ''router victim density'')) (\<lambda>rhs.
              Ok (lhs > rhs)))))
      | _ \<Rightarrow> Ok True)"

definition plan_demand_victims ::
  "policy_state \<Rightarrow> page_catalog \<Rightarrow> residents \<Rightarrow> demand_plan \<Rightarrow> (sim_error, page_id list option) result" where
  "plan_demand_victims p c residents plan =
     (if pd_charge_bytes (dp_candidate plan) > dp_capacity_bytes plan \<or> is_no_cache p then Ok None
      else
        rbind (sub_u64 (dp_capacity_bytes plan) (dp_resident_bytes plan)) (\<lambda>available.
        if pd_charge_bytes (dp_candidate plan) \<le> available then Ok (Some [])
        else
          rbind (sub_u64 (pd_charge_bytes (dp_candidate plan)) available) (\<lambda>needed.
          rbind (sort_by_key (demand_sort_key p c (dp_request plan) (dp_step plan)) (bt_values residents)) (\<lambda>ordered.
          rbind (collect_victims needed ordered 0) (\<lambda>(victims, bytes).
          if bytes < needed then Ok None
          else
            rbind (admit_demand p c residents (dp_candidate plan) victims (dp_request plan) (dp_step plan)) (\<lambda>admit.
            if admit then Ok (Some victims) else Ok None))))))"

definition prefetch_sort_key ::
  "policy_state \<Rightarrow> page_catalog \<Rightarrow> u64 \<Rightarrow> u64 \<Rightarrow> resident_entry
    \<Rightarrow> (sim_error, u32 \<times> u64 \<times> page_id) result" where
  "prefetch_sort_key p c request target_step entry =
     rbind (catalog_page c (re_page entry)) (\<lambda>page.
     Ok (active_score p request target_step page, re_last_touch entry, re_page entry))"

fun collect_prefetch_victims ::
  "policy_state \<Rightarrow> page_catalog \<Rightarrow> u64 \<Rightarrow> u64 \<Rightarrow> u64 \<Rightarrow> resident_entry list \<Rightarrow> u64 \<Rightarrow> u128
    \<Rightarrow> (sim_error, page_id list \<times> u64 \<times> u128) result" where
  "collect_prefetch_victims p c request target_step needed [] bytes weighted = Ok ([], bytes, weighted)"
| "collect_prefetch_victims p c request target_step needed (entry # entries) bytes weighted =
     rbind (catalog_page c (re_page entry)) (\<lambda>page.
     let score = active_score p request target_step page in
     rbind (ok_or (checked_add bytes (re_charge_bytes entry)) (CounterOverflow ''prefetch victim bytes'')) (\<lambda>bytes.
     rbind (mul_u128 score (re_charge_bytes entry)) (\<lambda>product.
     rbind (ok_or (checked_add_u128 weighted product) (CounterOverflow ''prefetch victim score'')) (\<lambda>weighted.
     if bytes \<ge> needed then Ok ([re_page entry], bytes, weighted)
     else rbind (collect_prefetch_victims p c request target_step needed entries bytes weighted)
       (\<lambda>(victims, r). Ok (re_page entry # victims, r))))))"

definition plan_prefetch_victims ::
  "policy_state \<Rightarrow> page_catalog \<Rightarrow> residents \<Rightarrow> prefetch_plan \<Rightarrow> (sim_error, page_id list option) result" where
  "plan_prefetch_victims p c residents plan =
     rbind (rfold (\<lambda>page total.
              rbind (catalog_page c page) (\<lambda>descriptor.
              ok_or (checked_add total (pd_charge_bytes descriptor)) (CounterOverflow ''prefetch group charge'')))
              (pp_absent_pages plan) 0) (\<lambda>required.
     if required > pp_capacity_bytes plan then Ok None
     else
       rbind (sub_u64 (pp_capacity_bytes plan) (pp_resident_bytes plan)) (\<lambda>available.
       if required \<le> available then Ok (Some [])
       else
         rbind (sub_u64 required available) (\<lambda>needed.
         rbind (sort_by_key (prefetch_sort_key p c (pp_request plan) (pp_target_step plan))
                  (filter (\<lambda>entry. re_segment entry = Seg_Probation) (bt_values residents))) (\<lambda>probation.
         rbind (collect_prefetch_victims p c (pp_request plan) (pp_target_step plan) needed probation 0 0)
           (\<lambda>(victims, victim_bytes, weighted_victim_score).
         if victim_bytes < needed then Ok None
         else
           rbind (ok_or (checked_mul_u128 (pp_candidate_score plan) required)
                    (CounterOverflow ''prefetch candidate score'')) (\<lambda>candidate_value.
           if weighted_victim_score > 0 \<and> candidate_value \<le> weighted_victim_score then Ok None
           else Ok (Some victims)))))))"

end
