(* ===== verification/Sim_Policy_Inv.thy ===== *)
theory Sim_Policy_Inv
  imports Sim_Policy Sim_Trace
begin

text \<open>
  What the policy operations promise the kernel: the segment discipline of the residents, the router
  metadata ledger, and victim plans that name distinct residents and free enough bytes. Failures are
  limited to \<open>CounterOverflow\<close> (\<open>overflow\<close>), so none of the consistency errors and none of the panics of
  the source can happen on a well-formed catalog.
\<close>

section \<open>Residents\<close>

definition overflow :: "sim_error failure \<Rightarrow> bool" where
  "overflow e \<longleftrightarrow> (\<exists>name. e = Err (CounterOverflow name))"

lemma overflow_simps [simp]:
  "overflow (Err (CounterOverflow n))" "\<not> overflow (Panic s)" "\<not> overflow (Err (InvalidConfig s))"
  by (simp_all add: overflow_def)

definition charge_total :: "residents \<Rightarrow> nat" where
  "charge_total R = btotal (\<lambda>_ e. re_charge_bytes e) R"

definition protected_total :: "residents \<Rightarrow> nat" where
  "protected_total R = btotal (\<lambda>_ e. if re_segment e = Seg_Protected then re_charge_bytes e else 0) R"

definition entry_ok :: "page_catalog \<Rightarrow> page_id \<Rightarrow> resident_entry \<Rightarrow> bool" where
  "entry_ok c i e \<longleftrightarrow> re_page e = i \<and> i < length (ct_pages c)
     \<and> re_charge_bytes e = pd_charge_bytes (ct_pages c ! i)
     \<and> re_logical_bytes e = pd_logical_bytes (ct_pages c ! i)"

definition residents_ok :: "page_catalog \<Rightarrow> residents \<Rightarrow> bool" where
  "residents_ok c R \<longleftrightarrow> bt_wf R \<and> (\<forall>i e. bt_get R i = Some e \<longrightarrow> entry_ok c i e)"

text \<open>Segmented policies keep entries out of the plain segment and bound the protected bytes.\<close>

definition segments_ok :: "policy_state \<Rightarrow> residents \<Rightarrow> bool" where
  "segments_ok p R \<longleftrightarrow>
     (case protected_target p of
        None \<Rightarrow> (\<forall>i e. bt_get R i = Some e \<longrightarrow> re_segment e = Seg_Lru)
      | Some target \<Rightarrow> (\<forall>i e. bt_get R i = Some e \<longrightarrow> re_segment e \<noteq> Seg_Lru) \<and> protected_total R \<le> target)"

lemma residents_okD:
  "residents_ok c R \<Longrightarrow> bt_wf R"
  "residents_ok c R \<Longrightarrow> bt_get R i = Some e \<Longrightarrow> entry_ok c i e"
  by (auto simp: residents_ok_def)

lemma residents_ok_insert:
  "residents_ok c R \<Longrightarrow> entry_ok c i e \<Longrightarrow> residents_ok c (bt_insert i e R)"
  by (auto simp: residents_ok_def)

lemma residents_ok_remove: "residents_ok c R \<Longrightarrow> residents_ok c (bt_remove i R)"
  by (auto simp: residents_ok_def split: if_splits)

lemma catalog_page_ok:
  "wf_catalog h c \<Longrightarrow> i < length (ct_pages c) \<Longrightarrow> catalog_page c i = Ok (ct_pages c ! i)"
  by (simp add: catalog_page_def wf_catalog_def)

lemma protected_le_charge: "protected_total R \<le> charge_total R"
  unfolding protected_total_def charge_total_def by (rule total_mono) simp

lemma add_sum_ok:
  "acc + sum_list (map f xs) \<le> u64_max \<Longrightarrow>
     rfold (\<lambda>x total. add_u64 total (f x)) xs acc = Ok (acc + sum_list (map f xs))"
  by (induction xs arbitrary: acc) auto

lemma protected_total_eq: "protected_total R = sum_list (map re_charge_bytes (protected_entries R))"
  by (simp add: protected_entries_def total_filter_values protected_total_def cong: if_cong)

lemma protected_bytes_ok:
  assumes "charge_total R \<le> u64_max"
  shows "protected_bytes R = Ok (protected_total R)"
proof -
  have "protected_total R \<le> u64_max"
    using protected_le_charge assms by (rule order_trans)
  then show ?thesis
    unfolding protected_bytes_def protected_total_eq by (subst add_sum_ok) simp_all
qed

section \<open>Hits\<close>

definition protected_count :: "residents \<Rightarrow> nat" where
  "protected_count R = btotal (\<lambda>_ e. if re_segment e = Seg_Protected then 1 else 0) R"

lemma protected_entry:
  assumes "residents_ok c R" "e \<in> set (protected_entries R)"
  shows "bt_get R (re_page e) = Some e" "re_segment e = Seg_Protected"
proof -
  obtain i where i: "bt_get R i = Some e" "re_segment e = Seg_Protected"
    using assms by (auto simp: protected_entries_def in_set_bt_values residents_ok_def)
  moreover have "re_page e = i"
    using residents_okD(2) [OF assms(1) i(1)] by (simp add: entry_ok_def)
  ultimately show "bt_get R (re_page e) = Some e" "re_segment e = Seg_Protected" by simp_all
qed

definition demote :: "u64 \<Rightarrow> resident_entry \<Rightarrow> residents \<Rightarrow> residents" where
  "demote touch e R = bt_insert (re_page e) (e\<lparr>re_segment := Seg_Probation, re_last_touch := touch\<rparr>) R"

lemma demote_ok:
  assumes "residents_ok c R" "e \<in> set (protected_entries R)"
  shows "residents_ok c (demote touch e R)" "charge_total (demote touch e R) = charge_total R"
    and "protected_total (demote touch e R) + re_charge_bytes e = protected_total R"
    and "protected_count R = Suc (protected_count (demote touch e R))"
proof -
  note e = protected_entry [OF assms] and wf = residents_okD(1) [OF assms(1)]
  show "residents_ok c (demote touch e R)"
    unfolding demote_def using residents_okD(2) [OF assms(1) e(1)]
    by (intro residents_ok_insert assms(1)) (simp add: entry_ok_def)
  show "charge_total (demote touch e R) = charge_total R"
    unfolding charge_total_def demote_def
    using bt_total_replace [OF wf e(1), of "\<lambda>_ e. re_charge_bytes e"
        "e\<lparr>re_segment := Seg_Probation, re_last_touch := touch\<rparr>"] by simp
  show "protected_total (demote touch e R) + re_charge_bytes e = protected_total R"
    unfolding protected_total_def demote_def
    using bt_total_replace [OF wf e(1), of "\<lambda>_ e. if re_segment e = Seg_Protected then re_charge_bytes e else 0"
        "e\<lparr>re_segment := Seg_Probation, re_last_touch := touch\<rparr>"] e(2) by simp
  show "protected_count R = Suc (protected_count (demote touch e R))"
    unfolding protected_count_def demote_def
    using bt_total_replace [OF wf e(1), of "\<lambda>_ e. if re_segment e = Seg_Protected then 1 else 0"
        "e\<lparr>re_segment := Seg_Probation, re_last_touch := touch\<rparr>"] e(2) by simp
qed

text \<open>The relation between the residents before and after: same pages, only segment and touch differ.\<close>

definition entry_core :: "resident_entry \<Rightarrow> u64 \<times> bool \<times> bool" where
  "entry_core e = (re_logical_bytes e, re_prefetched_unused e, re_segment e = Seg_Lru)"

definition same_pages :: "residents \<Rightarrow> residents \<Rightarrow> bool" where
  "same_pages R R' \<longleftrightarrow> (\<forall>i. map_option entry_core (bt_get R' i) = map_option entry_core (bt_get R i))"

lemma same_pages_refl [simp]: "same_pages R R"
  by (simp add: same_pages_def)

lemma same_pages_trans: "same_pages R R' \<Longrightarrow> same_pages R' R'' \<Longrightarrow> same_pages R R''"
  by (simp add: same_pages_def)

lemma same_pages_insert:
  "bt_wf R \<Longrightarrow> bt_get R i = Some e \<Longrightarrow> entry_core e' = entry_core e \<Longrightarrow> same_pages R (bt_insert i e' R)"
  by (simp add: same_pages_def)

lemma same_pages_get:
  "same_pages R R' \<Longrightarrow> bt_get R' i = Some e' \<Longrightarrow> \<exists>e. bt_get R i = Some e \<and> entry_core e' = entry_core e"
  unfolding same_pages_def by (drule spec [of _ i], cases "bt_get R i") simp_all

lemma same_pages_None: "same_pages R R' \<Longrightarrow> bt_get R' i = None \<longleftrightarrow> bt_get R i = None"
  unfolding same_pages_def by (metis map_option_is_None)

lemma same_pages_dom: "same_pages R R' \<Longrightarrow> dom (bt_get R') = dom (bt_get R)"
  by (simp add: dom_def same_pages_None)

lemma same_pages_total:
  assumes "same_pages R R'" "bt_wf R" "bt_wf R'"
  shows "btotal (\<lambda>_ e. f (entry_core e)) R' = btotal (\<lambda>_ e. f (entry_core e)) R"
proof -
  have "f (entry_core (the (bt_get R' i))) = f (entry_core (the (bt_get R i)))" if i: "i \<in> dom (bt_get R)" for i
  proof -
    obtain e' where "bt_get R' i = Some e'"
      using i same_pages_None [OF assms(1), of i] by (cases "bt_get R' i") auto
    with same_pages_get [OF assms(1) this] show ?thesis by auto
  qed
  then show ?thesis
    using bt.total_eq_sum [OF assms(2), of "\<lambda>_ e. f (entry_core e)"]
      bt.total_eq_sum [OF assms(3), of "\<lambda>_ e. f (entry_core e)"] same_pages_dom [OF assms(1)]
    by simp
qed

lemma rebalance_ok:
  assumes "residents_ok c R" "charge_total R \<le> u64_max" "protected_count R < fuel"
  shows "\<exists>R'. rebalance_protected fuel target touch R = Ok R' \<and> residents_ok c R' \<and> same_pages R R'
     \<and> charge_total R' = charge_total R \<and> protected_total R' \<le> target"
  using assms
proof (induction fuel arbitrary: R)
  case (Suc fuel)
  show ?case
  proof (cases "protected_total R \<le> target")
    case True
    with Suc.prems show ?thesis by (simp add: protected_bytes_ok)
  next
    case False
    then have "protected_entries R \<noteq> []"
      by (auto simp: protected_total_eq)
    then obtain e where e: "min_by_key (\<lambda>entry. (re_last_touch entry, re_page entry)) (protected_entries R) = Some e"
      by (cases "min_by_key (\<lambda>entry. (re_last_touch entry, re_page entry)) (protected_entries R)") auto
    have mem: "e \<in> set (protected_entries R)" using min_by_key_Some [OF e] by simp
    note d = demote_ok [OF Suc.prems(1) mem, of touch] and g = protected_entry [OF Suc.prems(1) mem]
    obtain R' where R': "rebalance_protected fuel target touch (demote touch e R) = Ok R'" "residents_ok c R'"
      "same_pages (demote touch e R) R'" "charge_total R' = charge_total R" "protected_total R' \<le> target"
      using Suc.IH [OF d(1)] d(2,4) Suc.prems(2,3) by auto
    have "same_pages R (demote touch e R)"
      unfolding demote_def using residents_okD(1) [OF Suc.prems(1)] g
      by (intro same_pages_insert) (auto simp: entry_core_def)
    with R' False e g show ?thesis
      using Suc.prems(2) by (auto simp: protected_bytes_ok demote_def intro: same_pages_trans)
  qed
qed simp

lemma protected_count_le: "protected_count R \<le> length R"
proof -
  have "protected_count R \<le> btotal (\<lambda>_ _. Suc 0) R"
    unfolding protected_count_def by (rule total_mono) simp
  then show ?thesis by (simp add: total_one)
qed

lemma segments_ok_same:
  assumes "segments_ok p R" "same_pages R R'"
    "\<And>target. protected_target p = Some target \<Longrightarrow> protected_total R' \<le> target"
  shows "segments_ok p R'"
proof -
  have get: "\<exists>e. bt_get R i = Some e \<and> (re_segment e' = Seg_Lru \<longleftrightarrow> re_segment e = Seg_Lru)"
    if "bt_get R' i = Some e'" for i e'
    using same_pages_get [OF assms(2) that] by (auto simp: entry_core_def)
  show ?thesis
  proof (cases "protected_target p")
    case None
    with assms(1) get show ?thesis by (simp add: segments_ok_def) metis
  next
    case (Some target)
    with assms(1,3) get show ?thesis by (simp add: segments_ok_def) metis
  qed
qed

lemma replace_totals:
  assumes "bt_wf R" "bt_get R i = Some e" "re_charge_bytes e' = re_charge_bytes e"
  shows "charge_total (bt_insert i e' R) = charge_total R"
    and "re_segment e' = re_segment e \<Longrightarrow> protected_total (bt_insert i e' R) = protected_total R"
  using bt_total_replace [OF assms(1,2), of "\<lambda>_ e. re_charge_bytes e" e'] assms(3)
    bt_total_replace [OF assms(1,2), of "\<lambda>_ e. if re_segment e = Seg_Protected then re_charge_bytes e else 0" e']
  by (auto simp: charge_total_def protected_total_def split: if_splits)

lemma on_hit_ok:
  assumes "residents_ok c R" "charge_total R \<le> u64_max" "segments_ok p R" "bt_get R page = Some e"
  shows "\<exists>R'. on_hit p R page touch = Ok R' \<and> residents_ok c R' \<and> same_pages R R'
     \<and> charge_total R' = charge_total R \<and> segments_ok p R'"
proof -
  note wf = residents_okD(1) [OF assms(1)] and eok = residents_okD(2) [OF assms(1,4)]
  let ?t = "e\<lparr>re_last_touch := touch\<rparr>"
  have touched: "residents_ok c (bt_insert page ?t R)" "same_pages R (bt_insert page ?t R)"
    using assms eok wf by (auto intro!: residents_ok_insert same_pages_insert simp: entry_ok_def entry_core_def)
  have segs: "segments_ok p (bt_insert page ?t R)"
    using replace_totals(2) [OF wf assms(4), of ?t] assms(3)
    by (intro segments_ok_same [OF assms(3) touched(2)]) (simp add: segments_ok_def)
  have plain: ?thesis if "on_hit p R page touch = Ok (bt_insert page ?t R)"
    using that touched segs replace_totals(1) [OF wf assms(4), of ?t] by simp
  show ?thesis
  proof (cases "\<exists>target. protected_target p = Some target \<and> re_segment e = Seg_Probation
      \<and> target > 0 \<and> re_charge_bytes e \<le> target")
    case False
    then have "on_hit p R page touch = Ok (bt_insert page ?t R)"
      using assms(4) by (auto simp: on_hit_def Let_def split: option.splits)
    then show ?thesis by (rule plain)
  next
    case True
    then obtain target where t: "protected_target p = Some target" "re_segment e = Seg_Probation"
      "target > 0" "re_charge_bytes e \<le> target" by auto
    let ?p = "e\<lparr>re_last_touch := touch, re_segment := Seg_Protected\<rparr>"
    let ?R = "bt_insert page ?p R"
    have R: "residents_ok c ?R" "same_pages R ?R"
      using assms eok wf t(2)
      by (auto intro!: residents_ok_insert same_pages_insert simp: entry_ok_def entry_core_def)
    have ch: "charge_total ?R = charge_total R" using replace_totals(1) [OF wf assms(4), of ?p] by simp
    have "protected_count ?R < Suc (length R)"
      using protected_count_le [of ?R] length_bt_replace [OF wf assms(4), of ?p] by simp
    then obtain R' where R': "rebalance_protected (Suc (length R)) target touch ?R = Ok R'" "residents_ok c R'"
      "same_pages ?R R'" "charge_total R' = charge_total R" "protected_total R' \<le> target"
      using rebalance_ok [OF R(1), of "Suc (length R)" target touch] ch assms(2) by auto
    have "same_pages R R'" using R(2) R'(3) by (rule same_pages_trans)
    moreover from this have "segments_ok p R'"
      using R'(5) t(1) by (intro segments_ok_same [OF assms(3)]) auto
    moreover have "on_hit p R page touch = Ok R'"
      using assms(4) t R'(1) by (simp add: on_hit_def)
    ultimately show ?thesis using R' by auto
  qed
qed

section \<open>Router metadata\<close>

definition signal_cost :: "active_signal \<Rightarrow> nat" where
  "signal_cost sg = 24 + 8 * length (as_scores sg)"

definition signals_total :: "request_signals \<Rightarrow> nat" where
  "signals_total sigs = btotal (\<lambda>_. signal_cost) sigs"

definition active_total :: "active_signals \<Rightarrow> nat" where
  "active_total A = btotal (\<lambda>_. signals_total) A"

definition signals_ok :: "request_signals \<Rightarrow> bool" where
  "signals_ok sigs \<longleftrightarrow> bt_wf sigs \<and> (\<forall>k sg. bt_get sigs k = Some sg \<longrightarrow> as_scores sg \<noteq> []
     \<and> (\<forall>x s. bt_get (as_scores sg) x = Some s \<longrightarrow> s \<le> SCORE_SCALE_PPM))"

definition router_ok :: "router_state \<Rightarrow> bool" where
  "router_ok r \<longleftrightarrow> bt_wf (rs_active r)
     \<and> (\<forall>req sigs. bt_get (rs_active r) req = Some sigs \<longrightarrow> signals_ok sigs \<and> sigs \<noteq> [])
     \<and> rs_current_metadata_bytes r = active_total (rs_active r)
     \<and> rs_current_metadata_bytes r \<le> rs_peak_metadata_bytes r
     \<and> rs_peak_metadata_bytes r \<le> rs_recorded_metadata_bytes r
     \<and> rs_recorded_metadata_bytes r \<le> rs_metadata_limit_bytes r
     \<and> rs_metadata_limit_bytes r \<le> u64_max"

fun policy_ok :: "policy_state \<Rightarrow> bool" where
  "policy_ok (Kind_TinyLfu tiny) = tiny_wf tiny"
| "policy_ok (Kind_Router r) = router_ok r"
| "policy_ok _ = True"

text \<open>The signal a router policy holds for a target, and the metadata it may still record.\<close>

fun active_get :: "policy_state \<Rightarrow> u64 \<Rightarrow> u64 \<times> u32 \<Rightarrow> active_signal option" where
  "active_get (Kind_Router r) req key = Option.bind (bt_get (rs_active r) req) (\<lambda>sigs. bt_get sigs key)"
| "active_get _ req key = None"

fun unrecorded :: "policy_state \<Rightarrow> nat" where
  "unrecorded (Kind_Router r) = rs_metadata_limit_bytes r - rs_recorded_metadata_bytes r"
| "unrecorded _ = 0"

text \<open>What never changes about a policy during a replay.\<close>

definition policy_shape ::
  "policy_state \<Rightarrow> bool \<times> u64 option \<times> router_policy_config option \<times> bool \<times> nat list" where
  "policy_shape p = (is_no_cache p, protected_target p, router_config p, prefetch_enabled p,
     (case p of Kind_TinyLfu tiny \<Rightarrow> [tl_depth tiny, tl_width tiny, tl_sample_accesses tiny] | _ \<Rightarrow> []))"

lemma policy_shapeD:
  assumes "policy_shape p' = policy_shape p"
  shows "is_no_cache p' = is_no_cache p" "protected_target p' = protected_target p"
    "router_config p' = router_config p" "prefetch_enabled p' = prefetch_enabled p"
  using assms by (simp_all add: policy_shape_def)

lemma router_signal_metadata_bytes_eq:
  "signal_cost sg \<le> u64_max \<Longrightarrow> router_signal_metadata_bytes (length (as_scores sg)) = Ok (signal_cost sg)"
  by (simp add: router_signal_metadata_bytes_def signal_cost_def ROUTER_SIGNAL_BASE_BYTES_def
      ROUTER_PREDICTION_BYTES_def checked_mul_def checked_add_def mult.commute)

lemma takeWhile_eq_filter:
  assumes "sorted_wrt R xs" "\<And>x y. R x y \<Longrightarrow> P y \<Longrightarrow> P x"
  shows "takeWhile P xs = filter P xs"
  using assms(1)
proof (induction xs)
  case (Cons x xs)
  show ?case
  proof (cases "P x")
    case False
    with Cons.prems assms(2) have "filter P xs = []" by (auto simp: filter_empty_conv)
    with False show ?thesis by simp
  qed (use Cons in simp)
qed simp

lemma fold_bt_remove: "fold bt_remove ks m = filter (\<lambda>e. fst e \<notin> set ks) m"
proof (induction ks arbitrary: m)
  case (Cons k ks)
  then show ?case by (auto simp: bt_remove_def intro!: filter_cong)
qed simp

lemma bt_wf_filter: "bt_wf m \<Longrightarrow> bt_wf (filter P m)"
  by (induction m) (auto simp: bt_wf_Cons)

lemma bt_get_filter: "bt_wf m \<Longrightarrow> bt_get (filter (\<lambda>e. P (fst e)) m) k = (if P k then bt_get m k else None)"
  by (induction m) (auto simp: bt_wf_Cons bt_get_def)

lemma total_filter: "btotal f (filter P m) + btotal f (filter (\<lambda>e. \<not> P e) m) = btotal f m"
  by (induction m) auto

lemma retire_signals_ok:
  assumes "\<And>k sg. (k, sg) \<in> set es \<Longrightarrow> bt_get sigs k = Some sg" "acc + signals_total es \<le> u64_max"
  shows "rfold (retire_signal sigs) (map fst es) acc = Ok (acc + signals_total es)"
  using assms
proof (induction es arbitrary: acc)
  case (Cons e es)
  obtain k sg where e: "e = (k, sg)" by (cases e)
  have "retire_signal sigs k acc = Ok (acc + signal_cost sg)"
    using Cons.prems(1) [of k sg] Cons.prems(2) e
    by (simp add: retire_signal_def router_signal_metadata_bytes_eq signals_total_def checked_add_def)
  with Cons.IH [of "acc + signal_cost sg"] Cons.prems e show ?case
    by (simp add: signals_total_def add.assoc)
qed (simp add: signals_total_def)

lemma signals_ok_filter: "signals_ok sigs \<Longrightarrow> signals_ok (filter (\<lambda>e. P (fst e)) sigs)"
  by (auto simp: signals_ok_def bt_wf_filter bt_get_filter split: if_splits)

lemma signals_le_active:
  "router_ok r \<Longrightarrow> bt_get (rs_active r) req = Some sigs \<Longrightarrow> signals_total sigs \<le> active_total (rs_active r)"
  unfolding active_total_def by (rule bt_get_le_total) (simp_all add: router_ok_def)

lemma active_total_insert:
  "bt_wf A \<Longrightarrow> bt_get A req = Some sigs \<Longrightarrow>
     active_total (bt_insert req sigs' A) + signals_total sigs = active_total A + signals_total sigs'"
  unfolding active_total_def using bt_total_replace [of A req sigs "\<lambda>_. signals_total" sigs'] by simp

lemma active_total_remove:
  "bt_wf A \<Longrightarrow> bt_get A req = Some sigs \<Longrightarrow> active_total (bt_remove req A) + signals_total sigs = active_total A"
  unfolding active_total_def using bt_total_remove [of A req sigs "\<lambda>_. signals_total"] by simp

text \<open>Entering a demand step forgets exactly the request's signals for earlier steps.\<close>

lemma enter_demand_step_ok:
  assumes "policy_ok p"
  shows "\<exists>p'. enter_demand_step p req step = Ok p' \<and> policy_ok p' \<and> policy_shape p' = policy_shape p
     \<and> unrecorded p' = unrecorded p
     \<and> (\<forall>q k. active_get p' q k = (if q = req \<and> fst k < step then None else active_get p q k))"
proof (cases p)
  case (Kind_Router r)
  with assms have ok: "router_ok r" by simp
  show ?thesis
  proof (cases "bt_get (rs_active r) req")
    case None
    then show ?thesis using Kind_Router ok by (auto simp: enter_demand_step_def)
  next
    case (Some sigs)
    let ?old = "\<lambda>k :: u64 \<times> u32. fst k < step"
    let ?gone = "filter (\<lambda>e. ?old (fst e)) sigs" and ?kept = "filter (\<lambda>e. \<not> ?old (fst e)) sigs"
    let ?A = "if ?kept = [] then bt_remove req (rs_active r) else bt_insert req ?kept (rs_active r)"
    have sok: "signals_ok sigs" "bt_wf sigs" and wfA: "bt_wf (rs_active r)"
      using ok Some by (auto simp: router_ok_def signals_ok_def)
    have retired: "takeWhile (\<lambda>(t, _). t < step) (bt_keys sigs) = map fst ?gone"
    proof -
      have "takeWhile ?old (bt_keys sigs) = filter ?old (bt_keys sigs)"
        using sok(2) unfolding bt_wf_def bt_keys_def
        by (rule takeWhile_eq_filter) (auto simp: less_prod_def)
      then show ?thesis by (simp add: bt_keys_def filter_map comp_def case_prod_unfold)
    qed
    have split: "signals_total ?gone + signals_total ?kept = signals_total sigs"
      unfolding signals_total_def by (rule total_filter)
    have le: "signals_total sigs \<le> active_total (rs_active r)" "active_total (rs_active r) \<le> u64_max"
      using signals_le_active [OF ok Some] ok by (auto simp: router_ok_def)
    have "rfold (retire_signal sigs) (map fst ?gone) 0 = Ok (0 + signals_total ?gone)"
      using sok(2) split le by (intro retire_signals_ok) (auto simp: bt_in_iff)
    moreover have "fold bt_remove (map fst ?gone) sigs = ?kept"
      unfolding fold_bt_remove by (rule filter_cong) auto
    ultimately have run: "enter_demand_step p req step = Ok (Kind_Router
        (r\<lparr>rs_active := ?A, rs_current_metadata_bytes := rs_current_metadata_bytes r - signals_total ?gone\<rparr>))"
      (is "_ = Ok (Kind_Router ?r)")
      using Kind_Router Some retired split le ok
      by (simp add: enter_demand_step_def Let_def checked_sub_def router_ok_def del: fold_simps)
    have kept0: "signals_total ?kept = 0" if "?kept = []" using that by (simp add: signals_total_def)
    have total: "active_total ?A = active_total (rs_active r) - signals_total ?gone"
      using active_total_insert [OF wfA Some, of ?kept] active_total_remove [OF wfA Some] split le kept0
      by auto
    have "router_ok ?r"
      using ok wfA total signals_ok_filter [OF sok(1)] by (auto simp: router_ok_def split: if_splits)
    moreover have "active_get (Kind_Router ?r) q k = (if q = req \<and> fst k < step then None else active_get p q k)" for q k
    proof -
      have kept: "bt_get ?kept k = (if fst k < step then None else bt_get sigs k)"
        using bt_get_filter [OF sok(2), of "\<lambda>k. \<not> ?old k" k] by simp
      have "bt_get ?A q = (if q = req then if ?kept = [] then None else Some ?kept else bt_get (rs_active r) q)"
        using wfA by (cases "?kept = []") (simp_all del: filter_False filter_True)
      moreover have "Option.bind (if ?kept = [] then None else Some ?kept) (\<lambda>s. bt_get s k) = bt_get ?kept k"
        by (cases "?kept = []") (simp_all only: if_True if_False bind.simps bt_get_Nil simp_thms)
      ultimately show ?thesis
        using Kind_Router Some kept by (cases "q = req") simp_all
    qed
    ultimately show ?thesis using run Kind_Router by (auto simp: policy_shape_def simp del: active_get.simps)
  qed
qed (use assms in \<open>auto simp: enter_demand_step_def\<close>)

lemma observe_demand_ok:
  assumes "policy_ok p"
  shows "\<exists>p'. observe_demand p page = Ok p' \<and> policy_ok p' \<and> policy_shape p' = policy_shape p
     \<and> unrecorded p' = unrecorded p \<and> (\<forall>q k. active_get p' q k = active_get p q k)"
proof (cases p)
  case (Kind_TinyLfu tiny)
  with assms have "tiny_wf tiny" by simp
  then obtain tiny' where "observe tiny page = Ok tiny'" "tiny_wf tiny'" "tl_depth tiny' = tl_depth tiny"
    "tl_width tiny' = tl_width tiny" "tl_sample_accesses tiny' = tl_sample_accesses tiny"
    by (rule observe_total)
  with Kind_TinyLfu show ?thesis by (intro exI [of _ "Kind_TinyLfu tiny'"]) (simp add: policy_shape_def)
qed (use assms in auto)

lemma bt_insert_not_Nil: "bt_insert k v m \<noteq> []"
  by (induction k v m rule: bt_insert.induct) auto

lemma collect_scores_ok:
  assumes "distinct (map ep_expert ps)"
  shows "bt_wf (collect_scores ps)" "length (collect_scores ps) = length ps"
    and "bt_get (collect_scores ps) x = Some s \<longleftrightarrow> (\<exists>q\<in>set ps. ep_expert q = x \<and> ep_score_ppm q = s)"
proof -
  have "bt_wf (collect_scores ps) \<and> length (collect_scores ps) = length ps
    \<and> (\<forall>x s. bt_get (collect_scores ps) x = Some s \<longleftrightarrow> (\<exists>q\<in>set ps. ep_expert q = x \<and> ep_score_ppm q = s))"
    using assms
  proof (induction ps rule: rev_induct)
    case (snoc q ps)
    let ?m = "collect_scores ps"
    have IH: "bt_wf ?m" "length ?m = length ps"
      "\<And>x s. bt_get ?m x = Some s \<longleftrightarrow> (\<exists>q\<in>set ps. ep_expert q = x \<and> ep_score_ppm q = s)"
      using snoc by auto
    have new: "bt_get ?m (ep_expert q) = None"
    proof (cases "bt_get ?m (ep_expert q)")
      case (Some s)
      then obtain q' where "q' \<in> set ps" "ep_expert q' = ep_expert q" using IH(3) by blast
      then have "ep_expert q \<in> ep_expert ` set ps" by (metis imageI)
      with snoc.prems show ?thesis by simp
    qed simp
    have "collect_scores (ps @ [q]) = bt_insert (ep_expert q) (ep_score_ppm q) ?m"
      by (simp add: collect_scores_def)
    with IH length_bt_insert_new [OF IH(1) new] snoc.prems show ?case by (auto simp: image_iff)
  qed (simp add: collect_scores_def)
  then show "bt_wf (collect_scores ps)" "length (collect_scores ps) = length ps"
    "bt_get (collect_scores ps) x = Some s \<longleftrightarrow> (\<exists>q\<in>set ps. ep_expert q = x \<and> ep_score_ppm q = s)"
    by auto
qed

lemma active_total_new:
  assumes "bt_wf A" "(case bt_get A req of None \<Rightarrow> sigs = [] | Some s \<Rightarrow> sigs = s)" "bt_wf sigs" "bt_get sigs k = None"
  shows "active_total (bt_insert req (bt_insert k sg sigs) A) = active_total A + signal_cost sg"
proof -
  have "signals_total (bt_insert k sg sigs) = signals_total sigs + signal_cost sg"
    unfolding signals_total_def using bt_total_insert_new [OF assms(3,4), of "\<lambda>_. signal_cost" sg] by simp
  then show ?thesis
    using assms(1,2) active_total_insert [OF assms(1), of req _ "bt_insert k sg sigs"]
      bt_total_insert_new [OF assms(1), of req "\<lambda>_. signals_total" "bt_insert k sg sigs"]
    by (cases "bt_get A req") (auto simp: active_total_def signals_total_def)
qed

text \<open>
  Recording a signal within the precomputed ceiling succeeds, charges its metadata, and adds the signal
  under its target.
\<close>

lemma record_signal_ok:
  assumes "policy_ok (Kind_Router r)" "ps \<noteq> []" "distinct (map ep_expert ps)"
    "\<And>q. q \<in> set ps \<Longrightarrow> ep_score_ppm q \<le> SCORE_SCALE_PPM"
    "active_get (Kind_Router r) req (step, layer) = None"
    "24 + 8 * length ps \<le> unrecorded (Kind_Router r)"
  shows "\<exists>r'. record_signal (Kind_Router r) req step layer ps = Ok (Kind_Router r') \<and> policy_ok (Kind_Router r')
     \<and> policy_shape (Kind_Router r') = policy_shape (Kind_Router r)
     \<and> unrecorded (Kind_Router r') + (24 + 8 * length ps) = unrecorded (Kind_Router r)
     \<and> (\<forall>q k. active_get (Kind_Router r') q k =
          (if q = req \<and> k = (step, layer) then Some \<lparr>as_scores = collect_scores ps\<rparr> else active_get (Kind_Router r) q k))"
proof -
  let ?sigs = "case bt_get (rs_active r) req of None \<Rightarrow> [] | Some s \<Rightarrow> s"
  let ?sg = "\<lparr>as_scores = collect_scores ps\<rparr>"
  let ?cost = "24 + 8 * length ps"
  note cs = collect_scores_ok [OF assms(3)]
  have ok: "router_ok r" using assms(1) by simp
  have wfA: "bt_wf (rs_active r)" and wfs: "signals_ok ?sigs" "bt_wf ?sigs"
    using ok by (auto simp: router_ok_def signals_ok_def split: option.splits)
  have fresh: "bt_get ?sigs (step, layer) = None"
    using assms(5) by (auto split: option.splits)
  have cost: "signal_cost ?sg = ?cost" by (simp add: signal_cost_def cs(2))
  have room: "rs_recorded_metadata_bytes r + ?cost \<le> rs_metadata_limit_bytes r"
    using assms(6) by simp
  have bounds: "rs_current_metadata_bytes r \<le> rs_recorded_metadata_bytes r" "rs_metadata_limit_bytes r \<le> u64_max"
    using ok by (auto simp: router_ok_def)
  have meta: "router_signal_metadata_bytes (length ps) = Ok ?cost"
    using router_signal_metadata_bytes_eq [of ?sg] room bounds by (simp add: cost cs(2))
  let ?r = "r\<lparr>rs_active := bt_insert req (bt_insert (step, layer) ?sg ?sigs) (rs_active r),
      rs_current_metadata_bytes := rs_current_metadata_bytes r + ?cost,
      rs_peak_metadata_bytes := max (rs_peak_metadata_bytes r) (rs_current_metadata_bytes r + ?cost),
      rs_recorded_metadata_bytes := rs_recorded_metadata_bytes r + ?cost\<rparr>"
  have run: "record_signal (Kind_Router r) req step layer ps = Ok (Kind_Router ?r)"
    using assms(2) fresh room bounds
    by (simp add: record_signal_def Let_def cs(2) meta checked_add_def ensure_def)
  have "active_total (rs_active ?r) = active_total (rs_active r) + ?cost"
    using active_total_new [OF wfA _ wfs(2) fresh, of req ?sg] cost by (simp split: option.splits)
  moreover have "signals_ok (bt_insert (step, layer) ?sg ?sigs)"
    using wfs cs assms(2,4) by (auto simp: signals_ok_def)
  moreover have "bt_insert (step, layer) ?sg ?sigs \<noteq> []"
    by (rule bt_insert_not_Nil)
  ultimately have "router_ok ?r"
    using ok room wfA by (auto simp: router_ok_def)
  moreover have "active_get (Kind_Router ?r) q k =
      (if q = req \<and> k = (step, layer) then Some ?sg else active_get (Kind_Router r) q k)" for q k
    using wfA wfs(2) by (auto split: option.splits)
  ultimately show ?thesis using run room by (auto simp: policy_shape_def)
qed

lemma recompute_signals_ok:
  assumes "\<And>sg. sg \<in> set sgs \<Longrightarrow> as_scores sg \<noteq> []" "acc + sum_list (map signal_cost sgs) \<le> u64_max"
  shows "rfold recompute_signal sgs acc = Ok (acc + sum_list (map signal_cost sgs))"
  using assms
proof (induction sgs arbitrary: acc)
  case (Cons sg sgs)
  have "recompute_signal sg acc = Ok (acc + signal_cost sg)"
    using Cons.prems by (simp add: recompute_signal_def router_signal_metadata_bytes_eq checked_add_def ensure_def)
  with Cons.IH [of "acc + signal_cost sg"] Cons.prems show ?case by (simp add: add.assoc)
qed simp

lemma recompute_requests_ok:
  assumes "\<And>sigs. sigs \<in> set ss \<Longrightarrow> signals_ok sigs \<and> sigs \<noteq> []" "acc + sum_list (map signals_total ss) \<le> u64_max"
  shows "rfold recompute_request ss acc = Ok (acc + sum_list (map signals_total ss))"
  using assms
proof (induction ss arbitrary: acc)
  case (Cons sigs ss)
  have "signals_ok sigs" "sigs \<noteq> []" using Cons.prems(1) by auto
  have st: "signals_total sigs = sum_list (map signal_cost (bt_values sigs))"
    by (simp add: signals_total_def total_values)
  have "rfold recompute_signal (bt_values sigs) acc = Ok (acc + signals_total sigs)"
    unfolding st using \<open>signals_ok sigs\<close> Cons.prems(2)
    by (intro recompute_signals_ok) (auto simp: signals_ok_def in_set_bt_values st)
  then have "recompute_request sigs acc = Ok (acc + signals_total sigs)"
    using \<open>sigs \<noteq> []\<close> by (simp add: recompute_request_def)
  with Cons.IH [of "acc + signals_total sigs"] Cons.prems show ?case by (simp add: add.assoc)
qed simp

fun metadata_result :: "policy_state \<Rightarrow> u64 \<times> u64" where
  "metadata_result (Kind_TinyLfu tiny) = (metadata_bytes tiny, metadata_bytes tiny)"
| "metadata_result (Kind_Router r) = (rs_peak_metadata_bytes r, rs_metadata_limit_bytes r)"
| "metadata_result _ = (0, 0)"

lemma finish_metadata_ok:
  assumes "policy_ok p" "unrecorded p = 0"
  shows "finish_metadata p = Ok (metadata_result p)"
proof (cases p)
  case (Kind_Router r)
  with assms(1) have ok: "router_ok r" by simp
  have t: "active_total (rs_active r) = sum_list (map signals_total (bt_values (rs_active r)))"
    by (simp add: active_total_def total_values)
  have "rfold recompute_request (bt_values (rs_active r)) 0 = Ok (active_total (rs_active r))"
    unfolding t using ok
    by (subst recompute_requests_ok) (auto simp: router_ok_def in_set_bt_values t)
  with Kind_Router ok assms(2) show ?thesis
    by (auto simp: finish_metadata_def router_ok_def ensure_def)
qed (use assms in \<open>auto simp: finish_metadata_def\<close>)

lemma active_score_le:
  assumes "policy_ok p"
  shows "active_score p req step page \<le> SCORE_SCALE_PPM"
proof (cases p)
  case (Kind_Router r)
  with assms have ok: "router_ok r" by simp
  show ?thesis
    using Kind_Router ok
    by (auto simp: active_score_def router_ok_def signals_ok_def bind_eq_Some_conv split: page_class.splits option.splits)
qed (auto simp: active_score_def)

section \<open>Victim plans\<close>

lemma sum_list_insort:
  fixes f :: "'a \<Rightarrow> nat"
  shows "sum_list (map f (insort_key g x xs)) = f x + sum_list (map f xs)"
  by (induction xs) auto

lemma sum_list_sort:
  fixes f :: "'a \<Rightarrow> nat"
  shows "sum_list (map f (sort_key g xs)) = sum_list (map f xs)"
  by (induction xs) (auto simp: sum_list_insort)

lemma insort_keyed: "insort_key fst (g x, x) (map (\<lambda>y. (g y, y)) ys) = map (\<lambda>y. (g y, y)) (insort_key g x ys)"
  by (induction ys) auto

lemma sort_keyed: "sort_key fst (map (\<lambda>y. (g y, y)) xs) = map (\<lambda>y. (g y, y)) (sort_key g xs)"
  by (induction xs) (auto simp: insort_keyed)

lemma sort_by_key_pure:
  assumes "\<And>x. x \<in> set xs \<Longrightarrow> key x = Ok (g x)"
  shows "sort_by_key key xs = Ok (sort_key g xs)"
proof -
  have "rmap (\<lambda>x. rbind (key x) (\<lambda>k. Ok (k, x))) xs = Ok (map (\<lambda>x. (g x, x)) xs)"
    using assms by (intro rmap_pure) simp
  then show ?thesis by (simp add: sort_by_key_def sort_keyed comp_def)
qed

lemma charge_total_values: "charge_total R = sum_list (map re_charge_bytes (bt_values R))"
  by (simp add: charge_total_def total_values)

lemma pages_of_values: "residents_ok c R \<Longrightarrow> map re_page (bt_values R) = bt_keys R"
  unfolding bt_values_def bt_keys_def
  by (auto simp: residents_ok_def bt_in_iff [symmetric] entry_ok_def)

definition freed :: "residents \<Rightarrow> page_id list \<Rightarrow> nat" where
  "freed R vs = sum_list (map (\<lambda>i. re_charge_bytes (the (bt_get R i))) vs)"

text \<open>A selection of residents in the order of some sort: distinct pages whose bytes are their entries'.\<close>

definition selects :: "residents \<Rightarrow> resident_entry list \<Rightarrow> bool" where
  "selects R es \<longleftrightarrow> distinct (map re_page es) \<and> (\<forall>e\<in>set es. bt_get R (re_page e) = Some e)"

lemma selects_values: "residents_ok c R \<Longrightarrow> selects R (bt_values R)"
  unfolding selects_def
  using pages_of_values [of c R] distinct_bt_keys [of R]
  by (auto simp: residents_ok_def in_set_bt_values entry_ok_def)

lemma selects_filter: "selects R es \<Longrightarrow> selects R (filter P es)"
  by (auto simp: selects_def distinct_map_filter)

lemma selects_sort: "selects R es \<Longrightarrow> selects R (sort_key g es)"
  by (auto simp: selects_def distinct_map)

lemma selects_take: "selects R es \<Longrightarrow> selects R (take n es)"
  by (auto simp: selects_def take_map [symmetric] distinct_take dest: in_set_takeD)

lemma selects_victims:
  assumes "selects R es"
  shows "distinct (map re_page es)" "set (map re_page es) \<subseteq> dom (bt_get R)"
    "freed R (map re_page es) = sum_list (map re_charge_bytes es)"
  using assms by (auto simp: selects_def freed_def comp_def intro!: arg_cong [of _ _ sum_list])

lemma selects_charge_le:
  assumes "residents_ok c R" "selects R es"
  shows "sum_list (map re_charge_bytes es) \<le> charge_total R"
  unfolding charge_total_values
proof (rule sum_list_mono_mset)
  show "distinct es" using assms(2) by (auto simp: selects_def distinct_map)
  show "set es \<subseteq> set (bt_values R)"
    using assms by (fastforce simp: selects_def in_set_bt_values residents_ok_def)
qed

text \<open>The victim loop takes the shortest prefix that frees enough, or everything.\<close>

lemma collect_victims_ok:
  assumes "bytes + sum_list (map re_charge_bytes es) \<le> u64_max" "bytes < needed"
  shows "\<exists>n\<le>length es. collect_victims needed es bytes =
      Ok (map re_page (take n es), bytes + sum_list (map re_charge_bytes (take n es)))
    \<and> (\<forall>m<n. bytes + sum_list (map re_charge_bytes (take m es)) < needed)
    \<and> (n < length es \<longrightarrow> needed \<le> bytes + sum_list (map re_charge_bytes (take n es)))"
  using assms
proof (induction es arbitrary: bytes)
  case (Cons e es)
  show ?case
  proof (cases "needed \<le> bytes + re_charge_bytes e")
    case True
    with Cons.prems show ?thesis
      by (intro exI [of _ 1]) (simp add: checked_add_def)
  next
    case False
    with Cons.IH [of "bytes + re_charge_bytes e"] Cons.prems obtain n where
      n: "n \<le> length es" "collect_victims needed es (bytes + re_charge_bytes e) =
        Ok (map re_page (take n es), bytes + re_charge_bytes e + sum_list (map re_charge_bytes (take n es)))"
      "\<And>m. m < n \<Longrightarrow> bytes + re_charge_bytes e + sum_list (map re_charge_bytes (take m es)) < needed"
      "n < length es \<Longrightarrow> needed \<le> bytes + re_charge_bytes e + sum_list (map re_charge_bytes (take n es))"
      by auto
    have "bytes + sum_list (map re_charge_bytes (take m (e # es))) < needed" if "m < Suc n" for m
      using that n(3) [of "m - 1"] Cons.prems(2) by (cases m) (auto simp: add.assoc)
    with n False Cons.prems show ?thesis
      by (intro exI [of _ "Suc n"]) (auto simp: checked_add_def add.assoc)
  qed
qed simp

lemma victim_charge_wp:
  assumes "set vs \<subseteq> dom (bt_get R)" "\<And>e. E (Err (CounterOverflow e))"
  shows "wp E (victim_charge R vs name) (\<lambda>_. True)"
  unfolding victim_charge_def using assms
  by (intro wp_rfold_inv) (auto simp: wp_ok_or wp_or_panic dom_def split: option.splits)

lemma admit_demand_wp:
  assumes "wf_catalog h c" "residents_ok c R" "policy_ok p" "set vs \<subseteq> dom (bt_get R)"
  shows "wp overflow (admit_demand p c R cand vs req step) (\<lambda>_. True)"
proof -
  have pages: "catalog_page c i = Ok (ct_pages c ! i)" if "i \<in> set vs" for i
    using that assms by (auto simp: residents_ok_def entry_ok_def intro!: catalog_page_ok)
  have charge: "wp overflow (victim_charge R vs name) (\<lambda>_. True)" for name
    using assms(4) by (intro victim_charge_wp) simp_all
  show ?thesis
  proof (cases p)
    case (Kind_TinyLfu tiny)
    with assms(3) have "\<And>i. estimate tiny i = Ok (freq tiny i)" by (simp add: estimate_freq)
    then have "wp overflow (rfold (\<lambda>page total. rbind (estimate tiny page) (\<lambda>frequency.
        ok_or (checked_add_u128 total frequency) (CounterOverflow ''TinyLFU victim frequency''))) vs 0) (\<lambda>_. True)"
      by (intro wp_rfold_inv) (auto simp: wp_ok_or split: option.splits)
    with Kind_TinyLfu charge \<open>\<And>i. estimate tiny i = Ok (freq tiny i)\<close> show ?thesis
      by (auto simp: admit_demand_def wp_ok_or split: option.splits intro!: wp_conseq [OF charge]
          elim!: wp_conseq)
  next
    case (Kind_Router r)
    have "wp overflow (rfold (\<lambda>page total. rbind (catalog_page c page) (\<lambda>descriptor.
        ok_or (checked_add_u128 total (active_score p req step descriptor)) (CounterOverflow ''router victim score''))) vs 0) (\<lambda>_. True)"
      by (intro wp_rfold_inv) (auto simp: wp_ok_or pages split: option.splits)
    with Kind_Router charge show ?thesis
      by (auto simp: admit_demand_def Let_def wp_ok_or split: option.splits intro!: wp_conseq [OF charge]
          elim!: wp_conseq)
  qed (simp_all add: admit_demand_def)
qed

text \<open>
  A usable plan names distinct residents, satisfies \<open>ok\<close> on each of them, and frees enough bytes for
  \<open>required\<close> more.
\<close>

definition frees_enough :: "residents \<Rightarrow> u64 \<Rightarrow> u64 \<Rightarrow> (resident_entry \<Rightarrow> bool) \<Rightarrow> page_id list \<Rightarrow> bool" where
  "frees_enough R capacity required ok vs \<longleftrightarrow> distinct vs \<and> set vs \<subseteq> dom (bt_get R)
     \<and> (\<forall>v\<in>set vs. ok (the (bt_get R v)))
     \<and> required + charge_total R \<le> capacity + freed R vs"

lemma selects_frees:
  assumes "selects R es" "\<And>e. e \<in> set es \<Longrightarrow> ok e"
    "required + charge_total R \<le> capacity + sum_list (map re_charge_bytes es)"
  shows "frees_enough R capacity required ok (map re_page es)"
  unfolding frees_enough_def using selects_victims [OF assms(1)] assms by (auto simp: selects_def)

lemma demand_sort_key_ok:
  assumes "wf_catalog h c" "residents_ok c R" "e \<in> set (bt_values R)"
  shows "demand_sort_key p c req step e = Ok (segment_rank p e,
     active_score p req step (ct_pages c ! re_page e), re_last_touch e, re_page e)"
  using assms by (auto simp: demand_sort_key_def residents_ok_def in_set_bt_values entry_ok_def catalog_page_ok)

definition demand_order :: "policy_state \<Rightarrow> page_catalog \<Rightarrow> residents \<Rightarrow> u64 \<Rightarrow> u64 \<Rightarrow> resident_entry list" where
  "demand_order p c R req step = sort_key (\<lambda>e. (segment_rank p e,
     active_score p req step (ct_pages c ! re_page e), re_last_touch e, re_page e)) (bt_values R)"

lemma demand_order_selects: "residents_ok c R \<Longrightarrow> selects R (demand_order p c R req step)"
  unfolding demand_order_def by (intro selects_sort selects_values)

lemma demand_order_charge: "sum_list (map re_charge_bytes (demand_order p c R req step)) = charge_total R"
  unfolding demand_order_def charge_total_values by (rule sum_list_sort)

text \<open>The plan with its pure parts evaluated.\<close>

lemma plan_demand_eq:
  assumes "wf_catalog h c" "residents_ok c R" "charge_total R \<le> capacity" "capacity \<le> u64_max"
    "\<not> is_no_cache p" "pd_charge_bytes cand \<le> capacity" "capacity < pd_charge_bytes cand + charge_total R"
  obtains n where "n \<le> length R"
    "plan_demand_victims p c R \<lparr>dp_resident_bytes = charge_total R, dp_capacity_bytes = capacity,
       dp_candidate = cand, dp_request = req, dp_step = step\<rparr>
     = rbind (admit_demand p c R cand (map re_page (take n (demand_order p c R req step))) req step)
        (\<lambda>admit. if admit then Ok (Some (map re_page (take n (demand_order p c R req step)))) else Ok None)"
    "pd_charge_bytes cand + charge_total R \<le> capacity + sum_list (map re_charge_bytes (take n (demand_order p c R req step)))"
    "\<And>m. m < n \<Longrightarrow> capacity + sum_list (map re_charge_bytes (take m (demand_order p c R req step))) < pd_charge_bytes cand + charge_total R"
proof -
  let ?order = "demand_order p c R req step" and ?needed = "pd_charge_bytes cand - (capacity - charge_total R)"
  have sorted: "sort_by_key (demand_sort_key p c req step) (bt_values R) = Ok ?order"
    unfolding demand_order_def using assms(1,2) by (intro sort_by_key_pure demand_sort_key_ok)
  obtain n where n: "n \<le> length ?order" "collect_victims ?needed ?order 0 =
      Ok (map re_page (take n ?order), sum_list (map re_charge_bytes (take n ?order)))"
    "\<forall>m<n. sum_list (map re_charge_bytes (take m ?order)) < ?needed"
    "n < length ?order \<longrightarrow> ?needed \<le> sum_list (map re_charge_bytes (take n ?order))"
    using collect_victims_ok [of 0 ?order ?needed] assms(3,4,7) demand_order_charge [of p c R req step] by auto
  have enough: "?needed \<le> sum_list (map re_charge_bytes (take n ?order))"
  proof (cases "n < length ?order")
    case False
    then have "take n ?order = ?order" by simp
    then show ?thesis using demand_order_charge [of p c R req step] assms(6) by simp
  qed (use n in simp)
  have len: "length ?order = length R" by (simp add: demand_order_def bt_values_def)
  show thesis
  proof (rule that [of n])
    show "n \<le> length R" using n(1) len by simp
    show "plan_demand_victims p c R \<lparr>dp_resident_bytes = charge_total R, dp_capacity_bytes = capacity,
       dp_candidate = cand, dp_request = req, dp_step = step\<rparr>
     = rbind (admit_demand p c R cand (map re_page (take n ?order)) req step)
        (\<lambda>admit. if admit then Ok (Some (map re_page (take n ?order))) else Ok None)"
    proof -
      have "\<not> pd_charge_bytes cand \<le> capacity - charge_total R" using assms(3,7) by simp
      with assms(3,5,6) sorted n(2) enough show ?thesis by (simp add: plan_demand_victims_def)
    qed
    show "pd_charge_bytes cand + charge_total R \<le> capacity + sum_list (map re_charge_bytes (take n ?order))"
      using enough assms by simp
    show "capacity + sum_list (map re_charge_bytes (take m ?order)) < pd_charge_bytes cand + charge_total R"
      if "m < n" for m
      using n(3) that assms by (auto dest!: spec [of _ m])
  qed
qed

lemma plan_demand_wp:
  assumes "wf_catalog h c" "residents_ok c R" "policy_ok p" "charge_total R \<le> capacity" "capacity \<le> u64_max"
  shows "wp overflow (plan_demand_victims p c R \<lparr>dp_resident_bytes = charge_total R, dp_capacity_bytes = capacity,
       dp_candidate = cand, dp_request = req, dp_step = step\<rparr>)
     (\<lambda>plan. case plan of None \<Rightarrow> True
        | Some vs \<Rightarrow> \<not> is_no_cache p \<and> frees_enough R capacity (pd_charge_bytes cand) (\<lambda>_. True) vs)"
    (is "wp overflow ?plan ?post")
proof (cases "pd_charge_bytes cand > capacity \<or> is_no_cache p")
  case True
  then show ?thesis by (auto simp: plan_demand_victims_def)
next
  case False
  show ?thesis
  proof (cases "pd_charge_bytes cand + charge_total R \<le> capacity")
    case True
    then have "pd_charge_bytes cand \<le> capacity - charge_total R" by simp
    with True False assms(4) show ?thesis
      by (simp add: plan_demand_victims_def frees_enough_def freed_def)
  next
    case over: False
    obtain n where n: "?plan = rbind (admit_demand p c R cand (map re_page (take n (demand_order p c R req step))) req step)
        (\<lambda>admit. if admit then Ok (Some (map re_page (take n (demand_order p c R req step)))) else Ok None)"
      "pd_charge_bytes cand + charge_total R \<le> capacity + sum_list (map re_charge_bytes (take n (demand_order p c R req step)))"
      using assms(1,2,4,5) False over by (auto elim: plan_demand_eq [of h c R capacity p cand req step])
    note sel = selects_victims [OF selects_take [OF demand_order_selects [OF assms(2)], of n p req step]]
    have "frees_enough R capacity (pd_charge_bytes cand) (\<lambda>_. True) (map re_page (take n (demand_order p c R req step)))"
      using n(2) sel by (simp add: frees_enough_def)
    moreover have "wp overflow (admit_demand p c R cand (map re_page (take n (demand_order p c R req step))) req step) (\<lambda>_. True)"
      using sel(2) by (intro admit_demand_wp [OF assms(1,2,3)])
    ultimately show ?thesis
      unfolding n(1) using False by (auto elim!: wp_conseq)
  qed
qed

lemma collect_prefetch_victims_wp:
  assumes "wf_catalog h c" "policy_ok p"
    "\<And>e. e \<in> set es \<Longrightarrow> re_page e < length (ct_pages c) \<and> re_charge_bytes e \<le> u64_max"
  shows "wp overflow (collect_prefetch_victims p c req step needed es bytes weighted)
     (\<lambda>(vs, b, w). \<exists>n\<le>length es. vs = map re_page (take n es) \<and> b = bytes + sum_list (map re_charge_bytes (take n es)))"
  using assms(3)
proof (induction es arbitrary: bytes weighted)
  case (Cons e es)
  let ?score = "active_score p req step (ct_pages c ! re_page e)"
  have page: "catalog_page c (re_page e) = Ok (ct_pages c ! re_page e)"
    using Cons.prems by (intro catalog_page_ok [OF assms(1)]) simp
  have "?score \<le> u32_max"
    using active_score_le [OF assms(2), of req step "ct_pages c ! re_page e"]
    by (simp add: SCORE_SCALE_PPM_def u32_max_def)
  then have mul: "mul_u128 ?score (re_charge_bytes e) = Ok (?score * re_charge_bytes e)"
    using Cons.prems by (intro mul_u128_ok) auto
  have rest: "wp overflow (collect_prefetch_victims p c req step needed es b w)
      (\<lambda>r. wp overflow (case r of (victims, r) \<Rightarrow> Ok (re_page e # victims, r))
        (\<lambda>(vs, b', w'). \<exists>n\<le>length (e # es). vs = map re_page (take n (e # es))
           \<and> b' = bytes + sum_list (map re_charge_bytes (take n (e # es)))))"
    if "b = bytes + re_charge_bytes e" for b w
    using that Cons.prems by (intro wp_conseq [OF Cons.IH]) (force intro: exI [of _ "Suc _"])+
  show ?case
    using rest by (auto simp: page mul wp_ok_or intro!: exI [of _ 1] split: option.splits)
qed simp

lemma sum_charges_wp:
  assumes "wf_catalog h c" "\<And>i. i \<in> set ids \<Longrightarrow> i < length (ct_pages c)"
  shows "wp overflow (rfold (\<lambda>page total. rbind (catalog_page c page) (\<lambda>descriptor.
       ok_or (checked_add total (pd_charge_bytes descriptor)) (CounterOverflow name))) ids 0)
     (\<lambda>total. total = sum_list (map (\<lambda>i. pd_charge_bytes (ct_pages c ! i)) ids))"
  using assms
  by (intro wp_rfold [where P = "\<lambda>ys total. total = sum_list (map (\<lambda>i. pd_charge_bytes (ct_pages c ! i)) ys)"])
     (auto simp: catalog_page_ok wp_ok_or split: option.splits)

lemma prefetch_sort_key_ok:
  assumes "wf_catalog h c" "residents_ok c R" "e \<in> set (bt_values R)"
  shows "prefetch_sort_key p c req step e = Ok (active_score p req step (ct_pages c ! re_page e), re_last_touch e, re_page e)"
  using assms by (auto simp: prefetch_sort_key_def residents_ok_def in_set_bt_values entry_ok_def catalog_page_ok)

lemma plan_prefetch_wp:
  assumes "wf_catalog h c" "residents_ok c R" "policy_ok p" "charge_total R \<le> capacity" "capacity \<le> u64_max"
    "\<And>i. i \<in> set absent \<Longrightarrow> i < length (ct_pages c)"
  shows "wp overflow (plan_prefetch_victims p c R \<lparr>pp_resident_bytes = charge_total R, pp_capacity_bytes = capacity,
       pp_absent_pages = absent, pp_request = req, pp_target_step = step, pp_candidate_score = score\<rparr>)
     (\<lambda>plan. case plan of None \<Rightarrow> True
        | Some vs \<Rightarrow> frees_enough R capacity (sum_list (map (\<lambda>i. pd_charge_bytes (ct_pages c ! i)) absent))
            (\<lambda>e. re_segment e = Seg_Probation) vs)"
proof -
  let ?required = "sum_list (map (\<lambda>i. pd_charge_bytes (ct_pages c ! i)) absent)"
  let ?probation = "filter (\<lambda>e. re_segment e = Seg_Probation) (bt_values R)"
  let ?order = "sort_key (\<lambda>e. (active_score p req step (ct_pages c ! re_page e), re_last_touch e, re_page e)) ?probation"
  let ?needed = "?required - (capacity - charge_total R)"
  have sel: "selects R ?order"
    by (intro selects_sort selects_filter selects_values [OF assms(2)])
  have sorted: "sort_by_key (prefetch_sort_key p c req step) ?probation = Ok ?order"
    using assms(1,2) by (intro sort_by_key_pure prefetch_sort_key_ok) auto
  have entries: "re_page e < length (ct_pages c) \<and> re_charge_bytes e \<le> u64_max" if "e \<in> set ?order" for e
  proof -
    have get: "bt_get R (re_page e) = Some e" using sel that by (auto simp: selects_def)
    have "re_charge_bytes e \<le> charge_total R"
      unfolding charge_total_def using bt_get_le_total [OF residents_okD(1) [OF assms(2)] get, of "\<lambda>_. re_charge_bytes"] .
    with residents_okD(2) [OF assms(2) get] assms(4,5) show ?thesis by (auto simp: entry_ok_def)
  qed
  have good: "frees_enough R capacity ?required (\<lambda>e. re_segment e = Seg_Probation) (map re_page (take n ?order))"
    if "?needed \<le> sum_list (map re_charge_bytes (take n ?order))" "\<not> ?required \<le> capacity - charge_total R" for n
    using that assms(4)
    by (intro selects_frees selects_take [OF sel]) (auto dest: in_set_takeD)
  define needed where "needed = ?needed"
  define order where "order = ?order"
  have victims: "wp overflow (collect_prefetch_victims p c req step needed order 0 0)
      (\<lambda>(vs, b, w). \<exists>n\<le>length order. vs = map re_page (take n order) \<and> b = 0 + sum_list (map re_charge_bytes (take n order)))"
    unfolding order_def using entries by (intro collect_prefetch_victims_wp [OF assms(1,3)]) auto
  have fits: "frees_enough R capacity ?required (\<lambda>e. re_segment e = Seg_Probation) []" if "?required \<le> capacity - charge_total R"
    using that assms(4) by (simp add: frees_enough_def freed_def)
  have plan: "wp overflow (rbind (collect_prefetch_victims p c req step needed order 0 0)
      (\<lambda>(victims, victim_bytes, weighted). if victim_bytes < needed then Ok None
         else rbind (ok_or (checked_mul_u128 score ?required) (CounterOverflow ''prefetch candidate score'')) (\<lambda>candidate.
           if weighted > 0 \<and> candidate \<le> weighted then Ok None else Ok (Some victims))))
      (case_option True (frees_enough R capacity ?required (\<lambda>e. re_segment e = Seg_Probation)))"
    if "\<not> ?required \<le> capacity - charge_total R"
    using good that unfolding needed_def [symmetric] order_def [symmetric]
    by (auto simp: wp_ok_or split: option.splits intro!: wp_conseq [OF victims])
  show ?thesis
  proof (cases "?required > capacity \<or> ?required \<le> capacity - charge_total R")
    case True
    then show ?thesis
      using assms(4) fits
      by (auto simp: plan_prefetch_victims_def intro!: wp_conseq [OF sum_charges_wp [OF assms(1,6)]])
  next
    case False
    note sum = sum_charges_wp [OF assms(1,6), of absent "''prefetch group charge''"]
    show ?thesis
    proof (cases "rfold (\<lambda>page total. rbind (catalog_page c page) (\<lambda>descriptor.
        ok_or (checked_add total (pd_charge_bytes descriptor)) (CounterOverflow ''prefetch group charge''))) absent 0")
      case (Inl e)
      with sum show ?thesis by (simp add: plan_prefetch_victims_def)
    next
      case (Inr total)
      with sum have "total = ?required" by simp
      with Inr False assms(4) plan show ?thesis
        by (simp add: plan_prefetch_victims_def sorted needed_def order_def del: wp_simps(3) cong: if_cong)
    qed
  qed
qed

end
