(* ===== verification/Sim_Oracle_Exact.thy ===== *)
theory Sim_Oracle_Exact
  imports Sim_Oracle Sim_Policy_Inv
begin

text \<open>
  Correctness of the exact dynamic program: the cost it returns is the least demand-load cost of any
  schedule of cache contents, where a schedule may evict anything at any time and may load only the page
  being demanded. Its failures are limited to its documented bounds and to counter overflow.
\<close>

unbundle bit_operations_syntax

section \<open>Schedules\<close>

text \<open>
  \<open>feasible ch cap S ps Ss\<close>: starting with contents \<open>S\<close>, demanding \<open>ps\<close> in order, the contents after each
  demand are \<open>Ss\<close>; every content fits.
\<close>

fun feasible :: "(page_id \<Rightarrow> nat) \<Rightarrow> nat \<Rightarrow> page_id set \<Rightarrow> page_id list \<Rightarrow> page_id set list \<Rightarrow> bool" where
  "feasible ch cap S [] [] \<longleftrightarrow> True"
| "feasible ch cap S (p # ps) (T # Ts) \<longleftrightarrow> T \<subseteq> insert p S \<and> sum ch T \<le> cap \<and> feasible ch cap T ps Ts"
| "feasible ch cap S _ _ \<longleftrightarrow> False"

fun load_cost :: "(page_id \<Rightarrow> nat) \<Rightarrow> page_id set \<Rightarrow> page_id list \<Rightarrow> page_id set list \<Rightarrow> nat" where
  "load_cost lg S (p # ps) (T # Ts) = (if p \<in> S then 0 else lg p) + load_cost lg T ps Ts"
| "load_cost lg S _ _ = 0"

definition final_set :: "page_id set \<Rightarrow> page_id set list \<Rightarrow> page_id set" where
  "final_set S Ts = (if Ts = [] then S else last Ts)"

text \<open>The least cost of serving the demands from an empty cache.\<close>

definition optimal_cost :: "(page_id \<Rightarrow> nat) \<Rightarrow> (page_id \<Rightarrow> nat) \<Rightarrow> nat \<Rightarrow> page_id list \<Rightarrow> nat \<Rightarrow> bool" where
  "optimal_cost ch lg cap ps c \<longleftrightarrow>
     (\<exists>Ts. feasible ch cap {} ps Ts \<and> load_cost lg {} ps Ts = c)
     \<and> (\<forall>Ts. feasible ch cap {} ps Ts \<longrightarrow> c \<le> load_cost lg {} ps Ts)"

lemma optimal_cost_le:
  "optimal_cost ch lg cap ps c \<Longrightarrow> feasible ch cap {} ps Ts \<Longrightarrow> load_cost lg {} ps Ts \<le> n \<Longrightarrow> c \<le> n"
  unfolding optimal_cost_def by (meson order_trans)

lemma optimal_cost_unique: "optimal_cost ch lg cap ps c \<Longrightarrow> optimal_cost ch lg cap ps d \<Longrightarrow> c = d"
  unfolding optimal_cost_def by (meson order_antisym)

lemma final_set_simps [simp]:
  "final_set S [] = S" "final_set S (T # Ts) = final_set T Ts" "final_set S (Ts @ [T]) = T"
  by (simp_all add: final_set_def)

lemma feasible_length: "feasible ch cap S ps Ts \<Longrightarrow> length Ts = length ps"
  by (induction ch cap S ps Ts rule: feasible.induct) auto

lemma feasible_snoc:
  "length Ts = length ps \<Longrightarrow> feasible ch cap S (ps @ [p]) (Ts @ [T]) \<longleftrightarrow>
     feasible ch cap S ps Ts \<and> T \<subseteq> insert p (final_set S Ts) \<and> sum ch T \<le> cap"
proof (induction ps arbitrary: S Ts)
  case (Cons q ps)
  then show ?case by (cases Ts) auto
qed simp

lemma load_cost_snoc:
  "length Ts = length ps \<Longrightarrow> load_cost lg S (ps @ [p]) (Ts @ [T]) =
     load_cost lg S ps Ts + (if p \<in> final_set S Ts then 0 else lg p)"
proof (induction ps arbitrary: S Ts)
  case (Cons q ps)
  then show ?case by (cases Ts) auto
qed simp

lemma feasible_final:
  "feasible ch cap S ps Ts \<Longrightarrow> sum ch S \<le> cap \<Longrightarrow> sum ch (final_set S Ts) \<le> cap"
  by (induction ch cap S ps Ts rule: feasible.induct) auto

lemma feasible_pages:
  "feasible ch cap S ps Ts \<Longrightarrow> final_set S Ts \<subseteq> S \<union> set ps"
  by (induction ch cap S ps Ts rule: feasible.induct) auto

section \<open>Masks\<close>

lemma bit_rec_nat: "bit (r::nat) i \<longleftrightarrow> (if i = 0 then odd r else bit (r div 2) (i - 1))"
  by (cases i) (simp_all add: bit_0 bit_Suc)

lemma and_div2: "(a AND b) div 2 = (a div 2) AND (b div (2::nat))"
  by (rule bit_eqI) (simp add: bit_and_iff flip: bit_Suc)

lemma and_mod2: "odd (a AND b) \<longleftrightarrow> odd a \<and> odd (b::nat)"
  by (simp add: even_and_iff)

text \<open>Clearing the lowest set bit.\<close>

lemma clear_lowest:
  "0 < r \<Longrightarrow> bit r (trailing_zeros r) \<and> (\<forall>i. bit (r AND (r - Suc 0)) i \<longleftrightarrow> bit r i \<and> i \<noteq> trailing_zeros r)"
proof (induction r rule: less_induct)
  case (less r)
  show ?case
  proof (cases "odd r")
    case True
    then have tz: "trailing_zeros r = 0" using less.prems by (simp add: trailing_zeros.simps)
    have half: "(r - Suc 0) div 2 = r div 2" and even: "even (r - Suc 0)"
      using True by (auto elim: oddE)
    have "bit (r AND (r - Suc 0)) i \<longleftrightarrow> bit r i \<and> i \<noteq> 0" for i
      using True half even by (cases i) (simp_all add: bit_Suc bit_0 and_div2 even_and_iff)
    with tz True show ?thesis by (simp add: bit_0)
  next
    case False
    then obtain h where h: "r = 2 * h" "0 < h" using less.prems by (auto elim: evenE)
    have tz: "trailing_zeros r = Suc (trailing_zeros h)" using h by (simp add: trailing_zeros.simps [of "2 * h"])
    have half: "(r - Suc 0) div 2 = h - Suc 0" using h by presburger
    note IH = less.IH [of h]
    have "bit (r AND (r - Suc 0)) i \<longleftrightarrow> bit r i \<and> i \<noteq> trailing_zeros r" for i
      using IH h half tz by (cases i) (simp_all add: bit_Suc bit_0 and_div2 even_and_iff)
    with IH h tz show ?thesis by (simp add: bit_Suc)
  qed
qed

text \<open>Submasks below a submask: \<^verbatim>\<open>(retained - 1) & state\<close> is the next one down.\<close>

lemma next_submask:
  "x AND s = x \<Longrightarrow> r AND s = r \<Longrightarrow> x < r \<Longrightarrow> x \<le> (r - Suc 0) AND (s::nat)"
proof (induction r arbitrary: x s rule: less_induct)
  case (less r)
  have sub: "(x div 2) AND (s div 2) = x div 2" "(r div 2) AND (s div 2) = r div 2"
    using less.prems(1,2) and_div2 by metis+
  have low: "odd x \<Longrightarrow> odd s" "odd r \<Longrightarrow> odd s"
    using less.prems(1,2) and_mod2 by metis+
  show ?case
  proof (cases "odd r")
    case True
    then have pred: "r - Suc 0 = 2 * (r div 2)" by presburger
    have "(r - Suc 0) AND s = r - Suc 0"
    proof -
      have "((r - Suc 0) AND s) div 2 = r div 2" using pred sub(2) by (simp add: and_div2)
      moreover have "even ((r - Suc 0) AND s)" using pred and_mod2 by (metis dvd_triv_left)
      ultimately show ?thesis using pred by (metis dvd_mult_div_cancel)
    qed
    with less.prems(3) show ?thesis by simp
  next
    case False
    then obtain h where h: "r = 2 * h" "0 < h" using less.prems(3) by (auto elim: evenE)
    have "x div 2 < h" using less.prems(3) h by presburger
    then have IH: "x div 2 \<le> (h - Suc 0) AND (s div 2)"
      using less.IH [of h "x div 2" "s div 2"] sub h by simp
    have half: "((r - Suc 0) AND s) div 2 = (h - Suc 0) AND (s div 2)"
    proof -
      have "(r - Suc 0) div 2 = h - Suc 0" using h by presburger
      then show ?thesis by (simp add: and_div2)
    qed
    have "odd (r - Suc 0)" using h by presburger
    then have parity: "odd ((r - Suc 0) AND s) \<longleftrightarrow> odd s" using and_mod2 by metis
    define y where "y = (r - Suc 0) AND s"
    have "x div 2 \<le> y div 2" "odd x \<Longrightarrow> odd y" using IH half parity low(1) by (simp_all add: y_def)
    then have "x \<le> y" by presburger
    then show ?thesis by (simp add: y_def)
  qed
qed

definition valid_mask :: "nat \<Rightarrow> nat \<Rightarrow> bool" where
  "valid_mask n m \<longleftrightarrow> (\<forall>b. bit m b \<longrightarrow> b < n)"

definition mask_sum :: "nat list \<Rightarrow> nat \<Rightarrow> nat" where
  "mask_sum xs m = (\<Sum>b<length xs. if bit m b then xs ! b else 0)"

lemma valid_mask_sub: "valid_mask n m \<Longrightarrow> r AND m = r \<Longrightarrow> valid_mask n r"
  unfolding valid_mask_def by (metis bit_and_iff)

lemma mask_sum_clear:
  assumes "0 < r" "valid_mask (length xs) r"
  shows "mask_sum xs r = mask_sum xs (r AND (r - Suc 0)) + xs ! trailing_zeros r"
proof -
  note c = clear_lowest [OF assms(1)]
  have tz: "trailing_zeros r < length xs" using c assms(2) by (auto simp: valid_mask_def)
  have "mask_sum xs r = (\<Sum>b<length xs. (if bit (r AND (r - Suc 0)) b then xs ! b else 0)
      + (if b = trailing_zeros r then xs ! b else 0))"
    unfolding mask_sum_def using c by (intro sum.cong) auto
  also have "\<dots> = mask_sum xs (r AND (r - Suc 0)) + xs ! trailing_zeros r"
    using tz by (simp add: sum.distrib mask_sum_def)
  finally show ?thesis .
qed

lemma subset_charge_loop_wp:
  "valid_mask (length charges) r \<Longrightarrow>
     wp overflow (subset_charge_loop charges r acc) (\<lambda>v. v = acc + mask_sum charges r)"
proof (induction r arbitrary: acc rule: less_induct)
  case (less r)
  show ?case
  proof (cases "r = 0")
    case True
    then show ?thesis by (simp add: subset_charge_loop.simps mask_sum_def)
  next
    case False
    let ?r = "r AND (r - Suc 0)"
    have tz: "trailing_zeros r < length charges"
      using clear_lowest [of r] False less.prems by (auto simp: valid_mask_def)
    have "valid_mask (length charges) ?r"
      using less.prems by (auto simp: valid_mask_def bit_and_iff)
    then have "wp overflow (subset_charge_loop charges ?r (acc + charges ! trailing_zeros r))
        (\<lambda>v. v = acc + charges ! trailing_zeros r + mask_sum charges ?r)"
      using False by (intro less.IH and_self_pred_less) simp
    moreover have "acc + charges ! trailing_zeros r + mask_sum charges ?r = acc + mask_sum charges r"
      using mask_sum_clear [OF _ less.prems] False by simp
    ultimately have "wp overflow (subset_charge_loop charges ?r (acc + charges ! trailing_zeros r)) (\<lambda>v. v = acc + mask_sum charges r)"
      by simp
    with False tz show ?thesis
      by (subst subset_charge_loop.simps) (simp add: wp_ok_or split: option.splits)
  qed
qed

section \<open>Frontier updates\<close>

definition limited :: "sim_error failure \<Rightarrow> bool" where
  "limited e \<longleftrightarrow> overflow e \<or> (\<exists>s. e = Err (ExactOracleLimit s))"

lemma limited_simps [simp]:
  "limited (Err (CounterOverflow n))" "limited (Err (ExactOracleLimit s))" "overflow e \<Longrightarrow> limited e"
  by (auto simp: limited_def)

lemma wp_limited: "wp overflow m Q \<Longrightarrow> wp limited m Q"
  by (auto simp: wp_def split: sum.splits)

text \<open>\<open>f'\<close> is \<open>f\<close> improved by the offers \<open>X\<close>: nothing else enters, nothing gets worse.\<close>

definition improves :: "frontier \<Rightarrow> (nat \<times> u64) set \<Rightarrow> frontier \<Rightarrow> bool" where
  "improves f X f' \<longleftrightarrow> bt_wf f'
     \<and> (\<forall>k c. bt_get f' k = Some c \<longrightarrow> bt_get f k = Some c \<or> (k, c) \<in> X)
     \<and> (\<forall>k c. bt_get f k = Some c \<or> (k, c) \<in> X \<longrightarrow> (\<exists>c'\<le>c. bt_get f' k = Some c'))"

lemma improves_refl: "bt_wf f \<Longrightarrow> improves f {} f"
  by (auto simp: improves_def)

lemma improves_insert: "bt_wf f \<Longrightarrow> improves f {(k, c)} (insert_minimum k c f)"
  by (auto simp: improves_def insert_minimum_def min_def split: option.splits)

lemma improves_trans: "improves f X f' \<Longrightarrow> improves f' Y f'' \<Longrightarrow> improves f (X \<union> Y) f''"
  unfolding improves_def by (intro conjI) (blast, blast, meson Un_iff order_trans)

lemma improves_mono: "improves f X f' \<Longrightarrow> X = Y \<Longrightarrow> improves f Y f'"
  by simp

lemma consume_wp [simp]:
  "wp limited (consume_state_budget maximum e) Q \<longleftrightarrow> (e + 1 \<le> u64_max \<longrightarrow> e + 1 \<le> maximum \<longrightarrow> Q (e + 1))"
  by (auto simp: consume_state_budget_def wp_ok_or split: option.splits)

definition fits :: "exact_step \<Rightarrow> nat \<Rightarrow> bool" where
  "fits x r \<longleftrightarrow> mask_sum (xs_charges x) r + xs_charges x ! xs_bit x \<le> xs_capacity_bytes x"

definition step_ok :: "exact_step \<Rightarrow> bool" where
  "step_ok x \<longleftrightarrow> xs_bit x < length (xs_charges x) \<and> length (xs_logical_costs x) = length (xs_charges x)
     \<and> xs_capacity_bytes x \<le> u64_max"

definition admissions_of :: "exact_step \<Rightarrow> nat \<Rightarrow> nat \<Rightarrow> u64 \<Rightarrow> (nat \<times> u64) set" where
  "admissions_of x state retained cost =
     {(r OR push_bit (xs_bit x) 1, cost) |r. r AND state = r \<and> r \<le> retained \<and> fits x r}"

lemma admissions_of_step:
  assumes "retained AND state = retained" "0 < retained"
  shows "admissions_of x state retained cost =
     (if fits x retained then {(retained OR push_bit (xs_bit x) 1, cost)} else {})
       \<union> admissions_of x state ((retained - Suc 0) AND state) cost"
proof -
  have "r \<le> retained \<longleftrightarrow> r = retained \<or> r \<le> (retained - Suc 0) AND state" if "r AND state = r" for r
    using next_submask [OF that assms(1)] and_pred_less [OF assms(2), of state] by (meson le_less order_trans less_imp_le)
  then show ?thesis using assms(1) unfolding admissions_of_def by auto
qed

lemma admit_subsets_wp:
  assumes "step_ok x" "valid_mask (length (xs_charges x)) state"
  shows "retained AND state = retained \<Longrightarrow> bt_wf f \<Longrightarrow>
     wp limited (admit_subsets x state cost retained (e, f)) (\<lambda>(e', f'). improves f (admissions_of x state retained cost) f')"
proof (induction retained arbitrary: e f rule: less_induct)
  case (less r)
  let ?c = "xs_charges x ! xs_bit x" and ?k = "r OR push_bit (xs_bit x) 1"
  define f1 where "f1 = (if fits x r then insert_minimum ?k cost f else f)"
  have f1: "improves f (if fits x r then {(?k, cost)} else {}) f1"
    using less.prems(2) by (simp add: f1_def improves_refl improves_insert del: bit_push_bit_iff)
  have charge: "wp limited (subset_charge r (xs_charges x)) (\<lambda>v. v = mask_sum (xs_charges x) r)"
    using subset_charge_loop_wp [of "xs_charges x" r 0] valid_mask_sub [OF assms(2) less.prems(1)]
    by (auto simp: subset_charge_def intro: wp_limited)
  have next_f: "(case checked_add (mask_sum (xs_charges x) r) ?c of
      Some c \<Rightarrow> if c \<le> xs_capacity_bytes x then insert_minimum ?k cost f else f | None \<Rightarrow> f) = f1"
    using assms(1) by (auto simp: f1_def fits_def step_ok_def checked_add_def)
  have rest: "wp limited (if r = 0 then Ok (e1, f1)
      else admit_subsets x state cost ((r - 1) AND state) (e1, f1)) (\<lambda>(e', f'). improves f (admissions_of x state r cost) f')" for e1
  proof (cases "r = 0")
    case True
    then have "admissions_of x state r cost = (if fits x r then {(?k, cost)} else {})"
      by (auto simp: admissions_of_def)
    with f1 True show ?thesis by simp
  next
    case False
    have "((r - Suc 0) AND state) AND state = (r - Suc 0) AND state" by (simp add: and.assoc)
    then have "wp limited (admit_subsets x state cost ((r - Suc 0) AND state) (e1, f1))
        (\<lambda>(e', f'). improves f1 (admissions_of x state ((r - Suc 0) AND state) cost) f')"
      using f1 False by (intro less.IH and_pred_less) (auto simp: improves_def)
    then show ?thesis
      using False improves_trans [OF f1] admissions_of_step [OF less.prems(1), of x cost]
      by (auto elim!: wp_conseq)
  qed
  show ?case
    by (subst admit_subsets.simps)
      (use assms(1) rest next_f in \<open>auto simp: step_ok_def Let_def cong: option.case_cong if_cong intro!: wp_conseq [OF charge]\<close>)
qed

section \<open>Transitions\<close>

definition trans_of :: "exact_step \<Rightarrow> nat \<times> u64 \<Rightarrow> (nat \<times> u64) set" where
  "trans_of x entry = (case entry of (state, cost) \<Rightarrow>
     if bit state (xs_bit x) then {(state, cost)}
     else {(state, cost + xs_logical_costs x ! xs_bit x)}
       \<union> admissions_of x state state (cost + xs_logical_costs x ! xs_bit x))"

lemma bit_test: "state AND push_bit b 1 \<noteq> 0 \<longleftrightarrow> bit (state::nat) b"
  by (simp add: push_bit_eq_mult and_exp_eq_0_iff_not_bit)

lemma expand_state_wp:
  assumes "step_ok x" "valid_mask (length (xs_charges x)) state" "bt_wf f"
  shows "wp limited (expand_state x (state, cost) (e, f)) (\<lambda>(e', f'). improves f (trans_of x (state, cost)) f')"
proof (cases "bit state (xs_bit x)")
  case True
  then show ?thesis
    unfolding expand_state_def prod.case bit_test using assms(3) by (simp add: trans_of_def improves_insert)
next
  case False
  let ?miss = "cost + xs_logical_costs x ! xs_bit x"
  let ?f = "insert_minimum state ?miss f"
  have f: "improves f {(state, ?miss)} ?f" using assms(3) by (rule improves_insert)
  have skip: "admissions_of x state state ?miss = {}" if "\<not> xs_charges x ! xs_bit x \<le> xs_capacity_bytes x"
    using that by (auto simp: admissions_of_def fits_def)
  have admit: "wp limited (admit_subsets x state ?miss state (e1, ?f)) (\<lambda>(e', f'). improves f (trans_of x (state, cost)) f')" for e1
    using f False
    by (intro wp_conseq [OF admit_subsets_wp [OF assms(1,2)]])
      (auto simp: trans_of_def improves_def [of f "{(state, ?miss)}"] dest!: improves_trans [OF f])
  have "trans_of x (state, cost) = {(state, ?miss)}" if "\<not> xs_charges x ! xs_bit x \<le> xs_capacity_bytes x"
    using skip [OF that] False by (simp add: trans_of_def)
  with f admit False assms(1) show ?thesis
    unfolding expand_state_def prod.case bit_test
    by (simp add: wp_ok_or step_ok_def Let_def split: option.splits)
qed

lemma expand_states_wp:
  assumes "step_ok x" "\<And>state cost. (state, cost) \<in> set es \<Longrightarrow> valid_mask (length (xs_charges x)) state"
  shows "wp limited (rfold (expand_state x) es (e, [])) (\<lambda>(e', f'). improves [] (\<Union> (trans_of x ` set es)) f')"
proof (rule wp_rfold [where P = "\<lambda>ys (e', f'). improves [] (\<Union> (trans_of x ` set ys)) f'"])
  fix ys y zs and st :: "usize \<times> frontier" assume es: "es = ys @ y # zs" and P: "case st of (e', f') \<Rightarrow> improves [] (\<Union> (trans_of x ` set ys)) f'"
  obtain state cost where y: "y = (state, cost)" by (cases y)
  obtain e' f' where st: "st = (e', f')" by (cases st)
  have f': "improves [] (\<Union> (trans_of x ` set ys)) f'" using P st by simp
  have "wp limited (expand_state x (state, cost) (e', f')) (\<lambda>(e'', f''). improves f' (trans_of x (state, cost)) f'')"
    using assms es y f' by (intro expand_state_wp) (auto simp: improves_def)
  then show "wp limited (expand_state x y st) (\<lambda>(e', f'). improves [] (\<Union> (trans_of x ` set (ys @ [y]))) f')"
    unfolding y st using improves_trans [OF f'] by (auto simp: Un_commute elim!: wp_conseq)
qed (simp add: improves_refl)

section \<open>Masks as sets of pages\<close>

definition mask_pages :: "page_id list \<Rightarrow> nat \<Rightarrow> page_id set" where
  "mask_pages P m = {P ! b |b. b < length P \<and> bit m b}"

lemma mask_pages_iff: "distinct P \<Longrightarrow> b < length P \<Longrightarrow> P ! b \<in> mask_pages P m \<longleftrightarrow> bit m b"
  by (auto simp: mask_pages_def nth_eq_iff_index_eq)

lemma mask_pages_zero [simp]: "mask_pages P 0 = {}"
  by (simp add: mask_pages_def)

lemma mask_pages_or: "b < length P \<Longrightarrow> mask_pages P (r OR push_bit b 1) = insert (P ! b) (mask_pages P r)"
  by (auto simp: mask_pages_def bit_or_iff push_bit_eq_mult bit_exp_iff)

lemma mask_pages_mono: "r AND m = r \<Longrightarrow> mask_pages P r \<subseteq> mask_pages P m"
  unfolding mask_pages_def by (auto simp: bit_and_iff) (metis bit_and_iff)

lemma mask_of_subset:
  assumes "T \<subseteq> mask_pages P m" "distinct P" "valid_mask (length P) m"
  obtains r where "r AND m = r" "mask_pages P r = T"
proof -
  let ?r = "horner_sum of_bool 2 (map (\<lambda>b. P ! b \<in> T) [0..<length P]) :: nat"
  have bits: "bit ?r b \<longleftrightarrow> b < length P \<and> P ! b \<in> T" for b
    by (auto simp: bit_horner_sum_bit_iff)
  have "?r AND m = ?r"
  proof (rule bit_eqI)
    fix b
    show "bit (?r AND m) b \<longleftrightarrow> bit ?r b"
      using assms(1) mask_pages_iff [OF assms(2), of b m] by (auto simp: bit_and_iff bits)
  qed
  moreover have "mask_pages P ?r = T"
    using assms(1) unfolding mask_pages_def by (auto simp: bits)
  ultimately show thesis by (rule that)
qed

lemma mask_sum_pages:
  assumes "distinct P"
  shows "sum ch (mask_pages P m) = mask_sum (map ch P) m"
proof -
  have "mask_pages P m = (\<lambda>b. P ! b) ` {b. b < length P \<and> bit m b}"
    by (auto simp: mask_pages_def)
  moreover have "inj_on (\<lambda>b. P ! b) {b. b < length P \<and> bit m b}"
    using assms by (auto intro!: inj_onI simp: nth_eq_iff_index_eq)
  ultimately have "sum ch (mask_pages P m) = (\<Sum>b\<in>{b. b < length P \<and> bit m b}. ch (P ! b))"
    by (simp add: sum.reindex)
  also have "{b. b < length P \<and> bit m b} = {b \<in> {..<length P}. bit m b}" by auto
  also have "(\<Sum>b\<in>\<dots>. ch (P ! b)) = (\<Sum>b<length P. if bit m b then ch (P ! b) else 0)"
    by (rule sum.inter_filter) simp
  also have "\<dots> = mask_sum (map ch P) m"
    unfolding mask_sum_def by (rule sum.cong) simp_all
  finally show ?thesis .
qed

section \<open>Optimality\<close>

definition front_ok ::
  "page_id list \<Rightarrow> (page_id \<Rightarrow> nat) \<Rightarrow> (page_id \<Rightarrow> nat) \<Rightarrow> nat \<Rightarrow> page_id list \<Rightarrow> frontier \<Rightarrow> bool" where
  "front_ok P ch lg cap ps f \<longleftrightarrow> bt_wf f
     \<and> (\<forall>m c. bt_get f m = Some c \<longrightarrow> valid_mask (length P) m
          \<and> (\<exists>Ts. feasible ch cap {} ps Ts \<and> final_set {} Ts = mask_pages P m \<and> load_cost lg {} ps Ts = c))
     \<and> (\<forall>Ts. feasible ch cap {} ps Ts \<longrightarrow>
          (\<exists>m c. bt_get f m = Some c \<and> final_set {} Ts \<subseteq> mask_pages P m \<and> c \<le> load_cost lg {} ps Ts))"

definition page_step :: "page_id list \<Rightarrow> (page_id \<Rightarrow> nat) \<Rightarrow> (page_id \<Rightarrow> nat) \<Rightarrow> nat \<Rightarrow> usize \<Rightarrow> nat \<Rightarrow> exact_step" where
  "page_step P ch lg cap states b = \<lparr>xs_bit = b, xs_charges = map ch P, xs_logical_costs = map lg P,
     xs_capacity_bytes = cap, xs_max_states = states\<rparr>"

lemma page_step_simps [simp]:
  "xs_bit (page_step P ch lg cap states b) = b" "xs_charges (page_step P ch lg cap states b) = map ch P"
  "xs_logical_costs (page_step P ch lg cap states b) = map lg P"
  "xs_capacity_bytes (page_step P ch lg cap states b) = cap"
  by (simp_all add: page_step_def)

lemma fits_pages:
  assumes "distinct P" "b < length P" "\<not> bit r b"
  shows "fits (page_step P ch lg cap states b) r \<longleftrightarrow> sum ch (insert (P ! b) (mask_pages P r)) \<le> cap"
proof -
  have "finite (mask_pages P r)" by (auto simp: mask_pages_def)
  moreover have "P ! b \<notin> mask_pages P r" using mask_pages_iff assms by auto
  ultimately have "sum ch (insert (P ! b) (mask_pages P r)) = ch (P ! b) + mask_sum (map ch P) r"
    using mask_sum_pages [OF assms(1), of ch r] by simp
  then show ?thesis using assms(2) by (auto simp: fits_def add.commute)
qed

text \<open>Every transition extends a schedule.\<close>

lemma trans_sound:
  assumes "distinct P" "b < length P" "valid_mask (length P) m"
    "feasible ch cap {} ps Ts" "final_set {} Ts = mask_pages P m"
    "(m', c') \<in> trans_of (page_step P ch lg cap states b) (m, load_cost lg {} ps Ts)"
  shows "valid_mask (length P) m' \<and> (\<exists>Ts'. feasible ch cap {} (ps @ [P ! b]) Ts'
     \<and> final_set {} Ts' = mask_pages P m' \<and> load_cost lg {} (ps @ [P ! b]) Ts' = c')"
proof -
  let ?p = "P ! b"
  have len: "length Ts = length ps" using assms(4) by (rule feasible_length)
  have hit: "?p \<in> final_set {} Ts \<longleftrightarrow> bit m b" using mask_pages_iff assms(1,2,5) by simp
  have ext: "\<exists>Ts'. feasible ch cap {} (ps @ [?p]) Ts' \<and> final_set {} Ts' = T
      \<and> load_cost lg {} (ps @ [?p]) Ts' = load_cost lg {} ps Ts + (if bit m b then 0 else lg ?p)"
    if "T \<subseteq> insert ?p (mask_pages P m)" "sum ch T \<le> cap" for T
    using that assms(4,5) hit feasible_snoc [OF len, of ch cap "{}" ?p T] load_cost_snoc [OF len, of lg "{}" ?p T]
    by (intro exI [of _ "Ts @ [T]"]) simp
  have keep: "sum ch (mask_pages P m) \<le> cap"
    using feasible_final [OF assms(4)] assms(5) by simp
  consider "m' = m" "c' = load_cost lg {} ps Ts + (if bit m b then 0 else lg ?p)"
    | r where "\<not> bit m b" "m' = r OR push_bit b 1" "r AND m = r" "fits (page_step P ch lg cap states b) r"
        "c' = load_cost lg {} ps Ts + lg ?p"
    using assms(2,6) by (auto simp: trans_of_def admissions_of_def split: if_splits)
  then show ?thesis
  proof cases
    case 1
    with ext [OF subset_insertI keep] assms(3) show ?thesis by simp
  next
    case (2 r)
    have r: "\<not> bit r b" using 2 by (metis bit_and_iff)
    have pages: "mask_pages P m' = insert ?p (mask_pages P r)" using 2(2) mask_pages_or [OF assms(2), of r] by simp
    have "mask_pages P m' \<subseteq> insert ?p (mask_pages P m)" using mask_pages_mono [OF 2(3), of P] pages by auto
    moreover have "sum ch (mask_pages P m') \<le> cap"
      using 2(4) fits_pages [OF assms(1,2) r, of ch lg cap states] pages by simp
    moreover have "valid_mask (length P) m'"
      using 2(2) valid_mask_sub [OF assms(3) 2(3)] assms(2)
      by (auto simp: valid_mask_def bit_or_iff push_bit_eq_mult bit_exp_iff)
    ultimately show ?thesis using ext [of "mask_pages P m'"] 2(1,5) by auto
  qed
qed

text \<open>Every schedule is dominated by some transition.\<close>

lemma trans_complete:
  assumes "distinct P" "b < length P" "valid_mask (length P) m" "S \<subseteq> mask_pages P m" "c \<le> d"
    "T \<subseteq> insert (P ! b) S" "sum ch T \<le> cap"
  shows "\<exists>m' c'. (m', c') \<in> trans_of (page_step P ch lg cap states b) (m, c) \<and> T \<subseteq> mask_pages P m'
     \<and> c' \<le> d + (if P ! b \<in> S then 0 else lg (P ! b))"
proof (cases "bit m b")
  case True
  then have "P ! b \<in> mask_pages P m" using mask_pages_iff assms(1,2) by simp
  with True assms(4-6) show ?thesis by (intro exI [of _ m] exI [of _ c]) (auto simp: trans_of_def)
next
  case False
  then have notin: "P ! b \<notin> mask_pages P m" using mask_pages_iff assms(1,2) by simp
  then have miss: "P ! b \<notin> S" using assms(4) by auto
  show ?thesis
  proof (cases "P ! b \<in> T")
    case out: False
    with False miss assms(2,4-6) show ?thesis
      by (intro exI [of _ m] exI [of _ "c + lg (P ! b)"]) (auto simp: trans_of_def)
  next
    case True
    have "T - {P ! b} \<subseteq> mask_pages P m" using assms(4,6) by auto
    then obtain r where r: "r AND m = r" "mask_pages P r = T - {P ! b}"
      using assms(1,3) by (rule mask_of_subset)
    have rb: "\<not> bit r b" using r(1) False by (metis bit_and_iff)
    have T: "insert (P ! b) (mask_pages P r) = T" using r(2) True by auto
    have "fits (page_step P ch lg cap states b) r"
      using fits_pages [OF assms(1,2) rb, of ch lg cap states] T assms(7) by simp
    moreover have "r \<le> m" using and_le_nat [of m r] r(1) by (simp add: and.commute)
    ultimately have "(r OR push_bit b 1, c + lg (P ! b)) \<in> trans_of (page_step P ch lg cap states b) (m, c)"
      using False r(1) assms(2) by (auto simp: trans_of_def admissions_of_def)
    moreover have "mask_pages P (r OR push_bit b 1) = T" using mask_pages_or [OF assms(2), of r] T by simp
    ultimately show ?thesis using miss assms(5) by (intro exI) auto
  qed
qed

lemma front_step:
  assumes "distinct P" "b < length P" "front_ok P ch lg cap ps f"
    "improves [] (\<Union> (trans_of (page_step P ch lg cap states b) ` set f)) f'"
  shows "front_ok P ch lg cap (ps @ [P ! b]) f'"
proof -
  let ?x = "page_step P ch lg cap states b"
  have wf: "bt_wf f" "bt_wf f'" using assms(3,4) by (auto simp: front_ok_def improves_def)
  have "valid_mask (length P) m' \<and> (\<exists>Ts'. feasible ch cap {} (ps @ [P ! b]) Ts'
     \<and> final_set {} Ts' = mask_pages P m' \<and> load_cost lg {} (ps @ [P ! b]) Ts' = c')"
    if new: "bt_get f' m' = Some c'" for m' c'
  proof -
    have "(m', c') \<in> \<Union> (trans_of ?x ` set f)" using assms(4) new unfolding improves_def by fastforce
    then obtain y where "y \<in> set f" "(m', c') \<in> trans_of ?x y" by blast
    then obtain m c where "(m, c) \<in> set f" and tr: "(m', c') \<in> trans_of ?x (m, c)" by (metis surj_pair)
    then have mc: "bt_get f m = Some c" "(m', c') \<in> trans_of ?x (m, c)" using wf(1) by (simp_all add: bt_in_iff)
    obtain Ts where "valid_mask (length P) m" "feasible ch cap {} ps Ts" "final_set {} Ts = mask_pages P m"
      "load_cost lg {} ps Ts = c"
      using assms(3) mc(1) by (auto simp: front_ok_def)
    with trans_sound [OF assms(1,2)] mc(2) show ?thesis by blast
  qed
  moreover have "\<exists>m' c'. bt_get f' m' = Some c' \<and> final_set {} Ts' \<subseteq> mask_pages P m'
      \<and> c' \<le> load_cost lg {} (ps @ [P ! b]) Ts'"
    if feas: "feasible ch cap {} (ps @ [P ! b]) Ts'" for Ts'
  proof -
    obtain Ts T where Ts': "Ts' = Ts @ [T]" "length Ts = length ps"
      using feasible_length [OF feas] by (cases Ts' rule: rev_cases) auto
    have f: "feasible ch cap {} ps Ts" "T \<subseteq> insert (P ! b) (final_set {} Ts)" "sum ch T \<le> cap"
      using feas feasible_snoc [OF Ts'(2)] Ts'(1) by auto
    obtain m c where mc: "bt_get f m = Some c" "final_set {} Ts \<subseteq> mask_pages P m" "c \<le> load_cost lg {} ps Ts"
      "valid_mask (length P) m"
      using assms(3) f(1) unfolding front_ok_def by blast
    obtain m' c' where t: "(m', c') \<in> trans_of ?x (m, c)" "T \<subseteq> mask_pages P m'"
      "c' \<le> load_cost lg {} ps Ts + (if P ! b \<in> final_set {} Ts then 0 else lg (P ! b))"
      using trans_complete [OF assms(1,2) mc(4,2,3) f(2,3)] by blast
    have "(m', c') \<in> \<Union> (trans_of ?x ` set f)" using t(1) mc(1) wf(1) by (auto simp: bt_in_iff [symmetric])
    then obtain c'' where "bt_get f' m' = Some c''" "c'' \<le> c'" using assms(4) unfolding improves_def by blast
    with t Ts' show ?thesis
      by (intro exI [of _ m'] exI [of _ c'']) (simp add: load_cost_snoc)
  qed
  ultimately show ?thesis using wf(2) by (simp add: front_ok_def)
qed

lemma front_init: "front_ok P ch lg cap [] [(0, 0)]"
proof -
  have "feasible ch cap {} [] Ts \<longleftrightarrow> Ts = []" for Ts by (cases Ts) auto
  then show ?thesis by (auto simp: front_ok_def bt_wf_def bt_get_def valid_mask_def)
qed

lemma bit_for_page_ok:
  assumes "distinct P"
  shows "bt_get (fold (\<lambda>(b, page). bt_insert page b) (enumerate 0 P) []) q = Some b \<longleftrightarrow> b < length P \<and> P ! b = q"
proof -
  have "bt_wf (fold (\<lambda>(b, page). bt_insert page b) (enumerate 0 P) []) \<and>
    (\<forall>q b. bt_get (fold (\<lambda>(b, page). bt_insert page b) (enumerate 0 P) []) q = Some b \<longleftrightarrow> b < length P \<and> P ! b = q)"
    using assms
  proof (induction P rule: rev_induct)
    case (snoc p P)
    have "P ! b \<noteq> p" if "b < length P" for b using snoc.prems that by (auto simp: in_set_conv_nth)
    with snoc show ?case by (auto simp: enumerate_append_eq nth_append less_Suc_eq)
  qed simp
  then show ?thesis by blast
qed

lemma exact_demands_wp:
  assumes "distinct P" "set ps \<subseteq> set P" "cap \<le> u64_max"
  shows "wp limited (rfold (exact_demand (fold (\<lambda>(b, page). bt_insert page b) (enumerate 0 P) [])
       (map ch P) (map lg P) cap states) ps (1, [(0, 0)])) (\<lambda>(e, f). front_ok P ch lg cap ps f)"
proof (rule wp_rfold [where P = "\<lambda>qs (e, f). front_ok P ch lg cap qs f"])
  fix qs q zs and st :: "usize \<times> frontier"
  assume ps: "ps = qs @ q # zs" and st: "case st of (e, f) \<Rightarrow> front_ok P ch lg cap qs f"
  obtain e f where ef: "st = (e, f)" "front_ok P ch lg cap qs f" using st by (cases st) auto
  obtain b where b: "b < length P" "P ! b = q" using assms(2) ps by (auto simp: in_set_conv_nth)
  let ?x = "page_step P ch lg cap states b"
  have get: "bt_get (fold (\<lambda>(b, page). bt_insert page b) (enumerate 0 P) []) q = Some b"
    using bit_for_page_ok [OF assms(1)] b by blast
  have "valid_mask (length (xs_charges ?x)) state" if "(state, cost) \<in> set f" for state cost
    using ef(2) that bt_in_iff [of f state cost] by (auto simp: front_ok_def)
  moreover have "step_ok ?x" using b(1) assms(3) by (simp add: step_ok_def)
  ultimately have "wp limited (rfold (expand_state ?x) f (e, []))
      (\<lambda>(e', f'). improves [] (\<Union> (trans_of ?x ` set f)) f')"
    by (intro expand_states_wp)
  then have "wp limited (rfold (expand_state ?x) f (e, [])) (\<lambda>(e', f'). front_ok P ch lg cap (qs @ [q]) f')"
    by (rule wp_conseq) (use front_step [OF assms(1) b(1) ef(2)] b(2) in auto)
  then show "wp limited (exact_demand (fold (\<lambda>(b, page). bt_insert page b) (enumerate 0 P) []) (map ch P) (map lg P) cap states q st)
      (\<lambda>(e, f). front_ok P ch lg cap (qs @ [q]) f)"
    by (simp add: exact_demand_def get ef(1) page_step_def)
qed (simp add: front_init)

lemma ordered_pages_ok:
  "distinct (bt_keys (fold bs_insert ps ([] :: page_id btree_set))) \<and> set (bt_keys (fold bs_insert ps [])) = set ps"
proof -
  have "bt_wf (fold bs_insert ps []) \<and> (\<forall>k. bs_member (fold bs_insert ps []) k \<longleftrightarrow> k \<in> set ps)"
    by (induction ps rule: rev_induct) auto
  then show ?thesis by (auto simp: distinct_bt_keys bs_member_keys)
qed

lemma min_of_frontier:
  assumes "front_ok P ch lg cap ps f"
  shows "\<exists>c. min_by_key (\<lambda>c. c) (bt_values f) = Some c \<and> optimal_cost ch lg cap ps c"
proof -
  have wf: "bt_wf f" using assms by (simp add: front_ok_def)
  have "feasible ch cap {} ps (map (\<lambda>_. {}) ps)" for ps by (induction ps) auto
  then obtain m0 c0 where "bt_get f m0 = Some c0" using assms unfolding front_ok_def by blast
  then have "bt_values f \<noteq> []" using wf in_set_bt_values [of f c0] by auto
  then obtain c where c: "min_by_key (\<lambda>c. c) (bt_values f) = Some c"
    by (cases "min_by_key (\<lambda>c. c) (bt_values f)") auto
  have least: "c \<le> d" if "bt_get f m = Some d" for m d
    using min_by_key_Some [OF c] that wf in_set_bt_values [of f d] by auto
  obtain m where m: "bt_get f m = Some c"
    using min_by_key_Some [OF c] wf in_set_bt_values [of f c] by auto
  have "\<exists>Ts. feasible ch cap {} ps Ts \<and> load_cost lg {} ps Ts = c"
    using assms m unfolding front_ok_def by blast
  moreover have "c \<le> load_cost lg {} ps Ts" if Ts: "feasible ch cap {} ps Ts" for Ts
  proof -
    obtain m' d where "bt_get f m' = Some d" "d \<le> load_cost lg {} ps Ts"
      using assms Ts unfolding front_ok_def by blast
    with least show ?thesis by (meson order_trans)
  qed
  ultimately show ?thesis using c by (auto simp: optimal_cost_def)
qed

lemma demand_pages_ok:
  assumes "wf_trace limits t" "p \<in> set (demand_pages (vt_events t))"
  shows "p < length (vt_pages t)"
proof -
  obtain i where i: "i < length (vt_events t)" "\<exists>s r st. vt_events t ! i = Demand s r st p"
    using assms(2) by (fastforce simp: demand_pages_def map_filter_def in_set_conv_nth split: trace_event.splits)
  then have "wf_event (catalog t) limits (take i (vt_events t)) (vt_events t ! i)"
    using assms(1) by (simp add: wf_trace_def wf_events_def)
  with i show ?thesis by (auto simp: catalog_def)
qed

definition page_charge :: "validated_trace \<Rightarrow> page_id \<Rightarrow> nat" where
  "page_charge t p = pd_charge_bytes (vt_pages t ! p)"

definition page_logical :: "validated_trace \<Rightarrow> page_id \<Rightarrow> nat" where
  "page_logical t p = pd_logical_bytes (vt_pages t ! p)"

lemma exact_cost_wp:
  assumes "wf_trace limits' t" "capacity \<le> u64_max"
  shows "wp limited (exact_variable_byte_cost t capacity limits)
     (optimal_cost (page_charge t) (page_logical t) capacity (demand_pages (vt_events t)))"
proof -
  let ?ps = "demand_pages (vt_events t)" and ?P = "bt_keys (fold bs_insert (demand_pages (vt_events t)) [])"
  have P: "distinct ?P" "set ?P = set ?ps" using ordered_pages_ok [of ?ps] by auto
  have page: "trace_page t p = Ok (vt_pages t ! p)" if "p \<in> set ?P" for p
    using that P(2) demand_pages_ok [OF assms(1)] assms(1)
    by (auto simp: trace_page_def catalog_def wf_trace_def intro!: catalog_page_ok [THEN trans])
  have charges: "rmap (\<lambda>page. rbind (trace_page t page) (\<lambda>d. Ok (pd_charge_bytes d))) ?P = Ok (map (page_charge t) ?P)"
    by (rule rmap_pure) (simp add: page page_charge_def)
  have costs: "rmap (\<lambda>page. rbind (trace_page t page) (\<lambda>d. Ok (pd_logical_bytes d))) ?P = Ok (map (page_logical t) ?P)"
    by (rule rmap_pure) (simp add: page page_logical_def)
  have empty: "optimal_cost (page_charge t) (page_logical t) capacity [] 0"
    by (auto simp: optimal_cost_def intro: exI [of _ "[]"])
  have main: "wp limited (rbind (rfold (exact_demand (fold (\<lambda>(b, page). bt_insert page b) (enumerate 0 ?P) [])
        (map (page_charge t) ?P) (map (page_logical t) ?P) capacity states) ?ps (1, [(0, 0)]))
      (\<lambda>(explored, f). ok_or (min_by_key (\<lambda>cost. cost) (bt_values f)) e))
      (optimal_cost (page_charge t) (page_logical t) capacity ?ps)" for states e
    unfolding wp_simps
    by (rule wp_conseq [OF exact_demands_wp [OF P(1) _ assms(2)]])
      (use P(2) in \<open>auto simp: wp_ok_or dest!: min_of_frontier\<close>)
  show ?thesis
    unfolding exact_variable_byte_cost_def Let_def using main empty charges costs by simp
qed

end
