(* ===== verification/Sim_Engine.thy ===== *)
theory Sim_Engine
  imports Sim_Policy
begin

text \<open>
  The shared simulation kernel (\<^verbatim>\<open>crates/runnel-sim/src/engine.rs\<close>): one record for \<^verbatim>\<open>Kernel\<close>, one
  definition per method. The running SHA-256 of the decisions is the list of bytes fed to it; finishing
  it applies \<open>sha_hex\<close>, which stands for \<^verbatim>\<open>hex::encode(Sha256::digest(...))\<close>.
\<close>

section \<open>State\<close>

record kernel =
  k_trace :: validated_trace
  k_capacity_bytes :: u64
  k_policy :: policy_state
  k_residents :: residents
  k_resident_bytes :: u64
  k_metrics :: simulation_metrics
  k_decisions :: "u8 list"
  k_touch :: u64

record PrefetchGroup =
  pg_sequence :: u64
  pg_request :: u64
  pg_target_step :: u64
  pg_prediction :: expert_prediction
  pg_page_ids :: "page_id list"

record prefetch_budget =
  pb_remaining_pages :: usize
  pb_remaining_bytes :: u64

definition router_metadata_event ::
  "router_policy_config \<Rightarrow> trace_event \<Rightarrow> u64 \<Rightarrow> (sim_error, u64) result" where
  "router_metadata_event config event limit =
     (case event of
        Demand _ _ _ _ \<Rightarrow> Ok limit
      | RouterSignal _ _ _ _ predictions \<Rightarrow>
          let selected = min (length (filter (\<lambda>q. ep_score_ppm q \<ge> rc_minimum_score_ppm config) predictions))
                             (rc_max_experts_per_signal config) in
          if selected = 0 then Ok limit
          else rbind (router_signal_metadata_bytes selected) (\<lambda>bytes.
            ok_or (checked_add limit bytes) (CounterOverflow ''router metadata ceiling'')))"

fun spec_router_config :: "policy_spec \<Rightarrow> router_policy_config option" where
  "spec_router_config (Spec_RouterAdmit config) = Some config"
| "spec_router_config (Spec_RouterPrefetch config) = Some config"
| "spec_router_config _ = None"

definition router_metadata_limit :: "validated_trace \<Rightarrow> policy_spec \<Rightarrow> (sim_error, u64) result" where
  "router_metadata_limit t spec =
     (case spec_router_config spec of
        None \<Rightarrow> Ok 0
      | Some config \<Rightarrow> rfold (router_metadata_event config) (vt_events t) 0)"

definition kernel_new :: "validated_trace \<Rightarrow> simulation_config \<Rightarrow> (sim_error, kernel) result" where
  "kernel_new t config =
     rbind (router_metadata_limit t (sc_policy config)) (\<lambda>limit.
     rbind (policy_new (sc_policy config) (sc_capacity_bytes config) limit) (\<lambda>policy.
     Ok \<lparr>k_trace = t, k_capacity_bytes = sc_capacity_bytes config, k_policy = policy,
         k_residents = [], k_resident_bytes = 0, k_metrics = default_metrics,
         k_decisions = [], k_touch = 0\<rparr>))"

section \<open>Helpers\<close>

definition kernel_add ::
  "(simulation_metrics \<Rightarrow> u64) \<Rightarrow> ((u64 \<Rightarrow> u64) \<Rightarrow> simulation_metrics \<Rightarrow> simulation_metrics)
    \<Rightarrow> u64 \<Rightarrow> string \<Rightarrow> kernel \<Rightarrow> (sim_error, kernel) result" where
  "kernel_add field update value name k =
     rbind (metric_add field update value name (k_metrics k)) (\<lambda>m. Ok (k\<lparr>k_metrics := m\<rparr>))"

definition next_touch :: "kernel \<Rightarrow> (sim_error, u64 \<times> kernel) result" where
  "next_touch k =
     rbind (ok_or (checked_add (k_touch k) 1) (CounterOverflow ''policy touch clock'')) (\<lambda>touch.
     Ok (touch, k\<lparr>k_touch := touch\<rparr>))"

definition page_list_bytes :: "page_id list \<Rightarrow> u8 list" where
  "page_list_bytes pages = u64_to_le_bytes (length pages) @ concat (map u32_to_le_bytes pages)"

definition tag_bytes :: "u64 \<Rightarrow> string \<Rightarrow> u8 list" where
  "tag_bytes sequence tag = u64_to_le_bytes sequence @ u64_to_le_bytes (length tag) @ as_bytes tag"

definition hash_event ::
  "u64 \<Rightarrow> string \<Rightarrow> page_id option \<Rightarrow> page_id list \<Rightarrow> kernel \<Rightarrow> kernel" where
  "hash_event sequence tag page victims k =
     k\<lparr>k_decisions := k_decisions k @ tag_bytes sequence tag
        @ (case page of None \<Rightarrow> [0] | Some i \<Rightarrow> [1] @ u32_to_le_bytes i)
        @ page_list_bytes victims\<rparr>"

definition hash_prefetch_decision ::
  "u64 \<Rightarrow> string \<Rightarrow> page_id list \<Rightarrow> page_id list \<Rightarrow> page_id list \<Rightarrow> page_id list \<Rightarrow> kernel \<Rightarrow> kernel" where
  "hash_prefetch_decision sequence tag offered redundant admitted_or_dropped victims k =
     k\<lparr>k_decisions := k_decisions k @ tag_bytes sequence tag @ page_list_bytes offered
        @ page_list_bytes redundant @ page_list_bytes admitted_or_dropped @ page_list_bytes victims\<rparr>"

definition account_wasted_prefetch :: "resident_entry \<Rightarrow> kernel \<Rightarrow> (sim_error, kernel) result" where
  "account_wasted_prefetch entry k =
     (if re_prefetched_unused entry then
        rbind (kernel_add prefetch_wasted prefetch_wasted_update 1 ''prefetch_wasted'' k) (\<lambda>k.
        kernel_add prefetch_wasted_bytes prefetch_wasted_bytes_update (re_logical_bytes entry)
          ''prefetch_wasted_bytes'' k)
      else Ok k)"

definition evict :: "page_id \<Rightarrow> kernel \<Rightarrow> (sim_error, kernel) result" where
  "evict page k =
     rbind (ok_or (bt_get (k_residents k) page)
              (InvalidConfig ''victim plan referenced a nonresident page'')) (\<lambda>entry.
     rbind (account_wasted_prefetch entry (k\<lparr>k_residents := bt_remove page (k_residents k)\<rparr>)) (\<lambda>k.
     rbind (ok_or (checked_sub (k_resident_bytes k) (re_charge_bytes entry))
              (InvalidConfig ''resident-byte ledger underflow'')) (\<lambda>bytes.
     rbind (kernel_add evictions evictions_update 1 ''evictions'' (k\<lparr>k_resident_bytes := bytes\<rparr>)) (\<lambda>k.
     kernel_add evicted_charge_bytes evicted_charge_bytes_update (re_charge_bytes entry)
       ''evicted_charge_bytes'' k))))"

definition kernel_insert :: "page_descriptor \<Rightarrow> u64 \<Rightarrow> bool \<Rightarrow> kernel \<Rightarrow> (sim_error, kernel) result" where
  "kernel_insert page touch prefetched_unused k =
     rbind (ok_or (checked_add (k_resident_bytes k) (pd_charge_bytes page))
              (CounterOverflow ''resident charge'')) (\<lambda>new_resident_bytes.
     rbind (ensure (new_resident_bytes \<le> k_capacity_bytes k)
              (InvalidConfig ''atomic victim plan did not free enough capacity'')) (\<lambda>_.
     rbind (ensure (bt_get (k_residents k) (pd_id page) = None)
              (InvalidConfig ''attempted to insert an already resident page'')) (\<lambda>_.
     kernel_add admissions admissions_update 1 ''admissions''
       (k\<lparr>k_residents := bt_insert (pd_id page)
            \<lparr>re_page = pd_id page, re_charge_bytes = pd_charge_bytes page,
             re_logical_bytes = pd_logical_bytes page, re_last_touch = touch,
             re_segment = initial_segment (k_policy k),
             re_prefetched_unused = prefetched_unused\<rparr> (k_residents k),
          k_resident_bytes := new_resident_bytes,
          k_metrics := (k_metrics k)\<lparr>peak_resident_charge_bytes :=
            max (peak_resident_charge_bytes (k_metrics k)) new_resident_bytes\<rparr>\<rparr>))))"

section \<open>Demands\<close>

definition demand_hit ::
  "u64 \<Rightarrow> page_descriptor \<Rightarrow> page_id \<Rightarrow> u64 \<Rightarrow> resident_entry \<Rightarrow> kernel \<Rightarrow> (sim_error, kernel) result" where
  "demand_hit sequence page page_id touch entry k =
     rbind
       (if re_prefetched_unused entry then
          let k = k\<lparr>k_residents := bt_insert page_id (entry\<lparr>re_prefetched_unused := False\<rparr>) (k_residents k)\<rparr> in
          rbind (kernel_add useful_prefetch_hits useful_prefetch_hits_update 1 ''useful_prefetch_hits'' k) (\<lambda>k.
          rbind (kernel_add useful_prefetch_hit_bytes useful_prefetch_hit_bytes_update (pd_logical_bytes page)
                   ''useful_prefetch_hit_bytes'' k) (\<lambda>k.
          rbind (kernel_add prefetch_useful prefetch_useful_update 1 ''prefetch_useful'' k) (\<lambda>k.
          rbind (kernel_add prefetch_useful_bytes prefetch_useful_bytes_update (pd_logical_bytes page)
                   ''prefetch_useful_bytes'' k) (\<lambda>k.
          Ok (hash_event sequence ''demand-useful-prefetch-hit'' (Some page_id) [] k)))))
        else
          rbind (kernel_add ordinary_demand_hits ordinary_demand_hits_update 1 ''ordinary_demand_hits'' k) (\<lambda>k.
          rbind (kernel_add ordinary_demand_hit_bytes ordinary_demand_hit_bytes_update (pd_logical_bytes page)
                   ''ordinary_demand_hit_bytes'' k) (\<lambda>k.
          Ok (hash_event sequence ''demand-hit'' (Some page_id) [] k))))
       (\<lambda>k.
     rbind (on_hit (k_policy k) (k_residents k) page_id touch) (\<lambda>residents.
     Ok (k\<lparr>k_residents := residents\<rparr>)))"

definition demand_miss ::
  "u64 \<Rightarrow> u64 \<Rightarrow> u64 \<Rightarrow> page_descriptor \<Rightarrow> page_id \<Rightarrow> u64 \<Rightarrow> kernel \<Rightarrow> (sim_error, kernel) result" where
  "demand_miss sequence request step page page_id touch k =
     rbind (kernel_add demand_misses demand_misses_update 1 ''demand_misses'' k) (\<lambda>k.
     rbind (kernel_add demand_miss_bytes demand_miss_bytes_update (pd_logical_bytes page)
              ''demand_miss_bytes'' k) (\<lambda>k.
     rbind (kernel_add demand_load_bytes demand_load_bytes_update (pd_logical_bytes page)
              ''demand_load_bytes'' k) (\<lambda>k.
     rbind (plan_demand_victims (k_policy k) (catalog (k_trace k)) (k_residents k)
              \<lparr>dp_resident_bytes = k_resident_bytes k, dp_capacity_bytes = k_capacity_bytes k,
               dp_candidate = page, dp_request = request, dp_step = step\<rparr>) (\<lambda>plan.
     (case plan of
        None \<Rightarrow>
          rbind (kernel_add bypasses bypasses_update 1 ''bypasses'' k) (\<lambda>k.
          Ok (hash_event sequence ''demand-miss-bypass'' (Some page_id) [] k))
      | Some victims \<Rightarrow>
          rbind (rfold evict victims k) (\<lambda>k.
          rbind (kernel_insert page touch False k) (\<lambda>k.
          Ok (hash_event sequence ''demand-miss-admit'' (Some page_id) victims k))))))))"

definition demand :: "u64 \<Rightarrow> u64 \<Rightarrow> u64 \<Rightarrow> page_id \<Rightarrow> kernel \<Rightarrow> (sim_error, kernel) result" where
  "demand sequence request step page_id k =
     rbind (trace_page (k_trace k) page_id) (\<lambda>page.
     rbind (enter_demand_step (k_policy k) request step) (\<lambda>policy.
     rbind (observe_demand policy page_id) (\<lambda>policy.
     rbind (kernel_add demand_accesses demand_accesses_update 1 ''demand_accesses''
              (k\<lparr>k_policy := policy\<rparr>)) (\<lambda>k.
     rbind (kernel_add demand_logical_bytes demand_logical_bytes_update (pd_logical_bytes page)
              ''demand_logical_bytes'' k) (\<lambda>k.
     rbind (next_touch k) (\<lambda>(touch, k).
     (case bt_get (k_residents k) page_id of
        Some entry \<Rightarrow> demand_hit sequence page page_id touch entry k
      | None \<Rightarrow> demand_miss sequence request step page page_id touch k)))))))"

section \<open>Prefetches\<close>

definition offer_page :: "page_id \<Rightarrow> kernel \<Rightarrow> (sim_error, kernel) result" where
  "offer_page i k =
     rbind (trace_page (k_trace k) i) (\<lambda>page.
     rbind (kernel_add prefetch_offered prefetch_offered_update 1 ''prefetch_offered'' k) (\<lambda>k.
     kernel_add prefetch_offered_bytes prefetch_offered_bytes_update (pd_logical_bytes page)
       ''prefetch_offered_bytes'' k))"

definition classify_page ::
  "page_id \<Rightarrow> kernel \<times> page_id list \<times> page_id list
    \<Rightarrow> (sim_error, kernel \<times> page_id list \<times> page_id list) result" where
  "classify_page i st = (case st of (k, absent, redundant) \<Rightarrow>
     rbind (trace_page (k_trace k) i) (\<lambda>page.
     if bt_get (k_residents k) i \<noteq> None then
       rbind (kernel_add prefetch_redundant prefetch_redundant_update 1 ''prefetch_redundant'' k) (\<lambda>k.
       rbind (kernel_add prefetch_redundant_bytes prefetch_redundant_bytes_update (pd_logical_bytes page)
                ''prefetch_redundant_bytes'' k) (\<lambda>k.
       Ok (k, absent, redundant @ [i])))
     else Ok (k, absent @ [i], redundant)))"

definition drop_prefetch :: "page_id \<Rightarrow> kernel \<Rightarrow> (sim_error, kernel) result" where
  "drop_prefetch i k =
     rbind (trace_page (k_trace k) i) (\<lambda>page.
     rbind (kernel_add prefetch_dropped prefetch_dropped_update 1 ''prefetch_dropped'' k) (\<lambda>k.
     kernel_add prefetch_dropped_bytes prefetch_dropped_bytes_update (pd_logical_bytes page)
       ''prefetch_dropped_bytes'' k))"

definition drop_prefetches :: "page_id list \<Rightarrow> kernel \<Rightarrow> (sim_error, kernel) result" where
  "drop_prefetches pages k = rfold drop_prefetch pages k"

definition admit_prefetch :: "page_id \<Rightarrow> kernel \<Rightarrow> (sim_error, kernel) result" where
  "admit_prefetch i k =
     rbind (trace_page (k_trace k) i) (\<lambda>page.
     rbind (next_touch k) (\<lambda>(touch, k).
     rbind (kernel_insert page touch True k) (\<lambda>k.
     rbind (kernel_add prefetch_admitted prefetch_admitted_update 1 ''prefetch_admitted'' k) (\<lambda>k.
     kernel_add prefetch_load_bytes prefetch_load_bytes_update (pd_logical_bytes page)
       ''prefetch_load_bytes'' k))))"

definition group_load_bytes :: "validated_trace \<Rightarrow> page_id list \<Rightarrow> (sim_error, u64) result" where
  "group_load_bytes t pages =
     rfold (\<lambda>i total.
       rbind (trace_page t i) (\<lambda>page.
       ok_or (checked_add total (pd_logical_bytes page)) (CounterOverflow ''prefetch group load''))) pages 0"

text \<open>The three ways a group with absent pages ends, and the choice between them.\<close>

definition drop_group ::
  "PrefetchGroup \<Rightarrow> prefetch_budget \<Rightarrow> string \<Rightarrow> page_id list \<Rightarrow> page_id list \<Rightarrow> kernel
    \<Rightarrow> (sim_error, prefetch_budget \<times> kernel) result" where
  "drop_group g budget tag absent redundant k =
     rbind (drop_prefetches absent k) (\<lambda>k.
     Ok (budget, hash_prefetch_decision (pg_sequence g) tag (pg_page_ids g) redundant absent [] k))"

definition admit_group ::
  "PrefetchGroup \<Rightarrow> prefetch_budget \<Rightarrow> u64 \<Rightarrow> page_id list \<Rightarrow> page_id list \<Rightarrow> page_id list \<Rightarrow> kernel
    \<Rightarrow> (sim_error, prefetch_budget \<times> kernel) result" where
  "admit_group g budget load_bytes absent redundant victims k =
     rbind (rfold evict victims k) (\<lambda>k.
     rbind (rfold admit_prefetch absent k) (\<lambda>k.
     rbind (ok_or (checked_sub (pb_remaining_bytes budget) load_bytes)
              (InvalidConfig ''prefetch byte budget underflow'')) (\<lambda>remaining_bytes.
     rbind (sub_u64 (pb_remaining_pages budget) (length absent)) (\<lambda>remaining_pages.
     Ok (\<lparr>pb_remaining_pages = remaining_pages, pb_remaining_bytes = remaining_bytes\<rparr>,
         hash_prefetch_decision (pg_sequence g) ''prefetch-admit'' (pg_page_ids g) redundant absent victims k)))))"

definition place_group ::
  "PrefetchGroup \<Rightarrow> prefetch_budget \<Rightarrow> page_id list \<Rightarrow> page_id list \<Rightarrow> kernel
    \<Rightarrow> (sim_error, prefetch_budget \<times> kernel) result" where
  "place_group g budget absent redundant k =
     (if absent = [] then
        Ok (budget, hash_prefetch_decision (pg_sequence g) ''prefetch-redundant'' (pg_page_ids g) redundant [] [] k)
      else if length absent > pb_remaining_pages budget then
        drop_group g budget ''prefetch-drop-page-limit'' absent redundant k
      else
        rbind (group_load_bytes (k_trace k) absent) (\<lambda>load_bytes.
        if load_bytes > pb_remaining_bytes budget then
          drop_group g budget ''prefetch-drop-byte-limit'' absent redundant k
        else
          rbind (plan_prefetch_victims (k_policy k) (catalog (k_trace k)) (k_residents k)
                   \<lparr>pp_resident_bytes = k_resident_bytes k, pp_capacity_bytes = k_capacity_bytes k,
                    pp_absent_pages = absent, pp_request = pg_request g,
                    pp_target_step = pg_target_step g,
                    pp_candidate_score = ep_score_ppm (pg_prediction g)\<rparr>) (\<lambda>plan.
          (case plan of
             None \<Rightarrow> drop_group g budget ''prefetch-drop-admission'' absent redundant k
           | Some victims \<Rightarrow> admit_group g budget load_bytes absent redundant victims k))))"

definition prefetch_group ::
  "PrefetchGroup \<Rightarrow> prefetch_budget \<Rightarrow> kernel \<Rightarrow> (sim_error, prefetch_budget \<times> kernel) result" where
  "prefetch_group g budget k =
     rbind (rfold offer_page (pg_page_ids g) k) (\<lambda>k.
     rbind (rfold classify_page (pg_page_ids g) (k, [], [])) (\<lambda>(k, absent, redundant).
     place_group g budget absent redundant k))"

fun prefetch_selected ::
  "u64 \<Rightarrow> u64 \<Rightarrow> u64 \<Rightarrow> u32 \<Rightarrow> expert_prediction list \<Rightarrow> prefetch_budget \<Rightarrow> kernel
    \<Rightarrow> (sim_error, kernel) result" where
  "prefetch_selected sequence request target_step layer [] budget k = Ok k"
| "prefetch_selected sequence request target_step layer (prediction # rest) budget k =
     (if pb_remaining_pages budget = 0 then Ok k
      else
        rbind (prefetch_group
          \<lparr>pg_sequence = sequence, pg_request = request, pg_target_step = target_step,
           pg_prediction = prediction,
           pg_page_ids = trace_expert_pages (k_trace k) layer (ep_expert prediction)\<rparr> budget k) (\<lambda>(budget, k).
        prefetch_selected sequence request target_step layer rest budget k))"

section \<open>Signals and replay\<close>

text \<open>
  The predictions a router policy keeps: scores at least the minimum, by descending score and then
  ascending expert (\<^verbatim>\<open>Reverse\<close> of a \<^verbatim>\<open>u32\<close> orders by the complement), cut to the expert limit.
\<close>

definition select_predictions :: "router_policy_config \<Rightarrow> expert_prediction list \<Rightarrow> expert_prediction list" where
  "select_predictions config predictions =
     take (rc_max_experts_per_signal config)
       (sort_key (\<lambda>q. (u32_max - ep_score_ppm q, ep_expert q))
         (filter (\<lambda>q. ep_score_ppm q \<ge> rc_minimum_score_ppm config) predictions))"

definition signal ::
  "u64 \<Rightarrow> u64 \<Rightarrow> u64 \<Rightarrow> u32 \<Rightarrow> expert_prediction list \<Rightarrow> kernel \<Rightarrow> (sim_error, kernel) result" where
  "signal sequence request target_step layer predictions k =
     (case router_config (k_policy k) of
        None \<Rightarrow> Ok (hash_event sequence ''signal-ignored'' None [] k)
      | Some config \<Rightarrow>
          let selected = select_predictions config predictions in
          if selected = [] then Ok (hash_event sequence ''signal-empty'' None [] k)
          else
            rbind (record_signal (k_policy k) request target_step layer selected) (\<lambda>policy.
            let k = k\<lparr>k_policy := policy\<rparr> in
            if \<not> prefetch_enabled policy then
              Ok (hash_event sequence ''signal-admission-only'' None [] k)
            else
              prefetch_selected sequence request target_step layer selected
                \<lparr>pb_remaining_pages = rc_max_pages_per_signal config,
                 pb_remaining_bytes = rc_max_prefetch_bytes_per_signal config\<rparr> k))"

fun replay_event :: "trace_event \<Rightarrow> kernel \<Rightarrow> (sim_error, kernel) result" where
  "replay_event (Demand sequence request step page) k = demand sequence request step page k"
| "replay_event (RouterSignal sequence request target_step layer predictions) k =
     signal sequence request target_step layer predictions k"

definition run_finish ::
  "(u8 list \<Rightarrow> string) \<Rightarrow> kernel \<Rightarrow> (sim_error, simulation_metrics \<times> string) result" where
  "run_finish sha_hex k =
     (let unfinished = filter re_prefetched_unused (bt_values (k_residents k)) in
     rbind (rfold account_wasted_prefetch unfinished k) (\<lambda>k.
     let metrics = (k_metrics k)\<lparr>final_resident_charge_bytes := k_resident_bytes k\<rparr> in
     rbind (finish_metadata (k_policy k)) (\<lambda>(metadata_bytes, metadata_limit_bytes).
     rbind (finish (metrics\<lparr>policy_metadata_bytes := metadata_bytes,
                            policy_metadata_limit_bytes := metadata_limit_bytes\<rparr>)) (\<lambda>metrics.
     Ok (metrics, sha_hex (k_decisions k))))))"

definition run ::
  "(u8 list \<Rightarrow> string) \<Rightarrow> kernel \<Rightarrow> (sim_error, simulation_metrics \<times> string) result" where
  "run sha_hex k = rbind (rfold replay_event (vt_events (k_trace k)) k) (run_finish sha_hex)"

end
