(* ===== verification/Sim_Engine_Inv.thy ===== *)
theory Sim_Engine_Inv
  imports Sim_Engine Sim_Policy_Inv
begin

text \<open>
  The kernel invariant and its preservation by every kernel operation. On a well-formed trace the kernel
  fails only with \<open>CounterOverflow\<close>: the consistency errors of \<^verbatim>\<open>evict\<close>, \<^verbatim>\<open>insert\<close>, \<^verbatim>\<open>record_signal\<close>,
  \<^verbatim>\<open>finish_metadata\<close> and \<^verbatim>\<open>finish\<close>, and every panic, are unreachable.
\<close>

section \<open>The invariant\<close>

definition unused_count :: "residents \<Rightarrow> nat" where
  "unused_count R = btotal (\<lambda>_ e. if re_prefetched_unused e then 1 else 0) R"

definition unused_bytes :: "residents \<Rightarrow> nat" where
  "unused_bytes R = btotal (\<lambda>_ e. if re_prefetched_unused e then re_logical_bytes e else 0) R"

text \<open>Byte ledger, capacity, admissions against evictions, prefetched pages accounted for.\<close>

definition ledger_ok :: "kernel \<Rightarrow> bool" where
  "ledger_ok k \<longleftrightarrow>
     residents_ok (catalog (k_trace k)) (k_residents k) \<and> segments_ok (k_policy k) (k_residents k)
     \<and> (is_no_cache (k_policy k) \<longrightarrow> k_residents k = [])
     \<and> k_resident_bytes k = charge_total (k_residents k)
     \<and> charge_total (k_residents k) \<le> k_capacity_bytes k \<and> k_capacity_bytes k \<le> u64_max
     \<and> charge_total (k_residents k) \<le> peak_resident_charge_bytes (k_metrics k)
     \<and> peak_resident_charge_bytes (k_metrics k) \<le> k_capacity_bytes k
     \<and> evictions (k_metrics k) + length (k_residents k) = admissions (k_metrics k)
     \<and> prefetch_useful (k_metrics k) + prefetch_wasted (k_metrics k) + unused_count (k_residents k)
         = prefetch_admitted (k_metrics k)
     \<and> prefetch_useful_bytes (k_metrics k) + prefetch_wasted_bytes (k_metrics k) + unused_bytes (k_residents k)
         = prefetch_load_bytes (k_metrics k)"

definition demands_ok :: "simulation_metrics \<Rightarrow> bool" where
  "demands_ok m \<longleftrightarrow>
     ordinary_demand_hits m + useful_prefetch_hits m + demand_misses m = demand_accesses m
     \<and> ordinary_demand_hit_bytes m + useful_prefetch_hit_bytes m + demand_miss_bytes m = demand_logical_bytes m
     \<and> demand_load_bytes m = demand_miss_bytes m
     \<and> demand_accesses m \<le> u64_max \<and> demand_logical_bytes m \<le> u64_max"

definition offers_ok :: "simulation_metrics \<Rightarrow> bool" where
  "offers_ok m \<longleftrightarrow>
     prefetch_admitted m + prefetch_redundant m + prefetch_dropped m = prefetch_offered m
     \<and> prefetch_load_bytes m + prefetch_redundant_bytes m + prefetch_dropped_bytes m = prefetch_offered_bytes m
     \<and> prefetch_offered m \<le> u64_max \<and> prefetch_offered_bytes m \<le> u64_max"

definition kernel_ok :: "trace_header \<Rightarrow> kernel \<Rightarrow> bool" where
  "kernel_ok h k \<longleftrightarrow> wf_catalog h (catalog (k_trace k)) \<and> policy_ok (k_policy k) \<and> ledger_ok k"

text \<open>What evictions and insertions leave alone.\<close>

definition frame :: "kernel \<Rightarrow> kernel \<Rightarrow> bool" where
  "frame k k' \<longleftrightarrow> k_trace k' = k_trace k \<and> k_capacity_bytes k' = k_capacity_bytes k \<and> k_policy k' = k_policy k"

definition demand_view :: "simulation_metrics \<Rightarrow> u64 list" where
  "demand_view m = [ordinary_demand_hits m, useful_prefetch_hits m, demand_misses m, demand_accesses m,
     ordinary_demand_hit_bytes m, useful_prefetch_hit_bytes m, demand_miss_bytes m, demand_logical_bytes m,
     demand_load_bytes m]"

definition offer_view :: "simulation_metrics \<Rightarrow> u64 list" where
  "offer_view m = [prefetch_redundant m, prefetch_dropped m, prefetch_offered m,
     prefetch_redundant_bytes m, prefetch_dropped_bytes m, prefetch_offered_bytes m]"

definition admit_view :: "simulation_metrics \<Rightarrow> u64 list" where
  "admit_view m = [prefetch_admitted m, prefetch_load_bytes m]"

lemmas views = demand_view_def offer_view_def admit_view_def

lemma frame_refl [simp]: "frame k k"
  by (simp add: frame_def)

lemma frame_trans: "frame k k' \<Longrightarrow> frame k' k'' \<Longrightarrow> frame k k''"
  by (simp add: frame_def)

lemma demands_ok_view: "demand_view m' = demand_view m \<Longrightarrow> demands_ok m' = demands_ok m"
  by (simp add: demands_ok_def demand_view_def)

lemma wp_kernel_add [simp]:
  "wp overflow (kernel_add field update v n k) Q \<longleftrightarrow>
     (field (k_metrics k) + v \<le> u64_max \<longrightarrow> Q (k\<lparr>k_metrics := update (\<lambda>_. field (k_metrics k) + v) (k_metrics k)\<rparr>))"
  by (auto simp: kernel_add_def metric_add_def wp_ok_or split: option.splits)

lemma wp_next_touch [simp]:
  "wp overflow (next_touch k) Q \<longleftrightarrow>
     (k_touch k + 1 \<le> u64_max \<longrightarrow> Q (k_touch k + 1, k\<lparr>k_touch := k_touch k + 1\<rparr>))"
  by (auto simp: next_touch_def wp_ok_or split: option.splits)

lemma kernel_okD:
  assumes "kernel_ok h k"
  shows "wf_catalog h (catalog (k_trace k))" "residents_ok (catalog (k_trace k)) (k_residents k)"
    "bt_wf (k_residents k)" "policy_ok (k_policy k)" "segments_ok (k_policy k) (k_residents k)"
    "k_resident_bytes k = charge_total (k_residents k)" "charge_total (k_residents k) \<le> k_capacity_bytes k"
    "k_capacity_bytes k \<le> u64_max"
  using assms by (auto simp: kernel_ok_def ledger_ok_def residents_ok_def)

lemma catalog_pages [simp]: "ct_pages (catalog t) = vt_pages t"
  by (simp add: catalog_def)

lemma trace_page_ok:
  "wf_catalog h (catalog t) \<Longrightarrow> i < length (vt_pages t) \<Longrightarrow> trace_page t i = Ok (vt_pages t ! i)"
  using catalog_page_ok [of h "catalog t" i] by (simp add: trace_page_def)

lemma wf_catalog_page:
  "wf_catalog h (catalog t) \<Longrightarrow> i < length (vt_pages t) \<Longrightarrow> wf_page h i (vt_pages t ! i)"
  by (simp add: wf_catalog_def)

lemma segments_ok_remove:
  assumes "segments_ok p R" "bt_wf R" "bt_get R i = Some e"
  shows "segments_ok p (bt_remove i R)"
proof -
  have "protected_total (bt_remove i R) \<le> protected_total R"
    unfolding protected_total_def
    using bt_total_remove [OF assms(2,3), of "\<lambda>_ e. if re_segment e = Seg_Protected then re_charge_bytes e else 0"]
    by linarith
  with assms(1) show ?thesis by (auto simp: segments_ok_def split: option.splits if_splits)
qed

lemma initial_segment_cases:
  "initial_segment p = (if protected_target p = None then Seg_Lru else Seg_Probation)"
  by (cases p) auto

lemma segments_ok_insert:
  assumes "segments_ok p R" "bt_wf R" "bt_get R i = None" "re_segment e = initial_segment p"
  shows "segments_ok p (bt_insert i e R)"
proof -
  have "protected_total (bt_insert i e R) = protected_total R"
    unfolding protected_total_def
    using bt_total_insert_new [OF assms(2,3), of "\<lambda>_ e. if re_segment e = Seg_Protected then re_charge_bytes e else 0" e]
      assms(4) by (simp add: initial_segment_cases)
  with assms(1,2,4) show ?thesis
    by (auto simp: segments_ok_def initial_segment_cases split: option.splits)
qed

section \<open>Eviction\<close>

lemma remove_totals:
  assumes "bt_wf R" "bt_get R i = Some e"
  shows "charge_total (bt_remove i R) + re_charge_bytes e = charge_total R"
    "unused_count (bt_remove i R) + (if re_prefetched_unused e then 1 else 0) = unused_count R"
    "unused_bytes (bt_remove i R) + (if re_prefetched_unused e then re_logical_bytes e else 0) = unused_bytes R"
  using bt_total_remove [OF assms, of "\<lambda>_. re_charge_bytes"]
    bt_total_remove [OF assms, of "\<lambda>_ e. if re_prefetched_unused e then 1 else 0"]
    bt_total_remove [OF assms, of "\<lambda>_ e. if re_prefetched_unused e then re_logical_bytes e else 0"]
  by (simp_all add: charge_total_def unused_count_def unused_bytes_def)

lemma insert_totals:
  assumes "bt_wf R" "bt_get R i = None"
  shows "charge_total (bt_insert i e R) = charge_total R + re_charge_bytes e"
    "unused_count (bt_insert i e R) = unused_count R + (if re_prefetched_unused e then 1 else 0)"
    "unused_bytes (bt_insert i e R) = unused_bytes R + (if re_prefetched_unused e then re_logical_bytes e else 0)"
  using bt_total_insert_new [OF assms, of "\<lambda>_. re_charge_bytes" e]
    bt_total_insert_new [OF assms, of "\<lambda>_ e. if re_prefetched_unused e then 1 else 0" e]
    bt_total_insert_new [OF assms, of "\<lambda>_ e. if re_prefetched_unused e then re_logical_bytes e else 0" e]
  by (simp_all add: charge_total_def unused_count_def unused_bytes_def)

lemma evict_wp:
  assumes "kernel_ok h k" "bt_get (k_residents k) i = Some e"
  shows "wp overflow (evict i k) (\<lambda>k'. kernel_ok h k' \<and> frame k k' \<and> k_touch k' = k_touch k
     \<and> k_residents k' = bt_remove i (k_residents k)
     \<and> demand_view (k_metrics k') = demand_view (k_metrics k) \<and> offer_view (k_metrics k') = offer_view (k_metrics k)
     \<and> admit_view (k_metrics k') = admit_view (k_metrics k))"
proof -
  note D = kernel_okD [OF assms(1)]
  note t = remove_totals [OF D(3) assms(2)]
  have len: "Suc (length (bt_remove i (k_residents k))) = length (k_residents k)"
    using D(3) assms(2) by (rule length_bt_remove)
  have R: "residents_ok (catalog (k_trace k)) (bt_remove i (k_residents k))"
    "segments_ok (k_policy k) (bt_remove i (k_residents k))"
    using D assms(2) by (auto intro: residents_ok_remove segments_ok_remove)
  have nc: "\<not> is_no_cache (k_policy k)"
    using assms by (auto simp: kernel_ok_def ledger_ok_def)
  show ?thesis
    using assms t len R nc
    by (auto simp: evict_def account_wasted_prefetch_def wp_ok_or checked_sub_def kernel_ok_def ledger_ok_def
        frame_def views split: option.splits if_splits)
qed

lemma evict_all_wp:
  assumes "kernel_ok h k" "frees_enough (k_residents k) (k_capacity_bytes k) required ok vs"
  shows "wp overflow (rfold evict vs k) (\<lambda>k'. kernel_ok h k' \<and> frame k k' \<and> k_touch k' = k_touch k
     \<and> (\<forall>i. bt_get (k_residents k') i = (if i \<in> set vs then None else bt_get (k_residents k) i))
     \<and> required + charge_total (k_residents k') \<le> k_capacity_bytes k
     \<and> demand_view (k_metrics k') = demand_view (k_metrics k) \<and> offer_view (k_metrics k') = offer_view (k_metrics k)
     \<and> admit_view (k_metrics k') = admit_view (k_metrics k))"
proof -
  let ?R = "k_residents k"
  let ?P = "\<lambda>ys k'. kernel_ok h k' \<and> frame k k' \<and> k_touch k' = k_touch k
     \<and> (\<forall>i. bt_get (k_residents k') i = (if i \<in> set ys then None else bt_get ?R i))
     \<and> charge_total (k_residents k') + freed ?R ys = charge_total ?R
     \<and> demand_view (k_metrics k') = demand_view (k_metrics k) \<and> offer_view (k_metrics k') = offer_view (k_metrics k)
     \<and> admit_view (k_metrics k') = admit_view (k_metrics k)"
  have "wp overflow (rfold evict vs k) (?P vs)"
  proof (rule wp_rfold [where P = ?P])
    fix ys v zs k' assume vs: "vs = ys @ v # zs" and P: "?P ys k'"
    then obtain e where e: "bt_get ?R v = Some e" "v \<notin> set ys"
      using assms(2) by (auto simp: frees_enough_def)
    have get: "bt_get (k_residents k') v = Some e" using P e by simp
    have ok: "kernel_ok h k'" using P by simp
    have total: "charge_total (bt_remove v (k_residents k')) + re_charge_bytes e = charge_total (k_residents k')"
      by (rule remove_totals(1) [OF kernel_okD(3) [OF ok] get])
    show "wp overflow (evict v k') (?P (ys @ [v]))"
      using P total e by (intro wp_conseq [OF evict_wp [OF ok get]])
        (auto simp: freed_def intro: frame_trans)
  qed (use assms(1) in \<open>simp add: freed_def\<close>)
  then show ?thesis
    using assms(2) by (auto simp: frees_enough_def elim!: wp_conseq)
qed

section \<open>Insertion\<close>

lemma kernel_insert_wp:
  assumes "kernel_ok h k" "i < length (vt_pages (k_trace k))" "bt_get (k_residents k) i = None"
    "\<not> is_no_cache (k_policy k)"
    "pd_charge_bytes (vt_pages (k_trace k) ! i) + charge_total (k_residents k) \<le> k_capacity_bytes k"
  shows "wp overflow (kernel_insert (vt_pages (k_trace k) ! i) touch False k) (\<lambda>k'. kernel_ok h k' \<and> frame k k'
     \<and> k_touch k' = k_touch k
     \<and> bt_get (k_residents k') = (bt_get (k_residents k))(i \<mapsto>
          \<lparr>re_page = i, re_charge_bytes = pd_charge_bytes (vt_pages (k_trace k) ! i),
           re_logical_bytes = pd_logical_bytes (vt_pages (k_trace k) ! i), re_last_touch = touch,
           re_segment = initial_segment (k_policy k), re_prefetched_unused = False\<rparr>)
     \<and> demand_view (k_metrics k') = demand_view (k_metrics k) \<and> offer_view (k_metrics k') = offer_view (k_metrics k)
     \<and> admit_view (k_metrics k') = admit_view (k_metrics k))"
proof -
  note D = kernel_okD [OF assms(1)]
  let ?page = "vt_pages (k_trace k) ! i"
  have pid: "pd_id ?page = i" using wf_catalog_page [OF D(1) assms(2)] by (simp add: wf_page_def)
  let ?e = "\<lparr>re_page = i, re_charge_bytes = pd_charge_bytes ?page, re_logical_bytes = pd_logical_bytes ?page,
    re_last_touch = touch, re_segment = initial_segment (k_policy k), re_prefetched_unused = False\<rparr>"
  note t = insert_totals [OF D(3) assms(3), of ?e] and len = length_bt_insert_new [OF D(3) assms(3), of ?e]
  have R: "residents_ok (catalog (k_trace k)) (bt_insert i ?e (k_residents k))"
    "segments_ok (k_policy k) (bt_insert i ?e (k_residents k))"
    using D assms(2,3) by (auto intro!: residents_ok_insert segments_ok_insert simp: entry_ok_def)
  show ?thesis
    using assms D(3,8) t len R pid
    by (auto simp: kernel_insert_def wp_ok_or checked_add_def kernel_ok_def ledger_ok_def frame_def views
        split: option.splits)
qed

lemma admit_prefetch_wp:
  assumes "kernel_ok h k" "i < length (vt_pages (k_trace k))" "bt_get (k_residents k) i = None"
    "\<not> is_no_cache (k_policy k)"
    "pd_charge_bytes (vt_pages (k_trace k) ! i) + charge_total (k_residents k) \<le> k_capacity_bytes k"
  shows "wp overflow (admit_prefetch i k) (\<lambda>k'. kernel_ok h k' \<and> frame k k'
     \<and> dom (bt_get (k_residents k')) = insert i (dom (bt_get (k_residents k)))
     \<and> charge_total (k_residents k') = charge_total (k_residents k) + pd_charge_bytes (vt_pages (k_trace k) ! i)
     \<and> demand_view (k_metrics k') = demand_view (k_metrics k) \<and> offer_view (k_metrics k') = offer_view (k_metrics k)
     \<and> prefetch_admitted (k_metrics k') = prefetch_admitted (k_metrics k) + 1
     \<and> prefetch_load_bytes (k_metrics k') = prefetch_load_bytes (k_metrics k) + pd_logical_bytes (vt_pages (k_trace k) ! i))"
proof -
  note D = kernel_okD [OF assms(1)]
  let ?page = "vt_pages (k_trace k) ! i"
  have pid: "pd_id ?page = i" using wf_catalog_page [OF D(1) assms(2)] by (simp add: wf_page_def)
  let ?e = "\<lparr>re_page = i, re_charge_bytes = pd_charge_bytes ?page, re_logical_bytes = pd_logical_bytes ?page,
    re_last_touch = k_touch k + 1, re_segment = initial_segment (k_policy k), re_prefetched_unused = True\<rparr>"
  note t = insert_totals [OF D(3) assms(3), of ?e] and len = length_bt_insert_new [OF D(3) assms(3), of ?e]
  have R: "residents_ok (catalog (k_trace k)) (bt_insert i ?e (k_residents k))"
    "segments_ok (k_policy k) (bt_insert i ?e (k_residents k))"
    using D assms(2,3) by (auto intro!: residents_ok_insert segments_ok_insert simp: entry_ok_def)
  show ?thesis
    using assms D(1,3,8) t len R pid trace_page_ok [OF D(1) assms(2)]
    by (auto simp: admit_prefetch_def next_touch_def kernel_insert_def wp_ok_or checked_add_def kernel_ok_def
        ledger_ok_def frame_def views split: option.splits)
qed

section \<open>Demands\<close>

lemma same_pages_unused:
  assumes "same_pages R R'" "bt_wf R" "bt_wf R'"
  shows "unused_count R' = unused_count R" "unused_bytes R' = unused_bytes R" "length R' = length R"
  using same_pages_total [OF assms, of "\<lambda>(l, u, s). if u then 1 else 0"]
    same_pages_total [OF assms, of "\<lambda>(l, u, s). if u then l else 0"]
    same_pages_total [OF assms, of "\<lambda>_. Suc 0"]
  by (simp_all add: unused_count_def unused_bytes_def entry_core_def total_one)

lemma use_totals:
  assumes "bt_wf R" "bt_get R i = Some e" "re_prefetched_unused e"
  defines "e' \<equiv> e\<lparr>re_prefetched_unused := False\<rparr>"
  shows "charge_total (bt_insert i e' R) = charge_total R" "protected_total (bt_insert i e' R) = protected_total R"
    "unused_count R = Suc (unused_count (bt_insert i e' R))"
    "unused_bytes R = unused_bytes (bt_insert i e' R) + re_logical_bytes e"
    "length (bt_insert i e' R) = length R"
  using replace_totals [OF assms(1,2), of e'] length_bt_replace [OF assms(1,2), of e']
    bt_total_replace [OF assms(1,2), of "\<lambda>_ e. if re_prefetched_unused e then 1 else 0" e']
    bt_total_replace [OF assms(1,2), of "\<lambda>_ e. if re_prefetched_unused e then re_logical_bytes e else 0" e']
    assms(3)
  by (simp_all add: e'_def unused_count_def unused_bytes_def)

text \<open>A kernel that has counted one access to page \<open>i\<close> and not yet classified it.\<close>

definition demand_pending :: "u64 \<Rightarrow> simulation_metrics \<Rightarrow> bool" where
  "demand_pending bytes m \<longleftrightarrow>
     ordinary_demand_hits m + useful_prefetch_hits m + demand_misses m + 1 = demand_accesses m
     \<and> ordinary_demand_hit_bytes m + useful_prefetch_hit_bytes m + demand_miss_bytes m + bytes = demand_logical_bytes m
     \<and> demand_load_bytes m = demand_miss_bytes m
     \<and> demand_accesses m \<le> u64_max \<and> demand_logical_bytes m \<le> u64_max"

definition step_post :: "trace_header \<Rightarrow> kernel \<Rightarrow> kernel \<Rightarrow> bool" where
  "step_post h k k' \<longleftrightarrow> kernel_ok h k' \<and> frame k k' \<and> demands_ok (k_metrics k')
     \<and> offer_view (k_metrics k') = offer_view (k_metrics k) \<and> admit_view (k_metrics k') = admit_view (k_metrics k)"

text \<open>The residents a hit hands to \<^verbatim>\<open>on_hit\<close>: the page's entry with its prefetch flag cleared.\<close>

definition used_residents :: "page_id \<Rightarrow> resident_entry \<Rightarrow> residents \<Rightarrow> residents" where
  "used_residents i e R = (if re_prefetched_unused e then bt_insert i (e\<lparr>re_prefetched_unused := False\<rparr>) R else R)"

lemma used_residents_ok:
  assumes "kernel_ok h k" "bt_get (k_residents k) i = Some e"
  defines "R \<equiv> used_residents i e (k_residents k)"
  shows "\<exists>R'. on_hit (k_policy k) R i touch = Ok R' \<and> residents_ok (catalog (k_trace k)) R'
     \<and> segments_ok (k_policy k) R' \<and> charge_total R' = charge_total (k_residents k)
     \<and> unused_count (k_residents k) = unused_count R' + (if re_prefetched_unused e then 1 else 0)
     \<and> unused_bytes (k_residents k) = unused_bytes R' + (if re_prefetched_unused e then re_logical_bytes e else 0)
     \<and> length R' = length (k_residents k)"
proof -
  note D = kernel_okD [OF assms(1)]
  have eok: "entry_ok (catalog (k_trace k)) i e" by (rule residents_okD(2) [OF D(2) assms(2)])
  have R: "residents_ok (catalog (k_trace k)) R" "bt_wf R" "segments_ok (k_policy k) R"
    "charge_total R = charge_total (k_residents k)" "\<exists>e'. bt_get R i = Some e'"
    using use_totals [OF D(3) assms(2)] assms(2) D(2,3,5) eok
    by (auto simp: R_def used_residents_def entry_ok_def segments_ok_def intro!: residents_ok_insert split: option.splits)
  have counts: "unused_count (k_residents k) = unused_count R + (if re_prefetched_unused e then 1 else 0)"
    "unused_bytes (k_residents k) = unused_bytes R + (if re_prefetched_unused e then re_logical_bytes e else 0)"
    "length R = length (k_residents k)"
    using use_totals [OF D(3) assms(2)] by (simp_all add: R_def used_residents_def)
  obtain R' where R': "on_hit (k_policy k) R i touch = Ok R'" "residents_ok (catalog (k_trace k)) R'"
    "same_pages R R'" "charge_total R' = charge_total R" "segments_ok (k_policy k) R'"
    using on_hit_ok [OF R(1) _ R(3), of i _ touch] R(4,5) D(7,8) by auto
  from same_pages_unused [OF R'(3) R(2) residents_okD(1) [OF R'(2)]] R' R(4) counts show ?thesis by auto
qed

lemma demand_hit_wp:
  assumes "kernel_ok h k" "bt_get (k_residents k) i = Some e"
    "demand_pending (pd_logical_bytes page) (k_metrics k)" "page = vt_pages (k_trace k) ! i"
  shows "wp overflow (demand_hit sq page i touch e k) (\<lambda>k'. step_post h k k' \<and> k_touch k' = k_touch k)"
proof -
  note D = kernel_okD [OF assms(1)]
  have log: "re_logical_bytes e = pd_logical_bytes page"
    using residents_okD(2) [OF D(2) assms(2)] assms(4) by (simp add: entry_ok_def)
  have nc: "\<not> is_no_cache (k_policy k)"
    using assms(1,2) by (auto simp: kernel_ok_def ledger_ok_def)
  obtain R' where R': "on_hit (k_policy k) (used_residents i e (k_residents k)) i touch = Ok R'"
    "residents_ok (catalog (k_trace k)) R'" "segments_ok (k_policy k) R'"
    "charge_total R' = charge_total (k_residents k)"
    "unused_count (k_residents k) = unused_count R' + (if re_prefetched_unused e then 1 else 0)"
    "unused_bytes (k_residents k) = unused_bytes R' + (if re_prefetched_unused e then re_logical_bytes e else 0)"
    "length R' = length (k_residents k)"
    using used_residents_ok [OF assms(1,2), of touch] by auto
  show ?thesis
    using assms R' log nc
    by (cases "re_prefetched_unused e")
      (simp_all add: demand_hit_def used_residents_def Let_def hash_event_def step_post_def kernel_ok_def
        ledger_ok_def frame_def views demands_ok_def demand_pending_def)
qed

lemma kernel_ok_metrics:
  assumes "kernel_ok h k" "peak_resident_charge_bytes m = peak_resident_charge_bytes (k_metrics k)"
    "evictions m = evictions (k_metrics k)" "admissions m = admissions (k_metrics k)"
    "prefetch_useful m = prefetch_useful (k_metrics k)" "prefetch_wasted m = prefetch_wasted (k_metrics k)"
    "prefetch_useful_bytes m = prefetch_useful_bytes (k_metrics k)"
    "prefetch_wasted_bytes m = prefetch_wasted_bytes (k_metrics k)" "admit_view m = admit_view (k_metrics k)"
  shows "kernel_ok h (k\<lparr>k_metrics := m\<rparr>)"
  using assms by (simp add: kernel_ok_def ledger_ok_def admit_view_def)

lemma kernel_ok_hash [simp]:
  "kernel_ok h (hash_event sq tag page vs k) = kernel_ok h k"
  "kernel_ok h (hash_prefetch_decision sq tag a b d vs k) = kernel_ok h k"
  by (simp_all add: hash_event_def hash_prefetch_decision_def kernel_ok_def ledger_ok_def)

lemma hash_simps [simp]:
  "k_metrics (hash_event sq tag page vs k) = k_metrics k" "frame k' (hash_event sq tag page vs k) = frame k' k"
  "k_residents (hash_event sq tag page vs k) = k_residents k" "k_touch (hash_event sq tag page vs k) = k_touch k"
  "k_trace (hash_event sq tag page vs k) = k_trace k" "k_policy (hash_event sq tag page vs k) = k_policy k"
  "k_metrics (hash_prefetch_decision sq tag a b d vs k) = k_metrics k"
  "frame k' (hash_prefetch_decision sq tag a b d vs k) = frame k' k"
  "k_residents (hash_prefetch_decision sq tag a b d vs k) = k_residents k"
  "k_trace (hash_prefetch_decision sq tag a b d vs k) = k_trace k"
  "k_policy (hash_prefetch_decision sq tag a b d vs k) = k_policy k"
  by (simp_all add: hash_event_def hash_prefetch_decision_def frame_def)

lemma admit_victims_wp:
  assumes "kernel_ok h k" "i < length (vt_pages (k_trace k))" "bt_get (k_residents k) i = None"
    "\<not> is_no_cache (k_policy k)" "page = vt_pages (k_trace k) ! i"
    "frees_enough (k_residents k) (k_capacity_bytes k) (pd_charge_bytes page) (\<lambda>_. True) vs"
  shows "wp overflow (rbind (rfold evict vs k) (kernel_insert page touch False))
     (\<lambda>k'. kernel_ok h k' \<and> frame k k' \<and> k_touch k' = k_touch k
     \<and> demand_view (k_metrics k') = demand_view (k_metrics k) \<and> offer_view (k_metrics k') = offer_view (k_metrics k)
     \<and> admit_view (k_metrics k') = admit_view (k_metrics k))"
  unfolding wp_simps
proof (rule wp_conseq [OF evict_all_wp [OF assms(1,6)]], elim conjE)
  fix k1 assume k1: "kernel_ok h k1" "frame k k1" "k_touch k1 = k_touch k"
    "\<forall>j. bt_get (k_residents k1) j = (if j \<in> set vs then None else bt_get (k_residents k) j)"
    "pd_charge_bytes page + charge_total (k_residents k1) \<le> k_capacity_bytes k"
    "demand_view (k_metrics k1) = demand_view (k_metrics k)" "offer_view (k_metrics k1) = offer_view (k_metrics k)"
    "admit_view (k_metrics k1) = admit_view (k_metrics k)"
  have "page = vt_pages (k_trace k1) ! i" "i < length (vt_pages (k_trace k1))" "bt_get (k_residents k1) i = None"
    "\<not> is_no_cache (k_policy k1)" "pd_charge_bytes (vt_pages (k_trace k1) ! i) + charge_total (k_residents k1) \<le> k_capacity_bytes k1"
    using k1 assms by (auto simp: frame_def)
  then show "wp overflow (kernel_insert page touch False k1) (\<lambda>k'. kernel_ok h k' \<and> frame k k' \<and> k_touch k' = k_touch k
     \<and> demand_view (k_metrics k') = demand_view (k_metrics k) \<and> offer_view (k_metrics k') = offer_view (k_metrics k)
     \<and> admit_view (k_metrics k') = admit_view (k_metrics k))"
    using k1 kernel_insert_wp [OF k1(1), of i touch] by (auto elim!: wp_conseq intro: frame_trans)
qed

definition miss_metrics :: "u64 \<Rightarrow> simulation_metrics \<Rightarrow> simulation_metrics" where
  "miss_metrics bytes m = m\<lparr>demand_misses := demand_misses m + 1, demand_miss_bytes := demand_miss_bytes m + bytes,
     demand_load_bytes := demand_load_bytes m + bytes\<rparr>"

lemma demand_miss_wp:
  assumes "kernel_ok h k" "bt_get (k_residents k) i = None" "i < length (vt_pages (k_trace k))"
    "demand_pending (pd_logical_bytes page) (k_metrics k)" "page = vt_pages (k_trace k) ! i"
  shows "wp overflow (demand_miss sq req step page i touch k) (\<lambda>k'. step_post h k k' \<and> k_touch k' = k_touch k)"
proof -
  let ?m = "miss_metrics (pd_logical_bytes page) (k_metrics k)"
  let ?k = "k\<lparr>k_metrics := ?m\<rparr>"
  have ok: "kernel_ok h ?k"
    by (rule kernel_ok_metrics [OF assms(1)]) (simp_all add: miss_metrics_def admit_view_def)
  note D = kernel_okD [OF ok]
  have dem: "demands_ok ?m"
    using assms(4) by (auto simp: demands_ok_def demand_pending_def miss_metrics_def)
  have view: "offer_view ?m = offer_view (k_metrics k)" "admit_view ?m = admit_view (k_metrics k)"
    by (simp_all add: miss_metrics_def offer_view_def admit_view_def)
  have plan: "wp overflow (plan_demand_victims (k_policy k) (catalog (k_trace k)) (k_residents k)
      \<lparr>dp_resident_bytes = k_resident_bytes k, dp_capacity_bytes = k_capacity_bytes k,
       dp_candidate = page, dp_request = req, dp_step = step\<rparr>)
      (\<lambda>plan. case plan of None \<Rightarrow> True | Some vs \<Rightarrow> \<not> is_no_cache (k_policy k)
         \<and> frees_enough (k_residents k) (k_capacity_bytes k) (pd_charge_bytes page) (\<lambda>_. True) vs)"
    using plan_demand_wp [OF D(1,2,4,7,8), of page req step] D(6) by (simp cong: option.case_cong)
  have bypass: "step_post h k (k\<lparr>k_metrics := ?m\<lparr>bypasses := n\<rparr>\<rparr>)" for n
    using kernel_ok_metrics [OF ok, of "?m\<lparr>bypasses := n\<rparr>"] dem view
    by (simp add: step_post_def frame_def admit_view_def offer_view_def demands_ok_def)
  have admit: "wp overflow (rbind (rfold evict vs ?k) (kernel_insert page touch False))
      (\<lambda>k'. step_post h k k' \<and> k_touch k' = k_touch k)"
    if "\<not> is_no_cache (k_policy k)" "frees_enough (k_residents k) (k_capacity_bytes k) (pd_charge_bytes page) (\<lambda>_. True) vs" for vs
  proof (rule wp_conseq [OF admit_victims_wp [OF ok, of i page vs touch]], goal_cases)
    case (6 k')
    then have "demand_view (k_metrics k') = demand_view ?m" by simp
    then have "demands_ok (k_metrics k') = demands_ok ?m" by (rule demands_ok_view)
    with 6 view dem show ?case by (simp add: step_post_def frame_def)
  qed (use that assms in simp_all)
  have rest: "wp overflow (case plan of
        None \<Rightarrow> rbind (kernel_add bypasses bypasses_update 1 ''bypasses'' ?k) (\<lambda>k.
          Ok (hash_event sq ''demand-miss-bypass'' (Some i) [] k))
      | Some victims \<Rightarrow> rbind (rfold evict victims ?k) (\<lambda>k. rbind (kernel_insert page touch False k) (\<lambda>k.
          Ok (hash_event sq ''demand-miss-admit'' (Some i) victims k))))
      (\<lambda>k'. step_post h k k' \<and> k_touch k' = k_touch k)"
    if "case plan of None \<Rightarrow> True | Some vs \<Rightarrow> \<not> is_no_cache (k_policy k)
         \<and> frees_enough (k_residents k) (k_capacity_bytes k) (pd_charge_bytes page) (\<lambda>_. True) vs" for plan
  proof (cases plan)
    case None
    with bypass show ?thesis by (simp add: step_post_def)
  next
    case (Some vs)
    with admit [of vs] that show ?thesis by (simp add: step_post_def)
  qed
  show ?thesis
    unfolding demand_miss_def
    using wp_conseq [OF plan rest] by (simp add: miss_metrics_def cong: option.case_cong)
qed

lemma kernel_ok_policy:
  assumes "kernel_ok h k" "policy_ok p" "policy_shape p = policy_shape (k_policy k)"
  shows "kernel_ok h (k\<lparr>k_policy := p\<rparr>)"
  using assms policy_shapeD [OF assms(3)] by (auto simp: kernel_ok_def ledger_ok_def segments_ok_def)

text \<open>A replay step keeps the invariant, the trace, the capacity and the shape of the policy.\<close>

definition replay_ok :: "trace_header \<Rightarrow> kernel \<Rightarrow> bool" where
  "replay_ok h k \<longleftrightarrow> kernel_ok h k \<and> demands_ok (k_metrics k) \<and> offers_ok (k_metrics k)"

definition same_run :: "kernel \<Rightarrow> kernel \<Rightarrow> bool" where
  "same_run k k' \<longleftrightarrow> k_trace k' = k_trace k \<and> k_capacity_bytes k' = k_capacity_bytes k
     \<and> policy_shape (k_policy k') = policy_shape (k_policy k)"

lemma offers_ok_view:
  "offer_view m' = offer_view m \<Longrightarrow> admit_view m' = admit_view m \<Longrightarrow> offers_ok m' = offers_ok m"
  by (simp add: offers_ok_def offer_view_def admit_view_def)

lemma demand_wp:
  assumes "replay_ok h k" "i < length (vt_pages (k_trace k))"
  shows "wp overflow (demand sq req step i k) (\<lambda>k'. replay_ok h k' \<and> same_run k k'
     \<and> unrecorded (k_policy k') = unrecorded (k_policy k)
     \<and> (\<forall>q key. active_get (k_policy k') q key =
          (if q = req \<and> fst key < step then None else active_get (k_policy k) q key)))"
proof -
  let ?page = "vt_pages (k_trace k) ! i" and ?m = "k_metrics k"
  have ok: "kernel_ok h k" and dem: "demands_ok ?m" and off: "offers_ok ?m"
    using assms(1) by (auto simp: replay_ok_def)
  note D = kernel_okD [OF ok]
  obtain p1 where p1: "enter_demand_step (k_policy k) req step = Ok p1" "policy_ok p1"
    "policy_shape p1 = policy_shape (k_policy k)" "unrecorded p1 = unrecorded (k_policy k)"
    "\<And>q key. active_get p1 q key = (if q = req \<and> fst key < step then None else active_get (k_policy k) q key)"
    using enter_demand_step_ok [OF D(4), of req step] by auto
  obtain p2 where p2: "observe_demand p1 i = Ok p2" "policy_ok p2" "policy_shape p2 = policy_shape (k_policy k)"
    "unrecorded p2 = unrecorded (k_policy k)" "\<And>q key. active_get p2 q key = active_get p1 q key"
    using observe_demand_ok [OF p1(2), of i] p1(3,4) by auto
  define m2 where "m2 = ?m\<lparr>demand_accesses := demand_accesses ?m + 1,
    demand_logical_bytes := demand_logical_bytes ?m + pd_logical_bytes ?page\<rparr>"
  define k2 where "k2 = k\<lparr>k_policy := p2, k_metrics := m2, k_touch := k_touch k + 1\<rparr>"
  have ok2: "kernel_ok h k2"
    using kernel_ok_policy [OF ok p2(2,3)] by (simp add: k2_def m2_def kernel_ok_def ledger_ok_def)
  have off2: "offer_view m2 = offer_view ?m" "admit_view m2 = admit_view ?m"
    by (simp_all add: m2_def offer_view_def admit_view_def)
  have post: "wp overflow (case bt_get (k_residents k) i of Some entry \<Rightarrow> demand_hit sq ?page i (k_touch k + 1) entry k2
        | None \<Rightarrow> demand_miss sq req step ?page i (k_touch k + 1) k2)
      (\<lambda>k'. step_post h k2 k' \<and> k_touch k' = k_touch k2)"
    if "demand_accesses m2 \<le> u64_max" "demand_logical_bytes m2 \<le> u64_max"
  proof -
    have pend: "demand_pending (pd_logical_bytes ?page) (k_metrics k2)"
      using dem that by (auto simp: demands_ok_def demand_pending_def k2_def m2_def)
    have k2: "k_residents k2 = k_residents k" "k_trace k2 = k_trace k" by (simp_all add: k2_def)
    show ?thesis
      using demand_hit_wp [OF ok2 _ pend] demand_miss_wp [OF ok2 _ _ pend] assms(2) k2
      by (cases "bt_get (k_residents k) i") simp_all
  qed
  have final: "replay_ok h k' \<and> same_run k k' \<and> unrecorded (k_policy k') = unrecorded (k_policy k)
     \<and> (\<forall>q key. active_get (k_policy k') q key =
          (if q = req \<and> fst key < step then None else active_get (k_policy k) q key))"
    if "step_post h k2 k'" for k'
  proof -
    have "offers_ok (k_metrics k') = offers_ok ?m"
      using that off2 by (intro offers_ok_view) (simp_all add: step_post_def k2_def)
    with that off p1 p2 show ?thesis by (simp add: step_post_def replay_ok_def same_run_def frame_def k2_def)
  qed
  define Q where "Q = (\<lambda>k'. replay_ok h k' \<and> same_run k k' \<and> unrecorded (k_policy k') = unrecorded (k_policy k)
     \<and> (\<forall>q key. active_get (k_policy k') q key =
          (if q = req \<and> fst key < step then None else active_get (k_policy k) q key)))"
  have "wp overflow (case bt_get (k_residents k) i of Some entry \<Rightarrow> demand_hit sq ?page i (k_touch k + 1) entry k2
        | None \<Rightarrow> demand_miss sq req step ?page i (k_touch k + 1) k2) Q"
    if "demand_accesses m2 \<le> u64_max" "demand_logical_bytes m2 \<le> u64_max"
    unfolding Q_def using final by (intro wp_conseq [OF post [OF that]]) blast
  then have "wp overflow (demand sq req step i k) Q"
    using trace_page_ok [OF D(1) assms(2)] p1(1) p2(1)
    by (simp add: demand_def k2_def m2_def cong: option.case_cong)
  then show ?thesis by (simp only: Q_def)
qed

section \<open>Prefetch groups\<close>

definition logical_sum :: "validated_trace \<Rightarrow> page_id list \<Rightarrow> nat" where
  "logical_sum t ids = sum_list (map (\<lambda>i. pd_logical_bytes (vt_pages t ! i)) ids)"

definition charge_sum :: "validated_trace \<Rightarrow> page_id list \<Rightarrow> nat" where
  "charge_sum t ids = sum_list (map (\<lambda>i. pd_charge_bytes (vt_pages t ! i)) ids)"

lemma logical_sum_simps [simp]:
  "logical_sum t [] = 0" "logical_sum t (i # ids) = pd_logical_bytes (vt_pages t ! i) + logical_sum t ids"
  "logical_sum t (ids @ ids') = logical_sum t ids + logical_sum t ids'"
  by (simp_all add: logical_sum_def)

lemma charge_sum_simps [simp]:
  "charge_sum t [] = 0" "charge_sum t (i # ids) = pd_charge_bytes (vt_pages t ! i) + charge_sum t ids"
  "charge_sum t (ids @ ids') = charge_sum t ids + charge_sum t ids'"
  by (simp_all add: charge_sum_def)

definition offered_metrics :: "nat \<Rightarrow> nat \<Rightarrow> simulation_metrics \<Rightarrow> simulation_metrics" where
  "offered_metrics n b m = m\<lparr>prefetch_offered := prefetch_offered m + n, prefetch_offered_bytes := prefetch_offered_bytes m + b\<rparr>"

definition redundant_metrics :: "nat \<Rightarrow> nat \<Rightarrow> simulation_metrics \<Rightarrow> simulation_metrics" where
  "redundant_metrics n b m = m\<lparr>prefetch_redundant := prefetch_redundant m + n, prefetch_redundant_bytes := prefetch_redundant_bytes m + b\<rparr>"

definition dropped_metrics :: "nat \<Rightarrow> nat \<Rightarrow> simulation_metrics \<Rightarrow> simulation_metrics" where
  "dropped_metrics n b m = m\<lparr>prefetch_dropped := prefetch_dropped m + n, prefetch_dropped_bytes := prefetch_dropped_bytes m + b\<rparr>"

lemmas offer_metrics = offered_metrics_def redundant_metrics_def dropped_metrics_def

lemma offer_pages_wp:
  assumes "wf_catalog h (catalog (k_trace k))" "\<And>i. i \<in> set ids \<Longrightarrow> i < length (vt_pages (k_trace k))"
    "prefetch_offered (k_metrics k) \<le> u64_max" "prefetch_offered_bytes (k_metrics k) \<le> u64_max"
  shows "wp overflow (rfold offer_page ids k) (\<lambda>k'.
     k' = k\<lparr>k_metrics := offered_metrics (length ids) (logical_sum (k_trace k) ids) (k_metrics k)\<rparr>
     \<and> prefetch_offered (k_metrics k') \<le> u64_max \<and> prefetch_offered_bytes (k_metrics k') \<le> u64_max)"
  using assms
  by (intro wp_rfold [where P = "\<lambda>ys k'.
     k' = k\<lparr>k_metrics := offered_metrics (length ys) (logical_sum (k_trace k) ys) (k_metrics k)\<rparr>
     \<and> prefetch_offered (k_metrics k') \<le> u64_max \<and> prefetch_offered_bytes (k_metrics k') \<le> u64_max"])
    (auto simp: offer_page_def trace_page_ok offered_metrics_def add.assoc)

lemma classify_pages_wp:
  assumes "wf_catalog h (catalog (k_trace k))" "\<And>i. i \<in> set ids \<Longrightarrow> i < length (vt_pages (k_trace k))"
  shows "wp overflow (rfold classify_page ids (k, [], [])) (\<lambda>(k', absent, redundant).
     absent = filter (\<lambda>i. bt_get (k_residents k) i = None) ids
     \<and> redundant = filter (\<lambda>i. bt_get (k_residents k) i \<noteq> None) ids
     \<and> k' = k\<lparr>k_metrics := redundant_metrics (length redundant) (logical_sum (k_trace k) redundant) (k_metrics k)\<rparr>)"
  using assms
  by (intro wp_rfold [where P = "\<lambda>ys (k', absent, redundant).
     absent = filter (\<lambda>i. bt_get (k_residents k) i = None) ys
     \<and> redundant = filter (\<lambda>i. bt_get (k_residents k) i \<noteq> None) ys
     \<and> k' = k\<lparr>k_metrics := redundant_metrics (length redundant) (logical_sum (k_trace k) redundant) (k_metrics k)\<rparr>"])
    (auto simp: classify_page_def trace_page_ok redundant_metrics_def add.assoc)

lemma drop_prefetches_wp:
  assumes "wf_catalog h (catalog (k_trace k))" "\<And>i. i \<in> set ids \<Longrightarrow> i < length (vt_pages (k_trace k))"
  shows "wp overflow (drop_prefetches ids k) (\<lambda>k'.
     k' = k\<lparr>k_metrics := dropped_metrics (length ids) (logical_sum (k_trace k) ids) (k_metrics k)\<rparr>)"
  unfolding drop_prefetches_def using assms
  by (intro wp_rfold [where P = "\<lambda>ys k'.
     k' = k\<lparr>k_metrics := dropped_metrics (length ys) (logical_sum (k_trace k) ys) (k_metrics k)\<rparr>"])
    (auto simp: drop_prefetch_def trace_page_ok dropped_metrics_def add.assoc)

lemma group_load_bytes_wp:
  assumes "wf_catalog h (catalog t)" "\<And>i. i \<in> set ids \<Longrightarrow> i < length (vt_pages t)"
  shows "wp overflow (group_load_bytes t ids) (\<lambda>total. total = logical_sum t ids)"
  unfolding group_load_bytes_def using assms
  by (intro wp_rfold [where P = "\<lambda>ys total. total = logical_sum t ys"])
    (auto simp: trace_page_ok wp_ok_or split: option.splits)

lemma admit_prefetches_wp:
  assumes "kernel_ok h k" "\<And>i. i \<in> set ids \<Longrightarrow> i < length (vt_pages (k_trace k)) \<and> bt_get (k_residents k) i = None"
    "distinct ids" "\<not> is_no_cache (k_policy k)"
    "charge_sum (k_trace k) ids + charge_total (k_residents k) \<le> k_capacity_bytes k"
  shows "wp overflow (rfold admit_prefetch ids k) (\<lambda>k'. kernel_ok h k' \<and> frame k k'
     \<and> demand_view (k_metrics k') = demand_view (k_metrics k) \<and> offer_view (k_metrics k') = offer_view (k_metrics k)
     \<and> prefetch_admitted (k_metrics k') = prefetch_admitted (k_metrics k) + length ids
     \<and> prefetch_load_bytes (k_metrics k') = prefetch_load_bytes (k_metrics k) + logical_sum (k_trace k) ids)"
proof -
  let ?P = "\<lambda>ys k'. kernel_ok h k' \<and> frame k k'
     \<and> dom (bt_get (k_residents k')) = set ys \<union> dom (bt_get (k_residents k))
     \<and> charge_total (k_residents k') = charge_total (k_residents k) + charge_sum (k_trace k) ys
     \<and> demand_view (k_metrics k') = demand_view (k_metrics k) \<and> offer_view (k_metrics k') = offer_view (k_metrics k)
     \<and> prefetch_admitted (k_metrics k') = prefetch_admitted (k_metrics k) + length ys
     \<and> prefetch_load_bytes (k_metrics k') = prefetch_load_bytes (k_metrics k) + logical_sum (k_trace k) ys"
  have "wp overflow (rfold admit_prefetch ids k) (?P ids)"
  proof (rule wp_rfold [where P = ?P])
    fix ys i zs k' assume ids: "ids = ys @ i # zs" and P: "?P ys k'"
    have same: "k_trace k' = k_trace k" "k_policy k' = k_policy k" "k_capacity_bytes k' = k_capacity_bytes k"
      using P by (simp_all add: frame_def)
    have "i \<notin> dom (bt_get (k_residents k'))" using P ids assms(2) [of i] assms(3) by auto
    then have new: "bt_get (k_residents k') i = None" by auto
    have fits: "pd_charge_bytes (vt_pages (k_trace k') ! i) + charge_total (k_residents k') \<le> k_capacity_bytes k'"
      using P assms(5) ids same by simp
    have "wp overflow (admit_prefetch i k') (\<lambda>k''. kernel_ok h k'' \<and> frame k' k''
     \<and> dom (bt_get (k_residents k'')) = insert i (dom (bt_get (k_residents k')))
     \<and> charge_total (k_residents k'') = charge_total (k_residents k') + pd_charge_bytes (vt_pages (k_trace k') ! i)
     \<and> demand_view (k_metrics k'') = demand_view (k_metrics k') \<and> offer_view (k_metrics k'') = offer_view (k_metrics k')
     \<and> prefetch_admitted (k_metrics k'') = prefetch_admitted (k_metrics k') + 1
     \<and> prefetch_load_bytes (k_metrics k'') = prefetch_load_bytes (k_metrics k') + pd_logical_bytes (vt_pages (k_trace k') ! i))"
      using P new fits same assms(2) [of i] assms(4) ids by (intro admit_prefetch_wp) simp_all
    then show "wp overflow (admit_prefetch i k') (?P (ys @ [i]))"
      by (rule wp_conseq) (use P same in \<open>auto intro: frame_trans\<close>)
  qed (use assms(1) in simp)
  then show ?thesis by (rule wp_conseq) blast
qed

lemma logical_sum_partition:
  "logical_sum t (filter P ids) + logical_sum t (filter (\<lambda>i. \<not> P i) ids) = logical_sum t ids"
  by (induction ids) auto

text \<open>The kernel after a group's offers are counted and its resident pages classified as redundant.\<close>

definition classified :: "page_id list \<Rightarrow> kernel \<Rightarrow> kernel" where
  "classified ids k = (let redundant = filter (\<lambda>i. bt_get (k_residents k) i \<noteq> None) ids in
     k\<lparr>k_metrics := redundant_metrics (length redundant) (logical_sum (k_trace k) redundant)
        (offered_metrics (length ids) (logical_sum (k_trace k) ids) (k_metrics k))\<rparr>)"

definition group_post :: "trace_header \<Rightarrow> kernel \<Rightarrow> kernel \<Rightarrow> bool" where
  "group_post h k k' \<longleftrightarrow> replay_ok h k' \<and> frame k k'"

lemma classified_ok:
  assumes "replay_ok h k"
  shows "kernel_ok h (classified ids k)" "frame k (classified ids k)"
    "k_residents (classified ids k) = k_residents k" "k_touch (classified ids k) = k_touch k"
    "k_resident_bytes (classified ids k) = k_resident_bytes k"
    "demands_ok (k_metrics (classified ids k))"
proof -
  have "kernel_ok h k" "demands_ok (k_metrics k)" using assms by (simp_all add: replay_ok_def)
  then show "kernel_ok h (classified ids k)"
    unfolding classified_def Let_def by (intro kernel_ok_metrics) (simp_all add: offer_metrics admit_view_def)
  show "frame k (classified ids k)" "k_residents (classified ids k) = k_residents k"
    "k_touch (classified ids k) = k_touch k" "k_resident_bytes (classified ids k) = k_resident_bytes k"
    by (simp_all add: classified_def frame_def Let_def)
  show "demands_ok (k_metrics (classified ids k))"
    using \<open>demands_ok (k_metrics k)\<close> by (simp add: classified_def demands_ok_def offer_metrics Let_def)
qed

text \<open>Every offered page ends up admitted, redundant or dropped.\<close>

lemma group_offers_ok:
  assumes "offers_ok (k_metrics k)" "absent = filter (\<lambda>i. bt_get (k_residents k) i = None) ids"
    "prefetch_offered (k_metrics k) + length ids \<le> u64_max"
    "prefetch_offered_bytes (k_metrics k) + logical_sum (k_trace k) ids \<le> u64_max"
    "m' = k_metrics (classified ids k)"
    "prefetch_offered m = prefetch_offered m'" "prefetch_offered_bytes m = prefetch_offered_bytes m'"
    "prefetch_redundant m = prefetch_redundant m'" "prefetch_redundant_bytes m = prefetch_redundant_bytes m'"
    "prefetch_admitted m + prefetch_dropped m = prefetch_admitted m' + prefetch_dropped m' + length absent"
    "prefetch_load_bytes m + prefetch_dropped_bytes m
       = prefetch_load_bytes m' + prefetch_dropped_bytes m' + logical_sum (k_trace k) absent"
  shows "offers_ok m"
proof -
  let ?red = "filter (\<lambda>i. bt_get (k_residents k) i \<noteq> None) ids"
  have "length absent + length ?red = length ids"
    unfolding assms(2) by (rule sum_length_filter_compl)
  moreover have "logical_sum (k_trace k) absent + logical_sum (k_trace k) ?red = logical_sum (k_trace k) ids"
    unfolding assms(2) by (rule logical_sum_partition)
  ultimately show ?thesis
    using assms unfolding offers_ok_def by (simp add: classified_def offer_metrics Let_def)
qed

lemma group_drop_wp:
  assumes "replay_ok h k" "absent = filter (\<lambda>i. bt_get (k_residents k) i = None) ids"
    "\<And>i. i \<in> set ids \<Longrightarrow> i < length (vt_pages (k_trace k))"
    "prefetch_offered (k_metrics k) + length ids \<le> u64_max"
    "prefetch_offered_bytes (k_metrics k) + logical_sum (k_trace k) ids \<le> u64_max"
  shows "wp overflow (drop_prefetches absent (classified ids k)) (group_post h k)"
proof -
  note C = classified_ok [OF assms(1), of ids]
  have t: "k_trace (classified ids k) = k_trace k" using C(2) by (simp add: frame_def)
  let ?m = "dropped_metrics (length absent) (logical_sum (k_trace k) absent) (k_metrics (classified ids k))"
  have "offers_ok ?m"
    by (rule group_offers_ok [OF _ assms(2,4,5) refl])
      (use assms(1) in \<open>simp_all add: replay_ok_def dropped_metrics_def\<close>)
  moreover have "kernel_ok h ((classified ids k)\<lparr>k_metrics := ?m\<rparr>)"
    by (rule kernel_ok_metrics [OF C(1)]) (simp_all add: dropped_metrics_def admit_view_def)
  moreover have "demands_ok ?m" using C(6) by (simp add: demands_ok_def dropped_metrics_def)
  ultimately have post: "group_post h k ((classified ids k)\<lparr>k_metrics := ?m\<rparr>)"
    using C(2) by (simp add: group_post_def replay_ok_def frame_def)
  show ?thesis
    using assms(2,3) post t
    by (intro wp_conseq [OF drop_prefetches_wp [OF kernel_okD(1) [OF C(1)], of absent]]) auto
qed

lemma group_admit_wp:
  assumes "replay_ok h k" "absent = filter (\<lambda>i. bt_get (k_residents k) i = None) ids"
    "\<And>i. i \<in> set ids \<Longrightarrow> i < length (vt_pages (k_trace k))" "distinct ids" "\<not> is_no_cache (k_policy k)"
    "prefetch_offered (k_metrics k) + length ids \<le> u64_max"
    "prefetch_offered_bytes (k_metrics k) + logical_sum (k_trace k) ids \<le> u64_max"
    "frees_enough (k_residents k) (k_capacity_bytes k) (charge_sum (k_trace k) absent) ok vs"
  shows "wp overflow (rbind (rfold evict vs (classified ids k)) (rfold admit_prefetch absent)) (group_post h k)"
proof -
  let ?k = "classified ids k"
  note C = classified_ok [OF assms(1), of ids]
  have same: "k_trace ?k = k_trace k" "k_capacity_bytes ?k = k_capacity_bytes k" "k_policy ?k = k_policy k"
    using C(2) by (simp_all add: frame_def)
  have fe: "frees_enough (k_residents ?k) (k_capacity_bytes ?k) (charge_sum (k_trace k) absent) ok vs"
    using assms(8) C(3) same by simp
  have admit: "wp overflow (rfold admit_prefetch absent k1) (group_post h k)"
    if "kernel_ok h k1 \<and> frame ?k k1 \<and> k_touch k1 = k_touch ?k
     \<and> (\<forall>i. bt_get (k_residents k1) i = (if i \<in> set vs then None else bt_get (k_residents ?k) i))
     \<and> charge_sum (k_trace k) absent + charge_total (k_residents k1) \<le> k_capacity_bytes ?k
     \<and> demand_view (k_metrics k1) = demand_view (k_metrics ?k) \<and> offer_view (k_metrics k1) = offer_view (k_metrics ?k)
     \<and> admit_view (k_metrics k1) = admit_view (k_metrics ?k)" for k1
  proof (rule wp_conseq [OF admit_prefetches_wp [of h k1 absent]], goal_cases)
    case (6 k')
    have "demands_ok (k_metrics k') = demands_ok (k_metrics ?k)"
      using 6 that by (intro demands_ok_view) simp
    moreover have "offers_ok (k_metrics k')"
      by (rule group_offers_ok [OF _ assms(2,6,7) refl])
        (use 6 that assms(1) same in \<open>simp_all add: replay_ok_def views frame_def\<close>)
    ultimately show ?case
      using 6 that C(2,6) by (auto simp: group_post_def replay_ok_def intro: frame_trans)
  qed (use that assms C(3) same in \<open>auto simp: frame_def\<close>)
  show ?thesis
    unfolding wp_simps by (rule wp_conseq [OF evict_all_wp [OF C(1) fe]]) (rule admit)
qed

end
