(* ===== verification/Sim_Engine_Run.thy ===== *)
theory Sim_Engine_Run
  imports Sim_Engine_Inv
begin

text \<open>
  The invariant through prefetch groups, signals and the whole replay. The router metadata ceiling
  computed before the replay (\<open>router_metadata_limit\<close>) is exactly what the replay records, so
  \<^verbatim>\<open>record_signal\<close> never exceeds it and \<^verbatim>\<open>finish_metadata\<close> finds it consumed.
\<close>

section \<open>Prefetch groups\<close>

lemma group_post_hash [simp]:
  "group_post h k (hash_prefetch_decision a b c d x y k') = group_post h k k'"
  by (simp add: group_post_def replay_ok_def)

lemma place_group_wp:
  assumes "replay_ok h k" "\<And>i. i \<in> set (pg_page_ids g) \<Longrightarrow> i < length (vt_pages (k_trace k))"
    "distinct (pg_page_ids g)" "\<not> is_no_cache (k_policy k)"
    "prefetch_offered (k_metrics k) + length (pg_page_ids g) \<le> u64_max"
    "prefetch_offered_bytes (k_metrics k) + logical_sum (k_trace k) (pg_page_ids g) \<le> u64_max"
    "absent = filter (\<lambda>i. bt_get (k_residents k) i = None) (pg_page_ids g)"
  shows "wp overflow (place_group g budget absent redundant (classified (pg_page_ids g) k))
     (\<lambda>(budget', k'). group_post h k k')"
proof -
  let ?k = "classified (pg_page_ids g) k"
  note C = classified_ok [OF assms(1), of "pg_page_ids g"]
  note D = kernel_okD [OF C(1)]
  have same: "k_trace ?k = k_trace k" "k_capacity_bytes ?k = k_capacity_bytes k" "k_policy ?k = k_policy k"
    using C(2) by (simp_all add: frame_def)
  have absent: "i < length (vt_pages (k_trace k))" if "i \<in> set absent" for i
    using that assms(2,7) by auto
  have drops: "wp overflow (drop_prefetches absent ?k) (group_post h k)"
    using assms by (intro group_drop_wp) auto
  then have drop: "wp overflow (drop_group g budget tag absent redundant ?k) (\<lambda>(budget', k'). group_post h k k')" for tag
    by (simp add: drop_group_def)
  have load: "wp overflow (group_load_bytes (k_trace ?k) absent) (\<lambda>total. total = logical_sum (k_trace k) absent)"
    using group_load_bytes_wp [OF D(1), of absent] absent same by simp
  have plan: "wp overflow (plan_prefetch_victims (k_policy ?k) (catalog (k_trace ?k)) (k_residents ?k)
      \<lparr>pp_resident_bytes = k_resident_bytes ?k, pp_capacity_bytes = k_capacity_bytes ?k,
       pp_absent_pages = absent, pp_request = pg_request g, pp_target_step = pg_target_step g,
       pp_candidate_score = ep_score_ppm (pg_prediction g)\<rparr>)
      (\<lambda>plan. case plan of None \<Rightarrow> True | Some vs \<Rightarrow>
         frees_enough (k_residents ?k) (k_capacity_bytes ?k) (charge_sum (k_trace ?k) absent) (\<lambda>e. re_segment e = Seg_Probation) vs)"
    unfolding D(6) charge_sum_def using absent same plan_prefetch_wp [OF D(1,2,4,7,8), of absent]
    by (simp cong: option.case_cong)
  have admit: "wp overflow (admit_group g budget (logical_sum (k_trace k) absent) absent redundant vs ?k) (\<lambda>(budget', k'). group_post h k k')"
    if "frees_enough (k_residents ?k) (k_capacity_bytes ?k) (charge_sum (k_trace ?k) absent) (\<lambda>e. re_segment e = Seg_Probation) vs"
      "logical_sum (k_trace k) absent \<le> pb_remaining_bytes budget" "length absent \<le> pb_remaining_pages budget" for vs
  proof -
    have "wp overflow (rbind (rfold evict vs ?k) (rfold admit_prefetch absent)) (group_post h k)"
      using that(1) C(3) same by (intro group_admit_wp [OF assms(1,7,2,3,4,5,6)]) simp_all
    then show ?thesis
      unfolding admit_group_def using that(2,3) by (simp add: checked_sub_def)
  qed
  have empty: "group_post h k ?k" if "absent = []"
    using drops that C by (simp add: drop_prefetches_def)
  show ?thesis
  proof (cases "absent = [] \<or> length absent > pb_remaining_pages budget")
    case True
    with empty drop show ?thesis by (auto simp: place_group_def)
  next
    case False
    have "wp overflow (case plan of None \<Rightarrow> drop_group g budget tag absent redundant ?k
        | Some victims \<Rightarrow> admit_group g budget (logical_sum (k_trace k) absent) absent redundant victims ?k)
        (\<lambda>(budget', k'). group_post h k k')"
      if "case plan of None \<Rightarrow> True | Some vs \<Rightarrow> frees_enough (k_residents ?k) (k_capacity_bytes ?k)
          (charge_sum (k_trace ?k) absent) (\<lambda>e. re_segment e = Seg_Probation) vs"
        "logical_sum (k_trace k) absent \<le> pb_remaining_bytes budget" for plan tag
      using that False drop admit by (cases plan) auto
    with False drop plan show ?thesis
      by (auto simp: place_group_def intro!: wp_conseq [OF load] elim!: wp_conseq)
  qed
qed

lemma prefetch_group_wp:
  assumes "replay_ok h k" "\<And>i. i \<in> set (pg_page_ids g) \<Longrightarrow> i < length (vt_pages (k_trace k))"
    "distinct (pg_page_ids g)" "\<not> is_no_cache (k_policy k)"
  shows "wp overflow (prefetch_group g budget k) (\<lambda>(budget', k'). group_post h k k')"
proof -
  let ?ids = "pg_page_ids g"
  let ?k1 = "k\<lparr>k_metrics := offered_metrics (length ?ids) (logical_sum (k_trace k) ?ids) (k_metrics k)\<rparr>"
  have ok: "kernel_ok h k" and off: "offers_ok (k_metrics k)" using assms(1) by (simp_all add: replay_ok_def)
  note D = kernel_okD [OF ok]
  have offer: "wp overflow (rfold offer_page ?ids k) (\<lambda>k1. k1 = ?k1
      \<and> prefetch_offered (k_metrics k1) \<le> u64_max \<and> prefetch_offered_bytes (k_metrics k1) \<le> u64_max)"
    using off by (intro offer_pages_wp [OF D(1)]) (simp_all add: assms(2) offers_ok_def)
  have place: "wp overflow (rfold classify_page ?ids (?k1, [], []))
      (\<lambda>(k, absent, redundant). wp overflow (place_group g budget absent redundant k) (\<lambda>(budget', k'). group_post h k0 k'))"
    if "prefetch_offered (k_metrics ?k1) \<le> u64_max" "prefetch_offered_bytes (k_metrics ?k1) \<le> u64_max" "k0 = k" for k0
    using D(1) assms(2) that place_group_wp [OF assms]
    by (intro wp_conseq [OF classify_pages_wp [of h ?k1 ?ids]])
      (auto simp: classified_def Let_def offered_metrics_def)
  show ?thesis
    unfolding prefetch_group_def
    by (auto intro!: wp_conseq [OF offer] wp_conseq [OF place])
qed

section \<open>Signals\<close>

lemma pd_ids: "wf_catalog h c \<Longrightarrow> map pd_id (ct_pages c) = [0..<length (ct_pages c)]"
  by (auto simp: wf_catalog_def wf_page_def intro: nth_equalityI)

lemma trace_expert_pages_ok:
  assumes "wf_catalog h (catalog t)"
  shows "distinct (trace_expert_pages t l x)" "\<And>i. i \<in> set (trace_expert_pages t l x) \<Longrightarrow> i < length (vt_pages t)"
proof -
  let ?es = "expert_list (vt_pages t) (l, x)"
  have pages: "trace_expert_pages t l x = map snd (sort ?es)"
    using assms by (auto simp: trace_expert_pages_def catalog_expert_pages_def wf_catalog_def)
  have snds: "map snd ?es = map pd_id (filter (is_expert_page l x) (vt_pages t))"
    by (simp add: expert_list_def comp_def)
  have "distinct (map pd_id (vt_pages t))" using pd_ids [OF assms] by simp
  then have "distinct (map snd ?es)" unfolding snds by (rule distinct_map_filter)
  then show "distinct (trace_expert_pages t l x)" by (simp add: pages distinct_map)
  show "i < length (vt_pages t)" if "i \<in> set (trace_expert_pages t l x)" for i
  proof -
    have "i \<in> set (map snd ?es)" using that by (simp add: pages)
    then have "i \<in> set (map pd_id (vt_pages t))" unfolding snds by auto
    then show ?thesis using pd_ids [OF assms] by (simp only: catalog_pages set_upt atLeastLessThan_iff)
  qed
qed

lemma group_post_trans: "group_post h k k1 \<Longrightarrow> group_post h k1 k2 \<Longrightarrow> group_post h k k2"
  by (auto simp: group_post_def intro: frame_trans)

lemma prefetch_selected_wp:
  assumes "replay_ok h k" "\<not> is_no_cache (k_policy k)"
  shows "wp overflow (prefetch_selected sq req step layer ps budget k) (group_post h k)"
  using assms
proof (induction ps arbitrary: budget k)
  case Nil
  then show ?case by (simp add: group_post_def)
next
  case (Cons q ps)
  show ?case
  proof (cases "pb_remaining_pages budget = 0")
    case True
    with Cons.prems show ?thesis by (simp add: group_post_def)
  next
    case False
    let ?g = "\<lparr>pg_sequence = sq, pg_request = req, pg_target_step = step, pg_prediction = q,
      pg_page_ids = trace_expert_pages (k_trace k) layer (ep_expert q)\<rparr>"
    have cat: "wf_catalog h (catalog (k_trace k))"
      using Cons.prems(1) by (simp add: replay_ok_def kernel_ok_def)
    have "wp overflow (prefetch_group ?g budget k) (\<lambda>(b, k1). group_post h k k1)"
      using Cons.prems trace_expert_pages_ok [OF cat] by (intro prefetch_group_wp) simp_all
    moreover have "wp overflow (prefetch_selected sq req step layer ps b k1) (group_post h k)"
      if "group_post h k k1" for b k1
      using that Cons.prems(2)
      by (intro wp_conseq [OF Cons.IH]) (auto simp: group_post_def frame_def intro: group_post_trans)
    ultimately show ?thesis
      using False by (auto elim!: wp_conseq)
  qed
qed

definition event_cost :: "policy_state \<Rightarrow> trace_event \<Rightarrow> nat" where
  "event_cost p ev = (case router_config p of None \<Rightarrow> 0 | Some cfg \<Rightarrow> (case ev of Demand _ _ _ _ \<Rightarrow> 0
     | RouterSignal _ _ _ _ ps \<Rightarrow>
         (let n = min (length (filter (\<lambda>q. ep_score_ppm q \<ge> rc_minimum_score_ppm cfg) ps)) (rc_max_experts_per_signal cfg)
          in if n = 0 then 0 else 24 + 8 * n)))"

lemma select_predictions_ok:
  shows "set (select_predictions cfg ps) \<subseteq> set ps"
    "distinct (map ep_expert ps) \<Longrightarrow> distinct (map ep_expert (select_predictions cfg ps))"
    "length (select_predictions cfg ps) =
       min (length (filter (\<lambda>q. ep_score_ppm q \<ge> rc_minimum_score_ppm cfg) ps)) (rc_max_experts_per_signal cfg)"
proof -
  let ?sorted = "sort_key (\<lambda>q. (u32_max - ep_score_ppm q, ep_expert q))
      (filter (\<lambda>q. rc_minimum_score_ppm cfg \<le> ep_score_ppm q) ps)"
  show "set (select_predictions cfg ps) \<subseteq> set ps"
    by (auto simp: select_predictions_def dest: in_set_takeD)
  show "length (select_predictions cfg ps) =
      min (length (filter (\<lambda>q. ep_score_ppm q \<ge> rc_minimum_score_ppm cfg) ps)) (rc_max_experts_per_signal cfg)"
    by (simp add: select_predictions_def)
  assume "distinct (map ep_expert ps)"
  then have "distinct (map ep_expert (filter (\<lambda>q. rc_minimum_score_ppm cfg \<le> ep_score_ppm q) ps))"
    by (rule distinct_map_filter)
  then have "distinct (map ep_expert ?sorted)" by (simp add: distinct_map)
  then show "distinct (map ep_expert (select_predictions cfg ps))"
    by (simp add: select_predictions_def take_map [symmetric])
qed

lemma wf_predictions_score:
  assumes "wf_predictions c limits layer ps" "q \<in> set ps"
  shows "ep_score_ppm q \<le> SCORE_SCALE_PPM"
  using assms member_le_sum_list_nat [OF assms(2), of ep_score_ppm] by (auto simp: wf_predictions_def)

text \<open>Effect of an event on the signals a router policy holds.\<close>

definition signal_wf :: "page_catalog \<Rightarrow> sim_limits \<Rightarrow> trace_event \<Rightarrow> bool" where
  "signal_wf c limits ev = (case ev of Demand _ _ _ page \<Rightarrow> page < length (ct_pages c)
     | RouterSignal _ _ _ layer ps \<Rightarrow> wf_predictions c limits layer ps)"

lemma signal_wp:
  assumes "replay_ok h k" "wf_predictions c limits layer ps"
    "active_get (k_policy k) req (step, layer) = None"
    "event_cost (k_policy k) (RouterSignal sq req step layer ps) \<le> unrecorded (k_policy k)"
  shows "wp overflow (signal sq req step layer ps k) (\<lambda>k'. replay_ok h k' \<and> same_run k k'
     \<and> unrecorded (k_policy k') + event_cost (k_policy k) (RouterSignal sq req step layer ps) = unrecorded (k_policy k)
     \<and> (\<forall>r key. (r, key) \<noteq> (req, step, layer) \<longrightarrow> active_get (k_policy k') r key = active_get (k_policy k) r key))"
proof (cases "router_config (k_policy k)")
  case None
  with assms(1) show ?thesis
    by (simp add: signal_def event_cost_def same_run_def replay_ok_def hash_event_def kernel_ok_def ledger_ok_def)
next
  case (Some cfg)
  then obtain r where r: "k_policy k = Kind_Router r" "cfg = rs_config r" by (cases "k_policy k") auto
  let ?sel = "select_predictions cfg ps"
  note sel = select_predictions_ok [where cfg = cfg and ps = ps]
  have cost: "event_cost (k_policy k) (RouterSignal sq req step layer ps) = (if ?sel = [] then 0 else 24 + 8 * length ?sel)"
  proof -
    have "event_cost (k_policy k) (RouterSignal sq req step layer ps) =
        (if length ?sel = 0 then 0 else 24 + 8 * length ?sel)"
      unfolding sel(3) event_cost_def Let_def Some by (simp only: option.case trace_event.case)
    then show ?thesis by (simp only: length_0_conv)
  qed
  show ?thesis
  proof (cases "?sel = []")
    case True
    with Some cost assms(1) show ?thesis
      by (simp add: signal_def Let_def same_run_def replay_ok_def hash_event_def kernel_ok_def ledger_ok_def)
  next
    case False
    have ok: "kernel_ok h k" using assms(1) by (simp add: replay_ok_def)
    have pol: "policy_ok (Kind_Router r)" using kernel_okD(4) [OF ok] r by simp
    have preds: "distinct (map ep_expert ?sel)" "\<And>q. q \<in> set ?sel \<Longrightarrow> ep_score_ppm q \<le> SCORE_SCALE_PPM"
      using sel assms(2) wf_predictions_score [OF assms(2)] by (auto simp: wf_predictions_def)
    have fresh: "active_get (Kind_Router r) req (step, layer) = None"
      and room: "24 + 8 * length ?sel \<le> unrecorded (Kind_Router r)"
      using assms(3,4) cost False r(1) by (simp_all only: if_False)
    obtain r' where r': "record_signal (Kind_Router r) req step layer ?sel = Ok (Kind_Router r')"
      "policy_ok (Kind_Router r')" "policy_shape (Kind_Router r') = policy_shape (Kind_Router r)"
      "unrecorded (Kind_Router r') + (24 + 8 * length ?sel) = unrecorded (Kind_Router r)"
      "\<And>q key. active_get (Kind_Router r') q key = (if q = req \<and> key = (step, layer)
         then Some \<lparr>as_scores = collect_scores ?sel\<rparr> else active_get (Kind_Router r) q key)"
      using record_signal_ok [OF pol False preds fresh room] by blast
    define k1 where "k1 = k\<lparr>k_policy := Kind_Router r'\<rparr>"
    have k1: "replay_ok h k1"
      using assms(1) kernel_ok_policy [OF ok r'(2)] r'(3) r by (simp add: k1_def replay_ok_def)
    have post: "replay_ok h k' \<and> same_run k k'
       \<and> unrecorded (k_policy k') + event_cost (k_policy k) (RouterSignal sq req step layer ps) = unrecorded (k_policy k)
       \<and> (\<forall>q key. (q, key) \<noteq> (req, step, layer) \<longrightarrow> active_get (k_policy k') q key = active_get (k_policy k) q key)"
      if "group_post h k1 k'" for k'
      using that r'(3,4,5) r cost False
      by (auto simp: group_post_def frame_def k1_def same_run_def simp del: active_get.simps unrecorded.simps)
    have admission: "group_post h k1 (hash_event sq tag None [] k1)" for tag
      using k1 by (simp add: group_post_def replay_ok_def)
    have prefetch: "wp overflow (prefetch_selected sq req step layer ?sel b k1) (group_post h k1)" for b
      using k1 by (intro prefetch_selected_wp) (simp_all add: k1_def)
    have run: "signal sq req step layer ps k =
        (if \<not> rs_prefetch r' then Ok (hash_event sq ''signal-admission-only'' None [] k1)
         else prefetch_selected sq req step layer ?sel
           \<lparr>pb_remaining_pages = rc_max_pages_per_signal cfg, pb_remaining_bytes = rc_max_prefetch_bytes_per_signal cfg\<rparr> k1)"
      using Some False r r'(1) by (simp add: signal_def Let_def k1_def)
    show ?thesis
      unfolding run using wp_conseq [OF prefetch post] post [OF admission]
      by (simp del: active_get.simps unrecorded.simps)
  qed
qed

section \<open>Replay\<close>

lemma event_cost_shape: "policy_shape p' = policy_shape p \<Longrightarrow> event_cost p' = event_cost p"
  using policy_shapeD(3) [of p' p] by (simp add: event_cost_def fun_eq_iff)

definition run_inv :: "trace_header \<Rightarrow> sim_limits \<Rightarrow> trace_event list \<Rightarrow> kernel \<Rightarrow> bool" where
  "run_inv h limits rest k \<longleftrightarrow> replay_ok h k
     \<and> unrecorded (k_policy k) = sum_list (map (event_cost (k_policy k)) rest)
     \<and> distinct (signal_targets rest)
     \<and> (\<forall>(r, step, layer)\<in>set (signal_targets rest). active_get (k_policy k) r (step, layer) = None)
     \<and> (\<forall>ev\<in>set rest. signal_wf (catalog (k_trace k)) limits ev)"

lemma signal_targets_Cons:
  "signal_targets (ev # rest) = (case ev of RouterSignal _ r step layer _ \<Rightarrow> [(r, step, layer)] | Demand _ _ _ _ \<Rightarrow> [])
     @ signal_targets rest"
  by (auto simp: signal_targets_def map_filter_def split: trace_event.splits)

lemma run_inv_step:
  assumes "run_inv h limits (ev # rest) k" "replay_ok h k'" "same_run k k'"
    "unrecorded (k_policy k') + event_cost (k_policy k) ev = unrecorded (k_policy k)"
    "\<And>r step layer. (r, step, layer) \<in> set (signal_targets rest) \<Longrightarrow> active_get (k_policy k') r (step, layer) = None"
  shows "run_inv h limits rest k'"
proof -
  have shape: "policy_shape (k_policy k') = policy_shape (k_policy k)" and "k_trace k' = k_trace k"
    using assms(3) by (auto simp: same_run_def)
  then show ?thesis
    using assms event_cost_shape [OF shape]
    by (auto simp: run_inv_def signal_targets_Cons split: trace_event.splits)
qed

lemma replay_event_wp:
  assumes "run_inv h limits (ev # rest) k"
  shows "wp overflow (replay_event ev k) (\<lambda>k'. run_inv h limits rest k' \<and> same_run k k')"
proof (cases ev)
  case (Demand sq req step page)
  have i: "page < length (vt_pages (k_trace k))" and ok: "replay_ok h k"
    and fresh: "\<forall>(r, step, layer)\<in>set (signal_targets rest). active_get (k_policy k) r (step, layer) = None"
    using assms Demand by (auto simp: run_inv_def signal_wf_def signal_targets_Cons)
  have cost: "event_cost (k_policy k) ev = 0" using Demand by (simp add: event_cost_def split: option.splits)
  show ?thesis
    unfolding Demand replay_event.simps
    by (rule wp_conseq [OF demand_wp [OF ok i]])
      (use fresh cost in \<open>auto intro!: run_inv_step [OF assms] simp del: active_get.simps split: prod.splits\<close>)
next
  case (RouterSignal sq req step layer ps)
  have wf: "wf_predictions (catalog (k_trace k)) limits layer ps" and ok: "replay_ok h k"
    and new: "active_get (k_policy k) req (step, layer) = None"
    and room: "event_cost (k_policy k) ev \<le> unrecorded (k_policy k)"
    and fresh: "\<forall>(r, step, layer)\<in>set (signal_targets rest). active_get (k_policy k) r (step, layer) = None"
    and other: "(req, step, layer) \<notin> set (signal_targets rest)"
    using assms RouterSignal by (auto simp: run_inv_def signal_wf_def signal_targets_Cons)
  have sig: "wp overflow (signal sq req step layer ps k) (\<lambda>k'. replay_ok h k' \<and> same_run k k'
     \<and> unrecorded (k_policy k') + event_cost (k_policy k) ev = unrecorded (k_policy k)
     \<and> (\<forall>r key. (r, key) \<noteq> (req, step, layer) \<longrightarrow> active_get (k_policy k') r key = active_get (k_policy k) r key))"
    using signal_wp [OF ok wf new] room unfolding RouterSignal .
  have "run_inv h limits rest k'"
    if k': "replay_ok h k'" "same_run k k'"
      "unrecorded (k_policy k') + event_cost (k_policy k) ev = unrecorded (k_policy k)"
      "\<forall>r key. (r, key) \<noteq> (req, step, layer) \<longrightarrow> active_get (k_policy k') r key = active_get (k_policy k) r key" for k'
  proof (rule run_inv_step [OF assms k'(1-3)])
    fix r s l assume t: "(r, s, l) \<in> set (signal_targets rest)"
    then have "(r, (s, l)) \<noteq> (req, step, layer)" using other by auto
    then have "active_get (k_policy k') r (s, l) = active_get (k_policy k) r (s, l)" using k'(4) by blast
    with fresh t show "active_get (k_policy k') r (s, l) = None" by fastforce
  qed
  then have "wp overflow (signal sq req step layer ps k) (\<lambda>k'. run_inv h limits rest k' \<and> same_run k k')"
    by (intro wp_conseq [OF sig]) blast
  then show ?thesis by (simp add: RouterSignal)
qed

lemma replay_wp:
  assumes "run_inv h limits events k"
  shows "wp overflow (rfold replay_event events k) (\<lambda>k'. run_inv h limits [] k' \<and> same_run k k')"
  using assms
proof (induction events arbitrary: k)
  case Nil
  then show ?case by (simp add: same_run_def)
next
  case (Cons ev events)
  have "wp overflow (rfold replay_event events k1) (\<lambda>k'. run_inv h limits [] k' \<and> same_run k k')"
    if "run_inv h limits events k1 \<and> same_run k k1" for k1
    using that by (intro wp_conseq [OF Cons.IH]) (auto simp: same_run_def)
  then show ?case
    by (simp add: wp_conseq [OF replay_event_wp [OF Cons.prems]])
qed

section \<open>Finishing\<close>

definition wasted_metrics :: "nat \<Rightarrow> nat \<Rightarrow> simulation_metrics \<Rightarrow> simulation_metrics" where
  "wasted_metrics n b m = m\<lparr>prefetch_wasted := prefetch_wasted m + n, prefetch_wasted_bytes := prefetch_wasted_bytes m + b\<rparr>"

lemma account_unfinished_wp:
  assumes "\<And>e. e \<in> set es \<Longrightarrow> re_prefetched_unused e"
  shows "wp overflow (rfold account_wasted_prefetch es k) (\<lambda>k'.
     k' = k\<lparr>k_metrics := wasted_metrics (length es) (sum_list (map re_logical_bytes es)) (k_metrics k)\<rparr>)"
  using assms
  by (intro wp_rfold [where P = "\<lambda>ys k'.
     k' = k\<lparr>k_metrics := wasted_metrics (length ys) (sum_list (map re_logical_bytes ys)) (k_metrics k)\<rparr>"])
    (auto simp: account_wasted_prefetch_def wasted_metrics_def add.assoc)

lemma finish_wp:
  assumes "demands_ok m" "offers_ok m" "prefetch_useful m + prefetch_wasted m = prefetch_admitted m"
    "prefetch_useful_bytes m + prefetch_wasted_bytes m = prefetch_load_bytes m"
  shows "wp overflow (finish m)
     (\<lambda>m'. m' = m\<lparr>total_physical_load_bytes := demand_load_bytes m + prefetch_load_bytes m\<rparr>)"
  using assms
  by (auto simp: finish_def Let_def wp_ok_or demands_ok_def offers_ok_def bind_eq_Some_conv bind_eq_None_conv
      split: option.splits)

definition finished_metrics :: "kernel \<Rightarrow> simulation_metrics" where
  "finished_metrics k = (let m = wasted_metrics (unused_count (k_residents k)) (unused_bytes (k_residents k)) (k_metrics k) in
     m\<lparr>final_resident_charge_bytes := charge_total (k_residents k),
       policy_metadata_bytes := fst (metadata_result (k_policy k)),
       policy_metadata_limit_bytes := snd (metadata_result (k_policy k)),
       total_physical_load_bytes := demand_load_bytes m + prefetch_load_bytes m\<rparr>)"

lemma unused_counts:
  "unused_count R = length (filter re_prefetched_unused (bt_values R))"
  "unused_bytes R = sum_list (map re_logical_bytes (filter re_prefetched_unused (bt_values R)))"
proof -
  show "unused_count R = length (filter re_prefetched_unused (bt_values R))"
    by (induction R) (auto simp: unused_count_def bt_values_def)
  show "unused_bytes R = sum_list (map re_logical_bytes (filter re_prefetched_unused (bt_values R)))"
    by (simp add: total_filter_values unused_bytes_def cong: if_cong)
qed

lemma run_finish_wp:
  assumes "run_inv h limits [] k"
  shows "wp overflow (run_finish sha_hex k) (\<lambda>(m, digest). m = finished_metrics k \<and> digest = sha_hex (k_decisions k))"
proof -
  have ok: "kernel_ok h k" "demands_ok (k_metrics k)" "offers_ok (k_metrics k)" and z: "unrecorded (k_policy k) = 0"
    using assms by (auto simp: run_inv_def replay_ok_def)
  let ?m = "wasted_metrics (unused_count (k_residents k)) (unused_bytes (k_residents k)) (k_metrics k)"
  obtain used limit where res: "metadata_result (k_policy k) = (used, limit)" by fastforce
  have unfinished: "wp overflow (rfold account_wasted_prefetch (filter re_prefetched_unused (bt_values (k_residents k))) k)
      (\<lambda>k'. k' = k\<lparr>k_metrics := ?m\<rparr>)"
    unfolding unused_counts by (rule account_unfinished_wp) simp
  have meta: "finish_metadata (k_policy k) = Ok (used, limit)"
    using finish_metadata_ok [OF kernel_okD(4) [OF ok(1)] z] res by simp
  have fin: "wp overflow (finish (?m\<lparr>final_resident_charge_bytes := k_resident_bytes k, policy_metadata_bytes := used,
       policy_metadata_limit_bytes := limit\<rparr>)) (\<lambda>m. m = finished_metrics k)"
    using ok kernel_okD(6) [OF ok(1)] res
    by (intro wp_conseq [OF finish_wp])
      (auto simp: finished_metrics_def Let_def wasted_metrics_def demands_ok_def offers_ok_def kernel_ok_def ledger_ok_def)
  show ?thesis
    unfolding run_finish_def Let_def
    by (auto simp: meta intro!: wp_conseq [OF unfinished] wp_conseq [OF fin])
qed

section \<open>From a validated trace to a result\<close>

lemma distinct_signal_targets:
  "(\<forall>i<length events. wf_event c limits (take i events) (events ! i)) \<Longrightarrow> distinct (signal_targets events)"
proof (induction events rule: rev_induct)
  case Nil
  then show ?case by (simp add: signal_targets_def map_filter_def)
next
  case (snoc ev events)
  have "wf_event c limits (take i events) (events ! i)" if "i < length events" for i
    using snoc.prems that by (auto simp: nth_append dest!: spec [of _ i])
  moreover have "wf_event c limits events ev" using snoc.prems [rule_format, of "length events"] by simp
  ultimately show ?case
    using snoc.IH by (cases ev) (auto simp: signal_targets_snoc)
qed

lemma wf_trace_events:
  assumes "wf_trace limits t"
  shows "distinct (signal_targets (vt_events t))" "\<forall>ev\<in>set (vt_events t). signal_wf (catalog t) limits ev"
proof -
  have wf: "\<forall>i<length (vt_events t). wf_event (catalog t) limits (take i (vt_events t)) (vt_events t ! i)"
    using assms by (simp add: wf_trace_def wf_events_def)
  then show "distinct (signal_targets (vt_events t))" by (rule distinct_signal_targets)
  have "signal_wf (catalog t) limits (vt_events t ! i)" if "i < length (vt_events t)" for i
    using wf [rule_format, OF that] by (cases "vt_events t ! i") (simp_all add: signal_wf_def)
  then show "\<forall>ev\<in>set (vt_events t). signal_wf (catalog t) limits ev" by (metis in_set_conv_nth)
qed

text \<open>The arguments are values of their Rust types.\<close>

definition config_in_range :: "simulation_config \<Rightarrow> bool" where
  "config_in_range config \<longleftrightarrow> sc_capacity_bytes config \<le> u64_max
     \<and> (case sc_policy config of Spec_TinyLfu tiny \<Rightarrow> tc_sample_accesses tiny \<le> u64_max | _ \<Rightarrow> True)"

fun spec_cost :: "router_policy_config option \<Rightarrow> trace_event \<Rightarrow> nat" where
  "spec_cost None ev = 0"
| "spec_cost (Some cfg) (Demand _ _ _ _) = 0"
| "spec_cost (Some cfg) (RouterSignal _ _ _ _ ps) =
     (let n = min (length (filter (\<lambda>q. ep_score_ppm q \<ge> rc_minimum_score_ppm cfg) ps)) (rc_max_experts_per_signal cfg)
      in if n = 0 then 0 else 24 + 8 * n)"

lemma event_cost_eq: "event_cost p ev = spec_cost (router_config p) ev"
  by (cases "router_config p"; cases ev) (auto simp: event_cost_def Let_def)

lemma event_cost_fun: "event_cost p = spec_cost (router_config p)"
  by (simp add: fun_eq_iff event_cost_eq)

lemma router_metadata_event_wp:
  assumes "limit \<le> u64_max"
  shows "wp overflow (router_metadata_event cfg ev limit)
     (\<lambda>limit'. limit' = limit + spec_cost (Some cfg) ev \<and> limit' \<le> u64_max)"
proof (cases ev)
  case (RouterSignal sq req step layer ps)
  define n where "n = min (length (filter (\<lambda>q. rc_minimum_score_ppm cfg \<le> ep_score_ppm q) ps)) (rc_max_experts_per_signal cfg)"
  have "router_metadata_event cfg ev limit = (if n = 0 then Ok limit
      else rbind (router_signal_metadata_bytes n) (\<lambda>bytes. ok_or (checked_add limit bytes) (CounterOverflow ''router metadata ceiling'')))"
    by (simp only: RouterSignal router_metadata_event_def Let_def trace_event.case n_def)
  moreover have "spec_cost (Some cfg) ev = (if n = 0 then 0 else 24 + 8 * n)"
    by (simp only: RouterSignal spec_cost.simps Let_def n_def)
  ultimately show ?thesis
    using assms by (auto simp: router_signal_metadata_bytes_def wp_ok_or
        ROUTER_SIGNAL_BASE_BYTES_def ROUTER_PREDICTION_BYTES_def split: option.splits)
qed (use assms in \<open>simp add: router_metadata_event_def\<close>)

lemma router_metadata_limit_wp:
  "wp overflow (router_metadata_limit t spec)
     (\<lambda>limit. limit = sum_list (map (spec_cost (spec_router_config spec)) (vt_events t)) \<and> limit \<le> u64_max)"
proof (cases "spec_router_config spec")
  case None
  then show ?thesis by (simp add: router_metadata_limit_def)
next
  case (Some cfg)
  have "wp overflow (rfold (router_metadata_event cfg) (vt_events t) 0)
     (\<lambda>limit. limit = sum_list (map (spec_cost (Some cfg)) (vt_events t)) \<and> limit \<le> u64_max)"
    by (rule wp_rfold [where P = "\<lambda>ys limit. limit = sum_list (map (spec_cost (Some cfg)) ys) \<and> limit \<le> u64_max"])
      (simp_all add: wp_conseq [OF router_metadata_event_wp])
  with Some show ?thesis by (simp add: router_metadata_limit_def)
qed

definition rejected :: "sim_error failure \<Rightarrow> bool" where
  "rejected e \<longleftrightarrow> overflow e \<or> (\<exists>s. e = Err (InvalidConfig s))"

lemma rejected_simps [simp]:
  "rejected (Err (InvalidConfig s))" "rejected (Err (CounterOverflow n))" "\<not> rejected (Panic s)"
  by (auto simp: rejected_def overflow_def)

lemma fraction_target_wp:
  assumes "capacity \<le> u64_max"
  shows "wp rejected (fraction_target capacity fraction) (\<lambda>target. target = capacity * fraction div 1000000)"
proof (cases "fraction > 1000000")
  case False
  then have "capacity * fraction \<le> u64_max * 1000000" using assms by (intro mult_le_mono) simp_all
  moreover have "u64_max * 1000000 \<le> u128_max" by (simp add: u64_max_def u128_max_def)
  ultimately have mul: "mul_u128 capacity fraction = Ok (capacity * fraction)"
    by (simp add: mul_u128_def checked_mul_u128_def)
  have "capacity * fraction div 1000000 \<le> capacity * 1000000 div 1000000"
    using False by (intro div_le_mono mult_le_mono) simp_all
  then have "capacity * fraction div 1000000 \<le> capacity" by simp
  then have "capacity * fraction div 1000000 < 2 ^ 64" using assms by (simp add: u64_max_def)
  with False show ?thesis by (simp add: fraction_target_def PPM_def mul)
qed (simp add: fraction_target_def)

lemma policy_new_wp:
  assumes "capacity \<le> u64_max" "limit \<le> u64_max"
    "\<And>tiny. spec = Spec_TinyLfu tiny \<Longrightarrow> tc_sample_accesses tiny \<le> u64_max"
    "spec_router_config spec = None \<Longrightarrow> limit = 0"
  shows "wp rejected (policy_new spec capacity limit) (\<lambda>p. policy_ok p \<and> unrecorded p = limit
     \<and> (\<forall>r key. active_get p r key = None) \<and> router_config p = spec_router_config spec
     \<and> is_no_cache p = (spec = Spec_NoCache) \<and> spec \<noteq> Spec_Belady)"
proof -
  have router: "wp rejected (router_new prefetch cfg capacity limit) (\<lambda>p. policy_ok p \<and> unrecorded p = limit
     \<and> (\<forall>r key. active_get p r key = None) \<and> router_config p = Some cfg \<and> \<not> is_no_cache p)" for prefetch cfg
    using assms(1,2)
    by (auto simp: router_new_def router_ok_def active_total_def intro!: wp_conseq [OF fraction_target_wp])
  show ?thesis
  proof (cases spec)
    case (Spec_TinyLfu config)
    have "wp rejected (tiny_new config) (\<lambda>t. tiny_wf t)"
      using tiny_new_wf(1) [of config] assms(3) [OF Spec_TinyLfu]
      by (intro wpI) (auto simp: tiny_new_def rbind_Inl_iff)
    with Spec_TinyLfu assms(4) show ?thesis by (auto elim!: wp_conseq)
  next
    case (Spec_Slru f)
    with assms(1,4) show ?thesis by (auto intro!: wp_conseq [OF fraction_target_wp])
  qed (use router assms(4) in \<open>auto elim!: wp_conseq\<close>)
qed

lemma segments_ok_empty: "segments_ok p []"
  by (auto simp: segments_ok_def protected_total_def split: option.splits)

lemma kernel_new_wp:
  assumes "wf_trace limits t" "config_in_range config"
  shows "wp rejected (kernel_new t config) (\<lambda>k. run_inv (vt_header t) limits (vt_events t) k \<and> k_trace k = t
     \<and> k_capacity_bytes k = sc_capacity_bytes config \<and> k_metrics k = default_metrics \<and> k_residents k = []
     \<and> k_touch k = 0 \<and> k_decisions k = [] \<and> router_config (k_policy k) = spec_router_config (sc_policy config)
     \<and> is_no_cache (k_policy k) = (sc_policy config = Spec_NoCache) \<and> sc_policy config \<noteq> Spec_Belady)"
proof -
  let ?cost = "spec_cost (spec_router_config (sc_policy config))"
  have limit: "wp rejected (router_metadata_limit t (sc_policy config))
      (\<lambda>limit. limit = sum_list (map ?cost (vt_events t)) \<and> limit \<le> u64_max)"
    using router_metadata_limit_wp [of t "sc_policy config"]
    by (auto simp: wp_def rejected_def split: sum.splits)
  have policy: "wp rejected (policy_new (sc_policy config) (sc_capacity_bytes config) l) (\<lambda>p. policy_ok p \<and> unrecorded p = l
     \<and> (\<forall>r key. active_get p r key = None) \<and> router_config p = spec_router_config (sc_policy config)
     \<and> is_no_cache p = (sc_policy config = Spec_NoCache) \<and> sc_policy config \<noteq> Spec_Belady)"
    if "l = sum_list (map ?cost (vt_events t)) \<and> l \<le> u64_max" for l
  proof (rule policy_new_wp)
    have "sum_list (map (spec_cost None) evs) = 0" for evs by (induction evs) simp_all
    then show "l = 0" if "spec_router_config (sc_policy config) = None"
      using \<open>l = _ \<and> _\<close> that by simp
  qed (use that assms(2) in \<open>auto simp: config_in_range_def\<close>)
  have inv: "run_inv (vt_header t) limits (vt_events t) \<lparr>k_trace = t, k_capacity_bytes = sc_capacity_bytes config,
      k_policy = p, k_residents = [], k_resident_bytes = 0, k_metrics = default_metrics, k_decisions = [], k_touch = 0\<rparr>"
    if "policy_ok p" "unrecorded p = sum_list (map ?cost (vt_events t))" "\<forall>r key. active_get p r key = None"
      "router_config p = spec_router_config (sc_policy config)" for p
    using that assms wf_trace_events [OF assms(1)]
    by (auto simp: run_inv_def replay_ok_def kernel_ok_def ledger_ok_def demands_ok_def offers_ok_def wf_trace_def
        config_in_range_def default_metrics_def residents_ok_def charge_total_def unused_count_def unused_bytes_def
        segments_ok_empty event_cost_fun simp del: active_get.simps)
  show ?thesis
    unfolding kernel_new_def
    by (auto intro!: wp_conseq [OF limit] wp_conseq [OF policy] inv simp del: active_get.simps)
qed

lemma run_wp:
  assumes "run_inv h limits (vt_events (k_trace k)) k"
  shows "wp overflow (run sha_hex k) (\<lambda>(m, digest). \<exists>k'. run_inv h limits [] k' \<and> same_run k k'
     \<and> m = finished_metrics k' \<and> digest = sha_hex (k_decisions k'))"
  unfolding run_def wp_simps
  by (rule wp_conseq [OF replay_wp [OF assms]], elim conjE, rule wp_conseq [OF run_finish_wp]) auto

text \<open>Accounting identities and bounds of the metrics a run returns.\<close>

definition metrics_sound :: "u64 \<Rightarrow> simulation_metrics \<Rightarrow> bool" where
  "metrics_sound capacity m \<longleftrightarrow>
     ordinary_demand_hits m + useful_prefetch_hits m + demand_misses m = demand_accesses m
     \<and> ordinary_demand_hit_bytes m + useful_prefetch_hit_bytes m + demand_miss_bytes m = demand_logical_bytes m
     \<and> demand_load_bytes m = demand_miss_bytes m
     \<and> prefetch_admitted m + prefetch_redundant m + prefetch_dropped m = prefetch_offered m
     \<and> prefetch_load_bytes m + prefetch_redundant_bytes m + prefetch_dropped_bytes m = prefetch_offered_bytes m
     \<and> prefetch_useful m + prefetch_wasted m = prefetch_admitted m
     \<and> prefetch_useful_bytes m + prefetch_wasted_bytes m = prefetch_load_bytes m
     \<and> total_physical_load_bytes m = demand_load_bytes m + prefetch_load_bytes m
     \<and> final_resident_charge_bytes m \<le> peak_resident_charge_bytes m
     \<and> peak_resident_charge_bytes m \<le> capacity \<and> evictions m \<le> admissions m
     \<and> policy_metadata_bytes m \<le> policy_metadata_limit_bytes m"

lemma metadata_result_le: "policy_ok p \<Longrightarrow> fst (metadata_result p) \<le> snd (metadata_result p)"
  by (cases p) (auto simp: router_ok_def)

lemma finished_metrics_sound:
  assumes "run_inv h limits [] k"
  shows "metrics_sound (k_capacity_bytes k) (finished_metrics k)"
  using assms metadata_result_le [of "k_policy k"]
  by (auto simp: run_inv_def replay_ok_def kernel_ok_def ledger_ok_def demands_ok_def offers_ok_def
      metrics_sound_def finished_metrics_def wasted_metrics_def Let_def)

end
