(* ===== verification/Sim_Belady.thy ===== *)
theory Sim_Belady
  imports Sim_Oracle_Exact Sim_Engine_Run
begin

text \<open>
  Correctness of the Belady replay: on a trace of uniform geometry its demand loads are the least any
  schedule can reach, by an exchange argument on how many resident pages are used again soon. It fails
  only by counter overflow or because the geometry is not uniform.
\<close>

section \<open>Keeping the pages used soonest\<close>

text \<open>
  What one demand of page \<open>p\<close>, followed by the demands \<open>rs\<close>, must do to contents \<open>B\<close> of at most \<open>k\<close> pages:
  a hit changes nothing; after a miss, whatever the horizon, at least as many pages are used within it as
  \<open>k\<close> slots can hold of the old contents and \<open>p\<close>.
\<close>

definition keeps_soonest :: "nat \<Rightarrow> page_id \<Rightarrow> page_id list \<Rightarrow> page_id set \<Rightarrow> page_id set \<Rightarrow> bool" where
  "keeps_soonest k p rs B B' \<longleftrightarrow> B' \<subseteq> insert p B \<and> card B' \<le> k \<and> (p \<in> B \<longrightarrow> B' = B)
     \<and> (p \<notin> B \<longrightarrow> (\<forall>T. min k (card (insert p B \<inter> set (take T rs))) \<le> card (B' \<inter> set (take T rs))))"

text \<open>\<open>S\<close> is ahead of \<open>B\<close> by at most \<open>d\<close> pages at every horizon.\<close>

definition ahead :: "page_id list \<Rightarrow> page_id set \<Rightarrow> page_id set \<Rightarrow> nat \<Rightarrow> bool" where
  "ahead rs S B d \<longleftrightarrow> (\<forall>T. card (S \<inter> set (take T rs)) \<le> card (B \<inter> set (take T rs)) + d)"

lemma card_insert_Int:
  "finite U \<Longrightarrow> card (A \<inter> insert p U) = card (A \<inter> U) + (if p \<in> A \<and> p \<notin> U then 1 else 0)"
  "finite U \<Longrightarrow> card (insert p A \<inter> U) = card (A \<inter> U) + (if p \<notin> A \<and> p \<in> U then 1 else 0)"
  by (auto simp: Int_insert_left insert_absorb)

lemma ahead_Cons:
  assumes "ahead (p # rs) S B d"
  shows "card (S \<inter> set (take T rs)) + (if p \<in> S \<and> p \<notin> set (take T rs) then 1 else 0)
     \<le> card (B \<inter> set (take T rs)) + (if p \<in> B \<and> p \<notin> set (take T rs) then 1 else 0) + d"
  using assms [unfolded ahead_def, THEN spec, of "Suc T"] by (simp add: card_insert_Int)

lemma ahead_step:
  assumes ahead: "ahead (p # rs) S B d" and B': "keeps_soonest k p rs B B'"
    and S': "S' \<subseteq> insert p S" "card S' \<le> k" "finite S'"
  shows "\<exists>d'. d' + (if p \<in> B then 0 else 1) = d + (if p \<in> S then 0 else 1) \<and> ahead rs S' B' d'"
proof -
  have le: "card (S' \<inter> U) \<le> card (S \<inter> U) + (if p \<notin> S \<and> p \<in> U then 1 else 0)" if "finite U" for U
  proof -
    have "card (S' \<inter> U) \<le> card (insert p S \<inter> U)" using S'(1) that by (intro card_mono) auto
    then show ?thesis using that by (simp add: card_insert_Int)
  qed
  have small: "card (S' \<inter> U) \<le> k" for U
    using S'(2,3) card_mono [of S' "S' \<inter> U"] by force
  show ?thesis
  proof (cases "p \<in> B")
    case True
    then have "B' = B" using B' by (simp add: keeps_soonest_def)
    moreover have "card (S' \<inter> set (take T rs)) \<le> card (B \<inter> set (take T rs)) + (d + (if p \<in> S then 0 else 1))" for T
      using ahead_Cons [OF ahead, of T] le [of "set (take T rs)"] True by (auto split: if_splits)
    ultimately show ?thesis using True by (intro exI [of _ "d + (if p \<in> S then 0 else 1)"]) (simp add: ahead_def)
  next
    case False
    have pos: "0 < d" if "p \<in> S" using ahead_Cons [OF ahead, of 0] that False by simp
    define d' where "d' = d + (if p \<in> S then 0 else 1) - 1"
    have d': "d' + 1 = d + (if p \<in> S then 0 else 1)" using pos by (auto simp: d'_def)
    have "card (S' \<inter> set (take T rs)) \<le> card (B' \<inter> set (take T rs)) + d'" for T
    proof -
      have "min k (card (insert p B \<inter> set (take T rs))) \<le> card (B' \<inter> set (take T rs))"
        using B' False by (simp add: keeps_soonest_def)
      then have "min k (card (B \<inter> set (take T rs)) + (if p \<in> set (take T rs) then 1 else 0)) \<le> card (B' \<inter> set (take T rs))"
        using False by (simp add: card_insert_Int)
      then show ?thesis
        using ahead_Cons [OF ahead, of T] le [of "set (take T rs)"] small [of "set (take T rs)"] d' False pos
        by (auto split: if_splits)
    qed
    with d' False show ?thesis by (auto simp: ahead_def)
  qed
qed

text \<open>Evicting the page used farthest away keeps the soonest ones.\<close>

lemma keeps_soonest_farthest:
  assumes "finite B" "p \<notin> B" "card B = k" "v \<in> insert p B"
    and "\<And>T x. x \<in> insert p B \<Longrightarrow> v \<in> set (take T rs) \<Longrightarrow> x \<in> set (take T rs)"
  shows "keeps_soonest k p rs B (insert p B - {v})"
proof -
  have card: "card (insert p B - {v}) = k" using assms(1-4) by (simp add: card_Diff_singleton)
  have "min k (card (insert p B \<inter> set (take T rs))) \<le> card ((insert p B - {v}) \<inter> set (take T rs))" for T
  proof (cases "v \<in> set (take T rs)")
    case True
    then have "(insert p B - {v}) \<inter> set (take T rs) = insert p B - {v}" using assms(5) by blast
    then show ?thesis using card by simp
  next
    case False
    then have "(insert p B - {v}) \<inter> set (take T rs) = insert p B \<inter> set (take T rs)" by blast
    then show ?thesis by simp
  qed
  then show ?thesis using card assms(2) by (auto simp: keeps_soonest_def)
qed

lemma keeps_soonest_room:
  "finite B \<Longrightarrow> p \<notin> B \<Longrightarrow> card B < k \<Longrightarrow> keeps_soonest k p rs B (insert p B)"
  by (auto simp: keeps_soonest_def)

lemma keeps_soonest_hit: "p \<in> B \<Longrightarrow> card B \<le> k \<Longrightarrow> keeps_soonest k p rs B B"
  by (auto simp: keeps_soonest_def)

section \<open>Optimality carried along the demands\<close>

text \<open>
  After serving \<open>qs\<close>, with \<open>rs\<close> to come: the contents \<open>B\<close> are those of some schedule of cost \<open>cost\<close>, and
  every schedule paid for the pages it is ahead.
\<close>

definition paid_ahead ::
  "(page_id \<Rightarrow> nat) \<Rightarrow> (page_id \<Rightarrow> nat) \<Rightarrow> nat \<Rightarrow> nat \<Rightarrow> page_id list \<Rightarrow> page_id list \<Rightarrow> page_id set \<Rightarrow> nat \<Rightarrow> bool" where
  "paid_ahead ch lg cap L qs rs B cost \<longleftrightarrow>
     (\<exists>Ts. feasible ch cap {} qs Ts \<and> final_set {} Ts = B \<and> load_cost lg {} qs Ts = cost)
     \<and> (\<forall>Ts. feasible ch cap {} qs Ts \<longrightarrow>
          (\<exists>d. load_cost lg {} qs Ts = cost + L * d \<and> ahead rs (final_set {} Ts) B d))"

lemma paid_ahead_init: "paid_ahead ch lg cap L [] rs {} 0"
proof -
  have "feasible ch cap {} [] Ts \<longleftrightarrow> Ts = []" for Ts by (cases Ts) auto
  then show ?thesis by (auto simp: paid_ahead_def ahead_def)
qed

lemma paid_ahead_step:
  assumes paid: "paid_ahead ch lg cap L qs (p # rs) B cost" and B': "keeps_soonest k p rs B B'"
    and slots: "\<And>T. T \<subseteq> set (qs @ [p]) \<Longrightarrow> sum ch T \<le> cap \<longleftrightarrow> card T \<le> k" and lg: "lg p = L"
  shows "paid_ahead ch lg cap L (qs @ [p]) rs B' (cost + (if p \<in> B then 0 else L))"
proof -
  obtain Ts where Ts: "feasible ch cap {} qs Ts" "final_set {} Ts = B" "load_cost lg {} qs Ts = cost"
    using paid unfolding paid_ahead_def by blast
  have "B \<subseteq> set qs" using feasible_pages [OF Ts(1)] Ts(2) by simp
  then have "sum ch B' \<le> cap" using B' by (subst slots) (auto simp: keeps_soonest_def)
  then have "feasible ch cap {} (qs @ [p]) (Ts @ [B'])"
    "load_cost lg {} (qs @ [p]) (Ts @ [B']) = cost + (if p \<in> B then 0 else L)"
    using Ts B' lg feasible_length [OF Ts(1)] by (auto simp: feasible_snoc load_cost_snoc keeps_soonest_def)
  moreover have "\<exists>d. load_cost lg {} (qs @ [p]) Us = cost + (if p \<in> B then 0 else L) + L * d
      \<and> ahead rs (final_set {} Us) B' d"
    if Us: "feasible ch cap {} (qs @ [p]) Us" for Us
  proof -
    obtain Vs V where V: "Us = Vs @ [V]" "length Vs = length qs"
      using feasible_length [OF Us] by (cases Us rule: rev_cases) auto
    have f: "feasible ch cap {} qs Vs" "V \<subseteq> insert p (final_set {} Vs)" "sum ch V \<le> cap"
      using Us feasible_snoc [OF V(2)] V(1) by auto
    have "V \<subseteq> set (qs @ [p])" using f(2) feasible_pages [OF f(1)] by auto
    then have kV: "card V \<le> k" "finite V" using slots [of V] f(3) finite_subset by auto
    obtain d where d: "load_cost lg {} qs Vs = cost + L * d" "ahead (p # rs) (final_set {} Vs) B d"
      using paid f(1) unfolding paid_ahead_def by blast
    obtain d' where d': "d' + (if p \<in> B then 0 else 1) = d + (if p \<in> final_set {} Vs then 0 else 1)" "ahead rs V B' d'"
      using ahead_step [OF d(2) B' f(2) kV] by blast
    have "L * (d' + (if p \<in> B then 0 else 1)) = L * (d + (if p \<in> final_set {} Vs then 0 else 1))" using d'(1) by simp
    then have "load_cost lg {} (qs @ [p]) Us = cost + (if p \<in> B then 0 else L) + L * d'"
      using V d(1) lg by (auto simp: load_cost_snoc distrib_left split: if_splits)
    then show ?thesis using d'(2) V(1) by auto
  qed
  ultimately show ?thesis unfolding paid_ahead_def by (intro conjI exI [of _ "Ts @ [B']"]) simp_all
qed

lemma paid_ahead_optimal: "paid_ahead ch lg cap L ps rs B cost \<Longrightarrow> optimal_cost ch lg cap ps cost"
  by (fastforce simp: paid_ahead_def optimal_cost_def)

section \<open>The future-demand index\<close>

fun positions :: "nat \<Rightarrow> page_id \<Rightarrow> page_id list \<Rightarrow> nat list" where
  "positions n x [] = []"
| "positions n x (y # ys) = (if y = x then [n] else []) @ positions (Suc n) x ys"

definition future_ok :: "future_index \<Rightarrow> nat \<Rightarrow> page_id list \<Rightarrow> bool" where
  "future_ok f n rs \<longleftrightarrow> bt_wf f
     \<and> (\<forall>x. (case bt_get f x of None \<Rightarrow> [] | Some l \<Rightarrow> l) = positions n x rs)"

lemma positions_snoc: "positions n x (ys @ [y]) = positions n x ys @ (if y = x then [n + length ys] else [])"
  by (induction ys arbitrary: n) auto

lemma positions_Nil_iff: "positions n x rs = [] \<longleftrightarrow> x \<notin> set rs"
  by (induction rs arbitrary: n) auto

lemma positions_hd: "positions n x rs = q # qs \<Longrightarrow> x \<in> set (take T rs) \<longleftrightarrow> q < n + T"
proof (induction rs arbitrary: n T)
  case (Cons y rs)
  show ?case
  proof (cases T)
    case 0
    have "n \<le> q" if "positions n x rs = q # qs" for n rs q qs
      using that by (induction rs arbitrary: n) (force split: if_splits)+
    with 0 Cons.prems show ?thesis by (fastforce split: if_splits)
  next
    case (Suc m)
    with Cons.prems Cons.IH [of "Suc n" m] show ?thesis by (auto split: if_splits)
  qed
qed simp

lemma demand_pages_snoc [simp]:
  "demand_pages [] = []"
  "demand_pages (es @ [Demand s r st p]) = demand_pages es @ [p]"
  "demand_pages (es @ [RouterSignal s r st l ps]) = demand_pages es"
  "demand_pages (es @ es') = demand_pages es @ demand_pages es'"
  "demand_pages (Demand s r st p # es) = p # demand_pages es"
  "demand_pages (RouterSignal s r st l ps # es) = demand_pages es"
  by (simp_all add: demand_pages_def map_filter_def)

lemma future_demands_ok:
  assumes "length (demand_pages (vt_events t)) \<le> u64_max"
  shows "future_ok (future_demands t) 0 (demand_pages (vt_events t))"
proof -
  have "fst (fold note_demand es (0, [])) = length (demand_pages es)
      \<and> future_ok (snd (fold note_demand es (0, []))) 0 (demand_pages es)"
    if "length (demand_pages es) \<le> u64_max" for es
    using that
  proof (induction es rule: rev_induct)
    case (snoc ev es)
    obtain n f where nf: "fold note_demand es (0, []) = (n, f)" by fastforce
    show ?case
    proof (cases ev)
      case (Demand s r st p)
      then have "n = length (demand_pages es)" "future_ok f 0 (demand_pages es)" "n + 1 \<le> u64_max"
        using snoc nf by auto
      moreover from this have "note_demand ev (n, f) = (Suc n, bt_insert p ((case bt_get f p of None \<Rightarrow> [] | Some l \<Rightarrow> l) @ [n]) f)"
        using Demand by (simp add: note_demand_def saturating_add_def)
      ultimately show ?thesis
        using Demand nf by (auto simp: future_ok_def positions_snoc)
    next
      case (RouterSignal s r st l ps)
      then have "note_demand ev (n, f) = (n, f)" by (simp add: note_demand_def)
      with RouterSignal snoc nf show ?thesis by simp
    qed
  qed (simp add: future_ok_def)
  then show ?thesis using assms by (simp add: future_demands_def)
qed

lemma pop_current_demand_ok:
  assumes "future_ok f n (p # rs)"
  shows "\<exists>f'. pop_current_demand f p = Ok f' \<and> future_ok f' (Suc n) rs"
proof -
  have "(case bt_get f p of None \<Rightarrow> [] | Some l \<Rightarrow> l) = n # positions (Suc n) p rs"
    using assms by (simp add: future_ok_def)
  then obtain l where "bt_get f p = Some l" "l = n # positions (Suc n) p rs" by (auto split: option.splits)
  then show ?thesis
    using assms by (auto simp: pop_current_demand_def future_ok_def split: if_splits)
qed

lemma next_use_soon:
  assumes "future_ok f n rs" "n + length rs \<le> u64_max" "next_use f x \<le> next_use f v" "v \<in> set (take T rs)"
  shows "x \<in> set (take T rs)"
proof -
  have pos: "(case bt_get f y of None \<Rightarrow> [] | Some l \<Rightarrow> l) = positions n y rs" for y
    using assms(1) by (simp add: future_ok_def)
  have "v \<in> set (take (min T (length rs)) rs)" "v \<in> set rs"
    using assms(4) by (simp_all add: min_def split: if_splits) (meson in_set_takeD)+
  then obtain q qs where "positions n v rs = q # qs" "q < n + min T (length rs)"
    using positions_Nil_iff [of n v rs] positions_hd [of n v rs] by (cases "positions n v rs") auto
  then have v: "next_use f v < n + min T (length rs)"
    using pos [of v] by (auto simp: next_use_def split: option.splits)
  then have "next_use f x < u64_max" using assms(2,3) by simp
  then obtain q' qs' where "positions n x rs = q' # qs'" "next_use f x = q'"
    using pos [of x] by (auto simp: next_use_def split: option.splits list.splits)
  with positions_hd [of n x rs q' qs' T] v assms(3) show ?thesis by simp
qed

section \<open>The replay\<close>

lemma wp_belady_add [simp]:
  "wp overflow (belady_add field update v n b) Q \<longleftrightarrow>
     (field (be_metrics b) + v \<le> u64_max \<longrightarrow> Q (b\<lparr>be_metrics := update (\<lambda>_. field (be_metrics b) + v) (be_metrics b)\<rparr>))"
  by (auto simp: belady_add_def metric_add_def wp_ok_or split: option.splits)

abbreviation belady_pages :: "belady_state \<Rightarrow> page_id set" where
  "belady_pages b \<equiv> dom (bt_get (be_residents b))"

definition belady_ledger :: "nat \<Rightarrow> nat \<Rightarrow> belady_state \<Rightarrow> bool" where
  "belady_ledger c k b \<longleftrightarrow> bt_wf (be_residents b) \<and> length (be_residents b) \<le> k
     \<and> be_charge b = c * length (be_residents b) \<and> be_charge b \<le> peak_resident_charge_bytes (be_metrics b)
     \<and> peak_resident_charge_bytes (be_metrics b) \<le> c * k
     \<and> evictions (be_metrics b) + length (be_residents b) = admissions (be_metrics b)"

text \<open>What admissions leave alone.\<close>

definition belady_view :: "simulation_metrics \<Rightarrow> u64 list" where
  "belady_view m = demand_view m @ offer_view m @ admit_view m @
     [prefetch_useful m, prefetch_wasted m, prefetch_useful_bytes m, prefetch_wasted_bytes m,
      policy_metadata_bytes m, policy_metadata_limit_bytes m]"

definition belady_frame :: "belady_state \<Rightarrow> belady_state \<Rightarrow> bool" where
  "belady_frame b b' \<longleftrightarrow> be_future b' = be_future b \<and> be_ordinal b' = be_ordinal b
     \<and> belady_view (be_metrics b') = belady_view (be_metrics b)"

lemma card_dom_bt_get: "bt_wf m \<Longrightarrow> card (dom (bt_get m)) = length m"
  using distinct_card [OF distinct_bt_keys, of m] by (simp add: set_bt_keys) (simp add: bt_keys_def)

lemma finite_dom_bt_get [simp]: "finite (dom (bt_get m))"
  by (simp add: bt_get_def finite_dom_map_of)

lemma belady_admit_wp:
  assumes "belady_ledger c k b" "length (be_residents b) < k" "p \<notin> belady_pages b"
  shows "wp overflow (belady_admit p c b) (\<lambda>b'. belady_ledger c k b' \<and> belady_frame b b'
     \<and> belady_pages b' = insert p (belady_pages b))"
proof -
  have "c * Suc (length (be_residents b)) \<le> c * k" using assms(2) by (intro mult_le_mono2) simp
  moreover have "length (bt_insert p () (be_residents b)) = Suc (length (be_residents b))"
    using assms by (intro length_bt_insert_new) (auto simp: belady_ledger_def)
  ultimately show ?thesis
    using assms
    by (auto simp: belady_admit_def bs_member_def wp_ok_or belady_ledger_def belady_frame_def belady_view_def views
        bs_insert_def split: option.splits)
qed

lemma farthest_victim_wp:
  assumes "bt_wf (be_residents b)"
  shows "wp overflow (farthest_victim (be_residents b) p f) (\<lambda>v. v \<in> insert p (belady_pages b)
     \<and> (\<forall>x\<in>insert p (belady_pages b). next_use f x \<le> next_use f v))"
proof -
  let ?key = "\<lambda>page. (next_use f page, page = p, page)" and ?xs = "bt_keys (be_residents b) @ [p]"
  obtain v where v: "max_by_key ?key ?xs = Some v" by (cases "max_by_key ?key ?xs") auto
  then have "v \<in> set ?xs \<and> (\<forall>x\<in>set ?xs. next_use f x \<le> next_use f v)"
    using max_by_key_Some [OF v] by (auto simp: less_eq_prod_simp less_imp_le)
  with v show ?thesis by (auto simp: farthest_victim_def set_bt_keys)
qed

lemma belady_frame_trans: "belady_frame b b' \<Longrightarrow> belady_frame b' b'' \<Longrightarrow> belady_frame b b''"
  by (simp add: belady_frame_def)

text \<open>What placing a page after a miss ensures; the decision log plays no part.\<close>

definition placed :: "nat \<Rightarrow> nat \<Rightarrow> page_id \<Rightarrow> page_id list \<Rightarrow> belady_state \<Rightarrow> belady_state \<Rightarrow> bool" where
  "placed c k p rs b b' \<longleftrightarrow> belady_ledger c k b' \<and> belady_frame b b'
     \<and> keeps_soonest k p rs (belady_pages b) (belady_pages b')"

lemma decision_ignored [simp]:
  "belady_ledger c k (update_decision p a w b') = belady_ledger c k b'"
  "belady_frame b (update_decision p a w b') = belady_frame b b'"
  "belady_pages (update_decision p a w b') = belady_pages b'"
  "placed c k p rs b (update_decision p a w b') = placed c k p rs b b'"
  by (simp_all add: update_decision_def belady_ledger_def belady_frame_def placed_def)

lemma belady_replace_wp:
  assumes "belady_ledger c k b" "length (be_residents b) = k" "p \<notin> belady_pages b" "v \<in> belady_pages b"
  shows "wp overflow (belady_replace c p v b)
     (\<lambda>b'. belady_ledger c k b' \<and> belady_frame b b' \<and> belady_pages b' = insert p (belady_pages b) - {v})"
proof -
  have get: "bt_get (be_residents b) v = Some ()" using assms(4) by auto
  have len: "Suc (length (bt_remove v (be_residents b))) = length (be_residents b)"
    using assms(1) get by (intro length_bt_remove) (auto simp: belady_ledger_def)
  then have charge: "be_charge b - c = c * length (bt_remove v (be_residents b))" "c \<le> be_charge b"
    using assms(1) by (auto simp: belady_ledger_def simp flip: len)
  define b1 where "b1 = b\<lparr>be_residents := bt_remove v (be_residents b), be_charge := be_charge b - c,
    be_metrics := (be_metrics b)\<lparr>evictions := evictions (be_metrics b) + 1,
      evicted_charge_bytes := evicted_charge_bytes (be_metrics b) + c\<rparr>\<rparr>"
  have b1: "belady_ledger c k b1" "belady_frame b b1" "length (be_residents b1) < k" "p \<notin> belady_pages b1"
    "belady_pages b1 = belady_pages b - {v}"
    using assms charge len
    by (auto simp: b1_def belady_ledger_def belady_frame_def belady_view_def views)
  have "insert p (belady_pages b - {v}) = insert p (belady_pages b) - {v}" using assms(3,4) by blast
  then have "wp overflow (belady_admit p c b1) (\<lambda>b'. belady_ledger c k b' \<and> belady_frame b b'
      \<and> belady_pages b' = insert p (belady_pages b) - {v})"
    by (intro wp_conseq [OF belady_admit_wp [OF b1(1,3,4)]]) (simp add: b1(5) belady_frame_trans [OF b1(2)])
  then show ?thesis
    using charge(2) get by (simp add: belady_replace_def bs_member_def wp_ok_or checked_sub_def b1_def)
qed

lemma belady_bypass_wp:
  assumes "belady_ledger c k b" "keeps_soonest k p rs (belady_pages b) (belady_pages b)"
  shows "wp overflow (belady_bypass p b) (placed c k p rs b)"
proof -
  have "placed c k p rs b (b\<lparr>be_metrics := (be_metrics b)\<lparr>bypasses := x\<rparr>\<rparr>)" for x
    using assms by (auto simp: placed_def belady_ledger_def belady_frame_def belady_view_def views)
  then show ?thesis by (simp add: belady_bypass_def)
qed

lemma belady_place_wp:
  assumes "belady_ledger c k b" "p \<notin> belady_pages b" "future_ok (be_future b) n rs" "n + length rs \<le> u64_max"
  shows "wp overflow (belady_place k c p b) (placed c k p rs b)"
proof -
  have wf: "bt_wf (be_residents b)" and card: "card (belady_pages b) = length (be_residents b)" and le: "length (be_residents b) \<le> k"
    using assms(1) card_dom_bt_get by (auto simp: belady_ledger_def)
  have zero: "wp overflow (belady_bypass p b) (placed c k p rs b)" if "k = 0"
    using that card le assms(1,2) by (intro belady_bypass_wp) (auto simp: keeps_soonest_def)
  have room: "wp overflow (belady_admit p c b) (placed c k p rs b)" if "length (be_residents b) < k"
    using that assms(2) keeps_soonest_room [of "belady_pages b" p k rs] card
    by (intro wp_conseq [OF belady_admit_wp [OF assms(1)]]) (auto simp: placed_def)
  have full: "wp overflow (if v = p then belady_bypass p b else belady_replace c p v b) (placed c k p rs b)"
    if k: "length (be_residents b) = k" and v: "v \<in> insert p (belady_pages b)
      \<and> (\<forall>x\<in>insert p (belady_pages b). next_use (be_future b) x \<le> next_use (be_future b) v)" for v
  proof -
    have keeps: "keeps_soonest k p rs (belady_pages b) (insert p (belady_pages b) - {v})"
    proof (rule keeps_soonest_farthest)
      show "x \<in> set (take T rs)" if "x \<in> insert p (belady_pages b)" "v \<in> set (take T rs)" for T x
        using next_use_soon [OF assms(3,4) _ that(2)] v that(1) by blast
    qed (use v k card assms(2) in simp_all)
    show ?thesis
    proof (cases "v = p")
      case True
      with keeps assms(1,2) show ?thesis by (simp add: belady_bypass_wp)
    next
      case False
      with v have "v \<in> belady_pages b" by blast
      with False keeps show ?thesis
        using wp_conseq [OF belady_replace_wp [OF assms(1) k assms(2)]] by (simp add: placed_def)
    qed
  qed
  show ?thesis
    unfolding belady_place_def
    using zero room le wp_conseq [OF farthest_victim_wp [OF wf] full] by simp
qed

lemma belady_miss_wp:
  assumes "belady_ledger c k b" "p \<notin> belady_pages b" "future_ok (be_future b) n rs" "n + length rs \<le> u64_max"
  shows "wp overflow (belady_miss k c d p b) (\<lambda>b'. \<exists>m. placed c k p rs (b\<lparr>be_metrics := m\<rparr>) b'
     \<and> m = (be_metrics b)\<lparr>demand_misses := demand_misses (be_metrics b) + 1,
         demand_miss_bytes := demand_miss_bytes (be_metrics b) + pd_logical_bytes d,
         demand_load_bytes := demand_load_bytes (be_metrics b) + pd_logical_bytes d\<rparr>)"
proof -
  define m where "m = (be_metrics b)\<lparr>demand_misses := demand_misses (be_metrics b) + 1,
    demand_miss_bytes := demand_miss_bytes (be_metrics b) + pd_logical_bytes d,
    demand_load_bytes := demand_load_bytes (be_metrics b) + pd_logical_bytes d\<rparr>"
  have "wp overflow (belady_place k c p (b\<lparr>be_metrics := m\<rparr>)) (placed c k p rs (b\<lparr>be_metrics := m\<rparr>))"
    using assms by (intro belady_place_wp) (auto simp: belady_ledger_def m_def)
  then show ?thesis by (simp add: belady_miss_def m_def)
qed

text \<open>The state after the first \<open>n\<close> demands of \<open>ps\<close>.\<close>

definition belady_inv :: "validated_trace \<Rightarrow> nat \<Rightarrow> nat \<Rightarrow> nat \<Rightarrow> nat \<Rightarrow> nat \<Rightarrow> belady_state \<Rightarrow> bool" where
  "belady_inv t cap k c L n b \<longleftrightarrow> belady_ledger c k b \<and> demands_ok (be_metrics b) \<and> offers_ok (be_metrics b)
     \<and> prefetch_useful (be_metrics b) + prefetch_wasted (be_metrics b) = prefetch_admitted (be_metrics b)
     \<and> prefetch_useful_bytes (be_metrics b) + prefetch_wasted_bytes (be_metrics b) = prefetch_load_bytes (be_metrics b)
     \<and> policy_metadata_bytes (be_metrics b) \<le> policy_metadata_limit_bytes (be_metrics b)
     \<and> future_ok (be_future b) n (drop n (demand_pages (vt_events t)))
     \<and> paid_ahead (page_charge t) (page_logical t) cap L (take n (demand_pages (vt_events t)))
         (drop n (demand_pages (vt_events t))) (belady_pages b) (demand_load_bytes (be_metrics b))"

text \<open>Uniform geometry: what the replay relies on.\<close>

definition uniform :: "validated_trace \<Rightarrow> nat \<Rightarrow> nat \<Rightarrow> bool" where
  "uniform t c L \<longleftrightarrow> 0 < c \<and> (\<forall>d\<in>set (vt_pages t). pd_charge_bytes d = c \<and> pd_logical_bytes d = L)"

lemma uniform_slots:
  assumes "uniform t c L" "T \<subseteq> {..<length (vt_pages t)}"
  shows "sum (page_charge t) T \<le> cap \<longleftrightarrow> card T \<le> min (cap div c) (length (vt_pages t))"
proof -
  have "sum (page_charge t) T = sum (\<lambda>_. c) T"
    using assms by (intro sum.cong) (auto simp: page_charge_def uniform_def subset_iff)
  moreover have "card T \<le> length (vt_pages t)" using card_mono [OF _ assms(2)] by simp
  ultimately show ?thesis using assms(1) by (simp add: uniform_def less_eq_div_iff_mult_less_eq mult.commute)
qed

lemma belady_demand_wp:
  assumes t: "wf_trace limits t" "uniform t c L" "length (demand_pages (vt_events t)) \<le> u64_max"
    and k: "k = min (cap div c) (length (vt_pages t))"
    and n: "n < length (demand_pages (vt_events t))" "demand_pages (vt_events t) ! n = p"
    and inv: "belady_inv t cap k c L n b"
  shows "wp overflow (belady_demand t cap k c p b) (belady_inv t cap k c L (Suc n))"
proof -
  let ?ps = "demand_pages (vt_events t)" and ?m = "be_metrics b"
  let ?rs = "drop (Suc n) ?ps"
  have drop: "drop n ?ps = p # ?rs" and take: "take (Suc n) ?ps = take n ?ps @ [p]"
    using n by (auto simp: Cons_nth_drop_Suc take_Suc_conv_app_nth)
  have p: "p < length (vt_pages t)" using demand_pages_ok [OF t(1)] n by auto
  have page: "trace_page t p = Ok (vt_pages t ! p)" using t(1) p by (intro trace_page_ok) (auto simp: wf_trace_def)
  have geo: "pd_logical_bytes (vt_pages t ! p) = L" using t(2) p by (simp add: uniform_def)
  obtain f where f: "pop_current_demand (be_future b) p = Ok f" "future_ok f (Suc n) ?rs"
    using pop_current_demand_ok [of "be_future b" n p ?rs] inv drop by (auto simp: belady_inv_def)
  have slots: "sum (page_charge t) T \<le> cap \<longleftrightarrow> card T \<le> k" if "T \<subseteq> set (take n ?ps @ [p])" for T
    using that demand_pages_ok [OF t(1)] p k by (subst uniform_slots [OF t(2)]) (auto dest!: in_set_takeD subsetD)
  have pa: "paid_ahead (page_charge t) (page_logical t) cap L (take n ?ps) (p # ?rs) (belady_pages b) (demand_load_bytes ?m)"
    using inv drop by (simp add: belady_inv_def)
  have paid: "paid_ahead (page_charge t) (page_logical t) cap L (take (Suc n) ?ps) ?rs B'
      (demand_load_bytes ?m + (if p \<in> belady_pages b then 0 else L))"
    if "keeps_soonest k p ?rs (belady_pages b) B'" for B'
    unfolding take by (rule paid_ahead_step [OF pa that slots]) (simp_all add: geo page_logical_def)
  have fits: "be_charge b' \<le> cap" if "belady_ledger c k b'" for b'
  proof -
    have "be_charge b' \<le> c * (cap div c)" using that k by (auto simp: belady_ledger_def intro: order_trans)
    also have "\<dots> \<le> cap" by simp
    finally show ?thesis .
  qed
  have led: "belady_ledger c k b" using inv by (simp add: belady_inv_def)
  show ?thesis
  proof (cases "p \<in> belady_pages b")
    case True
    then have "keeps_soonest k p ?rs (belady_pages b) (belady_pages b)"
      using led by (intro keeps_soonest_hit) (auto simp: belady_ledger_def card_dom_bt_get)
    from paid [OF this] show ?thesis
      using True f page geo inv fits [OF led]
      by (auto simp: belady_demand_def bs_member_def wp_ok_or belady_inv_def belady_ledger_def demands_ok_def
          offers_ok_def update_decision_def split: option.splits)
  next
    case False
    define m1 where "m1 = ?m\<lparr>demand_accesses := demand_accesses ?m + 1, demand_logical_bytes := demand_logical_bytes ?m + L\<rparr>"
    define m2 where "m2 = m1\<lparr>demand_misses := demand_misses ?m + 1, demand_miss_bytes := demand_miss_bytes ?m + L,
      demand_load_bytes := demand_load_bytes ?m + L\<rparr>"
    have miss: "wp overflow (belady_miss k c (vt_pages t ! p) p (b\<lparr>be_future := f, be_metrics := m1\<rparr>))
        (placed c k p ?rs (b\<lparr>be_future := f, be_metrics := m2\<rparr>))"
      using led False f(2) n t(3)
      by (intro wp_conseq [OF belady_miss_wp]) (auto simp: belady_ledger_def m1_def m2_def geo)
    have post: "belady_inv t cap k c L (Suc n) (b'\<lparr>be_ordinal := x\<rparr>)"
      if b': "placed c k p ?rs (b\<lparr>be_future := f, be_metrics := m2\<rparr>) b'"
        and le: "demand_accesses ?m + 1 \<le> u64_max" "demand_logical_bytes ?m + L \<le> u64_max" for b' x
    proof -
      have view: "belady_view (be_metrics b') = belady_view m2" "be_future b' = f"
        using b' by (simp_all add: placed_def belady_frame_def)
      have "keeps_soonest k p ?rs (belady_pages b) (belady_pages b')" using b' by (simp add: placed_def)
      from paid [OF this] have "paid_ahead (page_charge t) (page_logical t) cap L (take (Suc n) ?ps) ?rs (belady_pages b')
          (demand_load_bytes (be_metrics b'))"
        using False view(1) by (simp add: belady_view_def views m2_def)
      then show ?thesis
        using view b' inv f(2) le
        by (simp add: belady_inv_def placed_def belady_ledger_def demands_ok_def offers_ok_def belady_view_def views m1_def m2_def)
    qed
    have "wp overflow (rbind (belady_miss k c (vt_pages t ! p) p (b\<lparr>be_future := f, be_metrics := m1\<rparr>)) (\<lambda>b.
        rbind (ensure (be_charge b \<le> cap) e) (\<lambda>_.
        rbind (ok_or (checked_add (be_ordinal b) 1) (CounterOverflow s)) (\<lambda>ordinal. Ok (b\<lparr>be_ordinal := ordinal\<rparr>)))))
        (belady_inv t cap k c L (Suc n))"
      if "demand_accesses ?m + 1 \<le> u64_max" "demand_logical_bytes ?m + L \<le> u64_max" for e s
      unfolding wp_simps(3) using fits post that
      by (intro wp_conseq [OF miss]) (simp add: placed_def wp_ok_or split: option.split)
    moreover have "\<not> bs_member (be_residents b) p" using False by (simp add: bs_member_def domIff)
    ultimately show ?thesis
      using page f(1) geo by (simp add: belady_demand_def m1_def)
  qed
qed

lemma belady_replay_wp:
  assumes "wf_trace limits t" "uniform t c L" "length (demand_pages (vt_events t)) \<le> u64_max"
    "k = min (cap div c) (length (vt_pages t))" "belady_inv t cap k c L 0 b"
  shows "wp overflow (rfold (belady_event t cap k c) (vt_events t) b)
     (belady_inv t cap k c L (length (demand_pages (vt_events t))))"
proof (rule wp_rfold [where P = "\<lambda>ys. belady_inv t cap k c L (length (demand_pages ys))"])
  fix ys ev zs b assume ev: "vt_events t = ys @ ev # zs" and b: "belady_inv t cap k c L (length (demand_pages ys)) b"
  show "wp overflow (belady_event t cap k c ev b) (belady_inv t cap k c L (length (demand_pages (ys @ [ev]))))"
  proof (cases ev)
    case (Demand s r st p)
    then show ?thesis
      using belady_demand_wp [OF assms(1-4) _ _ b, of p] ev
      by (simp add: belady_event_def nth_append del: demand_pages_snoc(4)) (simp add: nth_append)
  qed (use b in \<open>simp add: belady_event_def\<close>)
qed (use assms(5) in simp)

text \<open>What a Belady replay may fail with.\<close>

definition not_uniform :: "sim_error failure \<Rightarrow> bool" where
  "not_uniform e \<longleftrightarrow> (\<exists>s. e = Err (UnsupportedOracleGeometry s))"

lemma uniform_geometry_wp:
  "wp not_uniform (uniform_geometry t) (\<lambda>(c, L'). \<exists>L. uniform t c L)"
proof (cases "vt_pages t")
  case (Cons first rest)
  have "wp not_uniform (rfold (uniform_page first) rest ()) (\<lambda>_. \<forall>d\<in>set rest.
      pd_charge_bytes d = pd_charge_bytes first \<and> pd_logical_bytes d = pd_logical_bytes first)"
    by (rule wp_rfold [where P = "\<lambda>ys _. \<forall>d\<in>set ys. pd_charge_bytes d = pd_charge_bytes first
        \<and> pd_logical_bytes d = pd_logical_bytes first"]) (auto simp: uniform_page_def not_uniform_def)
  then show ?thesis
    using Cons by (auto simp: uniform_geometry_def uniform_def not_uniform_def elim!: wp_conseq)
qed (auto simp: uniform_geometry_def uniform_def)

lemma uniform_geometry_complete:
  "uniform t c L \<Longrightarrow> \<exists>c' L'. uniform_geometry t = Ok (c', L') \<and> (vt_pages t \<noteq> [] \<longrightarrow> c' = c)"
proof (cases "vt_pages t")
  case (Cons first rest)
  have "rfold (uniform_page first) ds () = Ok ()"
    if "\<forall>d\<in>set ds. pd_charge_bytes d = pd_charge_bytes first \<and> pd_logical_bytes d = pd_logical_bytes first" for ds
    using that by (induction ds) (auto simp: uniform_page_def)
  with Cons show "uniform t c L \<Longrightarrow> ?thesis" by (auto simp: uniform_geometry_def uniform_def)
qed (auto simp: uniform_geometry_def)

lemma uniform_geometry_exact:
  "wp (\<lambda>e. not_uniform e \<and> (\<nexists>c L. uniform t c L)) (uniform_geometry t) (\<lambda>(c, L'). \<exists>L. uniform t c L)"
proof (cases "\<exists>c L. uniform t c L")
  case True
  then obtain c L where "uniform_geometry t = Ok (c, L)" using uniform_geometry_complete by blast
  then show ?thesis using uniform_geometry_wp [of t] by simp
qed (use uniform_geometry_wp [of t] in simp)

lemma simulate_belady_wp:
  assumes "wf_trace limits t" "length (demand_pages (vt_events t)) \<le> u64_max"
  shows "wp (\<lambda>e. overflow e \<or> not_uniform e \<and> (\<nexists>c L. uniform t c L)) (simulate_belady sha_hex t cap) (\<lambda>r. metrics_sound cap (br_metrics r)
     \<and> optimal_cost (page_charge t) (page_logical t) cap (demand_pages (vt_events t)) (demand_load_bytes (br_metrics r)))"
proof -
  let ?ps = "demand_pages (vt_events t)"
  have loop: "wp overflow (rbind (rfold (belady_event t cap (min (cap div c) (length (vt_pages t))) c) (vt_events t)
        \<lparr>be_future = future_demands t, be_residents = [], be_charge = 0, be_metrics = default_metrics,
         be_decisions = DECISION_SCHEMA, be_ordinal = 0\<rparr>) (\<lambda>b.
      rbind (finish ((be_metrics b)\<lparr>final_resident_charge_bytes := be_charge b\<rparr>)) (\<lambda>metrics.
      Ok \<lparr>br_metrics = metrics, br_decision_sha256 = sha_hex (be_decisions b), br_oracle_optimal = True\<rparr>)))
     (\<lambda>r. metrics_sound cap (br_metrics r)
     \<and> optimal_cost (page_charge t) (page_logical t) cap ?ps (demand_load_bytes (br_metrics r)))"
    if u: "uniform t c L" for c L
  proof -
    let ?k = "min (cap div c) (length (vt_pages t))"
    have init: "belady_inv t cap ?k c L 0 \<lparr>be_future = future_demands t, be_residents = [], be_charge = 0,
        be_metrics = default_metrics, be_decisions = DECISION_SCHEMA, be_ordinal = 0\<rparr>"
      using paid_ahead_init future_demands_ok [OF assms(2)]
      by (simp add: belady_inv_def belady_ledger_def demands_ok_def offers_ok_def default_metrics_def)
    have fin: "wp overflow (finish ((be_metrics b)\<lparr>final_resident_charge_bytes := be_charge b\<rparr>)) (\<lambda>m. metrics_sound cap m
        \<and> optimal_cost (page_charge t) (page_logical t) cap ?ps (demand_load_bytes m))"
      if b: "belady_inv t cap ?k c L (length ?ps) b" for b
    proof (rule wp_conseq [OF finish_wp])
      have "c * ?k \<le> c * (cap div c)" by (intro mult_le_mono2) simp
      also have "\<dots> \<le> cap" by simp
      finally have "c * ?k \<le> cap" .
      moreover have "optimal_cost (page_charge t) (page_logical t) cap ?ps (demand_load_bytes (be_metrics b))"
        using b by (auto simp: belady_inv_def intro: paid_ahead_optimal)
      ultimately show "metrics_sound cap m \<and> optimal_cost (page_charge t) (page_logical t) cap ?ps (demand_load_bytes m)"
        if "m = (be_metrics b)\<lparr>final_resident_charge_bytes := be_charge b\<rparr>\<lparr>total_physical_load_bytes :=
          demand_load_bytes ((be_metrics b)\<lparr>final_resident_charge_bytes := be_charge b\<rparr>)
          + prefetch_load_bytes ((be_metrics b)\<lparr>final_resident_charge_bytes := be_charge b\<rparr>)\<rparr>" for m
        using b that by (simp add: belady_inv_def belady_ledger_def metrics_sound_def demands_ok_def offers_ok_def)
    qed (use b in \<open>auto simp: belady_inv_def demands_ok_def offers_ok_def\<close>)
    show ?thesis
      unfolding wp_simps(3)
      by (rule wp_conseq [OF belady_replay_wp [OF assms(1) u assms(2) refl init]], rule wp_conseq [OF fin]) auto
  qed
  show ?thesis
    unfolding simulate_belady_def wp_simps(3) Let_def
    by (rule wp_mono [OF uniform_geometry_exact]) (auto intro!: wp_mono [OF loop])
qed

end
