(* ===== verification/Sim_Simulate.thy ===== *)
theory Sim_Simulate
  imports Sim_Belady
begin

text \<open>
  The entry point \<^verbatim>\<open>simulate\<close> (\<^verbatim>\<open>engine.rs\<close>), which picks the Belady replay or the online kernel, and the
  bound that ties the two: no online policy, prefetching or not, loads fewer bytes than the offline
  optimum. The witness of the bound is the lazy schedule of a run: the pages resident and already used,
  with a prefetched page counted as loaded when it is first used.
\<close>

section \<open>The entry point\<close>

definition simulate ::
  "(u8 list \<Rightarrow> string) \<Rightarrow> validated_trace \<Rightarrow> simulation_config \<Rightarrow> (sim_error, simulation_result) result" where
  "simulate sha_hex t config =
     (if sc_policy config = Spec_Belady then
        rbind (simulate_belady sha_hex t (sc_capacity_bytes config)) (\<lambda>replay.
        Ok \<lparr>sr_schema = RESULT_SCHEMA, sr_trace_id = th_trace_id (vt_header t), sr_trace_sha256 = vt_sha256 t,
            sr_policy = policy_name (sc_policy config), sr_policy_spec = sc_policy config,
            sr_capacity_bytes = sc_capacity_bytes config, sr_oracle_optimal = br_oracle_optimal replay,
            sr_metrics = br_metrics replay, sr_decision_sha256 = br_decision_sha256 replay\<rparr>)
      else
        rbind (kernel_new t config) (\<lambda>k.
        rbind (run sha_hex k) (\<lambda>(metrics, decision_sha256).
        Ok \<lparr>sr_schema = RESULT_SCHEMA, sr_trace_id = th_trace_id (vt_header t), sr_trace_sha256 = vt_sha256 t,
            sr_policy = policy_name (sc_policy config), sr_policy_spec = sc_policy config,
            sr_capacity_bytes = sc_capacity_bytes config, sr_oracle_optimal = False,
            sr_metrics = metrics, sr_decision_sha256 = decision_sha256\<rparr>)))"

section \<open>The lazy schedule of a run\<close>

text \<open>Partial correctness: whatever the operation returns satisfies the post-condition.\<close>

abbreviation returns :: "('e, 'a) result \<Rightarrow> ('a \<Rightarrow> bool) \<Rightarrow> bool" where
  "returns m Q \<equiv> wp (\<lambda>_. True) m Q"

lemma wp_and_returns: "wp E m P \<Longrightarrow> returns m Q \<Longrightarrow> wp E m (\<lambda>x. P x \<and> Q x)"
  by (auto simp: wp_def split: sum.splits)

definition used :: "residents \<Rightarrow> page_id set" where
  "used R = {i. \<exists>e. bt_get R i = Some e \<and> \<not> re_prefetched_unused e}"

definition served_bytes :: "simulation_metrics \<Rightarrow> nat" where
  "served_bytes m = demand_load_bytes m + prefetch_useful_bytes m"

definition unserved :: "kernel \<Rightarrow> kernel \<Rightarrow> bool" where
  "unserved k k' \<longleftrightarrow> bt_wf (k_residents k') \<and> used (k_residents k') \<subseteq> used (k_residents k)
     \<and> served_bytes (k_metrics k') = served_bytes (k_metrics k)"

lemma returns_kernel_add [simp]:
  "returns (kernel_add field update v n k) Q \<longleftrightarrow>
     (field (k_metrics k) + v \<le> u64_max \<longrightarrow> Q (k\<lparr>k_metrics := update (\<lambda>_. field (k_metrics k) + v) (k_metrics k)\<rparr>))"
  by (auto simp: kernel_add_def metric_add_def wp_ok_or split: option.splits)

lemma returns_next_touch [simp]:
  "returns (next_touch k) Q \<longleftrightarrow>
     (k_touch k + 1 \<le> u64_max \<longrightarrow> Q (k_touch k + 1, k\<lparr>k_touch := k_touch k + 1\<rparr>))"
  by (auto simp: next_touch_def wp_ok_or split: option.splits)

lemma returns_any: "(\<And>x. Q x) \<Longrightarrow> returns m Q"
  by (auto simp: wp_def split: sum.splits)

lemma used_insert: "bt_wf R \<Longrightarrow> used (bt_insert i e R) = (if re_prefetched_unused e then used R - {i} else insert i (used R))"
  by (auto simp: used_def)

lemma used_remove: "used (bt_remove i R) = used R - {i}"
  by (auto simp: used_def)

lemma unserved_trans: "unserved k k' \<Longrightarrow> unserved k' k'' \<Longrightarrow> unserved k k''"
  by (auto simp: unserved_def)

lemma unserved_refl: "bt_wf (k_residents k) \<Longrightarrow> unserved k k"
  by (simp add: unserved_def)

lemma evict_returns: "bt_wf (k_residents k) \<Longrightarrow> returns (evict i k) (unserved k)"
  by (auto simp: evict_def wp_ok_or account_wasted_prefetch_def unserved_def served_bytes_def used_remove split: option.splits)

lemma unserved_loop:
  assumes "\<And>x k. bt_wf (k_residents k) \<Longrightarrow> returns (f x k) (unserved k)" "bt_wf (k_residents k)"
  shows "returns (rfold f xs k) (unserved k)"
  by (rule wp_rfold_inv)
    (auto simp: unserved_refl assms(2) intro!: wp_conseq [OF assms(1)] elim: unserved_trans dest: unserved_def [THEN iffD1])

lemma insert_returns:
  "bt_wf (k_residents k) \<Longrightarrow> returns (kernel_insert page touch unused k) (\<lambda>k'. bt_wf (k_residents k')
     \<and> used (k_residents k') \<subseteq> (if unused then used (k_residents k) else insert (pd_id page) (used (k_residents k)))
     \<and> served_bytes (k_metrics k') = served_bytes (k_metrics k))"
  by (auto simp: kernel_insert_def wp_ok_or served_bytes_def used_insert split: option.splits)

lemma rebalance_returns:
  "bt_wf R \<Longrightarrow> returns (rebalance_protected fuel target touch R) (\<lambda>R'. bt_wf R' \<and> used R' = used R)"
proof (induction fuel arbitrary: R)
  case (Suc fuel)
  have "used (bt_insert i (e\<lparr>re_segment := s, re_last_touch := touch\<rparr>) R) = used R" if "bt_get R i = Some e" for i e s
    using that Suc.prems by (auto simp: used_insert) (auto simp: used_def)
  then have step: "returns (rebalance_protected fuel target touch (bt_insert i (e\<lparr>re_segment := s, re_last_touch := touch\<rparr>) R))
      (\<lambda>R'. bt_wf R' \<and> used R' = used R)" if "bt_get R i = Some e" for i e s
    using that Suc.IH [of "bt_insert i (e\<lparr>re_segment := s, re_last_touch := touch\<rparr>) R"] Suc.prems by simp
  show ?case
    unfolding rebalance_protected.simps wp_simps(3)
    by (rule returns_any) (use step Suc.prems in \<open>simp add: wp_or_panic split: option.split\<close>)
qed simp

lemma on_hit_returns:
  assumes "bt_wf R"
  shows "returns (on_hit p R i touch) (\<lambda>R'. bt_wf R' \<and> used R' = used R)"
proof (cases "bt_get R i")
  case (Some e)
  have same: "used (bt_insert i e' R) = used R" if "re_prefetched_unused e' = re_prefetched_unused e" for e'
    using that assms Some by (auto simp: used_insert) (auto simp: used_def)
  show ?thesis
    using Some assms rebalance_returns [of "bt_insert i (e\<lparr>re_last_touch := touch, re_segment := Seg_Protected\<rparr>) R"] same
    by (auto simp: on_hit_def Let_def simp del: rebalance_protected.simps split: option.split)
qed (use assms in \<open>simp add: on_hit_def\<close>)

text \<open>A demand serves its page: it is loaded now, or it was prefetched and is used for the first time.\<close>

definition serves :: "kernel \<Rightarrow> page_id \<Rightarrow> nat \<Rightarrow> kernel \<Rightarrow> bool" where
  "serves k i L k' \<longleftrightarrow> bt_wf (k_residents k') \<and> used (k_residents k') \<subseteq> insert i (used (k_residents k))
     \<and> served_bytes (k_metrics k') = served_bytes (k_metrics k) + (if i \<in> used (k_residents k) then 0 else L)"

lemma demand_hit_returns:
  assumes "bt_wf (k_residents k)" "bt_get (k_residents k) i = Some e"
  shows "returns (demand_hit sq page i touch e k) (serves k i (pd_logical_bytes page))"
proof -
  have used: "i \<in> used (k_residents k) \<longleftrightarrow> \<not> re_prefetched_unused e" using assms(2) by (simp add: used_def)
  show ?thesis
    using assms used
    by (auto simp: demand_hit_def Let_def hash_event_def serves_def served_bytes_def used_insert
        intro!: wp_conseq [OF on_hit_returns])
qed

lemma demand_miss_returns:
  assumes "bt_wf (k_residents k)" "bt_get (k_residents k) i = None" "pd_id page = i"
  shows "returns (demand_miss sq req step page i touch k) (serves k i (pd_logical_bytes page))"
proof -
  have unused: "i \<notin> used (k_residents k)" using assms(2) by (simp add: used_def)
  define k1 where "k1 = k\<lparr>k_metrics := (k_metrics k)\<lparr>demand_misses := demand_misses (k_metrics k) + 1,
    demand_miss_bytes := demand_miss_bytes (k_metrics k) + pd_logical_bytes page,
    demand_load_bytes := demand_load_bytes (k_metrics k) + pd_logical_bytes page\<rparr>\<rparr>"
  have k1: "bt_wf (k_residents k1)" "used (k_residents k1) = used (k_residents k)"
    "served_bytes (k_metrics k1) = served_bytes (k_metrics k) + pd_logical_bytes page"
    using assms(1) by (simp_all add: k1_def served_bytes_def)
  have admit: "returns (rbind (rfold evict victims k1) (\<lambda>k. rbind (kernel_insert page touch False k) (\<lambda>k.
      Ok (hash_event sq tag (Some i) victims k)))) (serves k i (pd_logical_bytes page))" for victims tag
    unfolding wp_simps using k1 unused assms(3)
    by (intro wp_conseq [OF unserved_loop [OF evict_returns]] wp_conseq [OF insert_returns])
      (auto simp: unserved_def serves_def hash_event_def)
  have bypass: "serves k i (pd_logical_bytes page) (k1\<lparr>k_metrics := (k_metrics k1)\<lparr>bypasses := x\<rparr>, k_decisions := y\<rparr>)" for x y
    using k1 unused by (auto simp: serves_def served_bytes_def)
  have "returns (plan_demand_victims p c R plan) (\<lambda>plan. returns (case plan of
      None \<Rightarrow> rbind (kernel_add bypasses bypasses_update 1 n k1) (\<lambda>k. Ok (hash_event sq tag' (Some i) [] k))
    | Some victims \<Rightarrow> rbind (rfold evict victims k1) (\<lambda>k. rbind (kernel_insert page touch False k) (\<lambda>k.
        Ok (hash_event sq tag (Some i) victims k)))) (serves k i (pd_logical_bytes page)))" for p c R plan n tag tag'
    by (rule returns_any) (use admit bypass in \<open>simp add: hash_event_def split: option.split\<close>)
  then show ?thesis by (simp add: demand_miss_def k1_def cong: option.case_cong)
qed

lemma demand_returns:
  assumes "bt_wf (k_residents k)" "wf_catalog h (catalog (k_trace k))" "i < length (vt_pages (k_trace k))"
  shows "returns (demand sq req step i k) (serves k i (page_logical (k_trace k) i))"
proof -
  have page: "trace_page (k_trace k) i = Ok (vt_pages (k_trace k) ! i)" "pd_id (vt_pages (k_trace k) ! i) = i"
    using trace_page_ok [OF assms(2,3)] wf_catalog_page [OF assms(2,3)] by (auto simp: wf_page_def)
  have step: "returns (case bt_get (k_residents k') i of
      Some entry \<Rightarrow> demand_hit sq (vt_pages (k_trace k) ! i) i touch entry k'
    | None \<Rightarrow> demand_miss sq req step (vt_pages (k_trace k) ! i) i touch k') (serves k i (page_logical (k_trace k) i))"
    if "k_residents k' = k_residents k" "served_bytes (k_metrics k') = served_bytes (k_metrics k)" for k' touch
  proof -
    have "serves k' i L = serves k i L" for L using that by (simp add: serves_def fun_eq_iff)
    then show ?thesis
      using demand_hit_returns [of k' i] demand_miss_returns [of k' i] assms(1) that(1) page(2)
      by (auto simp: page_logical_def split: option.split)
  qed
  show ?thesis
    unfolding demand_def page(1) wp_simps rbind_simps
    by (rule returns_any, rule returns_any) (use step in \<open>simp add: served_bytes_def\<close>)
qed

lemma offer_returns: "bt_wf (k_residents k) \<Longrightarrow> returns (offer_page i k) (unserved k)"
  unfolding offer_page_def wp_simps by (rule returns_any) (simp add: unserved_def served_bytes_def)

lemma classify_returns:
  "bt_wf (k_residents k) \<Longrightarrow> returns (classify_page i (k, a, r)) (\<lambda>(k', _). unserved k k')"
  unfolding classify_page_def wp_simps prod.case by (rule returns_any) (simp add: unserved_def served_bytes_def)

lemma drop_returns: "bt_wf (k_residents k) \<Longrightarrow> returns (drop_prefetch i k) (unserved k)"
  unfolding drop_prefetch_def wp_simps by (rule returns_any) (simp add: unserved_def served_bytes_def)

lemma admit_returns: "bt_wf (k_residents k) \<Longrightarrow> returns (admit_prefetch i k) (unserved k)"
  unfolding admit_prefetch_def wp_simps
  by (rule returns_any) (auto simp: unserved_def served_bytes_def intro!: wp_conseq [OF insert_returns])

lemma place_group_returns:
  assumes "bt_wf (k_residents k)"
  shows "returns (place_group g budget absent redundant k) (\<lambda>(_, k'). unserved k k')"
proof -
  have hash: "unserved k (hash_prefetch_decision a b c d e f k') = unserved k k'" for a b c d e f k'
    by (simp add: hash_prefetch_decision_def unserved_def)
  have drop: "returns (drop_group g budget tag absent redundant k) (\<lambda>(_, k'). unserved k k')" for tag
    unfolding drop_group_def drop_prefetches_def wp_simps prod.case hash by (rule unserved_loop [OF drop_returns assms])
  have admit: "returns (admit_group g budget load absent redundant victims k) (\<lambda>(_, k'). unserved k k')" for load victims
    unfolding admit_group_def wp_simps prod.case hash
    by (intro wp_conseq [OF unserved_loop [OF evict_returns assms]] wp_conseq [OF unserved_loop [OF admit_returns]] returns_any)
      (auto simp: unserved_def)
  have plan: "returns (plan_prefetch_victims p c R x) (\<lambda>plan. returns (case plan of
      None \<Rightarrow> drop_group g budget tag absent redundant k
    | Some victims \<Rightarrow> admit_group g budget load absent redundant victims k) (\<lambda>(_, k'). unserved k k'))" for p c R x tag load
    by (rule returns_any) (use drop admit in \<open>simp split: option.split\<close>)
  have load: "returns (group_load_bytes t absent) (\<lambda>load. returns (if load > pb_remaining_bytes budget
      then drop_group g budget tag absent redundant k else rbind (plan_prefetch_victims p c R x) (\<lambda>plan. case plan of
      None \<Rightarrow> drop_group g budget tag' absent redundant k
    | Some victims \<Rightarrow> admit_group g budget load absent redundant victims k)) (\<lambda>(_, k'). unserved k k'))" for t p c R x tag tag'
    by (rule returns_any) (use drop plan in simp)
  show ?thesis
    unfolding place_group_def
    using drop load by (simp add: hash unserved_refl [OF assms])
qed

lemma prefetch_group_returns:
  assumes "bt_wf (k_residents k)"
  shows "returns (prefetch_group g budget k) (\<lambda>(_, k'). unserved k k')"
proof -
  have classify: "returns (rfold classify_page ps (k1, [], [])) (\<lambda>(k', _). unserved k k')" if "unserved k k1" for ps k1
  proof (rule wp_rfold_inv)
    fix i and st :: "kernel \<times> page_id list \<times> page_id list" assume "case st of (k', _) \<Rightarrow> unserved k k'"
    then obtain k1 a r where st: "st = (k1, a, r)" "unserved k k1" by (cases st) auto
    then have "returns (classify_page i (k1, a, r)) (\<lambda>(k', _). unserved k1 k')"
      by (intro classify_returns) (simp add: unserved_def)
    then show "returns (classify_page i st) (\<lambda>(k', _). unserved k k')"
      unfolding st(1) by (rule wp_conseq) (use st(2) unserved_trans in blast)
  qed (use that in simp)
  have place: "returns (place_group g budget absent redundant k2) (\<lambda>(_, k'). unserved k k')" if "unserved k k2" for k2 absent redundant
    using that by (intro wp_conseq [OF place_group_returns]) (auto simp: unserved_def)
  show ?thesis
    unfolding prefetch_group_def wp_simps
    by (rule wp_conseq [OF unserved_loop [OF offer_returns assms]], assumption, rule wp_conseq [OF classify])
      (auto intro: place)
qed

lemma prefetch_selected_returns:
  "bt_wf (k_residents k) \<Longrightarrow> returns (prefetch_selected sq req step layer ps budget k) (unserved k)"
proof (induction ps arbitrary: budget k)
  case (Cons p ps)
  have "returns (prefetch_selected sq req step layer ps b k1) (unserved k)" if "unserved k k1" for b k1
    using that by (intro wp_conseq [OF Cons.IH]) (auto simp: unserved_def)
  then show ?case
    using Cons.prems by (auto simp: unserved_refl intro!: wp_conseq [OF prefetch_group_returns])
qed (simp add: unserved_refl)

lemma signal_returns:
  assumes "bt_wf (k_residents k)"
  shows "returns (signal sq req step layer ps k) (unserved k)"
proof -
  have hash: "unserved k (hash_event a b c d k') = unserved k k'" for a b c d k'
    by (simp add: hash_event_def unserved_def)
  have policy: "unserved (k\<lparr>k_policy := p\<rparr>) = unserved k" "unserved k (k\<lparr>k_policy := p\<rparr>)" for p
    using assms by (auto simp: unserved_def fun_eq_iff)
  have "returns (record_signal p req step layer sel) (\<lambda>policy. returns (
      let k = k\<lparr>k_policy := policy\<rparr> in
        if \<not> prefetch_enabled policy then Ok (hash_event sq tag None [] k)
        else prefetch_selected sq req step layer sel b k) (unserved k))" for p sel tag b
    by (rule returns_any)
      (use prefetch_selected_returns [of "k\<lparr>k_policy := _\<rparr>"] assms in \<open>auto simp: Let_def hash policy\<close>)
  then show ?thesis
    by (auto simp: signal_def Let_def hash unserved_refl [OF assms] split: option.split)
qed

section \<open>No policy beats the optimum\<close>

lemma used_charge:
  assumes "residents_ok (catalog t) R"
  shows "sum (page_charge t) (used R) \<le> charge_total R"
proof -
  have wf: "bt_wf R" using assms by (simp add: residents_ok_def)
  have eq: "page_charge t i = re_charge_bytes e" if "bt_get R i = Some e" for i e
    using residents_okD(2) [OF assms that] by (simp add: entry_ok_def page_charge_def)
  have "sum (page_charge t) (used R) = (\<Sum>i\<in>used R. re_charge_bytes (the (bt_get R i)))"
    by (intro sum.cong) (auto simp: used_def eq)
  also have "\<dots> \<le> (\<Sum>i\<in>dom (bt_get R). re_charge_bytes (the (bt_get R i)))"
    by (intro sum_mono2) (auto simp: used_def)
  also have "\<dots> = charge_total R"
    using bt.total_eq_sum [OF wf, of "\<lambda>_ e. re_charge_bytes e"] by (simp add: charge_total_def)
  finally show ?thesis .
qed

definition lazy_schedule :: "trace_event list \<Rightarrow> kernel \<Rightarrow> bool" where
  "lazy_schedule events k \<longleftrightarrow> (\<exists>Ts. feasible (page_charge (k_trace k)) (k_capacity_bytes k) {} (demand_pages events) Ts
     \<and> used (k_residents k) \<subseteq> final_set {} Ts
     \<and> load_cost (page_logical (k_trace k)) {} (demand_pages events) Ts \<le> served_bytes (k_metrics k))"

lemma replay_event_lazy:
  assumes "run_inv h limits (ev # rest) k" "lazy_schedule events k"
  shows "wp overflow (replay_event ev k) (\<lambda>k'. (run_inv h limits rest k' \<and> same_run k k') \<and> lazy_schedule (events @ [ev]) k')"
proof -
  have D: "bt_wf (k_residents k)" "wf_catalog h (catalog (k_trace k))"
    using assms(1) kernel_okD by (auto simp: run_inv_def replay_ok_def)
  obtain Ts where Ts: "feasible (page_charge (k_trace k)) (k_capacity_bytes k) {} (demand_pages events) Ts"
    "used (k_residents k) \<subseteq> final_set {} Ts"
    "load_cost (page_logical (k_trace k)) {} (demand_pages events) Ts \<le> served_bytes (k_metrics k)"
    using assms(2) by (auto simp: lazy_schedule_def)
  show ?thesis
  proof (cases ev)
    case (Demand sq req step i)
    have i: "i < length (vt_pages (k_trace k))" using assms(1) Demand by (auto simp: run_inv_def signal_wf_def)
    have "lazy_schedule (events @ [ev]) k'"
      if k': "run_inv h limits rest k'" "same_run k k'" "serves k i (page_logical (k_trace k) i) k'" for k'
    proof -
      let ?T = "used (k_residents k')"
      have "residents_ok (catalog (k_trace k')) (k_residents k')" "charge_total (k_residents k') \<le> k_capacity_bytes k'"
        using k'(1) kernel_okD by (auto simp: run_inv_def replay_ok_def)
      then have "sum (page_charge (k_trace k)) ?T \<le> k_capacity_bytes k"
        using used_charge [of "k_trace k'" "k_residents k'"] k'(2) by (simp add: same_run_def)
      then have "feasible (page_charge (k_trace k)) (k_capacity_bytes k) {} (demand_pages events @ [i]) (Ts @ [?T])"
        "load_cost (page_logical (k_trace k)) {} (demand_pages events @ [i]) (Ts @ [?T]) \<le> served_bytes (k_metrics k')"
        using Ts k'(3) feasible_length [OF Ts(1)] by (auto simp: feasible_snoc load_cost_snoc serves_def)
      then show ?thesis
        using Demand k'(2) unfolding lazy_schedule_def same_run_def by (intro exI [of _ "Ts @ [?T]"]) simp
    qed
    with Demand show ?thesis
      using wp_and_returns [OF replay_event_wp [OF assms(1)], of "serves k i (page_logical (k_trace k) i)"]
        demand_returns [OF D i, of sq req step]
      by (auto elim!: wp_conseq)
  next
    case (RouterSignal sq req step layer ps)
    have "lazy_schedule (events @ [ev]) k'" if "same_run k k'" "unserved k k'" for k'
      using Ts that RouterSignal unfolding lazy_schedule_def same_run_def unserved_def by (intro exI [of _ Ts]) auto
    with RouterSignal show ?thesis
      using wp_and_returns [OF replay_event_wp [OF assms(1)], of "unserved k"] signal_returns [OF D(1), of sq req step layer ps]
      by (auto elim!: wp_conseq)
  qed
qed

lemma replay_lazy:
  assumes "run_inv h limits rest k" "lazy_schedule events k"
  shows "wp overflow (rfold replay_event rest k) (\<lambda>k'. run_inv h limits [] k' \<and> same_run k k' \<and> lazy_schedule (events @ rest) k')"
  using assms
proof (induction rest arbitrary: events k)
  case Nil
  then show ?case by (simp add: same_run_def)
next
  case (Cons ev rest)
  have "wp overflow (rfold replay_event rest k1) (\<lambda>k'. run_inv h limits [] k' \<and> same_run k k' \<and> lazy_schedule (events @ ev # rest) k')"
    if "(run_inv h limits rest k1 \<and> same_run k k1) \<and> lazy_schedule (events @ [ev]) k1" for k1
    using that by (intro wp_conseq [OF Cons.IH [of k1 "events @ [ev]"]]) (auto simp: same_run_def)
  then show ?case
    by (simp add: wp_conseq [OF replay_event_lazy [OF Cons.prems]])
qed

lemma finished_served:
  assumes "run_inv h limits [] k"
  shows "served_bytes (k_metrics k) \<le> total_physical_load_bytes (finished_metrics k)"
  using assms
  by (simp add: run_inv_def replay_ok_def kernel_ok_def ledger_ok_def served_bytes_def finished_metrics_def
      wasted_metrics_def Let_def)

lemma run_lazy:
  assumes "run_inv h limits (vt_events (k_trace k)) k" "k_metrics k = default_metrics" "k_residents k = []"
  shows "wp overflow (run sha_hex k) (\<lambda>(m, digest). metrics_sound (k_capacity_bytes k) m
     \<and> (\<exists>Ts. feasible (page_charge (k_trace k)) (k_capacity_bytes k) {} (demand_pages (vt_events (k_trace k))) Ts
         \<and> load_cost (page_logical (k_trace k)) {} (demand_pages (vt_events (k_trace k))) Ts \<le> total_physical_load_bytes m))"
proof -
  have "lazy_schedule [] k"
    using assms(2,3) by (auto simp: lazy_schedule_def used_def intro: exI [of _ "[]"])
  from replay_lazy [OF assms(1) this]
  have replay: "wp overflow (rfold replay_event (vt_events (k_trace k)) k) (\<lambda>k'. run_inv h limits [] k' \<and> same_run k k'
      \<and> lazy_schedule (vt_events (k_trace k)) k')" by simp
  show ?thesis
    unfolding run_def wp_simps(3)
  proof (rule wp_conseq [OF replay], elim conjE, rule wp_conseq [OF run_finish_wp], assumption)
    fix k' x assume k': "run_inv h limits [] k'" "same_run k k'" "lazy_schedule (vt_events (k_trace k)) k'"
      and x: "case x of (m, digest) \<Rightarrow> m = finished_metrics k' \<and> digest = sha_hex (k_decisions k')"
    then show "case x of (m, digest) \<Rightarrow> metrics_sound (k_capacity_bytes k) m
     \<and> (\<exists>Ts. feasible (page_charge (k_trace k)) (k_capacity_bytes k) {} (demand_pages (vt_events (k_trace k))) Ts
         \<and> load_cost (page_logical (k_trace k)) {} (demand_pages (vt_events (k_trace k))) Ts \<le> total_physical_load_bytes m)"
      using finished_metrics_sound [OF k'(1)] finished_served [OF k'(1)]
      by (auto simp: lazy_schedule_def same_run_def intro: order_trans)
  qed
qed

section \<open>What a simulation may fail with\<close>

text \<open>The settings the policies accept.\<close>

definition router_config_valid :: "router_policy_config \<Rightarrow> bool" where
  "router_config_valid config \<longleftrightarrow> rc_minimum_score_ppm config \<le> 1000000 \<and> 0 < rc_max_experts_per_signal config
     \<and> 0 < rc_max_pages_per_signal config \<and> rc_protected_fraction_ppm config \<le> 1000000"

fun spec_valid :: "policy_spec \<Rightarrow> bool" where
  "spec_valid (Spec_Slru fraction) \<longleftrightarrow> fraction \<le> 1000000"
| "spec_valid (Spec_TinyLfu config) \<longleftrightarrow> tc_sketch_depth config \<in> {1..8} \<and> tc_sketch_width config \<in> {64..65536}
     \<and> 0 < tc_sample_accesses config"
| "spec_valid (Spec_RouterAdmit config) \<longleftrightarrow> router_config_valid config"
| "spec_valid (Spec_RouterPrefetch config) \<longleftrightarrow> router_config_valid config"
| "spec_valid _ \<longleftrightarrow> True"

lemma fraction_target_valid:
  "fraction \<le> 1000000 \<Longrightarrow> capacity \<le> u64_max \<Longrightarrow> \<exists>target. fraction_target capacity fraction = Ok target"
proof -
  assume f: "fraction \<le> 1000000" and c: "capacity \<le> u64_max"
  have "capacity * fraction \<le> u64_max * 1000000" using f c by (intro mult_le_mono) simp_all
  also have "\<dots> \<le> u128_max" by (simp add: u64_max_def u128_max_def)
  finally show ?thesis using f by (simp add: fraction_target_def mul_u128_def checked_mul_u128_def)
qed

lemma tiny_new_valid:
  assumes "tc_sketch_depth config \<in> {1..8}" "tc_sketch_width config \<in> {64..65536}" "0 < tc_sample_accesses config"
  shows "\<exists>t. tiny_new config = Ok t"
proof -
  have "tc_sketch_depth config * tc_sketch_width config \<le> 8 * 65536" using assms by (intro mult_le_mono) simp_all
  also have "\<dots> \<le> u64_max" by (simp add: u64_max_def)
  finally show ?thesis
    using assms by (simp add: tiny_new_def checked_mul_def checked_add_def HASH_SEEDS_def u64_max_def)
qed

lemma policy_new_valid:
  assumes "spec_valid spec" "capacity \<le> u64_max" "spec \<noteq> Spec_Belady"
  shows "\<exists>p. policy_new spec capacity limit = Ok p"
proof (cases spec)
  case (Spec_Slru f)
  with assms fraction_target_valid [of f capacity] show ?thesis by auto
next
  case (Spec_TinyLfu config)
  with assms tiny_new_valid [of config] show ?thesis by auto
next
  case (Spec_RouterAdmit config)
  with assms fraction_target_valid [of "rc_protected_fraction_ppm config" capacity] show ?thesis
    by (auto simp: router_new_def router_config_valid_def)
next
  case (Spec_RouterPrefetch config)
  with assms fraction_target_valid [of "rc_protected_fraction_ppm config" capacity] show ?thesis
    by (auto simp: router_new_def router_config_valid_def)
qed (use assms in auto)

text \<open>An online run fails by overflow, or because its settings are not valid.\<close>

definition misconfigured :: "policy_spec \<Rightarrow> sim_error failure \<Rightarrow> bool" where
  "misconfigured spec e \<longleftrightarrow> overflow e \<or> (\<exists>s. e = Err (InvalidConfig s)) \<and> \<not> spec_valid spec"

lemma kernel_new_errors:
  assumes "wf_trace limits t" "config_in_range config" "sc_policy config \<noteq> Spec_Belady"
  shows "wp (misconfigured (sc_policy config)) (kernel_new t config)
     (\<lambda>k. run_inv (vt_header t) limits (vt_events t) k \<and> k_trace k = t
     \<and> k_capacity_bytes k = sc_capacity_bytes config \<and> k_metrics k = default_metrics \<and> k_residents k = [])"
proof (rule wpI)
  show "run_inv (vt_header t) limits (vt_events t) k \<and> k_trace k = t
     \<and> k_capacity_bytes k = sc_capacity_bytes config \<and> k_metrics k = default_metrics \<and> k_residents k = []"
    if "kernel_new t config = Ok k" for k
    using wp_Inr [OF kernel_new_wp [OF assms(1,2)] that] by blast
  show "misconfigured (sc_policy config) e" if e: "kernel_new t config = Inl e" for e
  proof (cases "spec_valid (sc_policy config)")
    case True
    then obtain p where "\<And>limit. \<exists>p. policy_new (sc_policy config) (sc_capacity_bytes config) limit = Ok p"
      using policy_new_valid [OF True _ assms(3)] assms(2) by (auto simp: config_in_range_def)
    then have "router_metadata_limit t (sc_policy config) = Inl e"
      using e by (auto simp: kernel_new_def rbind_Inl_iff) (metis Inl_Inr_False)
    then show ?thesis
      using wp_Inl [OF router_metadata_limit_wp] by (auto simp: misconfigured_def)
  next
    case False
    then show ?thesis
      using wp_Inl [OF kernel_new_wp [OF assms(1,2)] e] by (auto simp: misconfigured_def rejected_def)
  qed
qed

lemma simulate_online_wp:
  assumes "wf_trace limits t" "config_in_range config" "sc_policy config \<noteq> Spec_Belady"
  shows "wp (misconfigured (sc_policy config)) (simulate sha_hex t config) (\<lambda>r.
       metrics_sound (sc_capacity_bytes config) (sr_metrics r)
     \<and> (\<exists>Ts. feasible (page_charge t) (sc_capacity_bytes config) {} (demand_pages (vt_events t)) Ts
         \<and> load_cost (page_logical t) {} (demand_pages (vt_events t)) Ts \<le> total_physical_load_bytes (sr_metrics r)))"
proof -
  have "wp (misconfigured (sc_policy config)) (run sha_hex k) (\<lambda>(m, digest). metrics_sound (sc_capacity_bytes config) m
     \<and> (\<exists>Ts. feasible (page_charge t) (sc_capacity_bytes config) {} (demand_pages (vt_events t)) Ts
         \<and> load_cost (page_logical t) {} (demand_pages (vt_events t)) Ts \<le> total_physical_load_bytes m))"
    if "run_inv (vt_header t) limits (vt_events t) k \<and> k_trace k = t \<and> k_capacity_bytes k = sc_capacity_bytes config
      \<and> k_metrics k = default_metrics \<and> k_residents k = []" for k
    using that by (intro wp_mono [OF run_lazy [of "vt_header t" limits k sha_hex]]) (auto simp: misconfigured_def)
  then have "wp (misconfigured (sc_policy config)) (kernel_new t config) (\<lambda>k. wp (misconfigured (sc_policy config)) (run sha_hex k)
     (\<lambda>(m, digest). metrics_sound (sc_capacity_bytes config) m
     \<and> (\<exists>Ts. feasible (page_charge t) (sc_capacity_bytes config) {} (demand_pages (vt_events t)) Ts
         \<and> load_cost (page_logical t) {} (demand_pages (vt_events t)) Ts \<le> total_physical_load_bytes m)))"
    by (intro wp_conseq [OF kernel_new_errors [OF assms]])
  then show ?thesis
    using assms(3) unfolding simulate_def by (auto elim!: wp_conseq)
qed

end
