(* ===== verification/Sim_Sample.thy ===== *)
theory Sim_Sample
  imports Sim_Simulate
begin

text \<open>
  A small concrete trace: three pages of one size, a router signal and four demands, with the codec that
  maps each of its records to a one-byte line. It is where the properties of the simulator are evaluated.
\<close>

definition sample_header :: trace_header where
  "sample_header = \<lparr>th_kind = HEADER_KIND, th_schema = TRACE_SCHEMA, th_trace_id = ''s1'', th_page_count = 3,
     th_event_count = 5, th_charge_quantum = 4, th_prefetch_model = PREFETCH_MODEL\<rparr>"

definition sample_page :: "page_id \<Rightarrow> page_descriptor" where
  "sample_page i = \<lparr>pd_id = i, pd_logical_bytes = 3, pd_charge_bytes = 4, pd_class = Expert 0 i 0\<rparr>"

definition sample_pages :: "page_descriptor list" where
  "sample_pages = [sample_page 0, sample_page 1, sample_page 2]"

definition sample_events :: "trace_event list" where
  "sample_events =
     [RouterSignal 0 7 0 0 [\<lparr>ep_expert = 1, ep_score_ppm = 600000\<rparr>],
      Demand 1 7 0 1, Demand 2 7 1 0, Demand 3 7 2 1, Demand 4 7 3 2]"

definition sample_trace :: "(u8 list \<Rightarrow> string) \<Rightarrow> u8 list \<Rightarrow> validated_trace" where
  "sample_trace sha_hex bytes = \<lparr>vt_header = sample_header, vt_pages = sample_pages,
     vt_page_index = [(0, 0), (1, 1), (2, 2)], vt_expert_pages = [((0, 0), [0]), ((0, 1), [1]), ((0, 2), [2])],
     vt_events = sample_events, vt_sha256 = sha_hex bytes\<rparr>"

text \<open>A codec given by the table of the values and the lines it knows.\<close>

definition table_serde :: "('a \<times> u8 list) list \<Rightarrow> 'a serde" where
  "table_serde table = \<lparr>
     sd_from_slice = (\<lambda>line. case map_of (map (\<lambda>(v, l). (l, v)) table) line of
        None \<Rightarrow> Inl ''syntax error'' | Some v \<Rightarrow> Inr v),
     sd_to_vec = (\<lambda>v. case map_of table v of None \<Rightarrow> Inl ''not encodable'' | Some line \<Rightarrow> Inr line)\<rparr>"

definition sample_serde :: trace_serde where
  "sample_serde = \<lparr>ts_header = table_serde [(sample_header, [65])],
     ts_page = table_serde (zip sample_pages [[97], [98], [99]]),
     ts_event = table_serde (zip sample_events [[48], [49], [50], [51], [52]])\<rparr>"

definition sample_bytes :: "u8 list" where
  "sample_bytes = [65, 10, 97, 10, 98, 10, 99, 10, 48, 10, 49, 10, 50, 10, 51, 10, 52, 10]"

definition sample_config :: "u64 \<Rightarrow> policy_spec \<Rightarrow> simulation_config" where
  "sample_config capacity spec = \<lparr>sc_capacity_bytes = capacity, sc_policy = spec\<rparr>"

lemmas sample_defs = sample_header_def sample_page_def sample_pages_def sample_events_def sample_config_def

lemma sample_framing: "validate_framing sample_bytes default_limits = Ok ()"
  by (simp add: validate_framing_def sample_bytes_def default_limits_def ends_with_lf_def LF_def CR_def)

lemma sample_split: "split_lf (take (length sample_bytes - 1) sample_bytes)
    = [[65], [97], [98], [99], [48], [49], [50], [51], [52]]"
  by (simp add: sample_bytes_def LF_def)

lemma table_record:
  assumes "map_of (map (\<lambda>(v, l). (l, v)) table) line = Some v" "map_of table v = Some line" "length line = 1"
  shows "parse_canonical_record (table_serde table) line n default_limits = Ok v"
  using assms
  by (auto simp: parse_canonical_record_def table_serde_def from_slice_def to_vec_def default_limits_def)

lemma sample_header_parses: "parse_canonical_record (ts_header sample_serde) [65] 1 default_limits = Ok sample_header"
  by (simp add: sample_serde_def table_record)

lemma sample_header_valid: "validate_header sample_header default_limits = Ok ()"
  by (simp add: validate_header_def sample_header_def default_limits_def validate_trace_id_def MAX_TRACE_ID_BYTES_def
      is_ascii_lowercase_def is_ascii_digit_def)

lemma table_records_length:
  assumes "list_all2 (\<lambda>v l. \<forall>n. parse_canonical_record sd l n limits = Ok v) vs ls" "ln + length vs \<le> u64_max"
  shows "parse_records sd missing limits (length vs) i ln (ls @ rest) = Ok (vs, ln + length vs, rest)"
  using assms
proof (induction vs ls arbitrary: i ln rule: list_all2_induct)
  case (Cons v vs l ls)
  then show ?case by (simp add: checked_add_def)
qed simp

lemma table_records:
  assumes "list_all2 (\<lambda>v l. \<forall>n. parse_canonical_record sd l n limits = Ok v) vs ls"
    "n = length vs" "ln' = ln + n" "ln' \<le> u64_max" "lines = ls @ rest"
  shows "parse_records sd missing limits n i ln lines = Ok (vs, ln', rest)"
  using table_records_length [OF assms(1), of ln missing i rest] assms(2-5) by blast

lemma sample_pages_parse: "parse_records (ts_page sample_serde) missing default_limits 3 0 1
    ([97] # [98] # [99] # rest) = Ok (sample_pages, 4, rest)"
  by (rule table_records [where ls = "[[97], [98], [99]]"])
    (simp_all add: sample_serde_def table_record sample_pages_def sample_page_def u64_max_def)

lemma sample_events_parse: "parse_records (ts_event sample_serde) missing default_limits 5 0 4
    [[48], [49], [50], [51], [52]] = Ok (sample_events, 9, [])"
  by (rule table_records [where ls = "[[48], [49], [50], [51], [52]]"])
    (simp_all add: sample_serde_def table_record sample_events_def u64_max_def)

lemma sample_pages_valid: "validate_pages sample_header sample_pages
    = Ok ([(0, 0), (1, 1), (2, 2)], [((0, 0), [0]), ((0, 1), [1]), ((0, 2), [2])])"
  by (simp add: validate_pages_def sample_pages_def sample_page_def validate_page_def sample_header_def u32_max_def
      bs_member_def bs_insert_def bt_get_def)

lemma sample_events_valid: "validate_events sample_events [(0, 0), (1, 1), (2, 2)]
    [((0, 0), [0]), ((0, 1), [1]), ((0, 2), [2])] default_limits = Ok ()"
  by (simp add: validate_events_def sample_events_def validate_event_def validate_predictions_def validate_prediction_def
      validate_target_def SCORE_SCALE_PPM_def default_limits_def u64_max_def checked_add_def bs_member_def bs_insert_def
      bt_get_def bt_keys_def)

lemma sample_parses: "parse_trace sample_serde sha_hex sample_bytes default_limits = Ok (sample_trace sha_hex sample_bytes)"
proof -
  have counts: "th_page_count sample_header = 3" "th_event_count sample_header = 5" by (simp_all add: sample_header_def)
  show ?thesis
    by (simp add: parse_trace_def sample_framing sample_split sample_header_parses sample_header_valid counts
        sample_pages_parse sample_events_parse sample_pages_valid sample_events_valid sample_trace_def del: One_nat_def)
qed

lemma sample_wf: "wf_trace default_limits (sample_trace sha_hex sample_bytes)"
  using parse_trace_ok(1) [OF sample_parses] .

section \<open>Runs on the sample\<close>

text \<open>One slot, four demands: the best schedule keeps the page demanded twice and loads nine bytes.\<close>

lemma sample_exact: "exact_variable_byte_cost (sample_trace sha_hex sample_bytes) 4 default_limits = Ok 9"
  by (simp add: exact_variable_byte_cost_def sample_trace_def sample_events_def demand_pages_def map_filter_def
      bs_insert_def bt_keys_def MAX_EXACT_DEMANDS_def MAX_EXACT_PAGES_def default_limits_def trace_page_def
      catalog_page_def catalog_def sample_pages_def sample_page_def bt_get_def exact_demand_def expand_state_def
      consume_state_budget_def checked_add_def u64_max_def insert_minimum_def admit_subsets.simps subset_charge_def
      subset_charge_loop.simps trailing_zeros.simps bt_values_def at_index_def)

lemmas sample_run_defs = uniform_geometry_def uniform_page_def sample_trace_def sample_pages_def sample_page_def
  sample_events_def belady_event_def belady_demand_def pop_current_demand_def future_demands_def note_demand_def
  saturating_add_def bt_get_def u64_max_def belady_add_def metric_add_def checked_add_def checked_sub_def
  default_metrics_def trace_page_def catalog_page_def catalog_def bs_member_def bs_insert_def belady_miss_def
  belady_place_def belady_admit_def update_decision_def farthest_victim_def bt_keys_def next_use_def
  belady_replace_def belady_bypass_def bt_remove_def finish_def

lemma sample_belady:
  "\<exists>r. simulate_belady sha_hex (sample_trace sha_hex sample_bytes) 4 = Ok r \<and> demand_load_bytes (br_metrics r) = 9"
  by (simp add: simulate_belady_def sample_run_defs)

lemma sample_lru: "\<exists>r. simulate sha_hex (sample_trace sha_hex sample_bytes) (sample_config 4 Spec_Lru) = Ok r
    \<and> total_physical_load_bytes (sr_metrics r) = 12"
  by (simp add: simulate_def sample_config_def kernel_new_def router_metadata_limit_def run_def sample_run_defs
      signal_def hash_event_def demand_def enter_demand_step_def demand_miss_def demand_hit_def kernel_add_def
      next_touch_def plan_demand_victims_def sort_by_key_def bt_values_def demand_sort_key_def segment_rank_def
      active_score_def admit_demand_def evict_def account_wasted_prefetch_def kernel_insert_def run_finish_def
      finish_metadata_def sub_u64_def)

end
