(* ===== verification/Sim_Properties.thy ===== *)
theory Sim_Properties
  imports Sim_Sample
begin

text \<open>
  The properties of \<^verbatim>\<open>crates/runnel-sim\<close>: the offline oracles, the online simulation and how they relate, and the
  trace format.
\<close>

section \<open>The offline oracles\<close>

text \<open>
  C2: The exact dynamic program \<^verbatim>\<open>exact_variable_byte_cost\<close>, on a validated trace, returns the least
  number of demand-loaded bytes of any schedule of cache contents that fits the capacity and loads a page
  only when it is demanded; otherwise it reports one of its documented bounds or a counter overflow, and
  it never panics.
\<close>

theorem exact_oracle_optimal:
  assumes "wf_trace limits t" "capacity \<le> u64_max"
  shows "wp limited (exact_variable_byte_cost t capacity exact_limits)
     (optimal_cost (page_charge t) (page_logical t) capacity (demand_pages (vt_events t)))"
  using assms by (rule exact_cost_wp)

theorem exact_oracle_optimal_witness:
  "wp limited (exact_variable_byte_cost (sample_trace (\<lambda>_. ''00'') sample_bytes) 4 default_limits)
     (optimal_cost (page_charge (sample_trace (\<lambda>_. ''00'') sample_bytes)) (page_logical (sample_trace (\<lambda>_. ''00'') sample_bytes))
        4 [1, 0, 1, 2])"
  using exact_oracle_optimal [OF sample_wf [of "\<lambda>_. ''00''"], of 4 default_limits]
  by (simp add: u64_max_def sample_trace_def sample_events_def)

lemma belady_uniform:
  assumes "wf_trace limits t" "length (demand_pages (vt_events t)) \<le> u64_max" "\<exists>c L. uniform t c L"
  shows "wp overflow (simulate_belady sha_hex t capacity) (\<lambda>r. metrics_sound capacity (br_metrics r)
     \<and> optimal_cost (page_charge t) (page_logical t) capacity (demand_pages (vt_events t)) (demand_load_bytes (br_metrics r)))"
  by (rule wp_mono [OF simulate_belady_wp [OF assms(1,2)]]) (use assms(3) in auto)

lemma belady_not_uniform:
  assumes "\<nexists>c L. uniform t c L" shows "\<exists>e. simulate_belady sha_hex t capacity = Inl e \<and> not_uniform e"
proof (cases "uniform_geometry t")
  case (Inl e)
  then show ?thesis using uniform_geometry_wp [of t] by (simp add: simulate_belady_def)
next
  case (Inr g)
  then show ?thesis using uniform_geometry_wp [of t] assms by (auto split: prod.splits)
qed

text \<open>
  C6: The Belady replay is optimal on a validated trace whose pages all have one charge and one cost: its demand-loaded
  bytes are the least any schedule reaches, with sound counters, and it fails only by counter overflow. On any other
  validated trace it fails with the geometry error, whatever the capacity is.
\<close>

theorem belady_optimal:
  assumes "wf_trace limits t" "length (demand_pages (vt_events t)) \<le> u64_max"
  shows "if \<exists>c L. uniform t c L
    then wp overflow (simulate_belady sha_hex t capacity) (\<lambda>r. metrics_sound capacity (br_metrics r)
      \<and> optimal_cost (page_charge t) (page_logical t) capacity (demand_pages (vt_events t))
          (demand_load_bytes (br_metrics r)))
    else \<exists>e. simulate_belady sha_hex t capacity = Inl e \<and> not_uniform e"
  using belady_uniform [OF assms] belady_not_uniform by simp

text \<open>The sample trace, and one of its pages made larger.\<close>

definition uneven_pages :: "page_descriptor list" where
  "uneven_pages = [sample_page 0, sample_page 1, (sample_page 2)\<lparr>pd_charge_bytes := 8\<rparr>]"

definition uneven_trace :: validated_trace where
  "uneven_trace = (sample_trace (\<lambda>_. ''00'') sample_bytes)\<lparr>vt_pages := uneven_pages\<rparr>"

definition uneven_serde :: trace_serde where
  "uneven_serde = sample_serde\<lparr>ts_page := table_serde (zip uneven_pages [[97], [98], [99]])\<rparr>"

lemma uneven_parses: "parse_trace uneven_serde (\<lambda>_. ''00'') sample_bytes default_limits = Ok uneven_trace"
proof -
  have counts: "th_page_count sample_header = 3" "th_event_count sample_header = 5" by (simp_all add: sample_header_def)
  have same: "ts_header uneven_serde = ts_header sample_serde" "ts_event uneven_serde = ts_event sample_serde"
    by (simp_all add: uneven_serde_def)
  have pages: "parse_records (ts_page uneven_serde) missing default_limits 3 0 1 ([97] # [98] # [99] # rest) = Ok (uneven_pages, 4, rest)"
    for missing rest
    by (rule table_records [where ls = "[[97], [98], [99]]"])
      (simp_all add: uneven_serde_def table_record uneven_pages_def sample_page_def u64_max_def)
  have "validate_pages sample_header uneven_pages = Ok ([(0, 0), (1, 1), (2, 2)], [((0, 0), [0]), ((0, 1), [1]), ((0, 2), [2])])"
    by (simp add: validate_pages_def uneven_pages_def sample_page_def validate_page_def sample_header_def u32_max_def
        bs_member_def bs_insert_def bt_get_def)
  then show ?thesis
    by (simp add: parse_trace_def sample_framing sample_split sample_header_parses sample_header_valid counts same pages
        sample_events_parse sample_events_valid uneven_trace_def sample_trace_def del: One_nat_def)
qed

theorem belady_optimal_witness:
  "wp overflow (simulate_belady (\<lambda>_. ''00'') (sample_trace (\<lambda>_. ''00'') sample_bytes) 8)
     (\<lambda>r. metrics_sound 8 (br_metrics r)
        \<and> optimal_cost (page_charge (sample_trace (\<lambda>_. ''00'') sample_bytes)) (page_logical (sample_trace (\<lambda>_. ''00'') sample_bytes))
            8 [1, 0, 1, 2] (demand_load_bytes (br_metrics r))) \<and>
   (\<exists>e. simulate_belady (\<lambda>_. ''00'') uneven_trace 0 = Inl e \<and> not_uniform e)"
proof -
  have "uniform (sample_trace (\<lambda>_. ''00'') sample_bytes) 4 3"
    by (simp add: uniform_def sample_trace_def sample_pages_def sample_page_def)
  then have even: "\<exists>c L. uniform (sample_trace (\<lambda>_. ''00'') sample_bytes) c L" by blast
  have uneven: "\<nexists>c L. uniform uneven_trace c L"
    by (auto simp: uniform_def uneven_trace_def uneven_pages_def sample_page_def)
  have demands: "length (demand_pages (vt_events uneven_trace)) \<le> u64_max"
    by (simp add: u64_max_def uneven_trace_def sample_trace_def sample_events_def)
  show ?thesis
    using belady_optimal [OF sample_wf [of "\<lambda>_. ''00''"], of "\<lambda>_. ''00''" 8] even
      belady_optimal [OF parse_trace_ok(1) [OF uneven_parses] demands, of "\<lambda>_. ''00''" 0] uneven
    by (simp add: u64_max_def sample_trace_def sample_events_def)
qed

section \<open>Simulation\<close>

text \<open>
  C7: An online simulation of a validated trace never panics, under any policy: it fails only by counter
  overflow or because the policy settings are out of their documented bounds, and the counters it returns
  satisfy every accounting identity, with the peak of the resident bytes within the capacity.
\<close>

theorem simulate_sound:
  assumes "wf_trace limits t" "config_in_range config" "sc_policy config \<noteq> Spec_Belady"
  shows "wp (misconfigured (sc_policy config)) (simulate sha_hex t config)
     (\<lambda>r. metrics_sound (sc_capacity_bytes config) (sr_metrics r))"
  by (rule wp_conseq [OF simulate_online_wp [OF assms]]) simp

theorem simulate_sound_witness:
  "wp (misconfigured Spec_Lru) (simulate (\<lambda>_. ''00'') (sample_trace (\<lambda>_. ''00'') sample_bytes) (sample_config 8 Spec_Lru))
     (\<lambda>r. metrics_sound 8 (sr_metrics r))"
  using simulate_sound [OF sample_wf [of "\<lambda>_. ''00''"], of "sample_config 8 Spec_Lru" "\<lambda>_. ''00''"]
  by (simp add: config_in_range_def sample_config_def u64_max_def)

text \<open>
  C17: No online policy beats the exact oracle: whenever a simulation and the exact dynamic program both
  return on a validated trace with the same capacity, the bytes the simulation loaded, prefetches included,
  are at least the optimum.
\<close>

theorem online_at_least_optimum:
  assumes "wf_trace limits t" "config_in_range config" "sc_policy config \<noteq> Spec_Belady"
  shows "wp (misconfigured (sc_policy config)) (simulate sha_hex t config) (\<lambda>r.
     wp limited (exact_variable_byte_cost t (sc_capacity_bytes config) exact_limits)
       (\<lambda>optimum. optimum \<le> total_physical_load_bytes (sr_metrics r)))"
proof -
  have "wp limited (exact_variable_byte_cost t (sc_capacity_bytes config) exact_limits)
      (optimal_cost (page_charge t) (page_logical t) (sc_capacity_bytes config) (demand_pages (vt_events t)))"
    using assms(1,2) by (intro exact_cost_wp) (auto simp: config_in_range_def)
  then show ?thesis
    by (intro wp_conseq [OF simulate_online_wp [OF assms]])
      (auto elim!: wp_conseq intro: optimal_cost_le)
qed

theorem online_at_least_optimum_witness:
  "wp (misconfigured (Spec_Slru 500000)) (simulate (\<lambda>_. ''00'') (sample_trace (\<lambda>_. ''00'') sample_bytes) (sample_config 8 (Spec_Slru 500000)))
     (\<lambda>r. wp limited (exact_variable_byte_cost (sample_trace (\<lambda>_. ''00'') sample_bytes) 8 default_limits)
       (\<lambda>optimum. optimum \<le> total_physical_load_bytes (sr_metrics r)))"
  using online_at_least_optimum [OF sample_wf [of "\<lambda>_. ''00''"], of "sample_config 8 (Spec_Slru 500000)" "\<lambda>_. ''00''" default_limits]
  by (simp add: config_in_range_def sample_config_def u64_max_def)

text \<open>
  C29: On a validated trace of uniform geometry the two offline algorithms agree: whenever both return, the
  demand-loaded bytes of the Belady replay are the cost of the exact dynamic program.
\<close>

theorem belady_agrees_with_exact:
  assumes "wf_trace limits t" "capacity \<le> u64_max" "length (demand_pages (vt_events t)) \<le> u64_max"
    "simulate_belady sha_hex t capacity = Ok replay" "exact_variable_byte_cost t capacity exact_limits = Ok optimum"
  shows "demand_load_bytes (br_metrics replay) = optimum"
  using wp_Inr [OF simulate_belady_wp [OF assms(1,3)] assms(4)] wp_Inr [OF exact_cost_wp [OF assms(1,2)] assms(5)]
  by (auto intro: optimal_cost_unique)

theorem belady_agrees_with_exact_witness:
  "\<exists>replay. simulate_belady (\<lambda>_. ''00'') (sample_trace (\<lambda>_. ''00'') sample_bytes) 4 = Ok replay
     \<and> demand_load_bytes (br_metrics replay) = 9"
proof -
  obtain replay where "simulate_belady (\<lambda>_. ''00'') (sample_trace (\<lambda>_. ''00'') sample_bytes) 4 = Ok replay"
    using sample_belady by blast
  with belady_agrees_with_exact [OF sample_wf _ _ this sample_exact] show ?thesis
    by (simp add: u64_max_def sample_trace_def sample_events_def)
qed

section \<open>Traces\<close>

text \<open>
  C21: A trace that \<^verbatim>\<open>parse_trace\<close> accepts is well formed (page identifiers dense, sizes positive and on
  the charge quantum, expert pages indexed, demand steps of a request in order, router signals for later
  realized steps with distinct experts and scores within one million), and serializing its records gives
  back the very bytes that were parsed.
\<close>

theorem parse_then_serialize:
  assumes "parse_trace ts sha_hex bytes limits = Ok t" "max_trace_bytes limits \<le> u64_max"
  shows "wf_trace limits t \<and> vt_sha256 t = sha_hex bytes
     \<and> serialize_trace ts sha_hex (vt_header t) (vt_pages t) (vt_events t) limits = Ok bytes"
  using parse_trace_ok(1,2) [OF assms(1)] serialize_parsed [OF assms] by simp

theorem parse_then_serialize_witness:
  "serialize_trace sample_serde (\<lambda>_. ''00'') sample_header sample_pages sample_events default_limits = Ok sample_bytes"
  using parse_then_serialize [OF sample_parses [of "\<lambda>_. ''00''"]]
  by (simp add: default_limits_def u64_max_def sample_trace_def)

end
