(* ===== verification/Format_Json.thy ===== *)
theory Format_Json
  imports Ordered_Map
begin

text \<open>
  \<^verbatim>\<open>crates/runnel-format/src/json.rs\<close> and the errors of \<^verbatim>\<open>error.rs\<close>: the policy visitor that
  turns what \<^verbatim>\<open>serde_json\<close> reads into a \<open>json_value\<close>, and the canonical serialisation of such a value.

  \<^verbatim>\<open>serde_json\<close> is a third-party package. What it hands to the visitor is a \<open>serde_value\<close>: one
  constructor per \<^verbatim>\<open>visit_*\<close> call it can make, with a syntax error possible at every point where it
  reads on. Reading bytes is a \<open>json_reader\<close>: the value it drives the visitor with, and the result of
  \<^verbatim>\<open>Deserializer::end\<close> after it. A Rust \<^verbatim>\<open>String\<close> is the list of its UTF-8 bytes.
\<close>

unbundle bit_operations_syntax

named_theorems format_defs

type_synonym digest = "u8 list"

section \<open>Errors\<close>

datatype format_error =
    LimitExceedsFormat string u64 u64
  | ManifestTooLarge usize usize
  | MemoryBudgetExceeded u64 u64
  | JsonSyntax usize usize string
  | DuplicateKey string
  | NestingTooDeep usize
  | NullNotAllowed
  | FloatingPointNotAllowed
  | IntegerOutOfRange u64
  | StringTooLong usize usize
  | NonAsciiString
  | Schema string string
  | CountLimit string usize usize
  | ArithmeticOverflow string
  | NonCanonicalManifest
  | ArtifactIdMismatch digest digest
  | FormatIo string string
  | NotRegularFile string
  | MissingBlob string digest
  | BlobLengthMismatch string digest u64 u64
  | BlobDigestMismatch string digest digest
  | BadPageTable digest string
  | PageHashMismatch digest u64
  | UnknownTensorRole string
  | TensorGap digest u64 u64
  | TensorOverlap digest u64 u64
  | TensorCoverage digest u64 u64

section \<open>Values\<close>

datatype json_value =
    JBool bool
  | JInteger u64
  | JString string
  | JArray "json_value list"
  | JObject "(string \<times> json_value) list"

datatype json_issue =
    IssueDuplicateKey string
  | IssueNestingTooDeep
  | IssueNull
  | IssueFloatingPoint
  | IssueIntegerOutOfRange
  | IssueStringTooLong usize
  | IssueNonAsciiString
  | IssueCollectionTooLarge

text \<open>The position and message of a \<^verbatim>\<open>serde_json::Error\<close>.\<close>

datatype serde_error = SerdeError usize usize string

datatype serde_value =
    SBool bool
  | SU64 u64
  | SI64 int
  | SU128 nat
  | SI128 int
  | SF64
  | SNone
  | SUnit
  | SStr string
  | SSeq "serde_value list"
  | SMap "((serde_error + string) \<times> serde_value) list"
  | SSyntax serde_error

text \<open>
  A visit fails with a policy issue, which the parse state remembers, or with an error of the reader.
\<close>

datatype json_failure = Policy json_issue | Syntax serde_error

type_synonym json_reader = "u8 list \<Rightarrow> serde_value \<times> serde_error option"

section \<open>The visitor\<close>

definition MAX_SAFE_INTEGER :: u64 where "MAX_SAFE_INTEGER = 9007199254740991"
definition MAX_NESTING_DEPTH :: usize where "MAX_NESTING_DEPTH = 12"
definition MAX_SCHEMA_STRING_BYTES :: usize where "MAX_SCHEMA_STRING_BYTES = 256"
definition MAX_JSON_COLLECTION_ENTRIES :: usize where "MAX_JSON_COLLECTION_ENTRIES = 65536"

definition is_ascii :: "string \<Rightarrow> bool" where
  "is_ascii s \<longleftrightarrow> list_all (\<lambda>c. (of_char c :: nat) < 128) s"

definition validate_string :: "string \<Rightarrow> (json_failure, unit) result" where
  "validate_string value =
     (if MAX_SCHEMA_STRING_BYTES < length value then fail (Policy (IssueStringTooLong (length value)))
      else if \<not> is_ascii value then fail (Policy IssueNonAsciiString)
      else Ok ())"

definition visit_u64 :: "u64 \<Rightarrow> (json_failure, json_value) result" where
  "visit_u64 value =
     (if MAX_SAFE_INTEGER < value then fail (Policy IssueIntegerOutOfRange) else Ok (JInteger value))"

definition visit_i64 :: "int \<Rightarrow> (json_failure, json_value) result" where
  "visit_i64 value =
     (if 0 \<le> value \<and> nat value \<le> u64_max then visit_u64 (nat value)
      else fail (Policy IssueIntegerOutOfRange))"

definition visit_u128 :: "nat \<Rightarrow> (json_failure, json_value) result" where
  "visit_u128 value =
     (if value \<le> u64_max then visit_u64 value else fail (Policy IssueIntegerOutOfRange))"

definition visit_str :: "string \<Rightarrow> (json_failure, json_value) result" where
  "visit_str value = rbind (validate_string value) (\<lambda>_. Ok (JString value))"

text \<open>
  \<open>deserialize_any depth v\<close> is \<^verbatim>\<open>ValueSeed { depth }.deserialize\<close> when the reader holds \<open>v\<close>;
  \<open>visit_seq\<close> and \<open>visit_map\<close> are the loops, with the values collected so far as their accumulator.
\<close>

fun deserialize_any :: "usize \<Rightarrow> serde_value \<Rightarrow> (json_failure, json_value) result"
  and visit_seq :: "usize \<Rightarrow> json_value list \<Rightarrow> serde_value list \<Rightarrow> (json_failure, json_value) result"
  and visit_map ::
    "usize \<Rightarrow> (string, json_value) btree_map \<Rightarrow> ((serde_error + string) \<times> serde_value) list
     \<Rightarrow> (json_failure, json_value) result"
where
  "deserialize_any depth (SBool value) = Ok (JBool value)"
| "deserialize_any depth (SU64 value) = visit_u64 value"
| "deserialize_any depth (SI64 value) = visit_i64 value"
| "deserialize_any depth (SU128 value) = visit_u128 value"
| "deserialize_any depth (SI128 value) = visit_i64 value"
| "deserialize_any depth SF64 = fail (Policy IssueFloatingPoint)"
| "deserialize_any depth SNone = fail (Policy IssueNull)"
| "deserialize_any depth SUnit = fail (Policy IssueNull)"
| "deserialize_any depth (SStr value) = visit_str value"
| "deserialize_any depth (SSeq values) =
     (if MAX_NESTING_DEPTH < depth then fail (Policy IssueNestingTooDeep) else visit_seq depth [] values)"
| "deserialize_any depth (SMap values) =
     (if MAX_NESTING_DEPTH < depth then fail (Policy IssueNestingTooDeep) else visit_map depth [] values)"
| "deserialize_any depth (SSyntax error) = fail (Syntax error)"
| "visit_seq depth result [] = Ok (JArray result)"
| "visit_seq depth result (v # values) =
     rbind (deserialize_any (depth + 1) v) (\<lambda>value.
     if length result = MAX_JSON_COLLECTION_ENTRIES then fail (Policy IssueCollectionTooLarge)
     else visit_seq depth (result @ [value]) values)"
| "visit_map depth result [] = Ok (JObject result)"
| "visit_map depth result ((Inl error, v) # values) = fail (Syntax error)"
| "visit_map depth result ((Inr key, v) # values) =
     rbind (validate_string key) (\<lambda>_.
     if bt_get result key \<noteq> None then fail (Policy (IssueDuplicateKey key))
     else if length result = MAX_JSON_COLLECTION_ENTRIES then fail (Policy IssueCollectionTooLarge)
     else rbind (deserialize_any (depth + 1) v) (\<lambda>value.
     visit_map depth (bt_insert key value result) values))"

fun issue_error :: "json_issue \<Rightarrow> format_error" where
  "issue_error (IssueDuplicateKey key) = DuplicateKey key"
| "issue_error IssueNestingTooDeep = NestingTooDeep MAX_NESTING_DEPTH"
| "issue_error IssueNull = NullNotAllowed"
| "issue_error IssueFloatingPoint = FloatingPointNotAllowed"
| "issue_error IssueIntegerOutOfRange = IntegerOutOfRange MAX_SAFE_INTEGER"
| "issue_error (IssueStringTooLong actual) = StringTooLong actual MAX_SCHEMA_STRING_BYTES"
| "issue_error IssueNonAsciiString = NonAsciiString"
| "issue_error IssueCollectionTooLarge =
     CountLimit ''JSON collection'' (MAX_JSON_COLLECTION_ENTRIES + 1) MAX_JSON_COLLECTION_ENTRIES"

fun syntax_error :: "serde_error \<Rightarrow> format_error" where
  "syntax_error (SerdeError line column message) = JsonSyntax line column message"

definition json_parse :: "json_reader \<Rightarrow> u8 list \<Rightarrow> (format_error, json_value) result" where
  "json_parse reader bytes = (case reader bytes of (parsed, trailing) \<Rightarrow>
     (case deserialize_any 1 parsed of
        Inl (Err (Policy issue)) \<Rightarrow> fail (issue_error issue)
      | Inl (Err (Syntax error)) \<Rightarrow> fail (syntax_error error)
      | Inl (Panic message) \<Rightarrow> panic message
      | Inr value \<Rightarrow> (case trailing of Some error \<Rightarrow> fail (syntax_error error) | None \<Rightarrow> Ok value)))"

section \<open>The canonical form\<close>

definition hex_byte :: "u8 \<Rightarrow> u8" where
  "hex_byte d = of_char (hex_char (unat d))"

definition write_byte :: "u8 \<Rightarrow> u8 list \<Rightarrow> u8 list" where
  "write_byte byte output =
     (if byte = 0x22 then output @ [0x5c, 0x22]
      else if byte = 0x5c then output @ [0x5c, 0x5c]
      else if byte = 0x08 then output @ [0x5c, 0x62]
      else if byte = 0x09 then output @ [0x5c, 0x74]
      else if byte = 0x0a then output @ [0x5c, 0x6e]
      else if byte = 0x0c then output @ [0x5c, 0x66]
      else if byte = 0x0d then output @ [0x5c, 0x72]
      else if byte \<le> 0x1f then
        output @ [0x5c, 0x75, 0x30, 0x30] @ [hex_byte (drop_bit 4 byte)] @ [hex_byte (byte AND 0x0f)]
      else output @ [byte])"

definition write_string :: "string \<Rightarrow> u8 list \<Rightarrow> u8 list" where
  "write_string value output = fold write_byte (as_bytes value) (output @ [0x22]) @ [0x22]"

fun write_value :: "json_value \<Rightarrow> u8 list \<Rightarrow> u8 list"
  and write_elements :: "usize \<Rightarrow> json_value list \<Rightarrow> u8 list \<Rightarrow> u8 list"
  and write_members :: "usize \<Rightarrow> (string \<times> json_value) list \<Rightarrow> u8 list \<Rightarrow> u8 list"
where
  "write_value (JBool value) output = output @ as_bytes (if value then ''true'' else ''false'')"
| "write_value (JInteger value) output = output @ as_bytes (show_nat value)"
| "write_value (JString value) output = write_string value output"
| "write_value (JArray values) output = write_elements 0 values (output @ [0x5b]) @ [0x5d]"
| "write_value (JObject values) output = write_members 0 values (output @ [0x7b]) @ [0x7d]"
| "write_elements index [] output = output"
| "write_elements index (value # values) output =
     write_elements (index + 1) values (write_value value (if index \<noteq> 0 then output @ [0x2c] else output))"
| "write_members index [] output = output"
| "write_members index ((key, value) # values) output =
     write_members (index + 1) values
       (write_value value (write_string key (if index \<noteq> 0 then output @ [0x2c] else output) @ [0x3a]))"

definition canonical_bytes :: "json_value \<Rightarrow> u8 list" where
  "canonical_bytes value = write_value value [] @ [0x0a]"

section \<open>Writing appends\<close>

text \<open>What \<open>write_value\<close> appends to its output, as a function of the value alone.\<close>

definition byte_text :: "u8 \<Rightarrow> u8 list" where
  "byte_text byte = write_byte byte []"

definition string_text :: "string \<Rightarrow> u8 list" where
  "string_text value = 0x22 # concat (map byte_text (as_bytes value)) @ [0x22]"

fun json_text :: "json_value \<Rightarrow> u8 list"
  and elements_text :: "bool \<Rightarrow> json_value list \<Rightarrow> u8 list"
  and members_text :: "bool \<Rightarrow> (string \<times> json_value) list \<Rightarrow> u8 list"
where
  "json_text (JBool value) = as_bytes (if value then ''true'' else ''false'')"
| "json_text (JInteger value) = as_bytes (show_nat value)"
| "json_text (JString value) = string_text value"
| "json_text (JArray values) = 0x5b # elements_text False values"
| "json_text (JObject values) = 0x7b # members_text False values"
| "elements_text comma [] = [0x5d]"
| "elements_text comma (value # values) = (if comma then [0x2c] else []) @ json_text value @ elements_text True values"
| "members_text comma [] = [0x7d]"
| "members_text comma ((key, value) # values) =
     (if comma then [0x2c] else []) @ string_text key @ 0x3a # json_text value @ members_text True values"

lemma write_byte_append: "write_byte byte out = out @ byte_text byte"
  by (simp add: write_byte_def byte_text_def)

lemma fold_write_byte: "fold write_byte bytes out = out @ concat (map byte_text bytes)"
  by (induction bytes arbitrary: out) (simp_all add: write_byte_append)

lemma write_string_append [simp]: "write_string value out = out @ string_text value"
  by (simp add: write_string_def string_text_def fold_write_byte)

lemma write_append:
  "write_value v out = out @ json_text v"
  "write_elements i vs out @ [0x5d] = out @ elements_text (i \<noteq> 0) vs"
  "write_members i ms out @ [0x7d] = out @ members_text (i \<noteq> 0) ms"
  by (induction v out and i vs out and i ms out rule: write_value_write_elements_write_members.induct) auto

lemma canonical_bytes_text: "canonical_bytes v = json_text v @ [0x0a]"
  by (simp add: canonical_bytes_def write_append)

section \<open>The canonical form determines the value\<close>

text \<open>Each piece of text is read back from the front of any continuation.\<close>

definition unescape :: "u8 list \<Rightarrow> (u8 \<times> u8 list) option" where
  "unescape text = (case text of
     [] \<Rightarrow> None
   | b # rest \<Rightarrow>
       if b = 0x22 then None
       else if b \<noteq> 0x5c then Some (b, rest)
       else (case rest of
           [] \<Rightarrow> None
         | c # rest \<Rightarrow>
             if c = 0x22 then Some (0x22, rest) else if c = 0x5c then Some (0x5c, rest)
             else if c = 0x62 then Some (0x08, rest) else if c = 0x74 then Some (0x09, rest)
             else if c = 0x6e then Some (0x0a, rest) else if c = 0x66 then Some (0x0c, rest)
             else if c = 0x72 then Some (0x0d, rest)
             else (case rest of
                 _ # _ # h # l # rest \<Rightarrow>
                   Some (push_bit 4 (h - 0x30) OR (if l < 0x3a then l - 0x30 else l - 0x57), rest)
               | _ \<Rightarrow> None)))"

lemma control_byte:
  assumes "(b :: u8) \<le> 0x1f"
  shows "b \<in> word_of_nat ` set [0..<32]"
proof -
  have "unat b < 32" using assms by (simp add: word_le_nat_alt)
  moreover have "b = word_of_nat (unat b)" by simp
  ultimately show ?thesis by (metis atLeastLessThan_iff imageI le0 set_upt)
qed

lemma unescape_append: "unescape text = Some (b, rest) \<Longrightarrow> unescape (text @ more) = Some (b, rest @ more)"
  by (auto simp: unescape_def split: list.splits if_splits)

lemma unescape_control: "list_all (\<lambda>n. unescape (byte_text (word_of_nat n)) = Some (word_of_nat n, [])) [0..<32]"
  by code_simp

lemma unescape_byte_text: "unescape (byte_text b @ rest) = Some (b, rest)"
proof (cases "b \<le> 0x1f")
  case True
  then have "b \<in> word_of_nat ` set [0..<32]" by (rule control_byte)
  then have "unescape (byte_text b) = Some (b, [])"
    using unescape_control unfolding list_all_iff by blast
  then show ?thesis using unescape_append [of "byte_text b" b "[]" rest] by simp
next
  case False
  then show ?thesis by (auto simp: byte_text_def write_byte_def unescape_def)
qed

lemma string_body_inj:
  assumes "concat (map byte_text bs) @ 0x22 # r = concat (map byte_text cs) @ 0x22 # s"
  shows "bs = cs \<and> r = s"
  using assms
proof (induction bs arbitrary: cs)
  case Nil
  show ?case
  proof (cases cs)
    case (Cons c cs')
    have "unescape (0x22 # r) = Some (c, concat (map byte_text cs') @ 0x22 # s)"
      using Nil Cons unescape_byte_text [of c] by simp
    then show ?thesis by (simp add: unescape_def)
  qed (use Nil in simp)
next
  case (Cons b bs)
  have b: "unescape (concat (map byte_text cs) @ 0x22 # s) = Some (b, concat (map byte_text bs) @ 0x22 # r)"
    using Cons.prems unescape_byte_text [of b] by (metis append_assoc concat.simps(2) list.simps(9))
  show ?case
  proof (cases cs)
    case Nil
    with b show ?thesis by (simp add: unescape_def)
  next
    case (Cons c cs')
    with b unescape_byte_text [of c] Cons.IH [of cs'] show ?thesis by simp
  qed
qed

lemma unat_of_char [simp]: "unat (of_char c :: u8) = of_char c"
proof -
  have "(of_char c :: u8) = of_nat (of_char c)" by (simp add: of_nat_of_char)
  then show ?thesis by (simp add: unat_of_nat del: of_nat_of_char)
qed

lemma of_char_u8_eq_iff [simp]: "(of_char c :: u8) = of_char d \<longleftrightarrow> c = d"
  by (metis of_char_eq_iff unat_of_char)

lemma as_bytes_inj [simp]: "as_bytes s = as_bytes t \<longleftrightarrow> s = t"
  unfolding as_bytes_def by (rule inj_map_eq_map) (simp add: inj_def)

lemma string_text_inj: "string_text s @ q = string_text t @ r \<Longrightarrow> s = t \<and> q = r"
  using string_body_inj [of "as_bytes s" q "as_bytes t" r] by (auto simp: string_text_def)

definition digit_byte :: "u8 \<Rightarrow> bool" where
  "digit_byte b \<longleftrightarrow> 0x30 \<le> b \<and> b \<le> 0x39"

lemma digit_byte_char: "d < 10 \<Longrightarrow> digit_byte (of_char (digit_char d))"
  by (simp add: digit_byte_def word_le_nat_alt digit_char_def)

lemma show_nat_digits: "list_all digit_byte (as_bytes (show_nat n))"
proof (induction n rule: show_nat.induct)
  case (1 n)
  then show ?case
    by (subst show_nat.simps) (auto simp: as_bytes_def digit_byte_char)
qed

lemma show_nat_nonempty [simp]: "show_nat n \<noteq> []"
  by (subst show_nat.simps) simp

definition digits_value :: "string \<Rightarrow> nat" where
  "digits_value s = foldl (\<lambda>v c. 10 * v + (of_char c - 48)) 0 s"

lemma digits_value_show_nat: "digits_value (show_nat n) = n"
proof (induction n rule: show_nat.induct)
  case (1 n)
  then show ?case
    by (subst show_nat.simps) (auto simp: digits_value_def digit_char_def)
qed

lemma show_nat_inj [simp]: "show_nat m = show_nat n \<longleftrightarrow> m = n"
  by (metis digits_value_show_nat)

definition delimited :: "u8 list \<Rightarrow> bool" where
  "delimited r \<longleftrightarrow> r = [] \<or> \<not> digit_byte (hd r)"

lemma number_text_inj:
  assumes eq: "as_bytes (show_nat m) @ q = as_bytes (show_nat n) @ r" and "delimited q" "delimited r"
  shows "m = n \<and> q = r"
proof -
  have *: "takeWhile digit_byte (as_bytes (show_nat k) @ t) = as_bytes (show_nat k)" if "delimited t" for k t
    using show_nat_digits [of k] that
    by (cases t) (auto simp: delimited_def list_all_iff takeWhile_append)
  have "as_bytes (show_nat m) = as_bytes (show_nat n)"
    using * [OF assms(2)] * [OF assms(3)] eq by metis
  then show ?thesis using eq by auto
qed

text \<open>The first byte tells the kind of a value.\<close>

definition kind_of_byte :: "u8 \<Rightarrow> nat" where
  "kind_of_byte b = (if b = 0x74 then 1 else if b = 0x66 then 2 else if digit_byte b then 3
     else if b = 0x22 then 4 else if b = 0x5b then 5 else if b = 0x7b then 6 else 0)"

fun kind_of_value :: "json_value \<Rightarrow> nat" where
  "kind_of_value (JBool b) = (if b then 1 else 2)"
| "kind_of_value (JInteger n) = 3"
| "kind_of_value (JString s) = 4"
| "kind_of_value (JArray vs) = 5"
| "kind_of_value (JObject ms) = 6"

lemma json_text_kind: "\<exists>b rest. json_text v = b # rest \<and> kind_of_byte b = kind_of_value v"
proof (cases v)
  case (JInteger n)
  obtain b rest where *: "as_bytes (show_nat n) = b # rest"
    by (cases "as_bytes (show_nat n)") (auto simp: as_bytes_def)
  then have "digit_byte b" using show_nat_digits [of n] by simp
  then show ?thesis using JInteger * by (auto simp: kind_of_byte_def digit_byte_def)
qed (auto simp: kind_of_byte_def digit_byte_def string_text_def as_bytes_def)

lemma json_text_same_kind:
  assumes "json_text v @ q = json_text w @ r"
  shows "kind_of_value v = kind_of_value w"
  using assms json_text_kind [of v] json_text_kind [of w] by auto

lemma json_text_head:
  assumes "json_text v @ q = b # r" shows "kind_of_byte b \<noteq> 0"
proof -
  from json_text_kind [of v] assms have "kind_of_byte b = kind_of_value v" by auto
  then show ?thesis by (cases v) auto
qed

lemma delimited_simps [simp]:
  "delimited (0x2c # r)" "delimited (0x5d # r)" "delimited (0x7d # r)" "delimited [0x0a]"
  by (simp_all add: delimited_def digit_byte_def)

lemma delimited_elements [simp]: "delimited (elements_text True vs @ q)" "delimited (members_text True ms @ q)"
  by (cases vs; simp; fail) (cases ms; force)

lemma elements_text_end: "elements_text c vs @ q = 0x5d # r \<Longrightarrow> vs = [] \<and> q = r"
  by (cases vs; cases c) (auto dest: json_text_head simp: kind_of_byte_def digit_byte_def)

lemma members_text_end: "members_text c ms @ q = 0x7d # r \<Longrightarrow> ms = [] \<and> q = r"
  by (cases ms; cases c) (auto simp: string_text_def)

lemma json_text_inj:
  "json_text v @ q = json_text w @ r \<Longrightarrow> delimited q \<Longrightarrow> delimited r \<Longrightarrow> v = w \<and> q = r"
  "elements_text c vs @ q = elements_text c ws @ r \<Longrightarrow> vs = ws \<and> q = r"
  "members_text c ms @ q = members_text c ns @ r \<Longrightarrow> ms = ns \<and> q = r"
proof (induction v and c vs and c ms arbitrary: w q r and ws q r and ns q r
    rule: json_text_elements_text_members_text.induct)
  case (1 b)
  then show ?case using json_text_same_kind [OF 1(1)] by (cases w) (auto split: if_splits)
next
  case (2 n)
  from json_text_same_kind [OF 2(1)] obtain m where w: "w = JInteger m"
    by (cases w) (simp_all split: if_splits)
  then show ?case using 2 number_text_inj [of n q m r] by simp
next
  case (3 s)
  from json_text_same_kind [OF 3(1)] obtain t where w: "w = JString t"
    by (cases w) (simp_all split: if_splits)
  then show ?case using 3 string_text_inj [of s q t r] by simp
next
  case (4 vs)
  from json_text_same_kind [OF 4(2)] obtain ws where w: "w = JArray ws"
    by (cases w) (simp_all split: if_splits)
  then show ?case using 4(1) [of q ws r] 4(2) by simp
next
  case (5 ms)
  from json_text_same_kind [OF 5(2)] obtain ns where w: "w = JObject ns"
    by (cases w) (simp_all split: if_splits)
  then show ?case using 5(1) [of q ns r] 5(2) by simp
next
  case (6 c)
  then show ?case using elements_text_end [of c ws r q] by auto
next
  case (7 c v vs)
  obtain w ws' where ws: "ws = w # ws'"
    using elements_text_end [of c "v # vs" q r] 7(3) by (cases ws) simp_all
  then have "json_text v @ elements_text True vs @ q = json_text w @ elements_text True ws' @ r"
    using 7(3) by (cases c) simp_all
  then have "v = w \<and> elements_text True vs @ q = elements_text True ws' @ r"
    by (rule 7(1)) simp_all
  with 7(2) ws show ?case by blast
next
  case (8 c)
  then show ?case using members_text_end [of c ns r q] by auto
next
  case (9 c k v ms)
  obtain l w ns' where ns: "ns = (l, w) # ns'"
    using members_text_end [of c "(k, v) # ms" q r] 9(3) by (cases ns) (simp, force)
  then have "string_text k @ 0x3a # json_text v @ members_text True ms @ q
      = string_text l @ 0x3a # json_text w @ members_text True ns' @ r"
    using 9(3) by (cases c) simp_all
  from string_text_inj [OF this] have "k = l" and
    eq: "json_text v @ members_text True ms @ q = json_text w @ members_text True ns' @ r"
    by simp_all
  moreover from eq have "v = w \<and> members_text True ms @ q = members_text True ns' @ r"
    by (rule 9(1)) simp_all
  ultimately show ?case using 9(2) ns by blast
qed

lemma canonical_bytes_inj: "canonical_bytes v = canonical_bytes w \<longleftrightarrow> v = w"
  using json_text_inj(1) [of v "[0x0a]" w "[0x0a]"] by (auto simp: canonical_bytes_text)

section \<open>What the visitor accepts\<close>

text \<open>
  The values the policy admits below a given depth, and the events \<^verbatim>\<open>serde_json\<close> produces for the text
  of such a value.
\<close>

definition string_ok :: "string \<Rightarrow> bool" where
  "string_ok s \<longleftrightarrow> length s \<le> MAX_SCHEMA_STRING_BYTES \<and> is_ascii s"

fun json_ok :: "usize \<Rightarrow> json_value \<Rightarrow> bool" where
  "json_ok depth (JBool b) = True"
| "json_ok depth (JInteger n) = (n \<le> MAX_SAFE_INTEGER)"
| "json_ok depth (JString s) = string_ok s"
| "json_ok depth (JArray vs) =
     (depth \<le> MAX_NESTING_DEPTH \<and> length vs \<le> MAX_JSON_COLLECTION_ENTRIES \<and> list_all (json_ok (Suc depth)) vs)"
| "json_ok depth (JObject ms) =
     (depth \<le> MAX_NESTING_DEPTH \<and> length ms \<le> MAX_JSON_COLLECTION_ENTRIES \<and> bt_wf ms \<and>
      list_all (\<lambda>(k, v). string_ok k \<and> json_ok (Suc depth) v) ms)"

fun serde_events :: "json_value \<Rightarrow> serde_value" where
  "serde_events (JBool b) = SBool b"
| "serde_events (JInteger n) = SU64 n"
| "serde_events (JString s) = SStr s"
| "serde_events (JArray vs) = SSeq (map serde_events vs)"
| "serde_events (JObject ms) = SMap (map (\<lambda>(k, v). (Inr k, serde_events v)) ms)"

lemma wp_validate_string [simp]:
  "wp E (validate_string s) Q \<longleftrightarrow>
     (if MAX_SCHEMA_STRING_BYTES < length s then E (Err (Policy (IssueStringTooLong (length s))))
      else if \<not> is_ascii s then E (Err (Policy IssueNonAsciiString)) else Q ())"
  by (simp add: validate_string_def)

lemma list_all_bt_insert:
  "list_all P m \<Longrightarrow> P (k, v) \<Longrightarrow> list_all P (bt_insert k v m)"
  by (induction k v m rule: bt_insert.induct) auto

lemma deserialize_wp:
  "wp graceful (deserialize_any depth e) (json_ok depth)"
  "depth \<le> MAX_NESTING_DEPTH \<Longrightarrow> length vs \<le> MAX_JSON_COLLECTION_ENTRIES \<Longrightarrow> list_all (json_ok (Suc depth)) vs
    \<Longrightarrow> wp graceful (visit_seq depth vs es) (json_ok depth)"
  "depth \<le> MAX_NESTING_DEPTH \<Longrightarrow> length ms \<le> MAX_JSON_COLLECTION_ENTRIES \<Longrightarrow> bt_wf ms
    \<Longrightarrow> list_all (\<lambda>(k, v). string_ok k \<and> json_ok (Suc depth) v) ms
    \<Longrightarrow> wp graceful (visit_map depth ms kvs) (json_ok depth)"
proof (induction depth e and depth vs es and depth ms kvs rule: deserialize_any_visit_seq_visit_map.induct)
  case (14 depth vs e es)
  have "wp graceful (deserialize_any (depth + 1) e) (\<lambda>v. json_ok (depth + 1) v)"
    by (rule 14(1))
  then show ?case using 14(2-5) by (auto elim!: wp_value)
next
  case (17 depth ms key e kvs)
  show ?case
  proof (cases "string_ok key \<and> bt_get ms key = None \<and> length ms \<noteq> MAX_JSON_COLLECTION_ENTRIES")
    case True
    then have "wp graceful (deserialize_any (depth + 1) e) (\<lambda>v. json_ok (depth + 1) v)"
      using 17(1) by (simp add: validate_string_def string_ok_def)
    moreover have "wp graceful (visit_map depth (bt_insert key v ms) kvs) (json_ok depth)"
      if "deserialize_any (depth + 1) e = Inr v" "json_ok (depth + 1) v" for v
      using 17(2) [of "()" v] 17(3-6) True that
      by (simp add: validate_string_def string_ok_def length_bt_insert_new list_all_bt_insert)
    ultimately show ?thesis by (auto elim!: wp_value)
  qed (auto simp: string_ok_def)
qed (auto simp: visit_u64_def visit_i64_def visit_u128_def visit_str_def string_ok_def)

lemma json_parse_wp: "wp graceful (json_parse reader bytes) (json_ok 1)"
proof -
  obtain parsed trailing where r: "reader bytes = (parsed, trailing)" by fastforce
  show ?thesis
  proof (cases "deserialize_any 1 parsed")
    case (Inl e)
    with deserialize_wp(1) [of 1 parsed] obtain f where "e = Err f" by (auto simp: graceful_def)
    with Inl r show ?thesis by (cases f) (simp_all add: json_parse_def)
  next
    case (Inr v)
    with deserialize_wp(1) [of 1 parsed] r show ?thesis
      by (auto simp: json_parse_def split: option.splits)
  qed
qed

lemma bt_insert_append: "bt_wf (m @ [(k, v)]) \<Longrightarrow> bt_insert k v m = m @ [(k, v)]"
  by (induction m) (auto simp: bt_wf_def)

lemma bt_wf_append_get: "bt_wf (m @ (k, v) # m') \<Longrightarrow> bt_get m k = None"
  by (induction m) (auto simp: bt_wf_def bt_get_def)

lemma bt_wf_prefix: "bt_wf (m @ m') \<Longrightarrow> bt_wf m"
  by (simp add: bt_wf_def sorted_wrt_append)

lemma visit_seq_events:
  assumes "\<And>v. v \<in> set ws \<Longrightarrow> deserialize_any (Suc depth) (serde_events v) = Ok v"
    and "length (vs @ ws) \<le> MAX_JSON_COLLECTION_ENTRIES"
  shows "visit_seq depth vs (map serde_events ws) = Ok (JArray (vs @ ws))"
  using assms by (induction ws arbitrary: vs) auto

lemma visit_map_events:
  assumes "\<And>k v. (k, v) \<in> set ns \<Longrightarrow> string_ok k \<and> deserialize_any (Suc depth) (serde_events v) = Ok v"
    and "length (ms @ ns) \<le> MAX_JSON_COLLECTION_ENTRIES" and "bt_wf (ms @ ns)"
  shows "visit_map depth ms (map (\<lambda>(k, v). (Inr k, serde_events v)) ns) = Ok (JObject (ms @ ns))"
  using assms
proof (induction ns arbitrary: ms)
  case (Cons n ns)
  obtain k v where n: "n = (k, v)" by fastforce
  have "bt_wf (ms @ [(k, v)])" using Cons.prems(3) bt_wf_prefix [of "ms @ [(k, v)]" ns] n by simp
  moreover have "visit_map depth (ms @ [(k, v)]) (map (\<lambda>(k, v). (Inr k, serde_events v)) ns)
      = Ok (JObject ((ms @ [(k, v)]) @ ns))"
    by (rule Cons.IH) (use Cons.prems n in auto)
  moreover have "string_ok k" "deserialize_any (Suc depth) (serde_events v) = Ok v"
    using Cons.prems(1) [of k v] n by auto
  ultimately show ?case
    using Cons.prems(2,3) n
    by (simp add: validate_string_def string_ok_def bt_insert_append bt_wf_append_get)
qed simp

lemma deserialize_events: "json_ok depth v \<Longrightarrow> deserialize_any depth (serde_events v) = Ok v"
proof (induction depth v rule: json_ok.induct)
  case (4 depth vs)
  then show ?case using visit_seq_events [of vs depth "[]"] by (simp add: list_all_iff)
next
  case (5 depth ms)
  then have "visit_map depth [] (map (\<lambda>(k, v). (Inr k, serde_events v)) ms) = Ok (JObject ms)"
    using visit_map_events [of ms depth "[]"] by (force simp: list_all_iff)
  with 5 show ?case by simp
qed (auto simp: visit_u64_def visit_str_def validate_string_def string_ok_def)

end
