(* ===== verification/Format_Manifest.thy ===== *)
theory Format_Manifest
  imports Format_Json
begin

text \<open>
  \<^verbatim>\<open>crates/runnel-format/src/manifest.rs\<close>: operator limits, SHA-256 digests and their text, the
  records of a manifest, and the validation of a parsed document against the schema, in the order of the
  code. \<^verbatim>\<open>Sha256::digest\<close> of the package \<^verbatim>\<open>sha2\<close> is the argument \<open>sha\<close>.
\<close>

section \<open>Limits\<close>

definition FORMAT_MANIFEST_BYTES :: usize where "FORMAT_MANIFEST_BYTES = 4 * 1024 * 1024"
definition FORMAT_OBJECTS :: usize where "FORMAT_OBJECTS = 65536"
definition FORMAT_TENSORS :: usize where "FORMAT_TENSORS = 65536"
definition FORMAT_OBJECT_BYTES :: u64 where "FORMAT_OBJECT_BYTES = 2 ^ 40"
definition FORMAT_AGGREGATE_OBJECT_BYTES :: u64 where "FORMAT_AGGREGATE_OBJECT_BYTES = 8 * 2 ^ 40"
definition FORMAT_PAGE_TABLE_BYTES :: u64 where "FORMAT_PAGE_TABLE_BYTES = 64 * 1024 * 1024"
definition FORMAT_AGGREGATE_PAGE_TABLE_BYTES :: u64 where
  "FORMAT_AGGREGATE_PAGE_TABLE_BYTES = 1024 * 1024 * 1024"
definition MIN_PAGE_SIZE :: u32 where "MIN_PAGE_SIZE = 65536"
definition MAX_PAGE_SIZE :: u32 where "MAX_PAGE_SIZE = 2097152"
definition MAX_TENSOR_DIMENSION :: u64 where "MAX_TENSOR_DIMENSION = 2147483647"

record limits =
  lm_manifest_bytes :: usize
  lm_objects :: usize
  lm_tensors :: usize
  lm_object_bytes :: u64
  lm_aggregate_object_bytes :: u64
  lm_page_table_bytes :: u64
  lm_aggregate_page_table_bytes :: u64
  lm_eager_memory_bytes :: u64

definition check_limit :: "string \<Rightarrow> u64 \<Rightarrow> u64 \<Rightarrow> (format_error, unit) result" where
  "check_limit field value ceiling =
     (if ceiling < value then fail (LimitExceedsFormat field value ceiling) else Ok ())"

definition limits_validate :: "limits \<Rightarrow> (format_error, limits) result" where
  "limits_validate l =
     rbind (check_limit ''manifest_bytes'' (lm_manifest_bytes l) FORMAT_MANIFEST_BYTES) (\<lambda>_.
     rbind (check_limit ''objects'' (lm_objects l) FORMAT_OBJECTS) (\<lambda>_.
     rbind (check_limit ''tensors'' (lm_tensors l) FORMAT_TENSORS) (\<lambda>_.
     rbind (check_limit ''object_bytes'' (lm_object_bytes l) FORMAT_OBJECT_BYTES) (\<lambda>_.
     rbind (check_limit ''aggregate_object_bytes'' (lm_aggregate_object_bytes l)
       FORMAT_AGGREGATE_OBJECT_BYTES) (\<lambda>_.
     rbind (check_limit ''page_table_bytes'' (lm_page_table_bytes l) FORMAT_PAGE_TABLE_BYTES) (\<lambda>_.
     rbind (check_limit ''aggregate_page_table_bytes'' (lm_aggregate_page_table_bytes l)
       FORMAT_AGGREGATE_PAGE_TABLE_BYTES) (\<lambda>_.
     Ok l)))))))"

definition limits_default :: limits where
  "limits_default = \<lparr>lm_manifest_bytes = 1024 * 1024, lm_objects = 4096, lm_tensors = 16384,
     lm_object_bytes = 2 * 1024 * 1024 * 1024, lm_aggregate_object_bytes = 2 * 1024 * 1024 * 1024,
     lm_page_table_bytes = 8 * 1024 * 1024, lm_aggregate_page_table_bytes = 64 * 1024 * 1024,
     lm_eager_memory_bytes = 256 * 1024 * 1024\<rparr>"

section \<open>Digests\<close>

datatype digest_parse_error = DigestPrefix | DigestLength | DigestLowercaseHex

definition lowercase_hex_value :: "u8 \<Rightarrow> u8 option" where
  "lowercase_hex_value byte =
     (if 0x30 \<le> byte \<and> byte \<le> 0x39 then Some (byte - 0x30)
      else if 0x61 \<le> byte \<and> byte \<le> 0x66 then Some (byte - 0x61 + 10)
      else None)"

definition write_hex :: "u8 list \<Rightarrow> string" where
  "write_hex bytes = concat (map (\<lambda>byte. [hex_char (unat (drop_bit 4 byte)), hex_char (unat (byte AND 0x0f))]) bytes)"

definition path_component :: "digest \<Rightarrow> string" where
  "path_component d = write_hex d"

definition digest_display :: "digest \<Rightarrow> string" where
  "digest_display d = ''sha256:'' @ write_hex d"

fun digest_pairs :: "u8 list \<Rightarrow> (digest_parse_error, u8 list) result" where
  "digest_pairs (h # l # rest) =
     rbind (ok_or (lowercase_hex_value h) DigestLowercaseHex) (\<lambda>high.
     rbind (ok_or (lowercase_hex_value l) DigestLowercaseHex) (\<lambda>low.
     rbind (digest_pairs rest) (\<lambda>bytes.
     Ok ((push_bit 4 high OR low) # bytes))))"
| "digest_pairs _ = Ok []"

definition strip_prefix :: "string \<Rightarrow> string \<Rightarrow> string option" where
  "strip_prefix p s = (if take (length p) s = p then Some (drop (length p) s) else None)"

definition digest_from_str :: "string \<Rightarrow> (digest_parse_error, digest) result" where
  "digest_from_str value =
     rbind (ok_or (strip_prefix ''sha256:'' value) DigestPrefix) (\<lambda>hexadecimal.
     if length hexadecimal \<noteq> 64 then fail DigestLength
     else digest_pairs (as_bytes hexadecimal))"

fun digest_error_text :: "digest_parse_error \<Rightarrow> string" where
  "digest_error_text DigestPrefix = ''digest must begin with sha256:''"
| "digest_error_text DigestLength = ''SHA-256 digest must contain exactly 64 hexadecimal digits''"
| "digest_error_text DigestLowercaseHex = ''SHA-256 digest must use lowercase hexadecimal digits''"

section \<open>Records\<close>

record adapter =
  ad_id :: string
  ad_version :: u64

record tokenizer =
  tk_id :: string
  tk_version :: u64
  tk_vocab_size :: u64

record tiny_model =
  tm_context_length :: u64
  tm_expert_hidden_size :: u64
  tm_hidden_size :: u64
  tm_num_experts :: u64
  tm_num_heads :: u64
  tm_num_layers :: u64
  tm_top_k :: u64
  tm_vocab_size :: u64

record object_record =
  or_digest :: digest
  or_length :: u64
  or_page_size :: u32
  or_page_table :: digest
  or_page_table_length :: u64

datatype dtype = F32Le | Bf16Le | U8 | I8

fun byte_width :: "dtype \<Rightarrow> u64" where
  "byte_width F32Le = 4"
| "byte_width Bf16Le = 2"
| "byte_width U8 = 1"
| "byte_width I8 = 1"

fun dtype_as_str :: "dtype \<Rightarrow> string" where
  "dtype_as_str F32Le = ''f32-le''"
| "dtype_as_str Bf16Le = ''bf16-le''"
| "dtype_as_str U8 = ''u8''"
| "dtype_as_str I8 = ''i8''"

record tensor_record =
  tr_dtype :: dtype
  tr_id :: u64
  tr_length :: u64
  tr_object :: digest
  tr_offset :: u64
  tr_role :: string
  tr_shape :: "u32 list"

record manifest =
  mf_adapter :: adapter
  mf_model :: tiny_model
  mf_objects :: "object_record list"
  mf_tensors :: "tensor_record list"
  mf_tokenizer :: tokenizer
  mf_artifact_id :: digest
  mf_canonical_bytes :: "u8 list"

section \<open>Schema accessors\<close>

abbreviation schema :: "string \<Rightarrow> string \<Rightarrow> (format_error, 'a) result" where
  "schema path problem \<equiv> fail (Schema path problem)"

definition expect_object :: "json_value \<Rightarrow> string \<Rightarrow> (format_error, (string, json_value) btree_map) result" where
  "expect_object value path = (case value of JObject members \<Rightarrow> Ok members | _ \<Rightarrow> schema path ''expected object'')"

definition expect_array :: "json_value \<Rightarrow> string \<Rightarrow> (format_error, json_value list) result" where
  "expect_array value path = (case value of JArray values \<Rightarrow> Ok values | _ \<Rightarrow> schema path ''expected array'')"

definition expect_string :: "json_value \<Rightarrow> string \<Rightarrow> (format_error, string) result" where
  "expect_string value path = (case value of JString text \<Rightarrow> Ok text | _ \<Rightarrow> schema path ''expected string'')"

definition expect_integer :: "json_value \<Rightarrow> string \<Rightarrow> (format_error, u64) result" where
  "expect_integer value path =
     (case value of JInteger n \<Rightarrow> Ok n | _ \<Rightarrow> schema path ''expected unsigned integer'')"

definition positive_integer :: "json_value \<Rightarrow> string \<Rightarrow> (format_error, u64) result" where
  "positive_integer value path =
     rbind (expect_integer value path) (\<lambda>n. if n = 0 then schema path ''must be positive'' else Ok n)"

definition expect_literal_string :: "json_value \<Rightarrow> string \<Rightarrow> string \<Rightarrow> (format_error, unit) result" where
  "expect_literal_string value expected path =
     rbind (expect_string value path) (\<lambda>text.
     if text \<noteq> expected then schema path (''must be '' @ debug_str expected) else Ok ())"

definition expect_literal_integer :: "json_value \<Rightarrow> u64 \<Rightarrow> string \<Rightarrow> (format_error, unit) result" where
  "expect_literal_integer value expected path =
     rbind (expect_integer value path) (\<lambda>n.
     if n \<noteq> expected then schema path (''must be '' @ show_nat expected) else Ok ())"

definition required ::
  "(string, json_value) btree_map \<Rightarrow> string \<Rightarrow> string \<Rightarrow> (format_error, json_value) result" where
  "required members key path =
     ok_or (bt_get members key) (Schema path (''missing required key '' @ debug_str key))"

definition exact_keys ::
  "(string, json_value) btree_map \<Rightarrow> string list \<Rightarrow> string \<Rightarrow> (format_error, unit) result" where
  "exact_keys members expected path =
     rbind (rfold (\<lambda>key _. if key \<notin> set expected then schema path (''unknown key '' @ debug_str key) else Ok ())
       (bt_keys members) ()) (\<lambda>_.
     rfold (\<lambda>key _. if bt_get members key = None
         then schema path (''missing required key '' @ debug_str key) else Ok ()) expected ())"

definition parse_digest :: "json_value \<Rightarrow> string \<Rightarrow> (format_error, digest) result" where
  "parse_digest value path =
     rbind (expect_string value path) (\<lambda>text.
     case digest_from_str text of
       Inl (Err error) \<Rightarrow> schema path (digest_error_text error)
     | Inl (Panic message) \<Rightarrow> panic message
     | Inr digest \<Rightarrow> Ok digest)"

definition parse_dtype :: "json_value \<Rightarrow> string \<Rightarrow> (format_error, dtype) result" where
  "parse_dtype value path =
     rbind (expect_string value path) (\<lambda>text.
     if text = ''f32-le'' then Ok F32Le
     else if text = ''bf16-le'' then Ok Bf16Le
     else if text = ''u8'' then Ok U8
     else if text = ''i8'' then Ok I8
     else schema path ''unsupported dtype'')"

definition is_lower :: "char \<Rightarrow> bool" where
  "is_lower c \<longleftrightarrow> CHR ''a'' \<le> c \<and> c \<le> CHR ''z''"

definition is_digit :: "char \<Rightarrow> bool" where
  "is_digit c \<longleftrightarrow> CHR ''0'' \<le> c \<and> c \<le> CHR ''9''"

definition validate_identifier :: "string \<Rightarrow> string \<Rightarrow> (format_error, unit) result" where
  "validate_identifier value path =
     (if value = [] \<or> 64 < length value then schema path ''identifier length must be from 1 through 64 bytes''
      else if \<not> is_lower (hd value) \<or>
        \<not> list_all (\<lambda>c. is_lower c \<or> is_digit c \<or> c = CHR ''.'' \<or> c = CHR ''-'') (tl value)
      then schema path ''identifier does not match [a-z][a-z0-9.-]{0,63}''
      else Ok ())"

definition validate_role :: "string \<Rightarrow> string \<Rightarrow> (format_error, unit) result" where
  "validate_role value path =
     (if value = [] \<or> 128 < length value then schema path ''role length must be from 1 through 128 bytes''
      else if \<not> is_lower (hd value) \<or>
        \<not> list_all (\<lambda>c. is_lower c \<or> is_digit c \<or> c = CHR ''_'' \<or> c = CHR ''.'' \<or> c = CHR ''-'') (tl value)
      then schema path ''role does not match [a-z][a-z0-9_.-]{0,127}''
      else Ok ())"

section \<open>Adapter, tokenizer and model\<close>

definition parse_adapter :: "json_value \<Rightarrow> (format_error, adapter) result" where
  "parse_adapter value =
     rbind (expect_object value ''$.adapter'') (\<lambda>members.
     rbind (exact_keys members [''id'', ''version''] ''$.adapter'') (\<lambda>_.
     rbind (rbind (required members ''id'' ''$.adapter'') (\<lambda>v. expect_string v ''$.adapter.id'')) (\<lambda>id.
     rbind (validate_identifier id ''$.adapter.id'') (\<lambda>_.
     if id \<noteq> ''runnel.tiny-causal-moe'' then schema ''$.adapter.id'' ''unsupported tiny adapter ID''
     else rbind (rbind (required members ''version'' ''$.adapter'')
       (\<lambda>v. positive_integer v ''$.adapter.version'')) (\<lambda>version.
     if \<not> (version = 1 \<or> version = 2) then schema ''$.adapter.version'' ''unsupported tiny adapter version''
     else Ok \<lparr>ad_id = id, ad_version = version\<rparr>)))))"

definition parse_tokenizer :: "json_value \<Rightarrow> (format_error, tokenizer) result" where
  "parse_tokenizer value =
     rbind (expect_object value ''$.tokenizer'') (\<lambda>members.
     rbind (exact_keys members [''id'', ''version'', ''vocab_size''] ''$.tokenizer'') (\<lambda>_.
     rbind (rbind (required members ''id'' ''$.tokenizer'') (\<lambda>v. expect_string v ''$.tokenizer.id'')) (\<lambda>id.
     rbind (validate_identifier id ''$.tokenizer.id'') (\<lambda>_.
     rbind (rbind (required members ''version'' ''$.tokenizer'')
       (\<lambda>v. positive_integer v ''$.tokenizer.version'')) (\<lambda>version.
     rbind (rbind (required members ''vocab_size'' ''$.tokenizer'')
       (\<lambda>v. positive_integer v ''$.tokenizer.vocab_size'')) (\<lambda>vocab_size.
     Ok \<lparr>tk_id = id, tk_version = version, tk_vocab_size = vocab_size\<rparr>))))))"

definition model_dimension :: "(string, json_value) btree_map \<Rightarrow> string \<Rightarrow> (format_error, u64) result" where
  "model_dimension members key =
     rbind (required members key ''$.model'') (\<lambda>v. positive_integer v (''$.model.'' @ key))"

definition model_fields :: "(string, json_value) btree_map \<Rightarrow> (format_error, tiny_model) result" where
  "model_fields members =
     rbind (model_dimension members ''context_length'') (\<lambda>context_length.
     rbind (model_dimension members ''expert_hidden_size'') (\<lambda>expert_hidden_size.
     rbind (model_dimension members ''hidden_size'') (\<lambda>hidden_size.
     rbind (model_dimension members ''num_experts'') (\<lambda>num_experts.
     rbind (model_dimension members ''num_heads'') (\<lambda>num_heads.
     rbind (model_dimension members ''num_layers'') (\<lambda>num_layers.
     rbind (model_dimension members ''top_k'') (\<lambda>top_k.
     rbind (model_dimension members ''vocab_size'') (\<lambda>vocab_size.
     Ok \<lparr>tm_context_length = context_length, tm_expert_hidden_size = expert_hidden_size,
         tm_hidden_size = hidden_size, tm_num_experts = num_experts, tm_num_heads = num_heads,
         tm_num_layers = num_layers, tm_top_k = top_k, tm_vocab_size = vocab_size\<rparr>))))))))"

definition parse_model :: "json_value \<Rightarrow> (format_error, tiny_model) result" where
  "parse_model value =
     rbind (expect_object value ''$.model'') (\<lambda>members.
     rbind (exact_keys members [''context_length'', ''expert_hidden_size'', ''hidden_size'', ''num_experts'',
       ''num_heads'', ''num_layers'', ''top_k'', ''vocab_size''] ''$.model'') (\<lambda>_.
     rbind (model_fields members) (\<lambda>model.
     if tm_num_experts model < tm_top_k model then schema ''$.model.top_k'' ''must not exceed num_experts''
     else if \<not> tm_num_heads model dvd tm_hidden_size model
     then schema ''$.model.hidden_size'' ''must be divisible by num_heads''
     else Ok model)))"

section \<open>Objects\<close>

definition page_count :: "u64 \<Rightarrow> u32 \<Rightarrow> (format_error, u64) result" where
  "page_count object_length page_size =
     rbind (ok_or (checked_sub page_size 1) (ArithmeticOverflow ''nonzero page size'')) (\<lambda>rounding.
     ok_or (map_option (\<lambda>rounded. rounded div page_size) (checked_add object_length rounding))
       (ArithmeticOverflow ''page count''))"

definition expected_page_table_length :: "u64 \<Rightarrow> u32 \<Rightarrow> (format_error, u64) result" where
  "expected_page_table_length object_length page_size =
     rbind (page_count object_length page_size) (\<lambda>count.
     ok_or (Option.bind (checked_mul count 32) (\<lambda>hash_bytes. checked_add hash_bytes 64))
       (ArithmeticOverflow ''page-table byte length''))"

definition is_power_of_two :: "u32 \<Rightarrow> bool" where
  "is_power_of_two n \<longleftrightarrow> list_ex (\<lambda>k. n = 2 ^ k) [0..<32]"

definition object_page_size :: "(string, json_value) btree_map \<Rightarrow> string \<Rightarrow> (format_error, u32) result" where
  "object_page_size members path =
     rbind (rbind (required members ''page_size'' path) (\<lambda>v. positive_integer v (path @ ''.page_size'')))
       (\<lambda>page_size.
     if u32_max < page_size then schema (path @ ''.page_size'') ''does not fit u32''
     else if \<not> (MIN_PAGE_SIZE \<le> page_size \<and> page_size \<le> MAX_PAGE_SIZE) \<or> \<not> is_power_of_two page_size
     then schema (path @ ''.page_size'') ''must be a power of two from 65536 through 2097152''
     else Ok page_size)"

record objects_state =
  os_records :: "object_record list"
  os_page_tables :: "(digest, unit) btree_map"
  os_object_bytes :: u64
  os_page_table_bytes :: u64

definition object_length ::
  "limits \<Rightarrow> (string, json_value) btree_map \<Rightarrow> string \<Rightarrow> u64 \<Rightarrow> (format_error, u64 \<times> u64) result" where
  "object_length limits members path aggregate =
     rbind (rbind (required members ''length'' path) (\<lambda>v. positive_integer v (path @ ''.length''))) (\<lambda>len.
     if lm_object_bytes limits < len
     then schema (path @ ''.length'') ''exceeds the configured per-object byte limit''
     else rbind (ok_or (checked_add aggregate len) (ArithmeticOverflow ''aggregate object bytes'')) (\<lambda>aggregate.
     if lm_aggregate_object_bytes limits < aggregate
     then schema ''$.objects'' ''exceeds the configured aggregate object byte limit''
     else Ok (len, aggregate)))"

definition object_table_length ::
  "limits \<Rightarrow> (string, json_value) btree_map \<Rightarrow> string \<Rightarrow> u64 \<Rightarrow> u32 \<Rightarrow> u64 \<Rightarrow> (format_error, u64 \<times> u64) result"
where
  "object_table_length limits members path len page_size aggregate =
     rbind (rbind (required members ''page_table_length'' path)
       (\<lambda>v. positive_integer v (path @ ''.page_table_length''))) (\<lambda>page_table_length.
     rbind (expected_page_table_length len page_size) (\<lambda>expected_table_length.
     if page_table_length \<noteq> expected_table_length
     then schema (path @ ''.page_table_length'') ''does not equal 64 + 32 * ceil(length / page_size)''
     else if lm_page_table_bytes limits < page_table_length
     then schema (path @ ''.page_table_length'') ''exceeds the configured per-page-table byte limit''
     else rbind (ok_or (checked_add aggregate page_table_length) (ArithmeticOverflow ''aggregate page-table bytes''))
       (\<lambda>aggregate.
     if lm_aggregate_page_table_bytes limits < aggregate
     then schema ''$.objects'' ''exceeds the configured aggregate page-table byte limit''
     else Ok (page_table_length, aggregate))))"

definition parse_object ::
  "limits \<Rightarrow> nat \<times> json_value \<Rightarrow> objects_state \<Rightarrow> (format_error, objects_state) result" where
  "parse_object limits iv st = (case iv of (index, value) \<Rightarrow>
     let path = ''$.objects['' @ show_nat index @ '']'' in
     rbind (expect_object value path) (\<lambda>members.
     rbind (exact_keys members [''digest'', ''length'', ''page_size'', ''page_table'', ''page_table_length''] path)
       (\<lambda>_.
     rbind (rbind (required members ''digest'' path) (\<lambda>v. parse_digest v (path @ ''.digest''))) (\<lambda>digest.
     if os_records st \<noteq> [] \<and> digest \<le> or_digest (last (os_records st))
     then schema (path @ ''.digest'') ''object digests must be unique and strictly increasing''
     else rbind (object_length limits members path (os_object_bytes st)) (\<lambda>(len, object_bytes).
     rbind (object_page_size members path) (\<lambda>page_size.
     rbind (rbind (required members ''page_table'' path) (\<lambda>v. parse_digest v (path @ ''.page_table'')))
       (\<lambda>page_table.
     if bt_get (os_page_tables st) page_table \<noteq> None
     then schema (path @ ''.page_table'') ''page-table digests must be unique''
     else rbind (object_table_length limits members path len page_size (os_page_table_bytes st))
       (\<lambda>(page_table_length, page_table_bytes).
     Ok \<lparr>os_records = os_records st @ [\<lparr>or_digest = digest, or_length = len, or_page_size = page_size,
           or_page_table = page_table, or_page_table_length = page_table_length\<rparr>],
         os_page_tables = bt_insert page_table () (os_page_tables st),
         os_object_bytes = object_bytes, os_page_table_bytes = page_table_bytes\<rparr>))))))))"

definition parse_objects :: "json_value \<Rightarrow> limits \<Rightarrow> (format_error, object_record list) result" where
  "parse_objects value limits =
     rbind (expect_array value ''$.objects'') (\<lambda>values.
     if lm_objects limits < length values then fail (CountLimit ''objects'' (length values) (lm_objects limits))
     else rbind (rfold (parse_object limits) (enumerate 0 values)
       \<lparr>os_records = [], os_page_tables = [], os_object_bytes = 0, os_page_table_bytes = 0\<rparr>) (\<lambda>st.
     Ok (os_records st)))"

section \<open>Tensors\<close>

text \<open>The shape loop: the dimensions so far and the product of the elements so far.\<close>

definition parse_dimension ::
  "string \<Rightarrow> nat \<times> json_value \<Rightarrow> u32 list \<times> u64 \<Rightarrow> (format_error, u32 list \<times> u64) result" where
  "parse_dimension path iv acc = (case iv of (dimension_index, value) \<Rightarrow> case acc of (shape, elements) \<Rightarrow>
     let dimension_path = path @ ''.shape['' @ show_nat dimension_index @ '']'' in
     rbind (positive_integer value dimension_path) (\<lambda>dimension.
     if MAX_TENSOR_DIMENSION < dimension then schema dimension_path ''dimension exceeds 2147483647''
     else rbind (ok_or (checked_mul elements dimension) (ArithmeticOverflow ''tensor shape product'')) (\<lambda>elements.
     if u32_max < dimension
     then schema dimension_path ''dimension does not fit the RMOA v1 representation''
     else Ok (shape @ [dimension], elements))))"

definition parse_shape :: "(string, json_value) btree_map \<Rightarrow> string \<Rightarrow> (format_error, u32 list \<times> u64) result" where
  "parse_shape members path =
     rbind (rbind (required members ''shape'' path) (\<lambda>v. expect_array v (path @ ''.shape''))) (\<lambda>values.
     if \<not> (1 \<le> length values \<and> length values \<le> 8)
     then schema (path @ ''.shape'') ''rank must be from 1 through 8''
     else rfold (parse_dimension path) (enumerate 0 values) ([], 1))"

record tensors_state =
  ts_ranges :: "(digest, (u64 \<times> u64) list) btree_map"
  ts_roles :: "(string, unit) btree_map"
  ts_tensors :: "tensor_record list"

definition range_list :: "(digest, (u64 \<times> u64) list) btree_map \<Rightarrow> digest \<Rightarrow> (u64 \<times> u64) list" where
  "range_list ranges d = (case bt_get ranges d of None \<Rightarrow> [] | Some rs \<Rightarrow> rs)"

definition tensor_identity ::
  "(string, json_value) btree_map \<Rightarrow> string \<Rightarrow> nat \<Rightarrow> (format_error, u64) result" where
  "tensor_identity members path index =
     rbind (rbind (required members ''id'' path) (\<lambda>v. expect_integer v (path @ ''.id''))) (\<lambda>id.
     if id \<noteq> index then schema (path @ ''.id'') ''tensor IDs must be contiguous from zero'' else Ok id)"

definition tensor_offset ::
  "(string, json_value) btree_map \<Rightarrow> string \<Rightarrow> dtype \<Rightarrow> (format_error, u64) result" where
  "tensor_offset members path dtype =
     rbind (rbind (required members ''offset'' path) (\<lambda>v. expect_integer v (path @ ''.offset''))) (\<lambda>offset.
     if offset mod byte_width dtype \<noteq> 0 then schema (path @ ''.offset'') ''must be aligned to the dtype width''
     else Ok offset)"

definition tensor_role ::
  "(string, json_value) btree_map \<Rightarrow> string \<Rightarrow> (string, unit) btree_map \<Rightarrow> (format_error, string) result" where
  "tensor_role members path roles =
     rbind (rbind (required members ''role'' path) (\<lambda>v. expect_string v (path @ ''.role''))) (\<lambda>role.
     rbind (validate_role role (path @ ''.role'')) (\<lambda>_.
     if bt_get roles role \<noteq> None then schema (path @ ''.role'') ''tensor roles must be unique'' else Ok role))"

definition tensor_end :: "string \<Rightarrow> dtype \<Rightarrow> u64 \<Rightarrow> u64 \<Rightarrow> u64 \<Rightarrow> u64 \<Rightarrow> (format_error, u64) result" where
  "tensor_end path dtype len elements offset object_len =
     rbind (ok_or (checked_mul elements (byte_width dtype)) (ArithmeticOverflow ''tensor logical byte length''))
       (\<lambda>expected_length.
     if len \<noteq> expected_length
     then schema (path @ ''.length'') ''does not equal shape product times dtype width''
     else rbind (ok_or (checked_add offset len) (ArithmeticOverflow ''tensor object range'')) (\<lambda>finish.
     if object_len < finish then schema path ''tensor range exceeds its declared object'' else Ok finish))"

definition parse_tensor ::
  "(digest, u64) btree_map \<Rightarrow> nat \<times> json_value \<Rightarrow> tensors_state \<Rightarrow> (format_error, tensors_state) result" where
  "parse_tensor object_lengths iv st = (case iv of (index, value) \<Rightarrow>
     let path = ''$.tensors['' @ show_nat index @ '']'' in
     rbind (expect_object value path) (\<lambda>members.
     rbind (exact_keys members [''dtype'', ''id'', ''length'', ''object'', ''offset'', ''role'', ''shape''] path) (\<lambda>_.
     rbind (tensor_identity members path index) (\<lambda>id.
     rbind (rbind (required members ''dtype'' path) (\<lambda>v. parse_dtype v (path @ ''.dtype''))) (\<lambda>dtype.
     rbind (rbind (required members ''length'' path) (\<lambda>v. positive_integer v (path @ ''.length''))) (\<lambda>len.
     rbind (rbind (required members ''object'' path) (\<lambda>v. parse_digest v (path @ ''.object''))) (\<lambda>digest.
     rbind (ok_or (bt_get object_lengths digest) (Schema (path @ ''.object'') ''does not name a declared object''))
       (\<lambda>object_len.
     rbind (tensor_offset members path dtype) (\<lambda>offset.
     rbind (tensor_role members path (ts_roles st)) (\<lambda>role.
     rbind (parse_shape members path) (\<lambda>(shape, elements).
     rbind (tensor_end path dtype len elements offset object_len) (\<lambda>finish.
     Ok \<lparr>ts_ranges = bt_insert digest (range_list (ts_ranges st) digest @ [(offset, finish)]) (ts_ranges st),
         ts_roles = bt_insert role () (ts_roles st),
         ts_tensors = ts_tensors st @ [\<lparr>tr_dtype = dtype, tr_id = id, tr_length = len, tr_object = digest,
           tr_offset = offset, tr_role = role, tr_shape = shape\<rparr>]\<rparr>))))))))))))"

text \<open>The coverage check: the sorted ranges of an object follow one another from 0 to its length.\<close>

definition cover_range :: "digest \<Rightarrow> u64 \<times> u64 \<Rightarrow> u64 \<Rightarrow> (format_error, u64) result" where
  "cover_range object interval cursor = (case interval of (offset, finish) \<Rightarrow>
     if cursor < offset then fail (TensorGap object cursor offset)
     else if offset < cursor then fail (TensorOverlap object cursor offset)
     else Ok finish)"

definition validate_tensor_coverage ::
  "object_record list \<Rightarrow> (digest, (u64 \<times> u64) list) btree_map \<Rightarrow> (format_error, unit) result" where
  "validate_tensor_coverage objects ranges =
     rfold (\<lambda>object _.
       rbind (rfold (cover_range (or_digest object)) (sort (range_list ranges (or_digest object))) 0) (\<lambda>cursor.
       if cursor \<noteq> or_length object
       then fail (TensorCoverage (or_digest object) cursor (or_length object))
       else Ok ())) objects ()"

definition parse_tensors ::
  "json_value \<Rightarrow> object_record list \<Rightarrow> limits \<Rightarrow> (format_error, tensor_record list) result" where
  "parse_tensors value objects limits =
     rbind (expect_array value ''$.tensors'') (\<lambda>values.
     if lm_tensors limits < length values then fail (CountLimit ''tensors'' (length values) (lm_tensors limits))
     else let object_lengths = fold (\<lambda>record m. bt_insert (or_digest record) (or_length record) m) objects [] in
     rbind (rfold (parse_tensor object_lengths) (enumerate 0 values)
       \<lparr>ts_ranges = [], ts_roles = [], ts_tensors = []\<rparr>) (\<lambda>st.
     rbind (validate_tensor_coverage objects (ts_ranges st)) (\<lambda>_.
     Ok (ts_tensors st))))"

section \<open>The manifest\<close>

definition validate_schema :: "json_value \<Rightarrow> limits \<Rightarrow> (format_error, manifest) result" where
  "validate_schema document limits =
     rbind (expect_object document ''$'') (\<lambda>root.
     rbind (exact_keys root [''adapter'', ''format'', ''model'', ''objects'', ''tensors'', ''tokenizer'', ''version'']
       ''$'') (\<lambda>_.
     rbind (rbind (required root ''format'' ''$'') (\<lambda>v. expect_literal_string v ''rmoa'' ''$.format'')) (\<lambda>_.
     rbind (rbind (required root ''version'' ''$'') (\<lambda>v. expect_literal_integer v 1 ''$.version'')) (\<lambda>_.
     rbind (rbind (required root ''adapter'' ''$'') parse_adapter) (\<lambda>adapter.
     rbind (rbind (required root ''model'' ''$'') parse_model) (\<lambda>model.
     rbind (rbind (required root ''tokenizer'' ''$'') parse_tokenizer) (\<lambda>tokenizer.
     if tk_vocab_size tokenizer \<noteq> tm_vocab_size model
     then schema ''$.tokenizer.vocab_size'' ''must equal $.model.vocab_size''
     else rbind (rbind (required root ''objects'' ''$'') (\<lambda>v. parse_objects v limits)) (\<lambda>objects.
     rbind (rbind (required root ''tensors'' ''$'') (\<lambda>v. parse_tensors v objects limits)) (\<lambda>tensors.
     Ok \<lparr>mf_adapter = adapter, mf_model = model, mf_objects = objects, mf_tensors = tensors,
         mf_tokenizer = tokenizer, mf_artifact_id = replicate 32 0, mf_canonical_bytes = []\<rparr>)))))))))"

definition parse_with_limits ::
  "json_reader \<Rightarrow> (u8 list \<Rightarrow> digest) \<Rightarrow> u8 list \<Rightarrow> limits \<Rightarrow> (format_error, manifest) result" where
  "parse_with_limits reader sha bytes limits =
     rbind (limits_validate limits) (\<lambda>limits.
     if lm_manifest_bytes limits < length bytes
     then fail (ManifestTooLarge (length bytes) (lm_manifest_bytes limits))
     else rbind (json_parse reader bytes) (\<lambda>document.
     rbind (validate_schema document limits) (\<lambda>manifest.
     if canonical_bytes document \<noteq> bytes then fail NonCanonicalManifest
     else Ok (manifest\<lparr>mf_artifact_id := sha bytes, mf_canonical_bytes := bytes\<rparr>))))"

definition require_artifact_id :: "manifest \<Rightarrow> digest \<Rightarrow> (format_error, unit) result" where
  "require_artifact_id manifest expected =
     (if mf_artifact_id manifest \<noteq> expected then fail (ArtifactIdMismatch expected (mf_artifact_id manifest))
      else Ok ())"

definition parse_with_expected_id ::
  "json_reader \<Rightarrow> (u8 list \<Rightarrow> digest) \<Rightarrow> u8 list \<Rightarrow> limits \<Rightarrow> digest \<Rightarrow> (format_error, manifest) result" where
  "parse_with_expected_id reader sha bytes limits expected =
     rbind (parse_with_limits reader sha bytes limits) (\<lambda>manifest.
     rbind (require_artifact_id manifest expected) (\<lambda>_.
     Ok manifest))"

text \<open>
  \<^verbatim>\<open>binary_search_by_key\<close> returns a matching position of a sorted slice; the digests of a manifest are
  strictly increasing, so that position is the first match.
\<close>

definition manifest_object :: "manifest \<Rightarrow> digest \<Rightarrow> object_record option" where
  "manifest_object manifest d = find (\<lambda>record. or_digest record = d) (mf_objects manifest)"

definition manifest_tensor_by_role :: "manifest \<Rightarrow> string \<Rightarrow> tensor_record option" where
  "manifest_tensor_by_role manifest role = find (\<lambda>tensor. tr_role tensor = role) (mf_tensors manifest)"

end
