(* ===== verification/Format_Artifact.thy ===== *)
theory Format_Artifact
  imports Format_Manifest
begin

text \<open>
  \<^verbatim>\<open>crates/runnel-format/src/artifact.rs\<close>: page tables and eagerly verified artifacts. The operating
  system is a parameter: opening a path gives an error message or an \<open>opened_file\<close>, which holds what the
  calls the code then makes on the descriptor observe (the two \<^verbatim>\<open>metadata\<close> calls and the bytes up to end of
  file), so that a file that changes between the calls is covered.
\<close>

definition PAGE_TABLE_MAGIC :: "u8 list" where
  "PAGE_TABLE_MAGIC = as_bytes ''RMOAPG1'' @ [0x0a]"

definition PAGE_TABLE_HEADER_BYTES :: usize where "PAGE_TABLE_HEADER_BYTES = 64"

record page_table =
  pt_bytes :: "u8 list"
  pt_page_size :: u32
  pt_object_length :: u64
  pt_page_count :: u64
  pt_object_digest :: digest

section \<open>Reading a page table\<close>

text \<open>The range index \<^verbatim>\<open>bytes[a..b]\<close>, which panics, and \<^verbatim>\<open>bytes.get(a..b)\<close>, which does not.\<close>

definition slice_get :: "'a list \<Rightarrow> usize \<Rightarrow> usize \<Rightarrow> 'a list option" where
  "slice_get xs a b = (if a \<le> b \<and> b \<le> length xs then Some (take (b - a) (drop a xs)) else None)"

definition slice_index :: "'a list \<Rightarrow> usize \<Rightarrow> usize \<Rightarrow> ('e, 'a list) result" where
  "slice_index xs a b = or_panic (slice_get xs a b) ''range out of bounds''"

fun from_le_bytes :: "u8 list \<Rightarrow> nat" where
  "from_le_bytes [] = 0"
| "from_le_bytes (b # bs) = unat b + 256 * from_le_bytes bs"

definition read_u32 :: "u8 list \<Rightarrow> usize \<Rightarrow> (format_error, u32) result" where
  "read_u32 bytes offset = rbind (slice_index bytes offset (offset + 4)) (\<lambda>encoded. Ok (from_le_bytes encoded))"

definition read_u64 :: "u8 list \<Rightarrow> usize \<Rightarrow> (format_error, u64) result" where
  "read_u64 bytes offset = rbind (slice_index bytes offset (offset + 8)) (\<lambda>encoded. Ok (from_le_bytes encoded))"

abbreviation page_table_error :: "object_record \<Rightarrow> string \<Rightarrow> (format_error, 'a) result" where
  "page_table_error record problem \<equiv> fail (BadPageTable (or_digest record) problem)"

definition object_page_count :: "object_record \<Rightarrow> (format_error, u64) result" where
  "object_page_count record = page_count (or_length record) (or_page_size record)"

text \<open>The header after the magic: version, page size, object length, page count and object digest.\<close>

definition parse_header :: "object_record \<Rightarrow> u8 list \<Rightarrow> (format_error, u32 \<times> u64 \<times> u64) result" where
  "parse_header record bytes =
     rbind (read_u32 bytes 8) (\<lambda>version.
     if version \<noteq> 1 then page_table_error record ''version is not 1''
     else rbind (read_u32 bytes 12) (\<lambda>page_size.
     if page_size \<noteq> or_page_size record then page_table_error record ''page size does not match the manifest''
     else rbind (read_u64 bytes 16) (\<lambda>object_len.
     if object_len \<noteq> or_length record then page_table_error record ''object length does not match the manifest''
     else rbind (read_u64 bytes 24) (\<lambda>count.
     rbind (object_page_count record) (\<lambda>expected_page_count.
     if count \<noteq> expected_page_count
     then page_table_error record ''page count does not equal ceil(length / page_size)''
     else rbind (slice_index bytes 32 64) (\<lambda>header_digest.
     if header_digest \<noteq> or_digest record
     then page_table_error record ''object digest does not match the manifest''
     else Ok (page_size, object_len, count)))))))"

definition parse_verified ::
  "(u8 list \<Rightarrow> digest) \<Rightarrow> object_record \<Rightarrow> u8 list \<Rightarrow> (format_error, page_table) result" where
  "parse_verified sha record bytes =
     (if length bytes \<noteq> or_page_table_length record
      then fail (BlobLengthMismatch ''page table'' (or_page_table record) (or_page_table_length record) (length bytes))
      else if sha bytes \<noteq> or_page_table record
      then fail (BlobDigestMismatch ''page table'' (or_page_table record) (sha bytes))
      else if length bytes < PAGE_TABLE_HEADER_BYTES then page_table_error record ''header is truncated''
      else rbind (slice_index bytes 0 8) (\<lambda>magic.
      if magic \<noteq> PAGE_TABLE_MAGIC then page_table_error record (''magic does not equal RMOAPG1'' @ [CHR 0x5C, CHR ''n''])
      else rbind (parse_header record bytes) (\<lambda>(page_size, object_len, count).
      rbind (ok_or (Option.bind (checked_mul count 32) (\<lambda>hash_bytes. checked_add hash_bytes 64))
        (ArithmeticOverflow ''page-table parsed byte length'')) (\<lambda>expected_length.
      if length bytes \<noteq> expected_length
      then page_table_error record ''byte length does not match its page count''
      else Ok \<lparr>pt_bytes = bytes, pt_page_size = page_size, pt_object_length = object_len,
          pt_page_count = count, pt_object_digest = or_digest record\<rparr>))))"

definition page_hash :: "page_table \<Rightarrow> u64 \<Rightarrow> digest option" where
  "page_hash table index =
     (if pt_page_count table \<le> index then None
      else Option.bind (Option.bind (checked_mul index 32) (\<lambda>v. checked_add v PAGE_TABLE_HEADER_BYTES)) (\<lambda>offset.
      Option.bind (checked_add offset 32) (\<lambda>finish.
      slice_get (pt_bytes table) offset finish)))"

section \<open>Verifying an object\<close>

text \<open>\<^verbatim>\<open>slice::chunks\<close>, which panics on a zero size.\<close>

function chunks :: "nat \<Rightarrow> 'a list \<Rightarrow> 'a list list" where
  "chunks n xs = (if xs = [] \<or> n = 0 then [] else take n xs # chunks n (drop n xs))"
  by pat_completeness auto
termination by (relation "measure (\<lambda>(n, xs). length xs)") auto

declare chunks.simps [simp del]

definition verify_page ::
  "(u8 list \<Rightarrow> digest) \<Rightarrow> page_table \<Rightarrow> object_record \<Rightarrow> nat \<times> u8 list \<Rightarrow> unit \<Rightarrow> (format_error, unit) result" where
  "verify_page sha table record ip _ = (case ip of (page_index, page) \<Rightarrow>
     if page_hash table page_index \<noteq> Some (sha page) then fail (PageHashMismatch (or_digest record) page_index)
     else Ok ())"

definition verify_object ::
  "(u8 list \<Rightarrow> digest) \<Rightarrow> page_table \<Rightarrow> object_record \<Rightarrow> u8 list \<Rightarrow> (format_error, unit) result" where
  "verify_object sha table record bytes =
     (if length bytes \<noteq> or_length record
      then fail (BlobLengthMismatch ''object'' (or_digest record) (or_length record) (length bytes))
      else if sha bytes \<noteq> or_digest record
      then fail (BlobDigestMismatch ''object'' (or_digest record) (sha bytes))
      else if pt_object_digest table \<noteq> or_digest record \<or> pt_object_length table \<noteq> or_length record \<or>
        pt_page_size table \<noteq> or_page_size record
      then page_table_error record ''verified table is for a different object record''
      else if pt_page_size table = 0 then panic ''chunk size must be non-zero''
      else rfold (verify_page sha table record) (enumerate 0 (chunks (pt_page_size table) bytes)) ())"

section \<open>Artifacts\<close>

record artifact_bytes =
  ab_manifest :: "u8 list"
  ab_objects :: "(digest, u8 list) btree_map"
  ab_page_tables :: "(digest, u8 list) btree_map"

record verified_object =
  vo_bytes :: "u8 list"
  vo_page_table :: page_table

record artifact =
  af_manifest :: manifest
  af_objects :: "(digest, verified_object) btree_map"
  af_retained_payload_bytes :: u64

definition required_eager_bytes :: "manifest \<Rightarrow> (format_error, u64) result" where
  "required_eager_bytes manifest =
     rfold (\<lambda>record total.
       ok_or (Option.bind (checked_add total (or_length record)) (\<lambda>value. checked_add value (or_page_table_length record)))
         (ArithmeticOverflow ''eager artifact memory accounting''))
       (mf_objects manifest) (length (mf_canonical_bytes manifest))"

definition ensure_eager_budget :: "manifest \<Rightarrow> limits \<Rightarrow> (format_error, unit) result" where
  "ensure_eager_budget manifest limits =
     rbind (required_eager_bytes manifest) (\<lambda>required.
     if lm_eager_memory_bytes limits < required
     then fail (MemoryBudgetExceeded required (lm_eager_memory_bytes limits))
     else Ok ())"

record loading =
  ld_objects :: "(digest, verified_object) btree_map"
  ld_object_bytes :: "(digest, u8 list) btree_map"
  ld_page_table_bytes :: "(digest, u8 list) btree_map"

definition verify_record ::
  "(u8 list \<Rightarrow> digest) \<Rightarrow> object_record \<Rightarrow> loading \<Rightarrow> (format_error, loading) result" where
  "verify_record sha record st =
     rbind (ok_or (bt_get (ld_page_table_bytes st) (or_page_table record))
       (MissingBlob ''page table'' (or_page_table record))) (\<lambda>table_bytes.
     rbind (parse_verified sha record table_bytes) (\<lambda>table.
     rbind (ok_or (bt_get (ld_object_bytes st) (or_digest record)) (MissingBlob ''object'' (or_digest record)))
       (\<lambda>bytes.
     rbind (verify_object sha table record bytes) (\<lambda>_.
     Ok \<lparr>ld_objects = bt_insert (or_digest record) \<lparr>vo_bytes = bytes, vo_page_table = table\<rparr> (ld_objects st),
         ld_object_bytes = bt_remove (or_digest record) (ld_object_bytes st),
         ld_page_table_bytes = bt_remove (or_page_table record) (ld_page_table_bytes st)\<rparr>))))"

definition verify_loaded ::
  "(u8 list \<Rightarrow> digest) \<Rightarrow> manifest \<Rightarrow> (digest, u8 list) btree_map \<Rightarrow> (digest, u8 list) btree_map \<Rightarrow> limits
   \<Rightarrow> (format_error, artifact) result" where
  "verify_loaded sha manifest object_bytes page_table_bytes limits =
     rbind (ensure_eager_budget manifest limits) (\<lambda>_.
     rbind (rfold (verify_record sha) (mf_objects manifest)
       \<lparr>ld_objects = [], ld_object_bytes = object_bytes, ld_page_table_bytes = page_table_bytes\<rparr>) (\<lambda>st.
     rbind (required_eager_bytes manifest) (\<lambda>retained.
     Ok \<lparr>af_manifest = manifest, af_objects = ld_objects st, af_retained_payload_bytes = retained\<rparr>)))"

definition parse_expecting ::
  "json_reader \<Rightarrow> (u8 list \<Rightarrow> digest) \<Rightarrow> u8 list \<Rightarrow> limits \<Rightarrow> digest option \<Rightarrow> (format_error, manifest) result" where
  "parse_expecting reader sha bytes limits expected = (case expected of
     Some expected \<Rightarrow> parse_with_expected_id reader sha bytes limits expected
   | None \<Rightarrow> parse_with_limits reader sha bytes limits)"

definition from_bytes_internal ::
  "json_reader \<Rightarrow> (u8 list \<Rightarrow> digest) \<Rightarrow> artifact_bytes \<Rightarrow> limits \<Rightarrow> digest option \<Rightarrow> (format_error, artifact) result"
where
  "from_bytes_internal reader sha parts limits expected =
     rbind (limits_validate limits) (\<lambda>limits.
     rbind (parse_expecting reader sha (ab_manifest parts) limits expected) (\<lambda>manifest.
     rbind (ensure_eager_budget manifest limits) (\<lambda>_.
     verify_loaded sha manifest (ab_objects parts) (ab_page_tables parts) limits)))"

definition artifact_page_table :: "artifact \<Rightarrow> digest \<Rightarrow> page_table option" where
  "artifact_page_table a object = map_option vo_page_table (bt_get (af_objects a) object)"

definition tensor_bytes :: "artifact \<Rightarrow> u64 \<Rightarrow> u8 list option" where
  "tensor_bytes a tid =
     Option.bind (if tid < length (mf_tensors (af_manifest a)) then Some (mf_tensors (af_manifest a) ! tid) else None)
       (\<lambda>descriptor.
     if tr_id descriptor \<noteq> tid then None
     else Option.bind (bt_get (af_objects a) (tr_object descriptor)) (\<lambda>object.
     Option.bind (checked_add (tr_offset descriptor) (tr_length descriptor)) (\<lambda>finish.
     slice_get (vo_bytes object) (tr_offset descriptor) finish)))"

definition tensor_by_role :: "artifact \<Rightarrow> string \<Rightarrow> (tensor_record \<times> u8 list) option" where
  "tensor_by_role a role =
     Option.bind (manifest_tensor_by_role (af_manifest a) role) (\<lambda>descriptor.
     map_option (Pair descriptor) (tensor_bytes a (tr_id descriptor)))"

definition load_tensor :: "artifact \<Rightarrow> string \<Rightarrow> (format_error, u8 list) result" where
  "load_tensor a role = ok_or (map_option snd (tensor_by_role a role)) (UnknownTensorRole role)"

section \<open>Opening a directory\<close>

record opened_file =
  fl_first_metadata :: "string + bool \<times> u64"
  fl_second_metadata :: "string + bool \<times> u64"
  fl_content :: "string + u8 list"

type_synonym file_system = "string list \<Rightarrow> string + opened_file"

definition open_regular :: "file_system \<Rightarrow> string list \<Rightarrow> string \<Rightarrow> (format_error, opened_file) result" where
  "open_regular fs path kind = (case fs path of
     Inl message \<Rightarrow> fail (FormatIo ''opening artifact file'' message)
   | Inr file \<Rightarrow> (case fl_first_metadata file of
       Inl message \<Rightarrow> fail (FormatIo ''reading retained file metadata'' message)
     | Inr (is_file, _) \<Rightarrow> if \<not> is_file then fail (NotRegularFile kind) else Ok file))"

definition read_at_most :: "opened_file \<Rightarrow> u64 \<Rightarrow> string \<Rightarrow> (format_error, u8 list) result" where
  "read_at_most file maximum operation = (case fl_content file of
     Inl message \<Rightarrow> fail (FormatIo operation message)
   | Inr bytes \<Rightarrow> Ok (take maximum bytes))"

definition read_bounded_manifest :: "file_system \<Rightarrow> string list \<Rightarrow> usize \<Rightarrow> (format_error, u8 list) result" where
  "read_bounded_manifest fs path limit =
     rbind (open_regular fs path ''manifest'') (\<lambda>file.
     rbind (read_at_most file (saturating_add limit 1) ''reading manifest'') (\<lambda>bytes.
     if limit < length bytes then fail (ManifestTooLarge (length bytes) limit) else Ok bytes))"

definition read_exact_blob ::
  "file_system \<Rightarrow> string list \<Rightarrow> digest \<Rightarrow> u64 \<Rightarrow> string \<Rightarrow> (format_error, u8 list) result" where
  "read_exact_blob fs path d expected kind =
     rbind (open_regular fs path kind) (\<lambda>file.
     case fl_second_metadata file of
       Inl message \<Rightarrow> fail (FormatIo ''reading retained file metadata'' message)
     | Inr (_, len) \<Rightarrow>
         if len \<noteq> expected then fail (BlobLengthMismatch kind d expected len)
         else rbind (read_at_most file (saturating_add expected 1) ''reading artifact blob'') (\<lambda>bytes.
         if length bytes \<noteq> expected then fail (BlobLengthMismatch kind d expected (length bytes))
         else Ok bytes))"

definition read_record ::
  "file_system \<Rightarrow> string list \<Rightarrow> object_record \<Rightarrow> (digest, u8 list) btree_map \<times> (digest, u8 list) btree_map
   \<Rightarrow> (format_error, (digest, u8 list) btree_map \<times> (digest, u8 list) btree_map) result" where
  "read_record fs root record maps = (case maps of (objects, page_tables) \<Rightarrow>
     rbind (read_exact_blob fs (root @ [''page-tables'', ''sha256'', path_component (or_page_table record)])
       (or_page_table record) (or_page_table_length record) ''page table'') (\<lambda>table_bytes.
     rbind (read_exact_blob fs (root @ [''objects'', ''sha256'', path_component (or_digest record)])
       (or_digest record) (or_length record) ''object'') (\<lambda>object_bytes.
     Ok (bt_insert (or_digest record) object_bytes objects,
         bt_insert (or_page_table record) table_bytes page_tables))))"

definition open_internal ::
  "json_reader \<Rightarrow> (u8 list \<Rightarrow> digest) \<Rightarrow> file_system \<Rightarrow> string list \<Rightarrow> limits \<Rightarrow> digest option
   \<Rightarrow> (format_error, artifact) result" where
  "open_internal reader sha fs root limits expected =
     rbind (limits_validate limits) (\<lambda>limits.
     rbind (read_bounded_manifest fs (root @ [''manifest.json'']) (lm_manifest_bytes limits)) (\<lambda>manifest_bytes.
     rbind (parse_expecting reader sha manifest_bytes limits expected) (\<lambda>manifest.
     rbind (ensure_eager_budget manifest limits) (\<lambda>_.
     rbind (rfold (read_record fs root) (mf_objects manifest) ([], [])) (\<lambda>(objects, page_tables).
     verify_loaded sha manifest objects page_tables limits)))))"

end
