(* ===== verification/Format_Schema.thy ===== *)
theory Format_Schema
  imports Format_Artifact "HOL-Library.Multiset"
begin

text \<open>
  What a validated manifest satisfies. \<open>wf_manifest\<close> collects it: strictly increasing object digests, page
  tables of the right size, tensors with contiguous identifiers and unique roles whose byte ranges partition
  every object, and aggregates within the operator limits. Every parsing function of \<open>Format_Manifest\<close> either
  establishes its part of it or returns an error; none panics.
\<close>

section \<open>Digest text\<close>

lemma hex_value_char: "list_all (\<lambda>k. lowercase_hex_value (of_char (hex_char k)) = Some (word_of_nat k)) [0..<16]"
  by code_simp

lemma lowercase_hex_value_hex_char:
  assumes "k < 16" shows "lowercase_hex_value (of_char (hex_char k)) = Some (word_of_nat k)"
proof -
  have "k \<in> set [0..<16]" using assms by simp
  then show ?thesis using hex_value_char unfolding list_all_iff by blast
qed

lemma nibbles:
  fixes b :: u8
  shows "unat (drop_bit 4 b) < 16" "unat (b AND 0x0f) < 16" "push_bit 4 (drop_bit 4 b) OR (b AND 0x0f) = b"
proof -
  have low: "(0x0f :: u8) = mask 4" by (simp add: mask_eq_exp_minus_1)
  have "unat (drop_bit 4 b) = unat b div 16" by (simp add: drop_bit_eq_div unat_div_distrib)
  moreover have "unat b < 256" using unsigned_less [of b] by simp
  ultimately show "unat (drop_bit 4 b) < 16" by (simp add: div_less_iff_less_mult)
  have "b AND 0x0f \<le> 0x0f" by (rule word_and_le1)
  then show "unat (b AND 0x0f) < 16" by (simp add: word_le_nat_alt)
  show "push_bit 4 (drop_bit 4 b) OR (b AND 0x0f) = b"
    unfolding low by (rule bit_word_eqI) (auto simp: bit_simps)
qed

lemma length_write_hex [simp]: "length (write_hex d) = 2 * length d"
  by (induction d) (auto simp: write_hex_def)

lemma digest_pairs_write_hex: "digest_pairs (as_bytes (write_hex d)) = Ok d"
proof (induction d)
  case (Cons b d)
  have "as_bytes (write_hex (b # d)) =
      of_char (hex_char (unat (drop_bit 4 b))) # of_char (hex_char (unat (b AND 0x0f))) # as_bytes (write_hex d)"
    by (simp add: write_hex_def as_bytes_def)
  then show ?case
    using Cons.IH by (simp add: lowercase_hex_value_hex_char nibbles del: of_nat_unat) (simp add: nibbles)
qed (simp add: write_hex_def as_bytes_def)

lemma digest_from_display: "length d = 32 \<Longrightarrow> digest_from_str (digest_display d) = Ok d"
  by (simp add: digest_from_str_def digest_display_def strip_prefix_def digest_pairs_write_hex)

lemma digest_pairs_wp: "wp graceful (digest_pairs bytes) (\<lambda>d. length d = length bytes div 2)"
  by (induction bytes rule: digest_pairs.induct) (auto elim!: wp_conseq)

lemma digest_from_str_wp: "wp graceful (digest_from_str value) (\<lambda>d. length d = 32)"
proof -
  have "wp graceful (digest_pairs (as_bytes s)) (\<lambda>d. length d = 32)" if "length s = 64" for s
    using digest_pairs_wp [of "as_bytes s"] that by (simp add: as_bytes_def)
  then show ?thesis by (simp add: digest_from_str_def)
qed

section \<open>Accessors\<close>

named_theorems accessor_wps

lemma expect_wps [accessor_wps]:
  "wp graceful (expect_object v p) (\<lambda>m. v = JObject m)"
  "wp graceful (expect_array v p) (\<lambda>vs. v = JArray vs)"
  "wp graceful (expect_string v p) (\<lambda>s. v = JString s)"
  "wp graceful (expect_integer v p) (\<lambda>n. v = JInteger n)"
  by (auto simp: expect_object_def expect_array_def expect_string_def expect_integer_def split: json_value.splits)

lemma required_wp [accessor_wps]: "wp graceful (required members key path) (\<lambda>v. bt_get members key = Some v)"
  by (simp add: required_def)

lemma positive_integer_wp [accessor_wps]: "wp graceful (positive_integer v p) (\<lambda>n. v = JInteger n \<and> 0 < n)"
  unfolding positive_integer_def by (auto intro!: wp_conseq [OF expect_wps(4)])

lemma exact_keys_wp [accessor_wps]: "wp graceful (exact_keys members expected path) (\<lambda>_. True)"
  unfolding exact_keys_def by (auto intro!: wp_rfold_inv)

lemma parse_digest_wp [accessor_wps]: "wp graceful (parse_digest v p) (\<lambda>d. length d = 32)"
proof -
  have "wp graceful (case digest_from_str s of Inl (Err e) \<Rightarrow> schema p (digest_error_text e)
      | Inl (Panic m) \<Rightarrow> panic m | Inr d \<Rightarrow> Ok d) (\<lambda>d. length d = 32)" for s
    using digest_from_str_wp [of s] by (auto simp: graceful_def split: sum.splits failure.splits)
  then show ?thesis unfolding parse_digest_def by (auto intro!: wp_conseq [OF expect_wps(3)])
qed

lemma parse_dtype_wp [accessor_wps]: "wp graceful (parse_dtype v p) (\<lambda>_. True)"
  unfolding parse_dtype_def by (auto intro!: wp_conseq [OF expect_wps(3)])

lemma expect_literal_wps [accessor_wps]:
  "wp graceful (expect_literal_string v s p) (\<lambda>_. v = JString s)"
  "wp graceful (expect_literal_integer v n p) (\<lambda>_. v = JInteger n)"
  unfolding expect_literal_string_def expect_literal_integer_def
  by (auto intro!: wp_conseq [OF expect_wps(3)] wp_conseq [OF expect_wps(4)])

lemma validate_identifier_wp [accessor_wps]: "wp graceful (validate_identifier s p) (\<lambda>_. True)"
  by (simp add: validate_identifier_def)

lemma validate_role_wp [accessor_wps]: "wp graceful (validate_role s p) (\<lambda>_. True)"
  by (simp add: validate_role_def)

text \<open>As rules that step through a chain of accessors.\<close>

lemmas access = accessor_wps [THEN wp_conseq]

section \<open>Adapter, tokenizer and model\<close>

definition wf_adapter :: "adapter \<Rightarrow> bool" where
  "wf_adapter a \<longleftrightarrow> ad_id a = ''runnel.tiny-causal-moe'' \<and> ad_version a \<in> {1, 2}"

definition wf_model :: "tiny_model \<Rightarrow> bool" where
  "wf_model m \<longleftrightarrow> 0 < tm_context_length m \<and> 0 < tm_expert_hidden_size m \<and> 0 < tm_hidden_size m \<and>
     0 < tm_num_heads m \<and> 0 < tm_num_layers m \<and> 0 < tm_top_k m \<and> 0 < tm_vocab_size m \<and>
     tm_top_k m \<le> tm_num_experts m \<and> tm_num_heads m dvd tm_hidden_size m"

lemma parse_adapter_wp: "wp graceful (parse_adapter v) wf_adapter"
  unfolding parse_adapter_def wf_adapter_def by (auto intro!: access)

lemma parse_tokenizer_wp: "wp graceful (parse_tokenizer v) (\<lambda>t. 0 < tk_version t \<and> 0 < tk_vocab_size t)"
  unfolding parse_tokenizer_def by (auto intro!: access)

lemma model_dimension_wp: "wp graceful (model_dimension members key) (\<lambda>n. 0 < n)"
  unfolding model_dimension_def by (auto intro!: access)

lemma parse_model_wp: "wp graceful (parse_model v) wf_model"
  unfolding parse_model_def model_fields_def wf_model_def
  by (auto intro!: access wp_conseq [OF model_dimension_wp])

section \<open>Objects\<close>

definition ceil_div :: "nat \<Rightarrow> nat \<Rightarrow> nat" where
  "ceil_div a b = (a + (b - 1)) div b"

definition wf_object :: "limits \<Rightarrow> object_record \<Rightarrow> bool" where
  "wf_object limits r \<longleftrightarrow> length (or_digest r) = 32 \<and> length (or_page_table r) = 32 \<and>
     0 < or_length r \<and> or_length r \<le> lm_object_bytes limits \<and>
     MIN_PAGE_SIZE \<le> or_page_size r \<and> or_page_size r \<le> MAX_PAGE_SIZE \<and> is_power_of_two (or_page_size r) \<and>
     or_page_table_length r = 64 + 32 * ceil_div (or_length r) (or_page_size r) \<and>
     or_page_table_length r \<le> lm_page_table_bytes limits"

definition wf_objects :: "limits \<Rightarrow> object_record list \<Rightarrow> bool" where
  "wf_objects limits rs \<longleftrightarrow> length rs \<le> lm_objects limits \<and>
     sorted_wrt (<) (map or_digest rs) \<and> distinct (map or_page_table rs) \<and> (\<forall>r\<in>set rs. wf_object limits r) \<and>
     sum_list (map or_length rs) \<le> lm_aggregate_object_bytes limits \<and>
     sum_list (map or_page_table_length rs) \<le> lm_aggregate_page_table_bytes limits"

definition objects_inv :: "limits \<Rightarrow> nat \<Rightarrow> objects_state \<Rightarrow> bool" where
  "objects_inv limits n st \<longleftrightarrow> length (os_records st) = n \<and>
     sorted_wrt (<) (map or_digest (os_records st)) \<and> distinct (map or_page_table (os_records st)) \<and>
     (\<forall>r\<in>set (os_records st). wf_object limits r) \<and>
     os_object_bytes st = sum_list (map or_length (os_records st)) \<and>
     os_object_bytes st \<le> lm_aggregate_object_bytes limits \<and>
     os_page_table_bytes st = sum_list (map or_page_table_length (os_records st)) \<and>
     os_page_table_bytes st \<le> lm_aggregate_page_table_bytes limits \<and>
     bt_wf (os_page_tables st) \<and> dom (bt_get (os_page_tables st)) = or_page_table ` set (os_records st)"

lemma page_count_wp: "wp graceful (page_count len psize) (\<lambda>n. 0 < psize \<and> n = ceil_div len psize)"
  by (auto simp: page_count_def ceil_div_def)

lemma expected_page_table_length_wp:
  "wp graceful (expected_page_table_length len psize) (\<lambda>n. 0 < psize \<and> n = 64 + 32 * ceil_div len psize)"
  unfolding expected_page_table_length_def
  by (auto intro!: wp_conseq [OF page_count_wp] simp: Option.bind_eq_Some_conv)

lemma object_length_wp:
  "wp graceful (object_length limits members path total_bytes)
     (\<lambda>(len, n). 0 < len \<and> len \<le> lm_object_bytes limits \<and> n = total_bytes + len \<and> n \<le> lm_aggregate_object_bytes limits)"
  unfolding object_length_def by (auto intro!: access)

lemma object_page_size_wp:
  "wp graceful (object_page_size members path)
     (\<lambda>n. MIN_PAGE_SIZE \<le> n \<and> n \<le> MAX_PAGE_SIZE \<and> is_power_of_two n)"
  unfolding object_page_size_def by (auto intro!: access)

lemma object_table_length_wp:
  "wp graceful (object_table_length limits members path len psize total_bytes)
     (\<lambda>(n, m). n = 64 + 32 * ceil_div len psize \<and> n \<le> lm_page_table_bytes limits \<and> m = total_bytes + n \<and>
        m \<le> lm_aggregate_page_table_bytes limits)"
  unfolding object_table_length_def by (auto intro!: access wp_conseq [OF expected_page_table_length_wp])

lemma sorted_wrt_snoc_last:
  fixes xs :: "'a::linorder list"
  assumes "sorted_wrt (<) xs" "xs \<noteq> [] \<Longrightarrow> last xs < y"
  shows "sorted_wrt (<) (xs @ [y])"
  using assms by (cases xs rule: rev_cases) (auto simp: sorted_wrt_append intro: less_trans)

lemma parse_object_wp:
  assumes "objects_inv limits n st"
  shows "wp graceful (parse_object limits iv st) (objects_inv limits (Suc n))"
proof -
  have "objects_inv limits (Suc n) \<lparr>os_records = os_records st @ [r], os_page_tables = bt_insert (or_page_table r) () (os_page_tables st),
      os_object_bytes = os_object_bytes st + or_length r, os_page_table_bytes = os_page_table_bytes st + or_page_table_length r\<rparr>"
    if "wf_object limits r" "os_records st = [] \<or> \<not> or_digest r \<le> or_digest (last (os_records st))"
      "bt_get (os_page_tables st) (or_page_table r) \<noteq> Some ()"
      "os_object_bytes st + or_length r \<le> lm_aggregate_object_bytes limits"
      "os_page_table_bytes st + or_page_table_length r \<le> lm_aggregate_page_table_bytes limits" for r
    using that assms sorted_wrt_snoc_last [of "map or_digest (os_records st)" "or_digest r"]
    by (auto simp: objects_inv_def last_map)
  note step = this [of "\<lparr>or_digest = d, or_length = l, or_page_size = p, or_page_table = t, or_page_table_length = m\<rparr>"
      for d l p t m, simplified]
  have first: "objects_inv limits (Suc n) \<lparr>os_records = [r], os_page_tables = pt, os_object_bytes = ob, os_page_table_bytes = tb\<rparr>"
    if "os_records st = []"
      "objects_inv limits (Suc n) \<lparr>os_records = os_records st @ [r], os_page_tables = pt, os_object_bytes = ob, os_page_table_bytes = tb\<rparr>"
    for r pt ob tb using that by simp
  show ?thesis
    unfolding parse_object_def Let_def
    by (auto intro!: access wp_conseq [OF object_length_wp] wp_conseq [OF object_page_size_wp]
        wp_conseq [OF object_table_length_wp] first step split: prod.splits simp: wf_object_def)
qed

lemma parse_objects_wp: "wp graceful (parse_objects value limits) (wf_objects limits)"
proof -
  have "wp graceful (rfold (parse_object limits) (enumerate 0 vs)
      \<lparr>os_records = [], os_page_tables = [], os_object_bytes = 0, os_page_table_bytes = 0\<rparr>) (objects_inv limits (length vs))"
    for vs
    using wp_rfold [of "\<lambda>ys. objects_inv limits (length ys)" _ "enumerate 0 vs" graceful "parse_object limits"]
      parse_object_wp by (auto simp: objects_inv_def [of _ 0])
  note loop = wp_conseq [OF this]
  show ?thesis
    unfolding parse_objects_def by (auto intro!: access loop simp: wf_objects_def objects_inv_def)
qed

section \<open>Tensors\<close>

definition tensor_range :: "tensor_record \<Rightarrow> u64 \<times> u64" where
  "tensor_range t = (tr_offset t, tr_offset t + tr_length t)"

definition in_range :: "nat \<Rightarrow> nat \<times> nat \<Rightarrow> bool" where
  "in_range x r \<longleftrightarrow> fst r \<le> x \<and> x < snd r"

definition tensors_of :: "tensor_record list \<Rightarrow> digest \<Rightarrow> tensor_record list" where
  "tensors_of ts d = filter (\<lambda>t. tr_object t = d) ts"

definition wf_tensor :: "object_record list \<Rightarrow> nat \<Rightarrow> tensor_record \<Rightarrow> bool" where
  "wf_tensor objects i t \<longleftrightarrow> tr_id t = i \<and> 0 < tr_length t \<and>
     1 \<le> length (tr_shape t) \<and> length (tr_shape t) \<le> 8 \<and>
     (\<forall>d\<in>set (tr_shape t). 0 < d \<and> d \<le> MAX_TENSOR_DIMENSION) \<and>
     tr_length t = prod_list (tr_shape t) * byte_width (tr_dtype t) \<and> tr_offset t mod byte_width (tr_dtype t) = 0 \<and>
     (\<exists>r\<in>set objects. or_digest r = tr_object t \<and> tr_offset t + tr_length t \<le> or_length r)"

text \<open>Every byte of every object lies in exactly one tensor.\<close>

definition partitions :: "object_record list \<Rightarrow> tensor_record list \<Rightarrow> bool" where
  "partitions objects ts \<longleftrightarrow> (\<forall>r\<in>set objects. \<forall>x.
     length (filter (\<lambda>t. in_range x (tensor_range t)) (tensors_of ts (or_digest r))) = (if x < or_length r then 1 else 0))"

definition wf_tensors :: "limits \<Rightarrow> object_record list \<Rightarrow> tensor_record list \<Rightarrow> bool" where
  "wf_tensors limits objects ts \<longleftrightarrow> length ts \<le> lm_tensors limits \<and>
     (\<forall>i<length ts. wf_tensor objects i (ts ! i)) \<and> distinct (map tr_role ts) \<and> partitions objects ts"

subsection \<open>Coverage\<close>

fun tiles :: "(nat \<times> nat) list \<Rightarrow> nat \<Rightarrow> nat \<Rightarrow> bool" where
  "tiles [] a b \<longleftrightarrow> a = b"
| "tiles (r # rs) a b \<longleftrightarrow> fst r = a \<and> tiles rs (snd r) b"

lemma cover_wp: "wp graceful (rfold (cover_range d) rs a) (tiles rs a)"
proof (induction rs arbitrary: a)
  case (Cons r rs)
  then show ?case by (cases r) (auto simp: cover_range_def elim: wp_conseq)
qed simp

lemma tiles_ordered: "tiles rs a b \<Longrightarrow> (\<forall>r\<in>set rs. fst r \<le> snd r) \<Longrightarrow> a \<le> b"
  by (induction rs arbitrary: a) (auto, fastforce)

lemma tiles_count:
  "tiles rs a b \<Longrightarrow> (\<forall>r\<in>set rs. fst r \<le> snd r) \<Longrightarrow> length (filter (in_range x) rs) = (if a \<le> x \<and> x < b then 1 else 0)"
proof (induction rs arbitrary: a)
  case (Cons r rs)
  then have "length (filter (in_range x) rs) = (if snd r \<le> x \<and> x < b then 1 else 0)" "snd r \<le> b"
    using tiles_ordered [of rs "snd r" b] by auto
  then show ?case using Cons.prems by (auto simp: in_range_def [of x r])
qed simp

lemma length_filter_sort: "length (filter P (sort xs)) = length (filter P xs)"
  by (metis mset_filter mset_sort size_mset)

definition covered :: "object_record \<Rightarrow> (u64 \<times> u64) list \<Rightarrow> bool" where
  "covered r rs \<longleftrightarrow> tiles (sort rs) 0 (or_length r)"

lemma coverage_wp:
  "wp graceful (validate_tensor_coverage objects ranges)
     (\<lambda>_. \<forall>r\<in>set objects. covered r (range_list ranges (or_digest r)))"
  unfolding validate_tensor_coverage_def
  by (rule wp_conseq [OF wp_rfold [of "\<lambda>rs _. \<forall>r\<in>set rs. covered r (range_list ranges (or_digest r))"]])
    (auto intro!: wp_conseq [OF cover_wp] simp: covered_def)

subsection \<open>Parsing\<close>

definition shape_inv :: "nat \<Rightarrow> u32 list \<times> u64 \<Rightarrow> bool" where
  "shape_inv n acc \<longleftrightarrow> length (fst acc) = n \<and> snd acc = prod_list (fst acc) \<and>
     (\<forall>d\<in>set (fst acc). 0 < d \<and> d \<le> MAX_TENSOR_DIMENSION)"

lemma parse_dimension_wp: "shape_inv n acc \<Longrightarrow> wp graceful (parse_dimension path iv acc) (shape_inv (Suc n))"
  unfolding parse_dimension_def Let_def
  by (auto intro!: access simp: shape_inv_def mult.commute split: prod.splits)

lemma parse_shape_wp:
  "wp graceful (parse_shape members path) (\<lambda>(shape, elements). elements = prod_list shape \<and> 1 \<le> length shape \<and>
     length shape \<le> 8 \<and> (\<forall>d\<in>set shape. 0 < d \<and> d \<le> MAX_TENSOR_DIMENSION))"
proof -
  have "wp graceful (rfold (parse_dimension path) (enumerate 0 vs) ([], 1)) (shape_inv (length vs))" for vs
    using wp_rfold [of "\<lambda>ys. shape_inv (length ys)" "([], 1)" "enumerate 0 vs" graceful "parse_dimension path"]
      parse_dimension_wp by (auto simp: shape_inv_def [of 0])
  note loop = wp_conseq [OF this, unfolded One_nat_def]
  show ?thesis
    unfolding parse_shape_def by (auto intro!: access loop simp: shape_inv_def)
qed

lemma tensor_identity_wp: "wp graceful (tensor_identity members path index) (\<lambda>n. n = index)"
  unfolding tensor_identity_def by (auto intro!: access)

lemma tensor_offset_wp: "wp graceful (tensor_offset members path dt) (\<lambda>n. n mod byte_width dt = 0)"
  unfolding tensor_offset_def by (auto intro!: access)

lemma not_Some_unit: "m \<noteq> Some () \<longleftrightarrow> m = None"
  by (cases m) auto

lemma tensor_role_wp: "wp graceful (tensor_role members path roles) (\<lambda>r. bt_get roles r = None)"
  unfolding tensor_role_def by (auto intro!: access simp: not_Some_unit)

lemma tensor_end_wp:
  "wp graceful (tensor_end path dt len elements offset object_len)
     (\<lambda>n. len = elements * byte_width dt \<and> n = offset + len \<and> n \<le> object_len)"
  unfolding tensor_end_def by auto

definition tensors_inv :: "object_record list \<Rightarrow> nat \<Rightarrow> tensors_state \<Rightarrow> bool" where
  "tensors_inv objects n st \<longleftrightarrow> length (ts_tensors st) = n \<and>
     (\<forall>i<n. wf_tensor objects i (ts_tensors st ! i)) \<and> distinct (map tr_role (ts_tensors st)) \<and>
     bt_wf (ts_roles st) \<and> dom (bt_get (ts_roles st)) = tr_role ` set (ts_tensors st) \<and> bt_wf (ts_ranges st) \<and>
     (\<forall>d. range_list (ts_ranges st) d = map tensor_range (tensors_of (ts_tensors st) d))"

lemma tensors_inv_snoc:
  assumes "tensors_inv objects n st" "wf_tensor objects n t" "bt_get (ts_roles st) (tr_role t) = None"
  shows "tensors_inv objects (Suc n)
    \<lparr>ts_ranges = bt_insert (tr_object t) (range_list (ts_ranges st) (tr_object t) @ [tensor_range t]) (ts_ranges st),
     ts_roles = bt_insert (tr_role t) () (ts_roles st), ts_tensors = ts_tensors st @ [t]\<rparr>"
proof -
  have "tr_role t \<notin> tr_role ` set (ts_tensors st)"
    using assms(1,3) by (auto simp: tensors_inv_def domIff)
  then show ?thesis
    using assms by (auto simp: tensors_inv_def nth_append less_Suc_eq range_list_def tensors_of_def)
qed

lemma parse_tensor_wp:
  assumes "tensors_inv objects index st"
    and "\<And>d n. bt_get object_lengths d = Some n \<Longrightarrow> \<exists>r\<in>set objects. or_digest r = d \<and> or_length r = n"
  shows "wp graceful (parse_tensor object_lengths (index, v) st) (tensors_inv objects (Suc index))"
proof -
  note snoc = tensors_inv_snoc [OF assms(1), of "\<lparr>tr_dtype = dt, tr_id = i, tr_length = l, tr_object = d,
      tr_offset = off, tr_role = r, tr_shape = sh\<rparr>" for dt i l d off r sh, simplified]
  have step: "tensors_inv objects (Suc index)
      \<lparr>ts_ranges = bt_insert d (range_list (ts_ranges st) d @ [(off, off + l)]) (ts_ranges st),
       ts_roles = bt_insert r () (ts_roles st), ts_tensors = ts_tensors st @ [\<lparr>tr_dtype = dt, tr_id = index,
         tr_length = l, tr_object = d, tr_offset = off, tr_role = r, tr_shape = sh\<rparr>]\<rparr>"
    if "bt_get object_lengths d = Some n" "off + l \<le> n" "off mod byte_width dt = 0" "bt_get (ts_roles st) r = None"
      "0 < l" "l = prod_list sh * byte_width dt" "1 \<le> length sh" "length sh \<le> 8"
      "\<forall>d\<in>set sh. 0 < d \<and> d \<le> MAX_TENSOR_DIMENSION" for d off l r dt sh n
    using snoc [of dt index l d off r sh] assms(2) [OF that(1)] that(2-) by (auto simp: wf_tensor_def tensor_range_def)
  show ?thesis
    unfolding parse_tensor_def Let_def
    by (auto intro!: access wp_conseq [OF tensor_identity_wp] wp_conseq [OF tensor_offset_wp]
        wp_conseq [OF tensor_role_wp] wp_conseq [OF parse_shape_wp] wp_conseq [OF tensor_end_wp] step)
qed

lemma object_lengths_get:
  assumes "bt_get (fold (\<lambda>r m. bt_insert (or_digest r) (or_length r) m) objects []) d = Some n"
  shows "\<exists>r\<in>set objects. or_digest r = d \<and> or_length r = n"
proof -
  have "bt_wf m \<and> (\<forall>d n. bt_get m d = Some n \<longrightarrow> (\<exists>r\<in>set objects. or_digest r = d \<and> or_length r = n))"
    if "m = fold (\<lambda>r m. bt_insert (or_digest r) (or_length r) m) objects []" for m
    using that by (induction objects arbitrary: m rule: rev_induct) (auto split: if_splits)
  with assms show ?thesis by blast
qed

lemma tensor_range_ordered: "r \<in> set (map tensor_range ts) \<Longrightarrow> fst r \<le> snd r"
  by (auto simp: tensor_range_def)

lemma covered_partitions:
  assumes "\<forall>r\<in>set objects. covered r (map tensor_range (tensors_of ts (or_digest r)))"
  shows "partitions objects ts"
  unfolding partitions_def
proof (intro ballI allI)
  fix r x assume "r \<in> set objects"
  let ?rs = "map tensor_range (tensors_of ts (or_digest r))"
  have "tiles (sort ?rs) 0 (or_length r)" using assms \<open>r \<in> set objects\<close> by (auto simp: covered_def)
  then have "length (filter (in_range x) (sort ?rs)) = (if x < or_length r then 1 else 0)"
    by (subst tiles_count) (auto simp: tensor_range_def)
  then show "length (filter (\<lambda>t. in_range x (tensor_range t)) (tensors_of ts (or_digest r))) = (if x < or_length r then 1 else 0)"
    by (simp add: length_filter_sort filter_map comp_def)
qed

lemma parse_tensors_wp: "wp graceful (parse_tensors value objects limits) (wf_tensors limits objects)"
proof -
  let ?lengths = "fold (\<lambda>r m. bt_insert (or_digest r) (or_length r) m) objects []"
  have "wp graceful (rfold (parse_tensor ?lengths) (enumerate 0 vs) \<lparr>ts_ranges = [], ts_roles = [], ts_tensors = []\<rparr>)
      (tensors_inv objects (length vs))" for vs
  proof -
    have "wp graceful (parse_tensor ?lengths x st) (tensors_inv objects (length (ys @ [x])))"
      if "enumerate 0 vs = ys @ x # zs" "tensors_inv objects (length ys) st" for ys x zs st
    proof -
      have "fst x = length ys"
        using that(1) by (metis add_0 fst_conv length_append length_enumerate less_add_same_cancel1 list.size(4)
            nth_append_length nth_enumerate_eq zero_less_Suc add_Suc_right)
      then show ?thesis
        using parse_tensor_wp [OF that(2), of ?lengths "snd x"] object_lengths_get [of objects] by (cases x) simp
    qed
    then show ?thesis
      using wp_rfold [of "\<lambda>ys. tensors_inv objects (length ys)" _ "enumerate 0 vs" graceful "parse_tensor ?lengths"]
      by (auto simp: tensors_inv_def [of _ 0] tensors_of_def range_list_def)
  qed
  note loop = wp_conseq [OF this]
  have "wf_tensors limits objects (ts_tensors st)"
    if "tensors_inv objects n st" "n \<le> lm_tensors limits"
      "\<forall>r\<in>set objects. covered r (range_list (ts_ranges st) (or_digest r))" for st n
    using that covered_partitions by (auto simp: wf_tensors_def tensors_inv_def)
  then show ?thesis
    unfolding parse_tensors_def Let_def
    by (auto intro!: access loop wp_conseq [OF coverage_wp] simp del: fold_simps)
qed

section \<open>Manifests\<close>

definition wf_manifest :: "limits \<Rightarrow> manifest \<Rightarrow> bool" where
  "wf_manifest limits m \<longleftrightarrow> wf_adapter (mf_adapter m) \<and> wf_model (mf_model m) \<and>
     tk_vocab_size (mf_tokenizer m) = tm_vocab_size (mf_model m) \<and>
     wf_objects limits (mf_objects m) \<and> wf_tensors limits (mf_objects m) (mf_tensors m)"

lemma validate_schema_wp: "wp graceful (validate_schema document limits) (wf_manifest limits)"
  unfolding validate_schema_def
  by (auto intro!: access wp_conseq [OF parse_adapter_wp] wp_conseq [OF parse_model_wp]
      wp_conseq [OF parse_tokenizer_wp] wp_conseq [OF parse_objects_wp] wp_conseq [OF parse_tensors_wp]
      simp: wf_manifest_def)

lemma limits_validate_wp: "wp graceful (limits_validate l) (\<lambda>l'. l' = l \<and> lm_manifest_bytes l \<le> FORMAT_MANIFEST_BYTES \<and>
    lm_objects l \<le> FORMAT_OBJECTS \<and> lm_tensors l \<le> FORMAT_TENSORS \<and> lm_object_bytes l \<le> FORMAT_OBJECT_BYTES \<and>
    lm_aggregate_object_bytes l \<le> FORMAT_AGGREGATE_OBJECT_BYTES \<and> lm_page_table_bytes l \<le> FORMAT_PAGE_TABLE_BYTES \<and>
    lm_aggregate_page_table_bytes l \<le> FORMAT_AGGREGATE_PAGE_TABLE_BYTES)"
  by (simp add: limits_validate_def check_limit_def)

text \<open>The bytes are the canonical form of the one document they were read as, and their hash is the identity.\<close>

definition pinned :: "(u8 list \<Rightarrow> digest) \<Rightarrow> limits \<Rightarrow> u8 list \<Rightarrow> manifest \<Rightarrow> bool" where
  "pinned sha limits bytes m \<longleftrightarrow> mf_artifact_id m = sha bytes \<and> mf_canonical_bytes m = bytes \<and>
     length bytes \<le> lm_manifest_bytes limits \<and>
     (\<exists>document m'. json_ok 1 document \<and> canonical_bytes document = bytes \<and> validate_schema document limits = Ok m' \<and>
        m = m'\<lparr>mf_artifact_id := sha bytes, mf_canonical_bytes := bytes\<rparr>)"

lemma parse_with_limits_wp:
  "wp graceful (parse_with_limits reader sha bytes limits)
     (\<lambda>m. wf_manifest limits m \<and> pinned sha limits bytes m \<and> limits_validate limits = Ok limits)"
proof -
  have "wf_manifest limits (m\<lparr>mf_artifact_id := i, mf_canonical_bytes := b\<rparr>) = wf_manifest limits m" for m i b
    by (simp add: wf_manifest_def)
  then show ?thesis
    unfolding parse_with_limits_def
    by (auto intro!: wp_value [OF limits_validate_wp] wp_value [OF json_parse_wp] wp_value [OF validate_schema_wp]
        simp: pinned_def)
qed

lemma parse_expecting_wp:
  "wp graceful (parse_expecting reader sha bytes limits expected)
     (\<lambda>m. wf_manifest limits m \<and> pinned sha limits bytes m \<and> limits_validate limits = Ok limits \<and>
       (\<forall>d. expected = Some d \<longrightarrow> mf_artifact_id m = d))"
  unfolding parse_expecting_def parse_with_expected_id_def require_artifact_id_def
  by (auto intro!: wp_conseq [OF parse_with_limits_wp] split: option.splits)

end
