(* ===== verification/Format_Verified.thy ===== *)
theory Format_Verified
  imports Format_Schema
begin

text \<open>
  What an opened artifact satisfies: \<open>verified\<close> states that every declared object is present with the
  declared hash and length, that every page matches its page-table entry, and that the retained bytes are
  within the memory budget. Every tensor of a verified artifact then has exactly its declared bytes.
\<close>

section \<open>Pages\<close>

definition page_of :: "nat \<Rightarrow> 'a list \<Rightarrow> nat \<Rightarrow> 'a list" where
  "page_of n xs i = take n (drop (i * n) xs)"

lemma ceil_div_0 [simp]: "0 < n \<Longrightarrow> ceil_div 0 n = 0"
  by (simp add: ceil_div_def)

lemma ceil_div_step: "0 < n \<Longrightarrow> 0 < m \<Longrightarrow> ceil_div m n = Suc (ceil_div (m - n) n)"
proof (cases "n \<le> m")
  case True
  moreover assume "0 < n"
  ultimately have "m + (n - 1) = (m - n + (n - 1)) + n" by simp
  then have "(m + (n - 1)) div n = (m - n + (n - 1) + n) div n" by (rule arg_cong)
  also have "\<dots> = Suc ((m - n + (n - 1)) div n)" using \<open>0 < n\<close> by (simp only: div_add_self2)
  finally show ?thesis unfolding ceil_div_def .
next
  case False
  moreover assume "0 < n" "0 < m"
  ultimately have "(m + (n - 1)) div n = 1" by (intro div_nat_eqI) auto
  with False show ?thesis by (simp add: ceil_div_def)
qed

lemma chunks_pages: "0 < n \<Longrightarrow> chunks n xs = map (page_of n xs) [0..<ceil_div (length xs) n]"
proof (induction n xs rule: chunks.induct)
  case (1 n xs)
  show ?case
  proof (cases "xs = []")
    case True
    with 1(2) show ?thesis by (simp add: chunks.simps)
  next
    case False
    have "[0..<Suc k] = 0 # map Suc [0..<k]" for k by (simp add: upt_conv_Cons map_Suc_upt del: upt_Suc)
    moreover have "chunks n (drop n xs) = map (page_of n (drop n xs)) [0..<ceil_div (length xs - n) n]"
      using 1 False by simp
    moreover have "page_of n (drop n xs) = page_of n xs \<circ> Suc"
      by (auto simp: page_of_def fun_eq_iff add.commute)
    ultimately show ?thesis
      using 1(2) False by (simp add: chunks.simps [of n xs] ceil_div_step page_of_def [of n xs 0])
  qed
qed

lemma concat_pages: "0 < n \<Longrightarrow> concat (chunks n xs) = xs"
proof (induction n xs rule: chunks.induct)
  case (1 n xs)
  then show ?case by (cases "xs = []") (simp_all add: chunks.simps [of n xs] chunks.simps [of n "[]"])
qed

lemma enumerate_upt: "enumerate 0 (map f [0..<n]) = map (\<lambda>i. (i, f i)) [0..<n]"
  by (rule nth_equalityI) (simp_all add: nth_enumerate_eq)

section \<open>Page tables\<close>

definition wf_table :: "object_record \<Rightarrow> page_table \<Rightarrow> bool" where
  "wf_table r t \<longleftrightarrow> pt_page_size t = or_page_size r \<and> pt_object_length t = or_length r \<and>
     pt_object_digest t = or_digest r \<and> pt_page_count t = ceil_div (or_length r) (or_page_size r) \<and>
     length (pt_bytes t) = 64 + 32 * pt_page_count t \<and> length (pt_bytes t) \<le> u64_max"

lemma slice_index_wp: "a \<le> b \<Longrightarrow> b \<le> length xs \<Longrightarrow> slice_index xs a b = Ok (take (b - a) (drop a xs))"
  by (simp add: slice_index_def slice_get_def)

lemma object_page_count_wp:
  "wp graceful (object_page_count r) (\<lambda>n. 0 < or_page_size r \<and> n = ceil_div (or_length r) (or_page_size r))"
  unfolding object_page_count_def by (rule page_count_wp)

lemma parse_header_wp:
  assumes "64 \<le> length bytes"
  shows "wp graceful (parse_header r bytes)
    (\<lambda>(size, len, count). size = or_page_size r \<and> len = or_length r \<and> count = ceil_div (or_length r) (or_page_size r))"
  unfolding parse_header_def read_u32_def read_u64_def
  using assms by (auto simp: slice_index_wp intro!: wp_conseq [OF object_page_count_wp])

lemma parse_verified_wp:
  "wp graceful (parse_verified sha r bytes)
     (\<lambda>t. wf_table r t \<and> pt_bytes t = bytes \<and> sha bytes = or_page_table r \<and> length bytes = or_page_table_length r)"
  unfolding parse_verified_def PAGE_TABLE_HEADER_BYTES_def
  by (auto simp: slice_index_wp wf_table_def Option.bind_eq_Some_conv intro!: wp_conseq [OF parse_header_wp])

lemma page_hash_table:
  assumes "wf_table r t"
  shows "page_hash t i = (if i < pt_page_count t then Some (take 32 (drop (64 + 32 * i) (pt_bytes t))) else None)"
proof (cases "i < pt_page_count t")
  case True
  then have "64 + 32 * i + 32 \<le> length (pt_bytes t)" "length (pt_bytes t) \<le> u64_max"
    using assms by (auto simp: wf_table_def)
  with True show ?thesis
    by (simp add: page_hash_def checked_mul_def checked_add_def PAGE_TABLE_HEADER_BYTES_def slice_get_def ac_simps)
qed (simp add: page_hash_def)

section \<open>Objects\<close>

definition verified_object :: "(u8 list \<Rightarrow> digest) \<Rightarrow> object_record \<Rightarrow> verified_object \<Rightarrow> bool" where
  "verified_object sha r v \<longleftrightarrow> wf_table r (vo_page_table v) \<and> sha (pt_bytes (vo_page_table v)) = or_page_table r \<and>
     length (vo_bytes v) = or_length r \<and> sha (vo_bytes v) = or_digest r \<and>
     (\<forall>i<pt_page_count (vo_page_table v).
        page_hash (vo_page_table v) i = Some (sha (page_of (or_page_size r) (vo_bytes v) i)))"

lemma verify_object_wp:
  assumes "wf_table r t" "0 < or_page_size r"
  shows "wp graceful (verify_object sha t r bytes) (\<lambda>_. length bytes = or_length r \<and> sha bytes = or_digest r \<and>
    (\<forall>i<pt_page_count t. page_hash t i = Some (sha (page_of (or_page_size r) bytes i))))"
proof -
  let ?ps = "enumerate 0 (chunks (or_page_size r) bytes)"
  have "wp graceful (rfold (verify_page sha t r) ?ps ()) (\<lambda>_. \<forall>(i, page)\<in>set ?ps. page_hash t i = Some (sha page))"
    by (rule wp_rfold [of "\<lambda>ps _. \<forall>(i, page)\<in>set ps. page_hash t i = Some (sha page)"])
      (auto simp: verify_page_def split: prod.splits)
  note loop = wp_conseq [OF this]
  have ps: "set ?ps = (\<lambda>i. (i, page_of (or_page_size r) bytes i)) ` {0..<ceil_div (length bytes) (or_page_size r)}"
    using assms(2) by (simp add: chunks_pages enumerate_upt)
  show ?thesis
    unfolding verify_object_def using assms
    by (auto intro!: loop simp del: enumerate_simps simp: ps wf_table_def)
qed

section \<open>Artifacts\<close>

definition loading_inv :: "(u8 list \<Rightarrow> digest) \<Rightarrow> object_record list \<Rightarrow> loading \<Rightarrow> bool" where
  "loading_inv sha rs st \<longleftrightarrow> bt_wf (ld_objects st) \<and> dom (bt_get (ld_objects st)) = or_digest ` set rs \<and>
     (\<forall>r\<in>set rs. \<exists>v. bt_get (ld_objects st) (or_digest r) = Some v \<and> verified_object sha r v)"

lemma verify_record_wp:
  assumes "loading_inv sha rs st" "0 < or_page_size r" "or_digest r \<notin> or_digest ` set rs"
  shows "wp graceful (verify_record sha r st) (loading_inv sha (rs @ [r]))"
proof -
  have "loading_inv sha (rs @ [r]) \<lparr>ld_objects = bt_insert (or_digest r) v (ld_objects st), ld_object_bytes = ob, ld_page_table_bytes = tb\<rparr>"
    if "verified_object sha r v" for v ob tb
    using assms that unfolding loading_inv_def by (auto simp: image_iff)
  then show ?thesis
    unfolding verify_record_def
    using assms(2) by (auto simp: verified_object_def intro!: wp_conseq [OF parse_verified_wp] wp_conseq [OF verify_object_wp])
qed

definition eager_bytes :: "manifest \<Rightarrow> nat" where
  "eager_bytes m = length (mf_canonical_bytes m) + sum_list (map (\<lambda>r. or_length r + or_page_table_length r) (mf_objects m))"

lemma required_eager_bytes_wp:
  "wp graceful (required_eager_bytes m) (\<lambda>n. n = eager_bytes m)"
  unfolding required_eager_bytes_def eager_bytes_def
  by (rule wp_rfold [of "\<lambda>rs n. n = length (mf_canonical_bytes m) + sum_list (map (\<lambda>r. or_length r + or_page_table_length r) rs)"])
    (auto simp: Option.bind_eq_Some_conv)

lemma ensure_eager_budget_wp:
  "wp graceful (ensure_eager_budget m limits) (\<lambda>_. eager_bytes m \<le> lm_eager_memory_bytes limits)"
  unfolding ensure_eager_budget_def by (auto intro!: wp_conseq [OF required_eager_bytes_wp])

definition verified :: "(u8 list \<Rightarrow> digest) \<Rightarrow> limits \<Rightarrow> artifact \<Rightarrow> bool" where
  "verified sha limits a \<longleftrightarrow> wf_manifest limits (af_manifest a) \<and>
     dom (bt_get (af_objects a)) = or_digest ` set (mf_objects (af_manifest a)) \<and>
     (\<forall>r\<in>set (mf_objects (af_manifest a)).
        \<exists>v. bt_get (af_objects a) (or_digest r) = Some v \<and> verified_object sha r v) \<and>
     af_retained_payload_bytes a = eager_bytes (af_manifest a) \<and>
     af_retained_payload_bytes a \<le> lm_eager_memory_bytes limits"

lemma wf_objects_page_size: "wf_objects limits rs \<Longrightarrow> r \<in> set rs \<Longrightarrow> 0 < or_page_size r"
  by (auto simp: wf_objects_def wf_object_def MIN_PAGE_SIZE_def)

lemma verify_records_wp:
  assumes "wf_objects limits rs"
  shows "wp graceful (rfold (verify_record sha) rs \<lparr>ld_objects = [], ld_object_bytes = ob, ld_page_table_bytes = tb\<rparr>)
    (loading_inv sha rs)"
proof (rule wp_rfold [of "loading_inv sha"])
  fix ys r zs st assume rs: "rs = ys @ r # zs" and inv: "loading_inv sha ys st"
  show "wp graceful (verify_record sha r st) (loading_inv sha (ys @ [r]))"
  proof (rule verify_record_wp [OF inv])
    show "0 < or_page_size r" using wf_objects_page_size [OF assms, of r] rs by simp
    have "distinct (map or_digest rs)"
      using assms by (simp add: wf_objects_def strict_sorted_iff)
    then show "or_digest r \<notin> or_digest ` set ys" using rs by auto
  qed
qed (simp add: loading_inv_def)

lemma verify_loaded_wp:
  assumes "wf_manifest limits m"
  shows "wp graceful (verify_loaded sha m ob tb limits) (\<lambda>a. af_manifest a = m \<and> verified sha limits a)"
proof -
  have "wf_objects limits (mf_objects m)" using assms by (simp add: wf_manifest_def)
  note loop = wp_conseq [OF verify_records_wp [OF this]]
  have "verified sha limits \<lparr>af_manifest = m, af_objects = ld_objects st, af_retained_payload_bytes = eager_bytes m\<rparr>"
    if "loading_inv sha (mf_objects m) st" "eager_bytes m \<le> lm_eager_memory_bytes limits" for st
    using that assms unfolding verified_def loading_inv_def by simp
  then show ?thesis
    unfolding verify_loaded_def
    by (auto intro!: wp_conseq [OF ensure_eager_budget_wp] loop wp_conseq [OF required_eager_bytes_wp])
qed

lemma from_bytes_wp:
  "wp graceful (from_bytes_internal reader sha parts limits expected)
     (\<lambda>a. verified sha limits a \<and> pinned sha limits (ab_manifest parts) (af_manifest a) \<and>
       (\<forall>d. expected = Some d \<longrightarrow> mf_artifact_id (af_manifest a) = d))"
  unfolding from_bytes_internal_def
  by (auto intro!: wp_conseq [OF limits_validate_wp] wp_conseq [OF parse_expecting_wp]
      wp_conseq [OF ensure_eager_budget_wp] wp_conseq [OF verify_loaded_wp])

section \<open>Tensors of a verified artifact\<close>

lemma slice_get_some: "a + n \<le> length xs \<Longrightarrow> slice_get xs a (a + n) = Some (take n (drop a xs))"
  by (simp add: slice_get_def)

lemma tensor_bytes_verified:
  assumes v: "verified sha limits a" and i: "i < length (mf_tensors (af_manifest a))"
    and bound: "lm_object_bytes limits \<le> u64_max"
  defines "t \<equiv> mf_tensors (af_manifest a) ! i"
  obtains r vo where "r \<in> set (mf_objects (af_manifest a))" "or_digest r = tr_object t" "verified_object sha r vo"
    "bt_get (af_objects a) (tr_object t) = Some vo"
    "tensor_bytes a i = Some (take (tr_length t) (drop (tr_offset t) (vo_bytes vo)))"
    "tr_offset t + tr_length t \<le> length (vo_bytes vo)"
proof -
  have "wf_tensor (mf_objects (af_manifest a)) i t"
    using v i by (simp add: verified_def wf_manifest_def wf_tensors_def t_def)
  then obtain r where t: "tr_id t = i" and r: "r \<in> set (mf_objects (af_manifest a))" "or_digest r = tr_object t"
    "tr_offset t + tr_length t \<le> or_length r"
    by (auto simp: wf_tensor_def)
  then obtain vo where vo: "bt_get (af_objects a) (tr_object t) = Some vo" "verified_object sha r vo"
    using v by (auto simp: verified_def)
  have "or_length r \<le> u64_max"
    using v r(1) bound by (auto simp: verified_def wf_manifest_def wf_objects_def wf_object_def)
  with r(3) have "tr_offset t + tr_length t \<le> u64_max" by simp
  moreover have len: "tr_offset t + tr_length t \<le> length (vo_bytes vo)"
    using vo(2) r(3) by (simp add: verified_object_def)
  ultimately have "tensor_bytes a i = Some (take (tr_length t) (drop (tr_offset t) (vo_bytes vo)))"
    using i t vo(1) by (simp add: tensor_bytes_def checked_add_def slice_get_some t_def)
  with that [OF r(1,2) vo(2,1)] len show thesis by blast
qed

section \<open>Opening a directory\<close>

lemma open_regular_wp: "wp graceful (open_regular fs path kind) (\<lambda>_. True)"
  by (auto simp: open_regular_def split: sum.splits prod.splits)

lemma read_exact_blob_wp: "wp graceful (read_exact_blob fs path d n kind) (\<lambda>bytes. length bytes = n)"
  unfolding read_exact_blob_def
  by (auto intro!: wp_conseq [OF open_regular_wp] simp: read_at_most_def split: sum.splits)

lemma read_bounded_manifest_wp: "wp graceful (read_bounded_manifest fs path n) (\<lambda>bytes. length bytes \<le> n)"
  unfolding read_bounded_manifest_def
  by (auto intro!: wp_conseq [OF open_regular_wp] simp: read_at_most_def split: sum.splits)

lemma read_record_wp: "wp graceful (read_record fs root r maps) (\<lambda>_. True)"
  unfolding read_record_def
  by (auto intro!: wp_conseq [OF read_exact_blob_wp] split: prod.splits)

lemma open_internal_wp:
  "wp graceful (open_internal reader sha fs root limits expected)
     (\<lambda>a. \<exists>parts. from_bytes_internal reader sha parts limits expected = Ok a)"
proof -
  have verify: "wp graceful (verify_loaded sha m ob tb limits)
      (\<lambda>a. \<exists>parts. from_bytes_internal reader sha parts limits expected = Ok a)"
    if "wf_manifest limits m" "parse_expecting reader sha bytes limits expected = Ok m"
      "limits_validate limits = Ok limits" "ensure_eager_budget m limits = Ok ()" for m ob tb bytes
  proof (rule wp_value [OF verify_loaded_wp [OF that(1)]])
    fix a assume "verify_loaded sha m ob tb limits = Inr a"
    then have "from_bytes_internal reader sha \<lparr>ab_manifest = bytes, ab_objects = ob, ab_page_tables = tb\<rparr> limits expected = Ok a"
      using that by (simp add: from_bytes_internal_def)
    then show "\<exists>parts. from_bytes_internal reader sha parts limits expected = Ok a" by blast
  qed
  have loop: "wp graceful (rfold (read_record fs root) rs s) (\<lambda>_. True)" for rs s
    by (rule wp_rfold_inv) (auto intro: read_record_wp)
  show ?thesis
    unfolding open_internal_def
    by (auto intro!: wp_value [OF limits_validate_wp] wp_conseq [OF read_bounded_manifest_wp]
        wp_value [OF parse_expecting_wp] wp_value [OF ensure_eager_budget_wp] wp_conseq [OF loop] verify)
qed

end
