(* ===== verification/Format_Print.thy ===== *)
theory Format_Print
  imports Format_Verified
begin

text \<open>
  The manifest parser accepts everything it should. \<open>manifest_doc\<close> is the JSON document of a manifest as
  \<^verbatim>\<open>docs/FORMAT.md\<close> lays it out; parsing the document of a well-formed manifest gives the manifest back, so that
  \<open>wf_manifest\<close> describes the accepted manifests exactly, up to the syntax of names.
\<close>

section \<open>Documents\<close>

definition adapter_doc :: "adapter \<Rightarrow> json_value" where
  "adapter_doc a = JObject [(''id'', JString (ad_id a)), (''version'', JInteger (ad_version a))]"

definition tokenizer_doc :: "tokenizer \<Rightarrow> json_value" where
  "tokenizer_doc t = JObject [(''id'', JString (tk_id t)), (''version'', JInteger (tk_version t)),
     (''vocab_size'', JInteger (tk_vocab_size t))]"

definition model_doc :: "tiny_model \<Rightarrow> json_value" where
  "model_doc m = JObject [(''context_length'', JInteger (tm_context_length m)),
     (''expert_hidden_size'', JInteger (tm_expert_hidden_size m)), (''hidden_size'', JInteger (tm_hidden_size m)),
     (''num_experts'', JInteger (tm_num_experts m)), (''num_heads'', JInteger (tm_num_heads m)),
     (''num_layers'', JInteger (tm_num_layers m)), (''top_k'', JInteger (tm_top_k m)),
     (''vocab_size'', JInteger (tm_vocab_size m))]"

definition object_doc :: "object_record \<Rightarrow> json_value" where
  "object_doc r = JObject [(''digest'', JString (digest_display (or_digest r))), (''length'', JInteger (or_length r)),
     (''page_size'', JInteger (or_page_size r)), (''page_table'', JString (digest_display (or_page_table r))),
     (''page_table_length'', JInteger (or_page_table_length r))]"

definition tensor_doc :: "tensor_record \<Rightarrow> json_value" where
  "tensor_doc t = JObject [(''dtype'', JString (dtype_as_str (tr_dtype t))), (''id'', JInteger (tr_id t)),
     (''length'', JInteger (tr_length t)), (''object'', JString (digest_display (tr_object t))),
     (''offset'', JInteger (tr_offset t)), (''role'', JString (tr_role t)),
     (''shape'', JArray (map JInteger (tr_shape t)))]"

definition manifest_doc :: "manifest \<Rightarrow> json_value" where
  "manifest_doc m = JObject [(''adapter'', adapter_doc (mf_adapter m)), (''format'', JString ''rmoa''),
     (''model'', model_doc (mf_model m)), (''objects'', JArray (map object_doc (mf_objects m))),
     (''tensors'', JArray (map tensor_doc (mf_tensors m))), (''tokenizer'', tokenizer_doc (mf_tokenizer m)),
     (''version'', JInteger 1)]"

text \<open>The syntax of the names, which the parser checks and no consumer relies on.\<close>

definition names_ok :: "manifest \<Rightarrow> bool" where
  "names_ok m \<longleftrightarrow> validate_identifier (tk_id (mf_tokenizer m)) ''$.tokenizer.id'' = Ok () \<and>
     0 < tk_version (mf_tokenizer m) \<and> (\<forall>t\<in>set (mf_tensors m). \<forall>path. validate_role (tr_role t) path = Ok ())"

section \<open>Accessors\<close>

lemma exact_keys_ok:
  assumes "set (map fst members) = set expected" shows "exact_keys members expected path = Ok ()"
proof -
  have "rfold (\<lambda>key _. if key \<notin> set expected then schema path (''unknown key '' @ debug_str key) else Ok ()) (bt_keys members) () = Ok ()"
  proof -
    have "set ks \<subseteq> set expected \<Longrightarrow>
        rfold (\<lambda>key _. if key \<notin> set expected then schema path (''unknown key '' @ debug_str key) else Ok ()) ks () = Ok ()" for ks
      by (induction ks) auto
    then show ?thesis using assms by (simp add: bt_keys_def)
  qed
  moreover have "rfold (\<lambda>key _. if bt_get members key = None then schema path (''missing required key '' @ debug_str key) else Ok ()) ks ()
      = Ok ()" if "set ks \<subseteq> set expected" for ks
    using that
  proof (induction ks)
    case (Cons k ks)
    then have "k \<in> fst ` set members" using assms by auto
    then have "bt_get members k \<noteq> None" by (simp add: bt_get_def map_of_eq_None_iff)
    with Cons show ?case by auto
  qed simp
  ultimately show ?thesis by (simp add: exact_keys_def)
qed

lemma parse_digest_ok [simp]: "length d = 32 \<Longrightarrow> parse_digest (JString (digest_display d)) path = Ok d"
  by (simp add: parse_digest_def expect_string_def digest_from_display)

lemma parse_dtype_ok [simp]: "parse_dtype (JString (dtype_as_str d)) path = Ok d"
  by (cases d) (simp_all add: parse_dtype_def expect_string_def)

lemma integer_accessors [simp]:
  "0 < n \<Longrightarrow> positive_integer (JInteger n) path = Ok n" "expect_integer (JInteger n) path = Ok n"
  "expect_object (JObject ms) path = Ok ms" "expect_array (JArray vs) path = Ok vs" "expect_string (JString s) path = Ok s"
  "expect_literal_string (JString s) s path = Ok ()" "expect_literal_integer (JInteger n) n path = Ok ()"
  by (simp_all add: positive_integer_def expect_integer_def expect_object_def expect_array_def expect_string_def
      expect_literal_string_def expect_literal_integer_def)

lemma required_ok [simp]: "bt_get members key = Some v \<Longrightarrow> required members key path = Ok v"
  by (simp add: required_def)

section \<open>Adapter, tokenizer and model\<close>

lemma parse_adapter_ok: "wf_adapter a \<Longrightarrow> parse_adapter (adapter_doc a) = Ok a"
  by (auto simp: parse_adapter_def adapter_doc_def wf_adapter_def exact_keys_ok bt_get_def validate_identifier_def
      is_lower_def is_digit_def)

lemma parse_tokenizer_ok:
  "validate_identifier (tk_id t) ''$.tokenizer.id'' = Ok () \<Longrightarrow> 0 < tk_version t \<Longrightarrow> 0 < tk_vocab_size t
    \<Longrightarrow> parse_tokenizer (tokenizer_doc t) = Ok t"
  by (simp add: parse_tokenizer_def tokenizer_doc_def exact_keys_ok bt_get_def)

lemma parse_model_ok: "wf_model m \<Longrightarrow> parse_model (model_doc m) = Ok m"
  by (auto simp: parse_model_def model_doc_def wf_model_def exact_keys_ok bt_get_def model_fields_def model_dimension_def)

section \<open>Objects\<close>

text \<open>Operator limits within those of the format keep every sum far from the word size.\<close>

definition limits_sane :: "limits \<Rightarrow> bool" where
  "limits_sane l \<longleftrightarrow> lm_object_bytes l \<le> FORMAT_OBJECT_BYTES \<and> lm_aggregate_object_bytes l \<le> FORMAT_AGGREGATE_OBJECT_BYTES \<and>
     lm_page_table_bytes l \<le> FORMAT_PAGE_TABLE_BYTES \<and> lm_aggregate_page_table_bytes l \<le> FORMAT_AGGREGATE_PAGE_TABLE_BYTES"

lemma limits_validate_sane: "limits_validate l = Ok l' \<Longrightarrow> limits_sane l"
  using wp_Inr [OF limits_validate_wp] by (auto simp: limits_sane_def)

lemma sane_bounds:
  assumes "limits_sane l"
  shows "n \<le> lm_object_bytes l \<Longrightarrow> n + 2097152 \<le> u64_max" "n \<le> lm_aggregate_object_bytes l \<Longrightarrow> n \<le> u64_max"
    "n \<le> lm_page_table_bytes l \<Longrightarrow> n \<le> u64_max" "n \<le> lm_aggregate_page_table_bytes l \<Longrightarrow> n \<le> u64_max"
  using assms
  by (simp_all add: limits_sane_def FORMAT_OBJECT_BYTES_def FORMAT_AGGREGATE_OBJECT_BYTES_def FORMAT_PAGE_TABLE_BYTES_def
      FORMAT_AGGREGATE_PAGE_TABLE_BYTES_def u64_max_def)

definition objects_after :: "object_record list \<Rightarrow> objects_state" where
  "objects_after rs = \<lparr>os_records = rs, os_page_tables = fold (\<lambda>r m. bt_insert (or_page_table r) () m) rs [],
     os_object_bytes = sum_list (map or_length rs), os_page_table_bytes = sum_list (map or_page_table_length rs)\<rparr>"

lemma page_tables_after:
  "bt_wf (os_page_tables (objects_after rs)) \<and> dom (bt_get (os_page_tables (objects_after rs))) = or_page_table ` set rs"
  by (induction rs rule: rev_induct) (auto simp: objects_after_def)

lemma expected_page_table_length_ok:
  assumes "limits_sane l" "wf_object l r"
  shows "expected_page_table_length (or_length r) (or_page_size r) = Ok (or_page_table_length r)"
proof -
  have ps: "1 \<le> or_page_size r" "or_page_size r \<le> 2097152"
    using assms(2) by (simp_all add: wf_object_def MIN_PAGE_SIZE_def MAX_PAGE_SIZE_def)
  have "or_length r + (or_page_size r - 1) \<le> u64_max"
    using sane_bounds(1) [OF assms(1), of "or_length r"] assms(2) ps by (simp add: wf_object_def)
  then have "page_count (or_length r) (or_page_size r) = Ok (ceil_div (or_length r) (or_page_size r))"
    using ps by (simp add: page_count_def checked_sub_def checked_add_def ceil_div_def)
  moreover have "or_page_table_length r \<le> u64_max" "or_page_table_length r = 64 + 32 * ceil_div (or_length r) (or_page_size r)"
    using sane_bounds(3) [OF assms(1), of "or_page_table_length r"] assms(2) by (simp_all add: wf_object_def)
  ultimately show ?thesis by (simp add: expected_page_table_length_def checked_mul_def checked_add_def mult.commute add.commute)
qed

lemma parse_object_ok:
  assumes "limits_sane l" "wf_objects l (rs @ [r])"
  shows "parse_object l (i, object_doc r) (objects_after rs) = Ok (objects_after (rs @ [r]))"
proof -
  have r: "wf_object l r" and sums: "sum_list (map or_length rs) + or_length r \<le> lm_aggregate_object_bytes l"
    "sum_list (map or_page_table_length rs) + or_page_table_length r \<le> lm_aggregate_page_table_bytes l"
    and fresh: "or_page_table r \<notin> or_page_table ` set rs"
    using assms(2) by (auto simp: wf_objects_def)
  have increasing: "rs \<noteq> [] \<Longrightarrow> \<not> or_digest r \<le> or_digest (last rs)"
    using assms(2) last_in_set [of rs] by (auto simp: wf_objects_def sorted_wrt_append not_le)
  have new: "bt_get (os_page_tables (objects_after rs)) (or_page_table r) = None"
    using page_tables_after [of rs] fresh by (metis domIff)
  have len: "0 < or_length r" "or_length r \<le> lm_object_bytes l" "0 < or_page_table_length r" "or_page_table_length r \<le> lm_page_table_bytes l"
    "length (or_digest r) = 32" "length (or_page_table r) = 32" using r by (simp_all add: wf_object_def)
  have size: "0 < or_page_size r" "or_page_size r \<le> u32_max" "MIN_PAGE_SIZE \<le> or_page_size r \<and> or_page_size r \<le> MAX_PAGE_SIZE"
    "is_power_of_two (or_page_size r)" using r by (simp_all add: wf_object_def MIN_PAGE_SIZE_def MAX_PAGE_SIZE_def u32_max_def)
  let ?ms = "[(''digest'', JString (digest_display (or_digest r))), (''length'', JInteger (or_length r)),
     (''page_size'', JInteger (or_page_size r)), (''page_table'', JString (digest_display (or_page_table r))),
     (''page_table_length'', JInteger (or_page_table_length r))]"
  have a: "object_length l ?ms p (sum_list (map or_length rs)) = Ok (or_length r, sum_list (map or_length rs) + or_length r)" for p
    using len sums sane_bounds(2) [OF assms(1) sums(1)] by (simp add: object_length_def bt_get_def checked_add_def)
  have b: "object_page_size ?ms p = Ok (or_page_size r)" for p using size by (simp add: object_page_size_def bt_get_def)
  have c: "object_table_length l ?ms p (or_length r) (or_page_size r) (sum_list (map or_page_table_length rs))
      = Ok (or_page_table_length r, sum_list (map or_page_table_length rs) + or_page_table_length r)" for p
    using len sums sane_bounds(4) [OF assms(1) sums(2)] expected_page_table_length_ok [OF assms(1) r]
    by (simp add: object_table_length_def bt_get_def checked_add_def)
  show ?thesis
    using increasing new len a b c
    by (auto simp: parse_object_def object_doc_def exact_keys_ok bt_get_def Let_def objects_after_def)
qed

lemma wf_objects_prefix: "wf_objects l (rs @ qs) \<Longrightarrow> wf_objects l rs"
  by (auto simp: wf_objects_def sorted_wrt_append)

lemma parse_objects_ok:
  assumes "limits_sane l" "wf_objects l rs"
  shows "parse_objects (JArray (map object_doc rs)) l = Ok rs"
proof -
  have "wf_objects l rs \<Longrightarrow> rfold (parse_object l) (enumerate 0 (map object_doc rs)) (objects_after []) = Ok (objects_after rs)"
  proof (induction rs rule: rev_induct)
    case (snoc r rs)
    then show ?case
      using parse_object_ok [OF assms(1) snoc.prems] wf_objects_prefix [OF snoc.prems]
      by (simp add: rfold_append enumerate_append_eq)
  qed simp
  then show ?thesis
    using assms(2) by (simp add: parse_objects_def objects_after_def wf_objects_def)
qed

section \<open>Tensors\<close>

lemma prod_list_prefix: "(\<forall>d\<in>set (ds @ es). 0 < d) \<Longrightarrow> prod_list ds \<le> prod_list (ds @ es)" for ds :: "nat list"
  by (induction es) auto

lemma parse_dimensions_ok:
  assumes "\<forall>d\<in>set ds. 0 < d \<and> d \<le> MAX_TENSOR_DIMENSION" "prod_list ds \<le> u64_max"
  shows "rfold (parse_dimension path) (enumerate 0 (map JInteger ds)) ([], 1) = Ok (ds, prod_list ds)"
  using assms
proof (induction ds rule: rev_induct)
  case (snoc d ds)
  then have "prod_list ds \<le> prod_list (ds @ [d])" by (intro prod_list_prefix) auto
  then have fits: "prod_list ds \<le> u64_max" using snoc.prems(2) by linarith
  have "d \<le> u32_max" using snoc.prems(1) by (simp add: MAX_TENSOR_DIMENSION_def u32_max_def)
  then show ?case
    using snoc fits by (simp add: rfold_append enumerate_append_eq parse_dimension_def Let_def checked_mul_def)
qed simp

definition tensors_after :: "tensor_record list \<Rightarrow> tensors_state" where
  "tensors_after ts =
     \<lparr>ts_ranges = fold (\<lambda>t m. bt_insert (tr_object t) (range_list m (tr_object t) @ [tensor_range t]) m) ts [],
      ts_roles = fold (\<lambda>t m. bt_insert (tr_role t) () m) ts [], ts_tensors = ts\<rparr>"

definition listed :: "object_record list \<Rightarrow> tensor_record list \<Rightarrow> bool" where
  "listed objects ts \<longleftrightarrow> (\<forall>i<length ts. wf_tensor objects i (ts ! i)) \<and> distinct (map tr_role ts)"

lemma listed_prefix: "listed objects (ts @ us) \<Longrightarrow> listed objects ts"
  by (auto simp: listed_def nth_append split: if_splits)

lemma tensors_after_inv: "listed objects ts \<Longrightarrow> tensors_inv objects (length ts) (tensors_after ts)"
proof (induction ts rule: rev_induct)
  case (snoc t ts)
  then have IH: "tensors_inv objects (length ts) (tensors_after ts)" using listed_prefix by blast
  have t: "wf_tensor objects (length ts) t" "tr_role t \<notin> tr_role ` set ts"
    using snoc.prems by (auto simp: listed_def dest: spec [of _ "length ts"])
  have "bt_get (ts_roles (tensors_after ts)) (tr_role t) = None"
    using IH t(2) by (auto simp: tensors_inv_def tensors_after_def domIff)
  from tensors_inv_snoc [OF IH t(1) this] show ?case by (simp add: tensors_after_def)
qed (simp add: tensors_inv_def tensors_after_def tensors_of_def range_list_def)

definition object_lengths :: "object_record list \<Rightarrow> (digest, u64) btree_map" where
  "object_lengths objects = fold (\<lambda>r m. bt_insert (or_digest r) (or_length r) m) objects []"

lemma object_lengths_known:
  assumes "distinct (map or_digest objects)" "r \<in> set objects"
  shows "bt_get (object_lengths objects) (or_digest r) = Some (or_length r)"
proof -
  have "bt_wf (object_lengths objects) \<and> (\<forall>r\<in>set objects. bt_get (object_lengths objects) (or_digest r) = Some (or_length r))"
    using assms(1) unfolding object_lengths_def
    by (induction objects rule: rev_induct) (auto simp: image_iff)
  with assms(2) show ?thesis by blast
qed

lemma parse_tensor_ok:
  assumes "listed objects (ts @ [t])" "distinct (map or_digest objects)" "\<forall>path. validate_role (tr_role t) path = Ok ()"
    "\<forall>r\<in>set objects. or_length r \<le> u64_max \<and> length (or_digest r) = 32"
  shows "parse_tensor (object_lengths objects) (length ts, tensor_doc t) (tensors_after ts) = Ok (tensors_after (ts @ [t]))"
proof -
  have wf: "wf_tensor objects (length ts) t" and fresh: "tr_role t \<notin> tr_role ` set ts"
    using assms(1) by (auto simp: listed_def dest: spec [of _ "length ts"])
  then obtain r where r: "r \<in> set objects" "or_digest r = tr_object t" "tr_offset t + tr_length t \<le> or_length r"
    by (auto simp: wf_tensor_def)
  have len: "bt_get (object_lengths objects) (tr_object t) = Some (or_length r)" "length (tr_object t) = 32"
    "tr_offset t + tr_length t \<le> u64_max"
    using object_lengths_known [OF assms(2) r(1)] r assms(4) by auto
  have "tensors_inv objects (length ts) (tensors_after ts)" using assms(1) by (intro tensors_after_inv) (rule listed_prefix)
  then have role: "bt_get (ts_roles (tensors_after ts)) (tr_role t) = None"
    using fresh by (auto simp: tensors_inv_def tensors_after_def domIff)
  have t: "tr_id t = length ts" "0 < tr_length t" "tr_length t = prod_list (tr_shape t) * byte_width (tr_dtype t)"
    "tr_offset t mod byte_width (tr_dtype t) = 0" "1 \<le> length (tr_shape t) \<and> length (tr_shape t) \<le> 8"
    "\<forall>d\<in>set (tr_shape t). 0 < d \<and> d \<le> MAX_TENSOR_DIMENSION" using wf by (auto simp: wf_tensor_def)
  have "prod_list (tr_shape t) \<le> tr_length t" using t(3) by (cases "tr_dtype t") simp_all
  then have fits: "prod_list (tr_shape t) \<le> u64_max" "tr_length t \<le> u64_max" using len(3) by simp_all
  let ?ms = "[(''dtype'', JString (dtype_as_str (tr_dtype t))), (''id'', JInteger (length ts)),
     (''length'', JInteger (tr_length t)), (''object'', JString (digest_display (tr_object t))),
     (''offset'', JInteger (tr_offset t)), (''role'', JString (tr_role t)), (''shape'', JArray (map JInteger (tr_shape t)))]"
  have a: "tensor_identity ?ms p (length ts) = Ok (length ts)" for p by (simp add: tensor_identity_def bt_get_def)
  have b: "tensor_offset ?ms p (tr_dtype t) = Ok (tr_offset t)" for p using t(4) by (simp add: tensor_offset_def bt_get_def)
  have c: "tensor_role ?ms p (ts_roles (tensors_after ts)) = Ok (tr_role t)" for p
    using role assms(3) by (simp add: tensor_role_def bt_get_def)
  have d: "parse_shape ?ms p = Ok (tr_shape t, prod_list (tr_shape t))" for p
    using parse_dimensions_ok [OF t(6) fits(1)] t(5) by (simp add: parse_shape_def bt_get_def)
  have e: "tensor_end p (tr_dtype t) (tr_length t) (prod_list (tr_shape t)) (tr_offset t) (or_length r) = Ok (tr_offset t + tr_length t)" for p
    using r(3) len(3) fits(2) t(3) by (simp add: tensor_end_def checked_mul_def checked_add_def)
  have self: "\<lparr>tr_dtype = tr_dtype t, tr_id = length ts, tr_length = tr_length t, tr_object = tr_object t, tr_offset = tr_offset t,
      tr_role = tr_role t, tr_shape = tr_shape t\<rparr> = t" using t(1) by (cases t) simp
  show ?thesis
    unfolding parse_tensor_def Let_def tensor_doc_def t(1)
    using a b c d e len t(2)
    by (simp add: exact_keys_ok bt_get_def [of ?ms] del: length_greater_0_conv)
      (simp add: tensors_after_def tensor_range_def self)
qed

text \<open>Ranges that cover every byte once follow one another when sorted.\<close>

lemma counted_tiles:
  assumes "sorted rs" "\<forall>r\<in>set rs. fst r < snd r" "a \<le> b"
    and "\<And>x. length (filter (in_range x) rs) = (if a \<le> x \<and> x < b then 1 else 0)"
  shows "tiles rs a b"
  using assms
proof (induction rs arbitrary: a)
  case Nil
  then show ?case using Nil(4) [of a] by (auto split: if_splits)
next
  case (Cons r rs)
  have own: "in_range (fst r) r" "in_range (snd r - 1) r" using Cons.prems(2) by (auto simp: in_range_def)
  have inside: "a \<le> x \<and> x < b" if "in_range x r" for x using Cons.prems(4) [of x] that by (auto split: if_splits)
  have first: "fst r = a"
  proof -
    have "a < b" using inside [OF own(1)] by simp
    then have "filter (in_range a) (r # rs) \<noteq> []" using Cons.prems(4) [of a] by fastforce
    then obtain q where "q \<in> set (r # rs)" "in_range a q" unfolding filter_empty_conv by blast
    moreover from this(1) have "r \<le> q" using Cons.prems(1) by auto
    then have "fst r \<le> fst q" by (auto simp: less_eq_prod_def)
    ultimately show ?thesis using inside [OF own(1)] by (simp add: in_range_def)
  qed
  have "tiles rs (snd r) b"
  proof (rule Cons.IH)
    show "snd r \<le> b" using inside [OF own(2)] by linarith
    show "length (filter (in_range x) rs) = (if snd r \<le> x \<and> x < b then 1 else 0)" for x
      using Cons.prems(4) [of x] Cons.prems(2) first by (auto simp: in_range_def [of x r] split: if_splits)
  qed (use Cons.prems in auto)
  with first show ?case by simp
qed

lemma cover_ok: "tiles rs a b \<Longrightarrow> rfold (cover_range d) rs a = Ok b"
  by (induction rs arbitrary: a) (auto simp: cover_range_def split: prod.splits)

lemma parse_tensors_ok:
  assumes "limits_sane l" "wf_objects l objects" "wf_tensors l objects ts"
    "\<forall>t\<in>set ts. \<forall>path. validate_role (tr_role t) path = Ok ()"
  shows "parse_tensors (JArray (map tensor_doc ts)) objects l = Ok ts"
proof -
  have distinct: "distinct (map or_digest objects)" using assms(2) by (simp add: wf_objects_def strict_sorted_iff)
  have small: "\<forall>r\<in>set objects. or_length r \<le> u64_max \<and> length (or_digest r) = 32"
    using assms(2) sane_bounds(1) [OF assms(1)] by (fastforce simp: wf_objects_def wf_object_def)
  have listed: "listed objects ts" using assms(3) by (simp add: wf_tensors_def listed_def)
  have "rfold (parse_tensor (object_lengths objects)) (enumerate 0 (map tensor_doc us)) (tensors_after []) = Ok (tensors_after us)"
    if "listed objects us" "set us \<subseteq> set ts" for us
    using that
  proof (induction us rule: rev_induct)
    case (snoc t us)
    then show ?case
      using parse_tensor_ok [OF snoc.prems(1) distinct _ small] assms(4) listed_prefix [OF snoc.prems(1)]
      by (simp add: rfold_append enumerate_append_eq)
  qed simp
  from this [OF listed subset_refl]
  have loop: "rfold (parse_tensor (object_lengths objects)) (enumerate 0 (map tensor_doc ts))
      \<lparr>ts_ranges = [], ts_roles = [], ts_tensors = []\<rparr> = Ok (tensors_after ts)" by (simp add: tensors_after_def)
  have ranges: "range_list (ts_ranges (tensors_after ts)) d = map tensor_range (tensors_of ts d)" for d
    using tensors_after_inv [OF listed] by (simp add: tensors_inv_def tensors_after_def)
  have tiled: "tiles (sort (map tensor_range (tensors_of ts (or_digest r)))) 0 (or_length r)" if "r \<in> set objects" for r
  proof (rule counted_tiles)
    let ?rs = "map tensor_range (tensors_of ts (or_digest r))"
    show "\<forall>q\<in>set (sort ?rs). fst q < snd q"
      using listed by (auto simp: tensors_of_def tensor_range_def listed_def wf_tensor_def in_set_conv_nth)
    show "length (filter (in_range x) (sort ?rs)) = (if 0 \<le> x \<and> x < or_length r then 1 else 0)" for x
      using assms(3) that by (simp add: wf_tensors_def partitions_def length_filter_sort filter_map comp_def)
  qed simp_all
  have "validate_tensor_coverage rs (ts_ranges (tensors_after ts)) = Ok ()" if "set rs \<subseteq> set objects" for rs
    using that unfolding validate_tensor_coverage_def ranges by (induction rs) (simp_all add: cover_ok [OF tiled])
  then show ?thesis
    using assms(3) loop
    by (simp add: parse_tensors_def object_lengths_def [symmetric] wf_tensors_def) (simp add: tensors_after_def)
qed

section \<open>The manifest\<close>

lemma validate_schema_ok:
  assumes "limits_sane l" "wf_manifest l m" "names_ok m"
  shows "validate_schema (manifest_doc m) l = Ok (m\<lparr>mf_artifact_id := replicate 32 0, mf_canonical_bytes := []\<rparr>)"
proof -
  have "0 < tk_vocab_size (mf_tokenizer m)" using assms(2) by (simp add: wf_manifest_def wf_model_def)
  then have t: "parse_tokenizer (tokenizer_doc (mf_tokenizer m)) = Ok (mf_tokenizer m)"
    using assms(3) by (intro parse_tokenizer_ok) (simp_all add: names_ok_def)
  have "parse_objects (JArray (map object_doc (mf_objects m))) l = Ok (mf_objects m)"
    "parse_tensors (JArray (map tensor_doc (mf_tensors m))) (mf_objects m) l = Ok (mf_tensors m)"
    "parse_adapter (adapter_doc (mf_adapter m)) = Ok (mf_adapter m)" "parse_model (model_doc (mf_model m)) = Ok (mf_model m)"
    using assms parse_objects_ok parse_tensors_ok parse_adapter_ok parse_model_ok by (simp_all add: wf_manifest_def names_ok_def)
  with t assms(2) show ?thesis
    by (simp add: validate_schema_def manifest_doc_def exact_keys_ok bt_get_def wf_manifest_def)
qed

text \<open>
  A reader that reports the events of a document for its canonical text, as \<^verbatim>\<open>serde_json\<close> documents.
\<close>

definition reads_canonical :: "json_reader \<Rightarrow> json_value \<Rightarrow> bool" where
  "reads_canonical reader v \<longleftrightarrow> reader (canonical_bytes v) = (serde_events v, None)"

lemma json_parse_canonical: "json_ok 1 v \<Longrightarrow> reads_canonical reader v \<Longrightarrow> json_parse reader (canonical_bytes v) = Ok v"
  by (simp add: json_parse_def reads_canonical_def deserialize_events)

lemma parse_printed:
  assumes "limits_validate l = Ok l" "wf_manifest l m" "names_ok m" "json_ok 1 (manifest_doc m)" "reads_canonical reader (manifest_doc m)"
    "length (canonical_bytes (manifest_doc m)) \<le> lm_manifest_bytes l"
  shows "parse_with_limits reader sha (canonical_bytes (manifest_doc m)) l
    = Ok (m\<lparr>mf_artifact_id := sha (canonical_bytes (manifest_doc m)), mf_canonical_bytes := canonical_bytes (manifest_doc m)\<rparr>)"
  using assms validate_schema_ok [OF limits_validate_sane [OF assms(1)] assms(2,3)]
  by (simp add: parse_with_limits_def json_parse_canonical)

end
