(* ===== verification/Format_Properties.thy ===== *)
theory Format_Properties
  imports Format_Print
begin

text \<open>
  The properties of \<^verbatim>\<open>crates/runnel-format\<close>: what an accepted manifest and an opened artifact guarantee, and that
  the text forms of manifests and digests are unique.
\<close>

section \<open>Text forms\<close>

lemma hex_value_unique:
  assumes "lowercase_hex_value (of_char c) = Some v" shows "c = hex_char (unat v) \<and> unat v < 16"
proof -
  have "list_all (\<lambda>n. case lowercase_hex_value (of_nat n) of None \<Rightarrow> True
      | Some v \<Rightarrow> of_nat n = (of_char (hex_char (unat v)) :: u8) \<and> unat v < 16) [0..<256]" by code_simp
  moreover have "unat (of_char c :: u8) \<in> set [0..<256]" using unsigned_less [of "of_char c :: u8"] by simp
  ultimately have "case lowercase_hex_value (of_nat (unat (of_char c :: u8))) of None \<Rightarrow> True
      | Some v \<Rightarrow> of_nat (unat (of_char c :: u8)) = (of_char (hex_char (unat v)) :: u8) \<and> unat v < 16"
    unfolding list_all_iff by blast
  then show ?thesis using assms by (simp only: of_nat_unat ucast_id option.case) simp
qed

lemma nibbles_joined:
  fixes h l :: u8
  assumes "unat h < 16" "unat l < 16"
  shows "drop_bit 4 (push_bit 4 h OR l) = h" "(push_bit 4 h OR l) AND 0x0f = l"
proof -
  have "list_all (\<lambda>m. list_all (\<lambda>n. drop_bit 4 (push_bit 4 (of_nat m) OR of_nat n :: u8) = of_nat m \<and>
      (push_bit 4 (of_nat m) OR of_nat n :: u8) AND 0x0f = of_nat n) [0..<16]) [0..<16]" by code_simp
  moreover have "unat h \<in> set [0..<16]" "unat l \<in> set [0..<16]" using assms by simp_all
  ultimately have "drop_bit 4 (push_bit 4 (of_nat (unat h)) OR of_nat (unat l) :: u8) = of_nat (unat h) \<and>
      (push_bit 4 (of_nat (unat h)) OR of_nat (unat l) :: u8) AND 0x0f = of_nat (unat l)"
    unfolding list_all_iff by blast
  then show "drop_bit 4 (push_bit 4 h OR l) = h" "(push_bit 4 h OR l) AND 0x0f = l"
    by (simp_all only: of_nat_unat ucast_id)
qed

lemma write_hex_digest_pairs: "digest_pairs (as_bytes s) = Ok d \<Longrightarrow> even (length s) \<Longrightarrow> write_hex d = s"
proof (induction s arbitrary: d rule: induct_list012)
  case (3 a b s)
  then obtain h l d' where h: "lowercase_hex_value (of_char a) = Some h" "lowercase_hex_value (of_char b) = Some l"
    "digest_pairs (as_bytes s) = Ok d'" "d = (push_bit 4 h OR l) # d'"
    by (auto simp: as_bytes_def)
  moreover have "a = hex_char (unat h) \<and> unat h < 16" "b = hex_char (unat l) \<and> unat l < 16"
    using h(1,2) hex_value_unique by blast+
  moreover have "write_hex d' = s" using 3 h(3) by simp
  ultimately show ?case
    using nibbles_joined [of h l] by (simp add: write_hex_def del: drop_bit_or bit.conj_disj_distrib2)
qed (auto simp: as_bytes_def write_hex_def)

lemma strip_prefix_append: "strip_prefix p s = Some r \<Longrightarrow> s = p @ r"
  by (simp add: strip_prefix_def split: if_splits) (metis append_take_drop_id)

text \<open>
  C31: The text form of a digest is unique: a digest of 32 bytes is read back from its text, and a text that is accepted
  is the text of the digest it gives. Nothing else (upper case, a missing prefix, another length) is accepted.
\<close>

theorem digest_text_unique:
  assumes "length d = 32"
  shows "digest_from_str s = Ok d \<longleftrightarrow> s = digest_display d"
proof
  assume "digest_from_str s = Ok d"
  then obtain h where h: "strip_prefix ''sha256:'' s = Some h" "length h = 64" "digest_pairs (as_bytes h) = Ok d"
    by (auto simp: digest_from_str_def split: if_splits)
  from strip_prefix_append [OF h(1)]
  have "s = ''sha256:'' @ h" .
  with write_hex_digest_pairs [OF h(3)] h(2) show "s = digest_display d" by (simp add: digest_display_def)
qed (use assms digest_from_display in simp)

theorem digest_text_unique_witness:
  "digest_from_str (''sha256:'' @ replicate 64 (CHR ''0'')) = Ok (replicate 32 0)"
proof -
  have "write_hex (replicate 32 0) = replicate 64 (CHR ''0'')" by code_simp
  then show ?thesis using digest_text_unique [of "replicate 32 0" "''sha256:'' @ replicate 64 (CHR ''0'')"]
    by (simp only: digest_display_def length_replicate)
qed

text \<open>
  C30: Canonical JSON is canonical: two documents have the same canonical bytes exactly when they are equal, and a
  document within the policy (depth, size, ASCII, safe integers, no duplicate keys) is read back from its canonical
  bytes, with any reader that reports the events of the text.
\<close>

theorem canonical_json:
  assumes "json_ok 1 v" "reads_canonical reader v"
  shows "json_parse reader (canonical_bytes v) = Ok v \<and> (canonical_bytes w = canonical_bytes v \<longleftrightarrow> w = v)"
  using json_parse_canonical [OF assms] by (simp add: canonical_bytes_inj)

definition sample_document :: json_value where
  "sample_document = JObject [(''a'', JArray [JBool True, JInteger 7]), (''b'', JString ''c'')]"

theorem canonical_json_witness:
  "json_parse (\<lambda>_. (serde_events sample_document, None)) (canonical_bytes sample_document) = Ok sample_document \<and>
    (canonical_bytes (JBool True) = canonical_bytes sample_document \<longleftrightarrow> JBool True = sample_document)"
  by (rule canonical_json)
    (simp_all add: reads_canonical_def sample_document_def bt_wf_def string_ok_def is_ascii_def MAX_SAFE_INTEGER_def
      MAX_NESTING_DEPTH_def MAX_SCHEMA_STRING_BYTES_def MAX_JSON_COLLECTION_ENTRIES_def)

section \<open>Manifests\<close>

text \<open>
  C13: A manifest the parser accepts is well formed: supported adapter, positive model dimensions that fit together,
  object digests in strictly increasing order with page tables of the right length, tensors with contiguous
  identifiers, unique roles and exact lengths, every byte of every object in exactly one tensor, all within the
  operator limits; its identity is the hash of the bytes, which are the canonical form of the document. Whatever
  the input, the parser does not panic.
\<close>

theorem manifest_sound:
  "wp graceful (parse_with_limits reader sha bytes limits)
     (\<lambda>m. wf_manifest limits m \<and> partitions (mf_objects m) (mf_tensors m) \<and> mf_artifact_id m = sha bytes \<and>
       mf_canonical_bytes m = bytes \<and> (\<exists>document. canonical_bytes document = bytes))"
  by (rule wp_conseq [OF parse_with_limits_wp]) (auto simp: pinned_def wf_manifest_def wf_tensors_def)

text \<open>
  C9: The parser accepts every well-formed manifest: the canonical bytes of its document are parsed back to the
  manifest itself, with the hash of the bytes as its identity, for limits within those of the format.
\<close>

theorem manifest_round_trip:
  assumes "limits_validate l = Ok l" "wf_manifest l m" "names_ok m" "json_ok 1 (manifest_doc m)" "reads_canonical reader (manifest_doc m)"
    "length (canonical_bytes (manifest_doc m)) \<le> lm_manifest_bytes l"
  shows "parse_with_limits reader sha (canonical_bytes (manifest_doc m)) l
    = Ok (m\<lparr>mf_artifact_id := sha (canonical_bytes (manifest_doc m)), mf_canonical_bytes := canonical_bytes (manifest_doc m)\<rparr>)"
  using assms by (rule parse_printed)

definition sample_manifest :: manifest where
  "sample_manifest = \<lparr>mf_adapter = \<lparr>ad_id = ''runnel.tiny-causal-moe'', ad_version = 1\<rparr>,
     mf_model = \<lparr>tm_context_length = 1, tm_expert_hidden_size = 1, tm_hidden_size = 1, tm_num_experts = 1, tm_num_heads = 1,
       tm_num_layers = 1, tm_top_k = 1, tm_vocab_size = 1\<rparr>,
     mf_objects = [\<lparr>or_digest = replicate 32 1, or_length = 6, or_page_size = 65536, or_page_table = replicate 32 2,
       or_page_table_length = 96\<rparr>],
     mf_tensors = [\<lparr>tr_dtype = U8, tr_id = 0, tr_length = 2, tr_object = replicate 32 1, tr_offset = 4, tr_role = ''tail'', tr_shape = [2]\<rparr>,
       \<lparr>tr_dtype = F32Le, tr_id = 1, tr_length = 4, tr_object = replicate 32 1, tr_offset = 0, tr_role = ''head'', tr_shape = [1]\<rparr>],
     mf_tokenizer = \<lparr>tk_id = ''t'', tk_version = 1, tk_vocab_size = 1\<rparr>, mf_artifact_id = [], mf_canonical_bytes = []\<rparr>"

lemma sample_manifest_wf: "wf_manifest limits_default sample_manifest"
proof -
  have two: "is_power_of_two 65536" unfolding is_power_of_two_def list_ex_iff by (rule bexI [of _ 16]) simp_all
  have "partitions (mf_objects sample_manifest) (mf_tensors sample_manifest)"
    by (auto simp: partitions_def sample_manifest_def tensors_of_def in_range_def tensor_range_def)
  moreover have "wf_tensor (mf_objects sample_manifest) i (mf_tensors sample_manifest ! i)" if "i < 2" for i
    using that by (cases "i = 0") (simp_all add: less_2_cases_iff sample_manifest_def wf_tensor_def MAX_TENSOR_DIMENSION_def)
  ultimately show ?thesis
    using two by (simp add: wf_manifest_def wf_adapter_def wf_model_def wf_objects_def wf_object_def wf_tensors_def
        sample_manifest_def limits_default_def MIN_PAGE_SIZE_def MAX_PAGE_SIZE_def ceil_div_def)
qed

lemma sample_manifest_names: "names_ok sample_manifest"
  by (simp add: names_ok_def sample_manifest_def validate_identifier_def validate_role_def is_lower_def is_digit_def)

lemma sample_manifest_json: "json_ok 1 (manifest_doc sample_manifest)"
proof -
  have digest: "string_ok (digest_display (replicate 32 1))" "string_ok (digest_display (replicate 32 2))"
    unfolding string_ok_def MAX_SCHEMA_STRING_BYTES_def is_ascii_def by code_simp+
  show ?thesis
    using digest
    by (simp add: manifest_doc_def adapter_doc_def tokenizer_doc_def model_doc_def object_doc_def tensor_doc_def sample_manifest_def bt_wf_def
        MAX_NESTING_DEPTH_def MAX_JSON_COLLECTION_ENTRIES_def MAX_SAFE_INTEGER_def)
      (simp add: string_ok_def is_ascii_def MAX_SCHEMA_STRING_BYTES_def)
qed

text \<open>A bound on the length of a text that is easy to evaluate.\<close>

fun text_bound :: "json_value \<Rightarrow> nat" where
  "text_bound (JBool b) = 5"
| "text_bound (JInteger n) = Suc n"
| "text_bound (JString s) = 6 * length s + 2"
| "text_bound (JArray vs) = 2 + sum_list (map (\<lambda>v. text_bound v + 1) vs)"
| "text_bound (JObject ms) = 2 + sum_list (map (\<lambda>(k, v). 6 * length k + 4 + text_bound v) ms)"

lemma length_show_nat: "length (show_nat n) \<le> Suc n"
proof (induction n rule: show_nat.induct)
  case (1 n)
  then show ?case
  proof (cases "n < 10")
    case False
    then have "Suc (n div 10) < n" by linarith
    with 1 False show ?thesis by (subst show_nat.simps) simp
  qed (simp add: show_nat.simps [of n])
qed

lemma length_string_text: "length (string_text s) \<le> 6 * length s + 2"
proof -
  have "length (byte_text b) \<le> 6" for b by (simp add: byte_text_def write_byte_def)
  then have "length (concat (map byte_text bs)) \<le> 6 * length bs" for bs
    by (induction bs) (simp_all add: add_mono)
  from this [of "as_bytes s"] show ?thesis by (simp add: string_text_def as_bytes_def)
qed

lemma length_json_text:
  "length (json_text v) \<le> text_bound v"
  "length (elements_text c vs) \<le> 1 + sum_list (map (\<lambda>v. text_bound v + 1) vs)"
  "length (members_text c ms) \<le> 1 + sum_list (map (\<lambda>(k, v). 6 * length k + 4 + text_bound v) ms)"
proof (induction v and c vs and c ms rule: json_text_elements_text_members_text.induct)
  case (2 n)
  then show ?case using length_show_nat [of n] by (simp add: as_bytes_def)
next
  case (9 c k v ms)
  then show ?case using length_string_text [of k] by simp
qed (use length_string_text in \<open>simp_all add: as_bytes_def\<close>)

lemma sample_manifest_bytes: "length (canonical_bytes (manifest_doc sample_manifest)) \<le> 1048576"
proof -
  have "length (canonical_bytes (manifest_doc sample_manifest)) \<le> Suc (text_bound (manifest_doc sample_manifest))"
    using length_json_text(1) by (simp add: canonical_bytes_text)
  also have "\<dots> \<le> 1048576"
    by (simp add: manifest_doc_def adapter_doc_def tokenizer_doc_def model_doc_def object_doc_def tensor_doc_def sample_manifest_def
        digest_display_def)
  finally show ?thesis .
qed

definition sample_json_reader :: json_reader where
  "sample_json_reader bytes = (serde_events (manifest_doc sample_manifest), None)"

theorem manifest_round_trip_witness:
  "parse_with_limits sample_json_reader (\<lambda>_. replicate 32 0) (canonical_bytes (manifest_doc sample_manifest)) limits_default
    = Ok (sample_manifest\<lparr>mf_artifact_id := replicate 32 0, mf_canonical_bytes := canonical_bytes (manifest_doc sample_manifest)\<rparr>)"
  by (rule manifest_round_trip [OF _ sample_manifest_wf sample_manifest_names sample_manifest_json])
    (use sample_manifest_bytes in \<open>simp_all add: limits_validate_def check_limit_def limits_default_def reads_canonical_def sample_json_reader_def
      FORMAT_MANIFEST_BYTES_def FORMAT_OBJECTS_def FORMAT_TENSORS_def FORMAT_OBJECT_BYTES_def FORMAT_AGGREGATE_OBJECT_BYTES_def
      FORMAT_PAGE_TABLE_BYTES_def FORMAT_AGGREGATE_PAGE_TABLE_BYTES_def\<close>)

section \<open>Artifacts\<close>

text \<open>
  C5: Opening an artifact is safe, from memory or from a directory, whatever the bytes, the directory and the file
  system contain: nothing panics, and an artifact that is returned under an expected identity is verified: the manifest has that
  identity as its hash, every declared object is present with its declared hash and length, every page of it has the
  hash its verified page table lists, and the retained bytes are counted exactly and within the memory budget.
\<close>

theorem artifact_verified:
  "wp graceful (from_bytes_internal reader sha parts limits (Some d))
     (\<lambda>a. verified sha limits a \<and> sha (mf_canonical_bytes (af_manifest a)) = d \<and> mf_artifact_id (af_manifest a) = d) \<and>
   wp graceful (open_internal reader sha fs root limits (Some d))
     (\<lambda>a. verified sha limits a \<and> sha (mf_canonical_bytes (af_manifest a)) = d \<and> mf_artifact_id (af_manifest a) = d)"
proof -
  have bytes: "wp graceful (from_bytes_internal reader sha parts limits (Some d))
     (\<lambda>a. verified sha limits a \<and> sha (mf_canonical_bytes (af_manifest a)) = d \<and> mf_artifact_id (af_manifest a) = d)" for parts
    by (rule wp_conseq [OF from_bytes_wp]) (auto simp: pinned_def)
  moreover have "wp graceful (open_internal reader sha fs root limits (Some d))
     (\<lambda>a. verified sha limits a \<and> sha (mf_canonical_bytes (af_manifest a)) = d \<and> mf_artifact_id (af_manifest a) = d)"
    by (rule wp_conseq [OF open_internal_wp]) (use wp_Inr [OF bytes] in blast)
  ultimately show ?thesis by blast
qed

text \<open>
  C22: Every tensor of a verified artifact has its bytes: the lookup by identifier and the load by role return the
  declared range of the object the tensor names, of the declared length, and that object has the declared hash.
\<close>

theorem tensors_readable:
  assumes "verified sha limits a" "i < length (mf_tensors (af_manifest a))" "lm_object_bytes limits \<le> u64_max"
    "t = mf_tensors (af_manifest a) ! i"
  shows "\<exists>vo bytes. bt_get (af_objects a) (tr_object t) = Some vo \<and> sha (vo_bytes vo) = tr_object t \<and>
    bytes = take (tr_length t) (drop (tr_offset t) (vo_bytes vo)) \<and> length bytes = tr_length t \<and>
    tensor_bytes a i = Some bytes \<and> load_tensor a (tr_role t) = Ok bytes"
proof -
  from tensor_bytes_verified [OF assms(1-3)] obtain r vo where vo: "verified_object sha r vo" "or_digest r = tr_object t"
    "bt_get (af_objects a) (tr_object t) = Some vo" "tensor_bytes a i = Some (take (tr_length t) (drop (tr_offset t) (vo_bytes vo)))"
    "tr_offset t + tr_length t \<le> length (vo_bytes vo)"
    unfolding assms(4) by metis
  have "distinct (map tr_role (mf_tensors (af_manifest a)))" "tr_id t = i"
    using assms by (auto simp: verified_def wf_manifest_def wf_tensors_def wf_tensor_def)
  then have "find (\<lambda>u. tr_role u = tr_role t) (mf_tensors (af_manifest a)) = Some t"
    unfolding find_Some_iff using assms(2,4) by (intro exI [of _ i]) (auto simp: distinct_conv_nth)
  then have "load_tensor a (tr_role t) = Ok (take (tr_length t) (drop (tr_offset t) (vo_bytes vo)))"
    using vo(4) \<open>tr_id t = i\<close> by (simp add: load_tensor_def tensor_by_role_def manifest_tensor_by_role_def)
  then show ?thesis using vo by (intro exI [of _ vo]) (simp add: verified_object_def)
qed

definition sample_hash :: "u8 list \<Rightarrow> digest" where
  "sample_hash bytes = replicate 32 (if length bytes = 6 then 1 else 2)"

definition sample_artifact :: artifact where
  "sample_artifact = \<lparr>af_manifest = sample_manifest,
     af_objects = [(replicate 32 1, \<lparr>vo_bytes = [0, 0, 128, 63, 7, 8],
       vo_page_table = \<lparr>pt_bytes = replicate 64 0 @ replicate 32 1, pt_page_size = 65536, pt_object_length = 6,
         pt_page_count = 1, pt_object_digest = replicate 32 1\<rparr>\<rparr>)],
     af_retained_payload_bytes = 102\<rparr>"

lemma sample_artifact_verified: "verified sample_hash limits_default sample_artifact"
proof -
  have "dom (bt_get (af_objects sample_artifact)) = or_digest ` set (mf_objects (af_manifest sample_artifact))"
    by (simp add: sample_artifact_def sample_manifest_def bt_get_def)
  moreover have "verified_object sample_hash (hd (mf_objects sample_manifest)) (snd (hd (af_objects sample_artifact)))"
    by (simp add: verified_object_def wf_table_def sample_manifest_def sample_artifact_def sample_hash_def ceil_div_def page_of_def
        page_hash_def checked_mul_def checked_add_def PAGE_TABLE_HEADER_BYTES_def slice_get_def u64_max_def)
  ultimately show ?thesis
    using sample_manifest_wf
    by (simp add: verified_def eager_bytes_def limits_default_def sample_artifact_def bt_get_def) (simp add: sample_manifest_def)
qed

theorem tensors_readable_witness:
  "tensor_bytes sample_artifact 1 = Some [0, 0, 128, 63] \<and> load_tensor sample_artifact ''head'' = Ok [0, 0, 128, 63]"
  using tensors_readable [OF sample_artifact_verified, of 1 "mf_tensors sample_manifest ! 1"]
  by (simp add: sample_artifact_def sample_manifest_def limits_default_def u64_max_def bt_get_def)

end
