(* ===== verification/Store_Model.thy ===== *)
theory Store_Model
  imports Format_Artifact
begin

text \<open>
  The small modules of \<^verbatim>\<open>crates/runnel-store/src\<close> that the page reader and the page cache share:
  \<^verbatim>\<open>error.rs\<close>, \<^verbatim>\<open>control.rs\<close>, \<^verbatim>\<open>budget.rs\<close>, \<^verbatim>\<open>metrics.rs\<close> and \<^verbatim>\<open>trace.rs\<close>.
  Time is a number of nanoseconds and is an argument of whatever reads the clock; so is whether a
  \<^verbatim>\<open>try_lock\<close> found the lock free.
\<close>

named_theorems store_defs

section \<open>Errors\<close>

datatype error_category =
    CatInvalidInput
  | CatResourceExhausted
  | CatCancelled
  | CatDeadlineExceeded
  | CatNotFound
  | CatAlreadyExists
  | CatUnsafeFilesystem
  | CatIntegrity
  | CatIo
  | CatShutdown
  | CatDurabilityUnconfirmed
  | CatInternal

datatype store_error =
    InvalidConfig string string
  | ResourceExhausted string u64 u64
  | QueueFull
  | Shutdown
  | Cancelled
  | DeadlineExceeded
  | UnsafeLayout string
  | Missing string
  | AlreadyExists string
  | LengthMismatch string u64 u64
  | Integrity string
  | PageOutOfRange u64 u64
  | InvalidResumeToken
  | ResumeMismatch string
  | BudgetExceeded u64 u64
  | FilesystemReserve u64 u64 u64
  | PublishedButDurabilityUnconfirmed string
  | StoreOverflow string
  | StoreIo string string
  | Format format_error
  | Invariant string

fun format_category :: "format_error \<Rightarrow> error_category" where
  "format_category (ArtifactIdMismatch _ _) = CatIntegrity"
| "format_category (BlobLengthMismatch _ _ _ _) = CatIntegrity"
| "format_category (BlobDigestMismatch _ _ _) = CatIntegrity"
| "format_category (BadPageTable _ _) = CatIntegrity"
| "format_category (PageHashMismatch _ _) = CatIntegrity"
| "format_category (MissingBlob _ _) = CatNotFound"
| "format_category (NotRegularFile _) = CatUnsafeFilesystem"
| "format_category (FormatIo _ _) = CatIo"
| "format_category (MemoryBudgetExceeded _ _) = CatResourceExhausted"
| "format_category _ = CatInvalidInput"

fun category :: "store_error \<Rightarrow> error_category" where
  "category (InvalidConfig _ _) = CatInvalidInput"
| "category (PageOutOfRange _ _) = CatInvalidInput"
| "category InvalidResumeToken = CatInvalidInput"
| "category (ResumeMismatch _) = CatInvalidInput"
| "category (ResourceExhausted _ _ _) = CatResourceExhausted"
| "category QueueFull = CatResourceExhausted"
| "category (BudgetExceeded _ _) = CatResourceExhausted"
| "category (FilesystemReserve _ _ _) = CatResourceExhausted"
| "category Cancelled = CatCancelled"
| "category DeadlineExceeded = CatDeadlineExceeded"
| "category (Missing _) = CatNotFound"
| "category (AlreadyExists _) = CatAlreadyExists"
| "category (UnsafeLayout _) = CatUnsafeFilesystem"
| "category (LengthMismatch _ _ _) = CatIntegrity"
| "category (Integrity _) = CatIntegrity"
| "category (StoreIo _ _) = CatIo"
| "category Shutdown = CatShutdown"
| "category (PublishedButDurabilityUnconfirmed _) = CatDurabilityUnconfirmed"
| "category (StoreOverflow _) = CatInternal"
| "category (Invariant _) = CatInternal"
| "category (Format source) = format_category source"

section \<open>Cooperative control\<close>

record control =
  ct_cancelled :: bool
  ct_deadline :: "nat option"

definition unbounded :: control where
  "unbounded = \<lparr>ct_cancelled = False, ct_deadline = None\<rparr>"

definition cancel :: "control \<Rightarrow> control" where
  "cancel c = c\<lparr>ct_cancelled := True\<rparr>"

definition control_check :: "nat \<Rightarrow> control \<Rightarrow> (store_error, unit) result" where
  "control_check now c =
     (if ct_cancelled c then fail Cancelled
      else (case ct_deadline c of
          Some deadline \<Rightarrow> if deadline \<le> now then fail DeadlineExceeded else Ok ()
        | None \<Rightarrow> Ok ()))"

section \<open>Disk budget\<close>

record disk_budget =
  db_max_bytes :: u64
  db_reserve_bytes :: u64

record disk_usage =
  du_final_bytes :: u64
  du_staging_bytes :: u64
  du_available_bytes :: u64
  du_allocation_unit :: u64

definition budget_validate :: "disk_budget \<Rightarrow> (store_error, disk_budget) result" where
  "budget_validate b =
     (if db_max_bytes b = 0 then fail (InvalidConfig ''disk_budget.max_bytes'' ''must be nonzero'') else Ok b)"

definition total_bytes :: "disk_usage \<Rightarrow> u64" where
  "total_bytes u = saturating_add (du_final_bytes u) (du_staging_bytes u)"

definition checked_total_bytes :: "disk_usage \<Rightarrow> (store_error, u64) result" where
  "checked_total_bytes u =
     ok_or (checked_add (du_final_bytes u) (du_staging_bytes u)) (StoreOverflow ''summing CAS disk usage'')"

definition round_up :: "disk_usage \<Rightarrow> u64 \<Rightarrow> (store_error, u64) result" where
  "round_up u bytes =
     (let unit = max (du_allocation_unit u) 1; remainder = bytes mod unit in
      if remainder = 0 then Ok bytes
      else ok_or (checked_add bytes (unit - remainder)) (StoreOverflow ''rounding planned disk allocation''))"

definition preflight :: "disk_budget \<Rightarrow> disk_usage \<Rightarrow> u64 \<Rightarrow> (store_error, unit) result" where
  "preflight b u additional_bytes =
     rbind (checked_total_bytes u) (\<lambda>used.
     rbind (ok_or (checked_add used additional_bytes) (StoreOverflow ''adding CAS disk usage'')) (\<lambda>required.
     if db_max_bytes b < required then fail (BudgetExceeded required (db_max_bytes b))
     else let remaining = saturating_sub (du_available_bytes u) (db_reserve_bytes b) in
     if remaining < additional_bytes
     then fail (FilesystemReserve additional_bytes (du_available_bytes u) (db_reserve_bytes b))
     else Ok ()))"

section \<open>Page identity\<close>

text \<open>
  \<^verbatim>\<open>PageKey\<close> derives its order from its fields in declaration order, as the lexicographic order on
  tuples does.
\<close>

type_synonym page_key = "digest \<times> u64 \<times> u64"

abbreviation key_object :: "page_key \<Rightarrow> digest" where "key_object k \<equiv> fst k"
abbreviation key_page_size :: "page_key \<Rightarrow> u64" where "key_page_size k \<equiv> fst (snd k)"
abbreviation key_index :: "page_key \<Rightarrow> u64" where "key_index k \<equiv> snd (snd k)"

datatype access_reason = Demand | Prefetch

section \<open>Metrics\<close>

record metrics =
  mt_demand_bytes :: u64
  mt_prefetch_bytes :: u64
  mt_physical_read_bytes :: u64
  mt_hits :: u64
  mt_misses :: u64
  mt_admissions :: u64
  mt_evictions :: u64
  mt_coalesced_demands :: u64
  mt_late_prefetches :: u64
  mt_coalesced_prefetches :: u64
  mt_useful_prefetches :: u64
  mt_wasted_prefetches :: u64
  mt_redundant_prefetches :: u64
  mt_dropped_prefetches :: u64
  mt_wait_nanoseconds :: u64
  mt_io_nanoseconds :: u64
  mt_active_loads :: u64
  mt_page_pool_bytes :: u64
  mt_inflight_bytes :: u64
  mt_resident_bytes :: u64
  mt_retiring_bytes :: u64
  mt_leases :: u64

definition metrics_default :: metrics where
  "metrics_default = \<lparr>mt_demand_bytes = 0, mt_prefetch_bytes = 0, mt_physical_read_bytes = 0, mt_hits = 0,
     mt_misses = 0, mt_admissions = 0, mt_evictions = 0, mt_coalesced_demands = 0, mt_late_prefetches = 0,
     mt_coalesced_prefetches = 0, mt_useful_prefetches = 0, mt_wasted_prefetches = 0,
     mt_redundant_prefetches = 0, mt_dropped_prefetches = 0, mt_wait_nanoseconds = 0, mt_io_nanoseconds = 0,
     mt_active_loads = 0, mt_page_pool_bytes = 0, mt_inflight_bytes = 0, mt_resident_bytes = 0,
     mt_retiring_bytes = 0, mt_leases = 0\<rparr>"

definition metric_add :: "u64 \<Rightarrow> u64 \<Rightarrow> u64" where
  "metric_add amount current = saturating_add current amount"

definition add_demand_bytes :: "u64 \<Rightarrow> metrics \<Rightarrow> metrics" where
  "add_demand_bytes n = mt_demand_bytes_update (metric_add n)"

definition add_prefetch_bytes :: "u64 \<Rightarrow> metrics \<Rightarrow> metrics" where
  "add_prefetch_bytes n = mt_prefetch_bytes_update (metric_add n)"

definition add_physical_read_bytes :: "u64 \<Rightarrow> metrics \<Rightarrow> metrics" where
  "add_physical_read_bytes n = mt_physical_read_bytes_update (metric_add n)"

definition count_hit :: "metrics \<Rightarrow> metrics" where
  "count_hit = mt_hits_update (metric_add 1)"

definition count_miss :: "metrics \<Rightarrow> metrics" where
  "count_miss = mt_misses_update (metric_add 1)"

definition count_admission :: "metrics \<Rightarrow> metrics" where
  "count_admission = mt_admissions_update (metric_add 1)"

definition count_eviction :: "metrics \<Rightarrow> metrics" where
  "count_eviction = mt_evictions_update (metric_add 1)"

definition count_coalesced_demand :: "metrics \<Rightarrow> metrics" where
  "count_coalesced_demand = mt_coalesced_demands_update (metric_add 1)"

definition count_late_prefetch :: "metrics \<Rightarrow> metrics" where
  "count_late_prefetch = mt_late_prefetches_update (metric_add 1)"

definition count_coalesced_prefetch :: "metrics \<Rightarrow> metrics" where
  "count_coalesced_prefetch = mt_coalesced_prefetches_update (metric_add 1)"

definition count_useful_prefetch :: "metrics \<Rightarrow> metrics" where
  "count_useful_prefetch = mt_useful_prefetches_update (metric_add 1)"

definition count_wasted_prefetch :: "metrics \<Rightarrow> metrics" where
  "count_wasted_prefetch = mt_wasted_prefetches_update (metric_add 1)"

definition count_redundant_prefetch :: "metrics \<Rightarrow> metrics" where
  "count_redundant_prefetch = mt_redundant_prefetches_update (metric_add 1)"

definition count_dropped_prefetch :: "metrics \<Rightarrow> metrics" where
  "count_dropped_prefetch = mt_dropped_prefetches_update (metric_add 1)"

definition add_wait_nanoseconds :: "u64 \<Rightarrow> metrics \<Rightarrow> metrics" where
  "add_wait_nanoseconds n = mt_wait_nanoseconds_update (metric_add n)"

definition add_io_nanoseconds :: "u64 \<Rightarrow> metrics \<Rightarrow> metrics" where
  "add_io_nanoseconds n = mt_io_nanoseconds_update (metric_add n)"

definition set_live :: "u64 \<Rightarrow> u64 \<Rightarrow> u64 \<Rightarrow> u64 \<Rightarrow> u64 \<Rightarrow> u64 \<Rightarrow> metrics \<Rightarrow> metrics" where
  "set_live active_loads page_pool inflight resident retiring leases m =
     m\<lparr>mt_active_loads := active_loads, mt_page_pool_bytes := page_pool, mt_inflight_bytes := inflight,
       mt_resident_bytes := resident, mt_retiring_bytes := retiring, mt_leases := leases\<rparr>"

section \<open>Traces\<close>

datatype trace_outcome =
    Hit | Miss | LoadStarted | LoadCoalesced | LatePrefetch | PrefetchCoalesced | Admitted | Evicted
  | Retired | LoadFailed | TraceCancelled | PrefetchUseful | PrefetchWasted | PrefetchRedundant | PrefetchDropped

text \<open>The arguments of one \<^verbatim>\<open>record\<close> call.\<close>

type_synonym observation = "trace_outcome \<times> access_reason \<times> page_key \<times> u64"

record trace_event =
  te_sequence :: u64
  te_monotonic_nanoseconds :: u64
  te_observation :: observation

record trace_sink =
  sk_capacity :: usize
  sk_next_sequence :: u64
  sk_dropped :: u64
  sk_events :: "trace_event list"

definition TRACE_MAX_CAPACITY :: usize where "TRACE_MAX_CAPACITY = 65536"

definition trace_new :: "usize \<Rightarrow> trace_sink" where
  "trace_new capacity = \<lparr>sk_capacity = min capacity TRACE_MAX_CAPACITY, sk_next_sequence = 0, sk_dropped = 0,
     sk_events = []\<rparr>"

text \<open>
  \<open>trace_reserve\<close> is the \<^verbatim>\<open>fetch_add\<close> that assigns the sequence number, which wraps; \<open>trace_push\<close> is the
  attempt to queue the event afterwards. Between the two, other threads may record or drain.
\<close>

definition trace_reserve :: "trace_sink \<Rightarrow> u64 \<times> trace_sink" where
  "trace_reserve sink =
     (sk_next_sequence sink, sink\<lparr>sk_next_sequence := (sk_next_sequence sink + 1) mod 2 ^ 64\<rparr>)"

definition trace_push :: "bool \<Rightarrow> trace_event \<Rightarrow> trace_sink \<Rightarrow> trace_sink" where
  "trace_push lock_free event sink =
     (if lock_free \<and> length (sk_events sink) < sk_capacity sink
      then sink\<lparr>sk_events := sk_events sink @ [event]\<rparr>
      else sink\<lparr>sk_dropped := saturating_add (sk_dropped sink) 1\<rparr>)"

definition trace_record :: "bool \<Rightarrow> u128 \<Rightarrow> observation \<Rightarrow> trace_sink \<Rightarrow> trace_sink" where
  "trace_record lock_free elapsed obs sink = (case trace_reserve sink of (seq, sink) \<Rightarrow>
     trace_push lock_free
       \<lparr>te_sequence = seq, te_monotonic_nanoseconds = min elapsed u64_max, te_observation = obs\<rparr> sink)"

definition trace_drain :: "trace_sink \<Rightarrow> trace_event list \<times> trace_sink" where
  "trace_drain sink = (sort_key te_sequence (sk_events sink), sink\<lparr>sk_events := []\<rparr>)"

end
