(* ===== verification/Store_Page.thy ===== *)
theory Store_Page
  imports Store_Model
begin

text \<open>
  \<^verbatim>\<open>crates/runnel-store/src/page.rs\<close> and the positional read of \<^verbatim>\<open>fs.rs\<close>: page specifications and
  the authoritative synchronous reader.

  The operating system and the clock are an environment the definitions take as an argument. A check of the
  control is a pair of the time and the control state it sees, because the cancellation token is shared with
  other threads. One iteration of the \<^verbatim>\<open>pread\<close> loop consumes one \<open>read_step\<close>; the list of steps is the fuel
  of the loop, and \<open>None\<close> means that it has not returned within them. A successful \<^verbatim>\<open>pread\<close> transfers at most
  the bytes it was asked for.
\<close>

type_synonym check_point = "nat \<times> control"

definition check_at :: "check_point \<Rightarrow> (store_error, unit) result" where
  "check_at point = control_check (fst point) (snd point)"

section \<open>Specifications\<close>

record retained_object =
  ro_descriptor :: object_record
  ro_page_table :: page_table

record page_spec =
  sp_key :: page_key
  sp_offset :: u64
  sp_length :: u64
  sp_fingerprint :: digest
  sp_object :: retained_object

definition PAGE_BUFFER_ALIGNMENT :: u64 where "PAGE_BUFFER_ALIGNMENT = 64"
definition READ_CHUNK_BYTES :: usize where "READ_CHUNK_BYTES = 64 * 1024"

definition aligned_page_buffer_bytes :: "u64 \<Rightarrow> (store_error, u64) result" where
  "aligned_page_buffer_bytes len =
     (if len = 0 then Ok 0
      else ok_or (map_option (\<lambda>value. value div PAGE_BUFFER_ALIGNMENT * PAGE_BUFFER_ALIGNMENT)
          (checked_add len (PAGE_BUFFER_ALIGNMENT - 1)))
        (StoreOverflow ''aligning a page-buffer allocation''))"

definition allocation_bytes :: "page_spec \<Rightarrow> (store_error, u64) result" where
  "allocation_bytes spec = aligned_page_buffer_bytes (sp_length spec)"

definition for_object :: "retained_object \<Rightarrow> u64 \<Rightarrow> (store_error, page_spec) result" where
  "for_object object index =
     (let page_count = pt_page_count (ro_page_table object) in
      if page_count \<le> index then fail (PageOutOfRange index page_count)
      else let page_size = or_page_size (ro_descriptor object) in
      rbind (ok_or (checked_mul page_size index) (StoreOverflow ''computing a page offset'')) (\<lambda>offset.
      rbind (ok_or (checked_sub (or_length (ro_descriptor object)) offset)
        (Invariant ''validated page offset exceeds object length'')) (\<lambda>remaining.
      rbind (ok_or (page_hash (ro_page_table object) index)
        (Invariant ''verified page table omitted an in-range page hash'')) (\<lambda>hash.
      Ok \<lparr>sp_key = (or_digest (ro_descriptor object), page_size, index), sp_offset = offset,
          sp_length = min remaining page_size, sp_fingerprint = hash, sp_object = object\<rparr>))))"

record stored_artifact =
  sa_manifest :: manifest
  sa_objects :: "(digest, retained_object) btree_map"

definition page_spec_of :: "stored_artifact \<Rightarrow> page_key \<Rightarrow> (store_error, page_spec) result" where
  "page_spec_of artifact key =
     rbind (ok_or (bt_get (sa_objects artifact) (key_object key)) (Missing ''object descriptor'')) (\<lambda>object.
     if key_page_size key \<noteq> or_page_size (ro_descriptor object) then fail (Integrity ''page geometry'')
     else for_object object (key_index key))"

definition page_specs :: "stored_artifact \<Rightarrow> (store_error, page_spec) result list" where
  "page_specs artifact = concat (map (\<lambda>object. map (for_object object) [0..<pt_page_count (ro_page_table object)])
     (bt_values (sa_objects artifact)))"

definition tensor_page_specs ::
  "stored_artifact \<Rightarrow> u64 \<Rightarrow> (store_error, (store_error, page_spec) result list) result" where
  "tensor_page_specs artifact tensor_id =
     rbind (ok_or (if tensor_id < length (mf_tensors (sa_manifest artifact)) \<and>
          tr_id (mf_tensors (sa_manifest artifact) ! tensor_id) = tensor_id
        then Some (mf_tensors (sa_manifest artifact) ! tensor_id) else None) (Missing ''tensor descriptor''))
       (\<lambda>tensor.
     rbind (ok_or (bt_get (sa_objects artifact) (tr_object tensor))
       (Invariant ''validated tensor names an absent retained object'')) (\<lambda>object.
     let page_size = or_page_size (ro_descriptor object) in
     rbind (ok_or (checked_add (tr_offset tensor) (tr_length tensor)) (StoreOverflow ''computing a tensor byte range''))
       (\<lambda>end_exclusive.
     rbind (ok_or (checked_sub end_exclusive 1) (Invariant ''validated tensor has zero length'')) (\<lambda>last_byte.
     if page_size = 0 then panic ''attempt to divide by zero''
     else Ok (map (for_object object) [tr_offset tensor div page_size..<last_byte div page_size + 1])))))"

section \<open>Positional reads\<close>

datatype pread_response = PreadOk "u8 list" | PreadInterrupted | PreadError string

record read_step =
  rs_check :: check_point
  rs_response :: pread_response
  rs_interrupt_check :: check_point

type_synonym 'a observed = "(store_error, 'a) result \<times> u64"

fun read_loop ::
  "string \<Rightarrow> u64 \<Rightarrow> u64 \<Rightarrow> u8 list \<Rightarrow> usize \<Rightarrow> read_step list \<Rightarrow> (u8 list) observed option" where
  "read_loop kind len offset bytes filled [] = (if filled < length bytes then None else Some (Ok bytes, filled))"
| "read_loop kind len offset bytes filled (s # steps) =
     (if \<not> filled < length bytes then Some (Ok bytes, filled)
      else case check_at (rs_check s) of
        Inl error \<Rightarrow> Some (Inl error, filled)
      | Inr _ \<Rightarrow>
          let chunk_end = min (saturating_add filled READ_CHUNK_BYTES) (length bytes) in
          case checked_add offset filled of
            None \<Rightarrow> Some (fail (StoreOverflow ''computing a positional read offset''), filled)
          | Some position \<Rightarrow>
              (case rs_response s of
                 PreadOk available \<Rightarrow>
                   let transferred = take (chunk_end - filled) available in
                   if transferred = [] then Some (fail (LengthMismatch kind len filled), filled)
                   else (case checked_add filled (length transferred) of
                       None \<Rightarrow> Some (fail (StoreOverflow ''accounting positional read bytes''), filled)
                     | Some next \<Rightarrow>
                         read_loop kind len offset (take filled bytes @ transferred @ drop next bytes) next steps)
               | PreadInterrupted \<Rightarrow>
                   (case check_at (rs_interrupt_check s) of
                      Inl error \<Rightarrow> Some (Inl error, filled)
                    | Inr _ \<Rightarrow> read_loop kind len offset bytes filled steps)
               | PreadError message \<Rightarrow> Some (fail (StoreIo ''reading retained bytes'' message), filled)))"

record read_io =
  ri_first_check :: check_point
  ri_steps :: "read_step list"
  ri_last_check :: check_point

text \<open>
  The buffer is allocated at the aligned size and zeroed at the exact one; \<open>alloc\<close> is the capacity the allocator
  gives for a request. The result carries the bytes with that capacity.
\<close>

definition read_exact_at_observed ::
  "(usize \<Rightarrow> usize) \<Rightarrow> read_io \<Rightarrow> u64 \<Rightarrow> u64 \<Rightarrow> string \<Rightarrow> (u8 list \<times> usize) observed option" where
  "read_exact_at_observed alloc io offset len kind =
     (case check_at (ri_first_check io) of
        Inl error \<Rightarrow> Some (Inl error, 0)
      | Inr _ \<Rightarrow>
          (case aligned_page_buffer_bytes len of
             Inl error \<Rightarrow> Some (Inl error, 0)
           | Inr allocation \<Rightarrow>
               (case read_loop kind len offset (replicate len 0) 0 (ri_steps io) of
                  None \<Rightarrow> None
                | Some (Inl error, filled) \<Rightarrow> Some (Inl error, filled)
                | Some (Inr bytes, filled) \<Rightarrow>
                    Some (rbind (check_at (ri_last_check io)) (\<lambda>_. Ok (bytes, alloc allocation)), filled))))"

section \<open>The reader\<close>

record verified_page =
  vp_key :: page_key
  vp_bytes :: "u8 list"
  vp_capacity :: usize

record read_stats =
  st_physical_bytes :: u64
  st_io_nanoseconds :: u64

text \<open>What one \<^verbatim>\<open>fstat\<close> reports: an error, or whether the file is regular and its size.\<close>

type_synonym stat_result = "string + bool \<times> int"

definition metadata_len_regular :: "stat_result \<Rightarrow> string \<Rightarrow> (store_error, u64) result" where
  "metadata_len_regular stat kind = (case stat of
     Inl message \<Rightarrow> fail (StoreIo ''reading retained metadata'' message)
   | Inr (regular, len) \<Rightarrow> if \<not> regular then fail (UnsafeLayout kind)
       else if 0 \<le> len \<and> nat len \<le> u64_max then Ok (nat len) else fail (UnsafeLayout kind))"

definition validate_specification :: "page_spec \<Rightarrow> (store_error, unit) result" where
  "validate_specification spec =
     (let object = sp_object spec; descriptor = ro_descriptor object; table = ro_page_table object;
          page_size = or_page_size descriptor; key = sp_key spec in
      if key_object key \<noteq> or_digest descriptor \<or> key_page_size key \<noteq> page_size \<or>
         pt_object_digest table \<noteq> or_digest descriptor \<or> pt_page_size table \<noteq> page_size \<or>
         pt_object_length table \<noteq> or_length descriptor
      then fail (Integrity ''page specification'')
      else rbind (ok_or (checked_mul page_size (key_index key)) (StoreOverflow ''validating a page offset''))
        (\<lambda>expected_offset.
      rbind (ok_or (map_option (\<lambda>remaining. min remaining page_size)
          (checked_sub (or_length descriptor) expected_offset)) (Integrity ''page specification'')) (\<lambda>expected_length.
      rbind (ok_or (page_hash table (key_index key)) (PageOutOfRange (key_index key) (pt_page_count table)))
        (\<lambda>retained_hash.
      if sp_offset spec \<noteq> expected_offset \<or> sp_length spec \<noteq> expected_length \<or> sp_fingerprint spec \<noteq> retained_hash
      then fail (Integrity ''page specification'')
      else Ok ()))))"

record read_env =
  re_check :: check_point
  re_initial_stat :: stat_result
  re_io :: read_io
  re_nanoseconds :: u128
  re_final_stat :: stat_result
  re_hash_checks :: "nat \<Rightarrow> check_point"
  re_publish_check :: check_point

definition expect_object_length :: "page_spec \<Rightarrow> stat_result \<Rightarrow> (store_error, unit) result" where
  "expect_object_length spec stat =
     (let expected = or_length (ro_descriptor (sp_object spec)) in
      rbind (metadata_len_regular stat ''object'') (\<lambda>actual.
      if actual \<noteq> expected then fail (LengthMismatch ''object'' expected actual) else Ok ()))"

text \<open>The part of the closure after the bytes are read: second length check, hash, comparison.\<close>

definition verify_bytes ::
  "(u8 list \<Rightarrow> digest) \<Rightarrow> read_env \<Rightarrow> page_spec \<Rightarrow> u8 list \<times> usize \<Rightarrow> (store_error, verified_page) result" where
  "verify_bytes sha env spec buffer = (case buffer of (bytes, capacity) \<Rightarrow>
     rbind (expect_object_length spec (re_final_stat env)) (\<lambda>_.
     rbind (rfold (\<lambda>i _. check_at (re_hash_checks env i)) [0..<length (chunks READ_CHUNK_BYTES bytes)] ()) (\<lambda>_.
     if sha bytes \<noteq> sp_fingerprint spec then fail (Integrity ''page'')
     else rbind (check_at (re_publish_check env)) (\<lambda>_.
     Ok \<lparr>vp_key = sp_key spec, vp_bytes = bytes, vp_capacity = capacity\<rparr>))))"

definition read_observed ::
  "(u8 list \<Rightarrow> digest) \<Rightarrow> (usize \<Rightarrow> usize) \<Rightarrow> read_env \<Rightarrow> page_spec
   \<Rightarrow> ((store_error, verified_page) result \<times> read_stats) option" where
  "read_observed sha alloc env spec =
     (case rbind (check_at (re_check env)) (\<lambda>_. rbind (validate_specification spec) (\<lambda>_.
         expect_object_length spec (re_initial_stat env))) of
        Inl error \<Rightarrow> Some (Inl error, \<lparr>st_physical_bytes = 0, st_io_nanoseconds = 0\<rparr>)
      | Inr _ \<Rightarrow>
          (case read_exact_at_observed alloc (re_io env) (sp_offset spec) (sp_length spec) ''page'' of
             None \<Rightarrow> None
           | Some (read_result, observed_bytes) \<Rightarrow>
               Some (rbind read_result (verify_bytes sha env spec),
                 \<lparr>st_physical_bytes = observed_bytes, st_io_nanoseconds = min (re_nanoseconds env) u64_max\<rparr>)))"

end
