(* ===== verification/Action.thy ===== *)
theory Action
  imports Ordered_Map
begin

text \<open>
  Stateful code that can fail: an action takes a state and returns a result together with the state it
  left behind, so that what an early return or a panic leaves in a shared structure is part of the model.
  \<open>awp E m Q s\<close> is the weakest precondition: run from \<open>s\<close>, the action returns \<open>x\<close> and a state in
  \<open>Q x\<close>, or fails with \<open>e\<close> and a state in \<open>E e\<close>. Its equations compute through the combinators.
\<close>

type_synonym ('s, 'e, 'a) action = "'s \<Rightarrow> ('e, 'a) result \<times> 's"

definition areturn :: "'a \<Rightarrow> ('s, 'e, 'a) action" where
  "areturn x s = (Ok x, s)"

definition afail :: "'e \<Rightarrow> ('s, 'e, 'a) action" where
  "afail e s = (fail e, s)"

definition alift :: "('e, 'a) result \<Rightarrow> ('s, 'e, 'a) action" where
  "alift r s = (r, s)"

definition aget :: "('s \<Rightarrow> 'a) \<Rightarrow> ('s, 'e, 'a) action" where
  "aget f s = (Ok (f s), s)"

definition amodify :: "('s \<Rightarrow> 's) \<Rightarrow> ('s, 'e, unit) action" where
  "amodify f s = (Ok (), f s)"

definition abind :: "('s, 'e, 'a) action \<Rightarrow> ('a \<Rightarrow> ('s, 'e, 'b) action) \<Rightarrow> ('s, 'e, 'b) action" where
  "abind m f s = (case m s of (Inl e, s') \<Rightarrow> (Inl e, s') | (Inr x, s') \<Rightarrow> f x s')"

definition athen :: "('s, 'e, unit) action \<Rightarrow> ('s, 'e, 'b) action \<Rightarrow> ('s, 'e, 'b) action" where
  "athen m k = abind m (\<lambda>_. k)"

text \<open>A part of the state, given by its reader and its updater, changed by an operation that may fail.\<close>

definition azoom ::
  "('s \<Rightarrow> 't) \<Rightarrow> (('t \<Rightarrow> 't) \<Rightarrow> 's \<Rightarrow> 's) \<Rightarrow> ('t \<Rightarrow> ('e, 't) result) \<Rightarrow> ('s, 'e, unit) action" where
  "azoom part update f s = (case f (part s) of Inl e \<Rightarrow> (Inl e, s) | Inr t \<Rightarrow> (Ok (), update (\<lambda>_. t) s))"

definition aassert :: "bool \<Rightarrow> string \<Rightarrow> ('s, 'e, unit) action" where
  "aassert b message s = (if b then Ok () else panic message, s)"

text \<open>A \<^verbatim>\<open>match\<close> on the result of an action that handles its error.\<close>

definition acatch :: "('s, 'e, 'a) action \<Rightarrow> ('e \<Rightarrow> ('s, 'e, 'a) action) \<Rightarrow> ('s, 'e, 'a) action" where
  "acatch m handler s = (case m s of (Inl (Err e), s') \<Rightarrow> handler e s' | r \<Rightarrow> r)"

fun afold :: "('x \<Rightarrow> ('s, 'e, unit) action) \<Rightarrow> 'x list \<Rightarrow> ('s, 'e, unit) action" where
  "afold f [] = areturn ()"
| "afold f (x # xs) = athen (f x) (afold f xs)"

definition awp ::
  "('e failure \<Rightarrow> 's \<Rightarrow> bool) \<Rightarrow> ('s, 'e, 'a) action \<Rightarrow> ('a \<Rightarrow> 's \<Rightarrow> bool) \<Rightarrow> 's \<Rightarrow> bool" where
  "awp E m Q s = (case m s of (Inl e, s') \<Rightarrow> E e s' | (Inr x, s') \<Rightarrow> Q x s')"

lemma awp_simps [simp]:
  "awp E (areturn x) Q s = Q x s"
  "awp E (afail e) Q s = E (Err e) s"
  "awp E (alift r) Q' s = wp (\<lambda>e. E e s) r (\<lambda>x. Q' x s)"
  "awp E (aget f) Q'' s = Q'' (f s) s"
  "awp E (amodify g) R s = R () (g s)"
  "awp E (abind m k) Q s = awp E m (\<lambda>x. awp E (k x) Q) s"
  "awp E (athen n l) Q s = awp E n (\<lambda>_. awp E l Q) s"
  "awp E (azoom part update h) R s = wp (\<lambda>e. E e s) (h (part s)) (\<lambda>t. R () (update (\<lambda>_. t) s))"
  "awp E (aassert b msg) R s = (if b then R () s else E (Panic msg) s)"
  by (auto simp: awp_def areturn_def afail_def alift_def aget_def amodify_def abind_def athen_def azoom_def wp_def
      aassert_def split: prod.splits sum.splits)

lemma awp_acatch [simp]:
  "awp E (acatch m handler) Q s =
     awp (\<lambda>e s'. case e of Err x \<Rightarrow> awp E (handler x) Q s' | Panic msg \<Rightarrow> E e s') m Q s"
  by (auto simp: awp_def acatch_def split: prod.splits sum.splits failure.splits)

lemma awp_if [simp]: "awp E (if b then m else m') Q s = (if b then awp E m Q s else awp E m' Q s)"
  by simp

lemma awp_case_option:
  "awp E (case x of None \<Rightarrow> m | Some y \<Rightarrow> n y) Q s = (case x of None \<Rightarrow> awp E m Q s | Some y \<Rightarrow> awp E (n y) Q s)"
  by (cases x) auto

lemma awp_conseq:
  "awp E m P s \<Longrightarrow> (\<And>x s'. P x s' \<Longrightarrow> Q x s') \<Longrightarrow> (\<And>e s'. E e s' \<Longrightarrow> E' e s') \<Longrightarrow> awp E' m Q s"
  by (auto simp: awp_def split: prod.splits sum.splits)

lemma awp_post: "awp E m P s \<Longrightarrow> (\<And>x s'. P x s' \<Longrightarrow> Q x s') \<Longrightarrow> awp E m Q s"
  by (auto intro: awp_conseq)

lemma awp_conj:
  "awp E m P s \<Longrightarrow> awp E' m Q s \<Longrightarrow> awp (\<lambda>e s'. E e s' \<and> E' e s') m (\<lambda>x s'. P x s' \<and> Q x s') s"
  by (auto simp: awp_def split: prod.splits sum.splits)

lemma awp_Ok: "awp E m Q s \<Longrightarrow> m s = (Inr x, s') \<Longrightarrow> Q x s'"
  by (simp add: awp_def)

lemma awp_Err: "awp E m Q s \<Longrightarrow> m s = (Inl e, s') \<Longrightarrow> E e s'"
  by (simp add: awp_def)

lemma awpI: "(\<And>x s'. m s = (Inr x, s') \<Longrightarrow> Q x s') \<Longrightarrow> (\<And>e s'. m s = (Inl e, s') \<Longrightarrow> E e s') \<Longrightarrow> awp E m Q s"
  by (auto simp: awp_def split: prod.splits sum.splits)

lemma awp_afold:
  assumes "P [] s"
    and "\<And>ys x zs s. xs = ys @ x # zs \<Longrightarrow> P ys s \<Longrightarrow> awp E (f x) (\<lambda>_. P (ys @ [x])) s"
  shows "awp E (afold f xs) (\<lambda>_. P xs) s"
proof -
  have "awp E (afold f zs) (\<lambda>_. P xs) s" if "xs = ys @ zs" "P ys s" for ys zs s
    using that
  proof (induction zs arbitrary: ys s)
    case (Cons x zs)
    have "awp E (f x) (\<lambda>_. P (ys @ [x])) s" by (rule assms(2) [OF Cons.prems])
    then show ?case
      using Cons.IH [of "ys @ [x]"] Cons.prems(1) by (auto intro: awp_post)
  qed simp
  from this [of "[]" xs s] assms(1) show ?thesis by simp
qed

text \<open>The failures of code that must not panic: any error, with the state in \<open>I\<close>.\<close>

definition safe :: "('s \<Rightarrow> bool) \<Rightarrow> 'e failure \<Rightarrow> 's \<Rightarrow> bool" where
  "safe I e s \<longleftrightarrow> I s \<and> graceful e"

lemma safe_simps [simp]: "safe I (Err x) s = I s" "\<not> safe I (Panic m) s"
  by (simp_all add: safe_def)

end
