(* ===== verification/Store_Cache.thy ===== *)
theory Store_Cache
  imports Store_Page Action
begin

text \<open>
  \<^verbatim>\<open>crates/runnel-store/src/cache.rs\<close> and \<^verbatim>\<open>async_io.rs\<close>: the bounded queue of the asynchronous reader
  and the page cache with leases and generations.

  Each operation is the code between acquiring and releasing the state mutex, together with what it does before
  and after on metrics and trace, as an action on the shared \<open>cache_inner\<close>. Interleaving is the order of such
  actions. A waiter's one-shot channel is its identity: an action that completes waiters returns what it sends to
  each. \<^verbatim>\<open>entries\<close> is a hash map whose iteration order is unspecified; it is kept sorted here, and the one place
  where the order is observable, \<^verbatim>\<open>shutdown\<close>, takes the order as an argument. \<^verbatim>\<open>TraceSink::record\<close> never feeds
  back into the cache, so the state keeps the sequence of observations handed to it. A cancellation token created
  for a load is owned by its entry.
\<close>

section \<open>The reader queue\<close>

record async_reader_config =
  rc_worker_threads :: usize
  rc_queue_capacity :: usize

definition MAX_WORKER_THREADS :: usize where "MAX_WORKER_THREADS = 256"
definition MAX_QUEUE_CAPACITY :: usize where "MAX_QUEUE_CAPACITY = 65536"

definition reader_config_new :: "usize \<Rightarrow> usize \<Rightarrow> (store_error, async_reader_config) result" where
  "reader_config_new worker_threads queue_capacity =
     (if worker_threads = 0 then fail (InvalidConfig ''worker_threads'' ''must be greater than zero'')
      else if MAX_WORKER_THREADS < worker_threads
      then fail (InvalidConfig ''worker_threads'' ''exceeds the hard worker-thread ceiling'')
      else if queue_capacity = 0 then fail (InvalidConfig ''queue_capacity'' ''must be greater than zero'')
      else if MAX_QUEUE_CAPACITY < queue_capacity
      then fail (InvalidConfig ''queue_capacity'' ''exceeds the hard queue-capacity ceiling'')
      else Ok \<lparr>rc_worker_threads = worker_threads, rc_queue_capacity = queue_capacity\<rparr>)"

text \<open>
  A request is answered to an awaiting caller or, for a cache load, by a callback that knows the key and the
  generation it was submitted for.
\<close>

datatype completion = Await | Detached page_key u64

record request =
  rq_spec :: page_spec
  rq_completion :: completion

record async_reader =
  ar_accepting :: bool
  ar_sender :: bool
  ar_receivers :: bool
  ar_capacity :: usize
  ar_queue :: "request list"

definition reader_new :: "async_reader_config \<Rightarrow> (store_error, async_reader) result" where
  "reader_new config =
     rbind (reader_config_new (rc_worker_threads config) (rc_queue_capacity config)) (\<lambda>config.
     Ok \<lparr>ar_accepting = True, ar_sender = True, ar_receivers = True, ar_capacity = rc_queue_capacity config,
         ar_queue = []\<rparr>)"

definition reader_submit :: "request \<Rightarrow> async_reader \<Rightarrow> (store_error, async_reader) result" where
  "reader_submit request r =
     (if \<not> ar_accepting r then fail Shutdown
      else if \<not> ar_sender r then fail Shutdown
      else if \<not> ar_receivers r then fail Shutdown
      else if ar_capacity r \<le> length (ar_queue r) then fail QueueFull
      else Ok (r\<lparr>ar_queue := ar_queue r @ [request]\<rparr>))"

definition submit_observed ::
  "check_point \<Rightarrow> page_spec \<Rightarrow> completion \<Rightarrow> async_reader \<Rightarrow> (store_error, async_reader) result" where
  "submit_observed point spec completion r =
     rbind (check_at point) (\<lambda>_. reader_submit \<lparr>rq_spec = spec, rq_completion = completion\<rparr> r)"

definition reader_close :: "async_reader \<Rightarrow> async_reader" where
  "reader_close r = r\<lparr>ar_accepting := False, ar_sender := False\<rparr>"

text \<open>The dequeue of \<^verbatim>\<open>worker_loop\<close>: \<^verbatim>\<open>recv\<close> blocks, ends the worker, or hands over the oldest request.\<close>

datatype recv_result = RecvBlocks | RecvDisconnected | RecvRequest request async_reader

definition reader_recv :: "async_reader \<Rightarrow> recv_result" where
  "reader_recv r = (case ar_queue r of
     [] \<Rightarrow> if ar_sender r then RecvBlocks else RecvDisconnected
   | request # queue \<Rightarrow> RecvRequest request (r\<lparr>ar_queue := queue\<rparr>))"

section \<open>Configuration\<close>

record cache_config =
  cc_page_pool_capacity :: u64
  cc_max_page_bytes :: u64
  cc_max_inflight_bytes :: u64
  cc_max_entries :: usize
  cc_max_loads :: usize
  cc_max_waiters :: usize
  cc_max_waiters_per_page :: usize
  cc_max_leases :: usize
  cc_trace_capacity :: usize

definition MAX_ENTRIES :: usize where "MAX_ENTRIES = 1048576"
definition MAX_LOADS :: usize where "MAX_LOADS = 4096"
definition MAX_WAITERS :: usize where "MAX_WAITERS = 1048576"
definition MAX_WAITERS_PER_PAGE :: usize where "MAX_WAITERS_PER_PAGE = 65536"
definition MAX_LEASES :: usize where "MAX_LEASES = 1048576"

definition max_page_allocation :: "cache_config \<Rightarrow> (store_error, u64) result" where
  "max_page_allocation c = (case aligned_page_buffer_bytes (cc_max_page_bytes c) of
     Inl (Err _) \<Rightarrow> fail (InvalidConfig ''max_page_bytes'' ''aligned supported-page allocation overflows'')
   | Inl (Panic message) \<Rightarrow> panic message
   | Inr allocation \<Rightarrow> Ok allocation)"

definition config_validate :: "cache_config \<Rightarrow> (store_error, unit) result" where
  "config_validate c =
     (if cc_page_pool_capacity c = 0 then fail (InvalidConfig ''page_pool_capacity'' ''must be greater than zero'')
      else if cc_max_page_bytes c = 0 then fail (InvalidConfig ''max_page_bytes'' ''must be greater than zero'')
      else rbind (max_page_allocation c) (\<lambda>allocation.
      if cc_page_pool_capacity c < allocation
      then fail (InvalidConfig ''max_page_bytes'' ''one aligned supported-page allocation must fit in the page pool'')
      else if cc_max_inflight_bytes c < allocation \<or> cc_page_pool_capacity c < cc_max_inflight_bytes c
      then fail (InvalidConfig ''max_inflight_bytes''
        ''must fit one aligned supported-page allocation and not exceed the page pool'')
      else rbind (rfold (\<lambda>(field, value) _.
          if value = 0 then fail (InvalidConfig field ''must be greater than zero'') else Ok ())
        [(''max_entries'', cc_max_entries c), (''max_loads'', cc_max_loads c), (''max_waiters'', cc_max_waiters c),
         (''max_waiters_per_page'', cc_max_waiters_per_page c), (''max_leases'', cc_max_leases c)] ()) (\<lambda>_.
      rbind (rfold (\<lambda>(field, value, ceiling) _.
          if ceiling < value then fail (InvalidConfig field ''exceeds the hard resource ceiling'') else Ok ())
        [(''max_entries'', cc_max_entries c, MAX_ENTRIES), (''max_loads'', cc_max_loads c, MAX_LOADS),
         (''max_waiters'', cc_max_waiters c, MAX_WAITERS),
         (''max_waiters_per_page'', cc_max_waiters_per_page c, MAX_WAITERS_PER_PAGE),
         (''max_leases'', cc_max_leases c, MAX_LEASES),
         (''trace_capacity'', cc_trace_capacity c, TRACE_MAX_CAPACITY)] ()) (\<lambda>_.
      if cc_max_entries c < cc_max_loads c
      then fail (InvalidConfig ''max_loads'' ''must not exceed the entry limit'')
      else if cc_max_waiters c < cc_max_waiters_per_page c
      then fail (InvalidConfig ''max_waiters_per_page'' ''must not exceed the global waiter limit'')
      else Ok ()))))"

definition config_new :: "u64 \<Rightarrow> u64 \<Rightarrow> (store_error, cache_config) result" where
  "config_new page_pool_capacity max_page_bytes =
     (let config = \<lparr>cc_page_pool_capacity = page_pool_capacity, cc_max_page_bytes = max_page_bytes,
        cc_max_inflight_bytes = page_pool_capacity, cc_max_entries = 4096, cc_max_loads = 4,
        cc_max_waiters = 4096, cc_max_waiters_per_page = 128, cc_max_leases = 4096, cc_trace_capacity = 1024\<rparr> in
      rbind (config_validate config) (\<lambda>_. Ok config))"

section \<open>State\<close>

record loading_entry =
  le_waiters :: "u64 list"
  le_cancelled :: bool
  le_origin :: access_reason
  le_prefetch_interest :: bool
  le_accepting_waiters :: bool
  le_last_touch :: u64

record resident_entry =
  rp_page :: verified_page
  rp_leases :: usize
  rp_prefetched_unused :: bool
  rp_last_touch :: u64

record retiring_entry =
  rt_page :: verified_page
  rt_leases :: usize
  rt_prefetched_unused :: bool

datatype entry_state = Loading loading_entry | Resident resident_entry | Retiring retiring_entry

record entry =
  en_fingerprint :: digest
  en_length :: u64
  en_allocation_bytes :: u64
  en_generation :: u64
  en_state :: entry_state

record ledger =
  lg_page_pool_bytes :: u64
  lg_inflight_bytes :: u64
  lg_resident_bytes :: u64
  lg_retiring_bytes :: u64
  lg_active_loads :: usize
  lg_waiters :: usize
  lg_lease_reservations :: usize
  lg_leases :: usize

record cache_inner =
  ci_reader :: async_reader
  ci_config :: cache_config
  ci_entries :: "(page_key, entry) btree_map"
  ci_ledger :: ledger
  ci_generation :: u64
  ci_waiter :: u64
  ci_tick :: u64
  ci_shutdown :: bool
  ci_metrics :: metrics
  ci_trace :: "observation list"

record page_lease =
  pl_page :: verified_page
  pl_key :: page_key
  pl_generation :: u64

type_synonym 'a cache_op = "(cache_inner, store_error, 'a) action"

definition ledger_default :: ledger where
  "ledger_default = \<lparr>lg_page_pool_bytes = 0, lg_inflight_bytes = 0, lg_resident_bytes = 0, lg_retiring_bytes = 0,
     lg_active_loads = 0, lg_waiters = 0, lg_lease_reservations = 0, lg_leases = 0\<rparr>"

definition cache_new :: "async_reader \<Rightarrow> cache_config \<Rightarrow> (store_error, cache_inner) result" where
  "cache_new reader config =
     rbind (config_validate config) (\<lambda>_.
     Ok \<lparr>ci_reader = reader, ci_config = config, ci_entries = [], ci_ledger = ledger_default, ci_generation = 0,
         ci_waiter = 0, ci_tick = 0, ci_shutdown = False, ci_metrics = metrics_default, ci_trace = []\<rparr>)"

section \<open>Primitive steps\<close>

definition meter :: "(metrics \<Rightarrow> metrics) \<Rightarrow> unit cache_op" where
  "meter f = amodify (\<lambda>s. s\<lparr>ci_metrics := f (ci_metrics s)\<rparr>)"

definition observe :: "trace_outcome \<Rightarrow> access_reason \<Rightarrow> page_key \<Rightarrow> u64 \<Rightarrow> unit cache_op" where
  "observe outcome reason key bytes = 
     amodify (\<lambda>s. s\<lparr>ci_trace := ci_trace s @ [(outcome, reason, key, bytes)]\<rparr>)"

definition put_entry :: "page_key \<Rightarrow> entry \<Rightarrow> unit cache_op" where
  "put_entry key e = amodify (\<lambda>s. s\<lparr>ci_entries := bt_insert key e (ci_entries s)\<rparr>)"

definition drop_entry :: "page_key \<Rightarrow> unit cache_op" where
  "drop_entry key = amodify (\<lambda>s. s\<lparr>ci_entries := bt_remove key (ci_entries s)\<rparr>)"

definition find_entry :: "page_key \<Rightarrow> entry option cache_op" where
  "find_entry key = aget (\<lambda>s. bt_get (ci_entries s) key)"

definition charge :: "(ledger \<Rightarrow> (store_error, ledger) result) \<Rightarrow> unit cache_op" where
  "charge f = azoom ci_ledger ci_ledger_update f"

text \<open>\<^verbatim>\<open>field += n\<close> and \<^verbatim>\<open>field -= n\<close> on a ledger field.\<close>

definition ledger_add ::
  "(ledger \<Rightarrow> nat) \<Rightarrow> ((nat \<Rightarrow> nat) \<Rightarrow> ledger \<Rightarrow> ledger) \<Rightarrow> nat \<Rightarrow> ledger \<Rightarrow> (store_error, ledger) result" where
  "ledger_add get update n l = rbind (add_u64 (get l) n) (\<lambda>v. Ok (update (\<lambda>_. v) l))"

definition ledger_sub ::
  "(ledger \<Rightarrow> nat) \<Rightarrow> ((nat \<Rightarrow> nat) \<Rightarrow> ledger \<Rightarrow> ledger) \<Rightarrow> nat \<Rightarrow> ledger \<Rightarrow> (store_error, ledger) result" where
  "ledger_sub get update n l = rbind (sub_u64 (get l) n) (\<lambda>v. Ok (update (\<lambda>_. v) l))"

abbreviation "add_leases \<equiv> ledger_add lg_leases lg_leases_update"
abbreviation "sub_leases \<equiv> ledger_sub lg_leases lg_leases_update"
abbreviation "add_waiters \<equiv> ledger_add lg_waiters lg_waiters_update"
abbreviation "sub_waiters \<equiv> ledger_sub lg_waiters lg_waiters_update"
abbreviation "add_reservations \<equiv> ledger_add lg_lease_reservations lg_lease_reservations_update"
abbreviation "sub_reservations \<equiv> ledger_sub lg_lease_reservations lg_lease_reservations_update"
abbreviation "sub_loads \<equiv> ledger_sub lg_active_loads lg_active_loads_update"
abbreviation "sub_pool \<equiv> ledger_sub lg_page_pool_bytes lg_page_pool_bytes_update"
abbreviation "sub_inflight \<equiv> ledger_sub lg_inflight_bytes lg_inflight_bytes_update"
abbreviation "add_resident \<equiv> ledger_add lg_resident_bytes lg_resident_bytes_update"
abbreviation "sub_resident \<equiv> ledger_sub lg_resident_bytes lg_resident_bytes_update"
abbreviation "add_retiring \<equiv> ledger_add lg_retiring_bytes lg_retiring_bytes_update"
abbreviation "sub_retiring \<equiv> ledger_sub lg_retiring_bytes lg_retiring_bytes_update"

definition update_live_metrics :: "unit cache_op" where
  "update_live_metrics =
     abind (aget ci_ledger) (\<lambda>l.
     athen (aassert (Option.bind (checked_add (lg_inflight_bytes l) (lg_resident_bytes l))
         (\<lambda>value. checked_add value (lg_retiring_bytes l)) = Some (lg_page_pool_bytes l))
       ''page-pool ledger must equal in-flight + resident + retiring charges'')
     (meter (set_live (lg_active_loads l) (lg_page_pool_bytes l) (lg_inflight_bytes l) (lg_resident_bytes l)
       (lg_retiring_bytes l) (lg_leases l))))"

definition next_generation :: "u64 cache_op" where
  "next_generation =
     athen (azoom ci_generation ci_generation_update
       (\<lambda>g. ok_or (checked_add g 1) (Invariant ''cache generation exhausted'')))
     (aget ci_generation)"

definition next_waiter :: "u64 cache_op" where
  "next_waiter =
     athen (azoom ci_waiter ci_waiter_update
       (\<lambda>w. ok_or (checked_add w 1) (Invariant ''cache waiter identity exhausted'')))
     (aget ci_waiter)"

definition next_tick :: "u64 cache_op" where
  "next_tick = athen (amodify (\<lambda>s. s\<lparr>ci_tick := saturating_add (ci_tick s) 1\<rparr>)) (aget ci_tick)"

section \<open>Admission\<close>

definition validate_spec :: "cache_config \<Rightarrow> page_spec \<Rightarrow> (store_error, u64) result" where
  "validate_spec c spec =
     (if sp_length spec = 0 \<or> cc_max_page_bytes c < sp_length spec
      then fail (ResourceExhausted ''supported page bytes'' (sp_length spec) (cc_max_page_bytes c))
      else rbind (allocation_bytes spec) (\<lambda>allocation.
      if cc_page_pool_capacity c < allocation \<or> cc_max_inflight_bytes c < allocation
      then fail (ResourceExhausted ''aligned page allocation'' allocation
        (min (cc_page_pool_capacity c) (cc_max_inflight_bytes c)))
      else Ok allocation))"

definition validate_identity :: "entry \<Rightarrow> page_spec \<Rightarrow> u64 \<Rightarrow> (store_error, unit) result" where
  "validate_identity e spec allocation =
     (if en_length e \<noteq> sp_length spec \<or> en_allocation_bytes e \<noteq> allocation \<or> en_fingerprint e \<noteq> sp_fingerprint spec
      then fail (Integrity ''cache key fingerprint mismatch'') else Ok ())"

definition lease_slots_full :: "cache_inner \<Rightarrow> (store_error, bool) result" where
  "lease_slots_full s =
     rbind (add_u64 (lg_leases (ci_ledger s)) (lg_lease_reservations (ci_ledger s))) (\<lambda>used.
     Ok (cc_max_leases (ci_config s) \<le> used))"

definition reserve_waiter :: "cache_inner \<Rightarrow> usize \<Rightarrow> (store_error, unit) result" where
  "reserve_waiter s per_page_waiters =
     (if cc_max_waiters (ci_config s) \<le> lg_waiters (ci_ledger s)
      then fail (ResourceExhausted ''cache waiters'' 1 (cc_max_waiters (ci_config s)))
      else if cc_max_waiters_per_page (ci_config s) \<le> per_page_waiters
      then fail (ResourceExhausted ''per-page cache waiters'' 1 (cc_max_waiters_per_page (ci_config s)))
      else rbind (lease_slots_full s) (\<lambda>full.
      if full then fail (ResourceExhausted ''cache leases'' 1 (cc_max_leases (ci_config s))) else Ok ()))"

text \<open>The unleased residents, least recently touched first.\<close>

definition candidate :: "page_key \<times> entry \<Rightarrow> (page_key \<times> u64 \<times> u64) option" where
  "candidate = (\<lambda>(key, e). case en_state e of
     Resident r \<Rightarrow> if rp_leases r = 0 then Some (key, rp_last_touch r, en_allocation_bytes e) else None
   | _ \<Rightarrow> None)"

definition candidates :: "(page_key, entry) btree_map \<Rightarrow> (page_key \<times> u64 \<times> u64) list" where
  "candidates entries = sort_key (\<lambda>(key, last_touch, _). (last_touch, key)) (List.map_filter candidate entries)"

fun select_victims ::
  "u64 \<Rightarrow> usize \<Rightarrow> u64 \<Rightarrow> usize \<Rightarrow> page_key list \<Rightarrow> (page_key \<times> u64 \<times> u64) list
   \<Rightarrow> (store_error, u64 \<times> usize \<times> page_key list) result" where
  "select_victims maximum max_entries pool entries victims [] = Ok (pool, entries, victims)"
| "select_victims maximum max_entries pool entries victims ((key, last_touch, bytes) # cs) =
     (if pool \<le> maximum \<and> entries < max_entries then Ok (pool, entries, victims)
      else rbind (ok_or (checked_sub pool bytes)
        (Invariant ''cache victim charge exceeded the page-pool ledger'')) (\<lambda>pool.
      rbind (ok_or (checked_sub entries 1) (Invariant ''cache victim count exceeded retained entries'')) (\<lambda>entries.
      select_victims maximum max_entries pool entries (victims @ [key]) cs)))"

definition evict_unleased :: "access_reason \<Rightarrow> page_key \<Rightarrow> unit cache_op" where
  "evict_unleased reason key =
     abind (find_entry key) (\<lambda>found. case found of
       None \<Rightarrow> areturn ()
     | Some e \<Rightarrow> (case en_state e of
         Resident r \<Rightarrow>
           athen (aassert (rp_leases r = 0) ''evicted a leased page'')
           (athen (drop_entry key)
           (athen (charge (sub_pool (en_allocation_bytes e)))
           (athen (charge (sub_resident (en_allocation_bytes e)))
           (athen (meter count_eviction)
           (athen (observe Evicted reason key (en_length e))
           (if rp_prefetched_unused r
            then athen (meter count_wasted_prefetch) (observe PrefetchWasted Prefetch key (en_length e))
            else areturn ()))))))
       | _ \<Rightarrow> areturn ()))"

definition reserve_load :: "u64 \<Rightarrow> access_reason \<Rightarrow> bool cache_op" where
  "reserve_load allocation reason =
     abind (aget (\<lambda>s. s)) (\<lambda>s. let c = ci_config s; l = ci_ledger s in
     if cc_max_inflight_bytes c < allocation \<or> cc_max_inflight_bytes c - allocation < lg_inflight_bytes l \<or>
        cc_max_loads c \<le> lg_active_loads l
     then areturn False
     else abind (alift (sub_u64 (cc_page_pool_capacity c) allocation)) (\<lambda>maximum.
     abind (alift (select_victims maximum (cc_max_entries c) (lg_page_pool_bytes l) (length (ci_entries s)) []
       (candidates (ci_entries s)))) (\<lambda>(pool, entries, victims).
     if maximum < pool \<or> cc_max_entries c \<le> entries then areturn False
     else abind (alift (ok_or (checked_add pool allocation)
       (StoreOverflow ''reserving an aligned cache page allocation''))) (\<lambda>reserved_pool_bytes.
     abind (alift (ok_or (checked_add (lg_inflight_bytes l) allocation)
       (StoreOverflow ''reserving aligned in-flight page bytes''))) (\<lambda>reserved_inflight_bytes.
     abind (alift (ok_or (checked_add (lg_active_loads l) 1) (StoreOverflow ''reserving a cache load slot'')))
       (\<lambda>reserved_loads.
     athen (afold (evict_unleased reason) victims)
     (abind (aget (\<lambda>s. s)) (\<lambda>s.
     athen (aassert (lg_page_pool_bytes (ci_ledger s) = pool) ''projected pool bytes'')
     (athen (aassert (length (ci_entries s) = entries) ''projected entries'')
     (athen (amodify (\<lambda>s. s\<lparr>ci_ledger := (ci_ledger s)\<lparr>lg_active_loads := reserved_loads,
         lg_page_pool_bytes := reserved_pool_bytes, lg_inflight_bytes := reserved_inflight_bytes\<rparr>\<rparr>))
     (areturn True)))))))))))"

section \<open>Loads\<close>

text \<open>The control of a load has a fresh token and no deadline.\<close>

definition submit_load :: "nat \<Rightarrow> page_spec \<Rightarrow> u64 \<Rightarrow> unit cache_op" where
  "submit_load now spec generation =
     azoom ci_reader ci_reader_update (submit_observed (now, unbounded) spec (Detached (sp_key spec) generation))"

definition unwind_unsubmitted_load :: "page_key \<Rightarrow> u64 \<Rightarrow> unit cache_op" where
  "unwind_unsubmitted_load key generation =
     abind (find_entry key) (\<lambda>found. case found of
       None \<Rightarrow> afail (Invariant ''unsubmitted cache load lost its reserved entry'')
     | Some e \<Rightarrow>
         if en_generation e \<noteq> generation then afail (Invariant ''unsubmitted cache load changed generation'')
         else (case en_state e of
           Loading loading \<Rightarrow>
             athen (drop_entry key)
             (athen (charge (sub_loads 1))
             (athen (charge (sub_pool (en_allocation_bytes e)))
             (athen (charge (sub_inflight (en_allocation_bytes e)))
             (athen (charge (sub_waiters (length (le_waiters loading))))
             (charge (sub_reservations (length (le_waiters loading))))))))
         | _ \<Rightarrow> afail (Invariant ''unsubmitted cache load changed state'')))"

definition loading_entry_for ::
  "page_spec \<Rightarrow> u64 \<Rightarrow> u64 \<Rightarrow> u64 list \<Rightarrow> access_reason \<Rightarrow> bool \<Rightarrow> u64 \<Rightarrow> entry" where
  "loading_entry_for spec allocation generation waiters origin interest tick =
     \<lparr>en_fingerprint = sp_fingerprint spec, en_length = sp_length spec, en_allocation_bytes = allocation,
      en_generation = generation,
      en_state = Loading \<lparr>le_waiters = waiters, le_cancelled = False, le_origin = origin,
        le_prefetch_interest = interest, le_accepting_waiters = True, le_last_touch = tick\<rparr>\<rparr>"

section \<open>Demand\<close>

text \<open>What \<^verbatim>\<open>get\<close> leaves the critical section with: a lease, or a registration to wait on.\<close>

datatype get_outcome = Immediate page_lease | Registered u64 u64

definition lease_of :: "page_key \<Rightarrow> entry \<Rightarrow> verified_page \<Rightarrow> page_lease" where
  "lease_of key e page = \<lparr>pl_page = page, pl_key = key, pl_generation = en_generation e\<rparr>"

definition get_resident :: "page_spec \<Rightarrow> u64 \<Rightarrow> entry \<Rightarrow> resident_entry \<Rightarrow> get_outcome cache_op" where
  "get_resident spec tick e r =
     athen (meter count_hit)
     (abind (aget lease_slots_full) (\<lambda>slots.
     abind (alift slots) (\<lambda>full.
     abind (aget ci_config) (\<lambda>c.
     if full then afail (ResourceExhausted ''cache leases'' 1 (cc_max_leases c))
     else abind (alift (add_u64 (rp_leases r) 1)) (\<lambda>leases.
     athen (charge (add_leases 1))
     (athen (put_entry (sp_key spec) (e\<lparr>en_state := Resident (r\<lparr>rp_last_touch := tick, rp_leases := leases\<rparr>)\<rparr>))
     (athen (observe Hit Demand (sp_key spec) (sp_length spec))
     (areturn (Immediate (lease_of (sp_key spec) e (rp_page r)))))))))))"

definition get_loading :: "page_spec \<Rightarrow> u64 \<Rightarrow> entry \<Rightarrow> loading_entry \<Rightarrow> get_outcome cache_op" where
  "get_loading spec tick e loading =
     athen (meter count_miss)
     (athen (observe Miss Demand (sp_key spec) (sp_length spec))
     (abind (aget (\<lambda>s. s)) (\<lambda>s.
     if \<not> le_accepting_waiters loading
     then afail (ResourceExhausted ''page reload pending cancellation'' (sp_length spec)
       (cc_page_pool_capacity (ci_config s)))
     else athen (alift (reserve_waiter s (length (le_waiters loading))))
     (abind next_waiter (\<lambda>waiter_id.
     athen (charge (add_waiters 1))
     (athen (charge (add_reservations 1))
     (athen (meter (if le_origin loading = Prefetch then count_late_prefetch else count_coalesced_demand))
     (athen (put_entry (sp_key spec) (e\<lparr>en_state :=
         Loading (loading\<lparr>le_waiters := le_waiters loading @ [waiter_id], le_last_touch := tick\<rparr>)\<rparr>))
     (athen (observe (if le_origin loading = Prefetch then LatePrefetch else LoadCoalesced) Demand
       (sp_key spec) (sp_length spec))
     (areturn (Registered (en_generation e) waiter_id)))))))))))"

definition get_absent :: "bool \<Rightarrow> nat \<Rightarrow> page_spec \<Rightarrow> u64 \<Rightarrow> u64 \<Rightarrow> get_outcome cache_op" where
  "get_absent runtime now spec allocation tick =
     athen (meter count_miss)
     (athen (observe Miss Demand (sp_key spec) (sp_length spec))
     (abind (aget (\<lambda>s. reserve_waiter s 0)) (\<lambda>reserved.
     athen (alift reserved)
     (athen (alift (ensure runtime (Invariant ''cache miss requires a Tokio runtime'')))
     (abind next_generation (\<lambda>generation.
     abind next_waiter (\<lambda>waiter_id.
     abind (reserve_load allocation Demand) (\<lambda>admitted.
     abind (aget ci_config) (\<lambda>c.
     if \<not> admitted then afail (ResourceExhausted ''page pool'' (sp_length spec) (cc_page_pool_capacity c))
     else athen (charge (add_waiters 1))
     (athen (charge (add_reservations 1))
     (athen (put_entry (sp_key spec) (loading_entry_for spec allocation generation [waiter_id] Demand False tick))
     (athen (acatch (submit_load now spec generation)
       (\<lambda>error. athen (unwind_unsubmitted_load (sp_key spec) generation)
         (athen update_live_metrics (afail error))))
     (athen (observe LoadStarted Demand (sp_key spec) (sp_length spec))
     (areturn (Registered generation waiter_id)))))))))))))))"

definition get_section :: "bool \<Rightarrow> nat \<Rightarrow> page_spec \<Rightarrow> u64 \<Rightarrow> get_outcome cache_op" where
  "get_section runtime now spec allocation =
     abind (aget ci_shutdown) (\<lambda>shut.
     if shut then afail Shutdown
     else abind next_tick (\<lambda>tick.
     abind (find_entry (sp_key spec)) (\<lambda>found.
     abind (case found of
       None \<Rightarrow> get_absent runtime now spec allocation tick
     | Some e \<Rightarrow>
         athen (alift (validate_identity e spec allocation))
         (case en_state e of
            Resident r \<Rightarrow> get_resident spec tick e r
          | Loading loading \<Rightarrow> get_loading spec tick e loading
          | Retiring _ \<Rightarrow> abind (aget ci_config) (\<lambda>c.
              afail (ResourceExhausted ''retiring page'' (sp_length spec) (cc_page_pool_capacity c))))) (\<lambda>outcome.
     athen update_live_metrics (areturn outcome)))))"

definition get_enter :: "bool \<Rightarrow> check_point \<Rightarrow> page_spec \<Rightarrow> get_outcome cache_op" where
  "get_enter runtime point spec =
     athen (alift (check_at point))
     (athen (meter (add_demand_bytes (sp_length spec)))
     (abind (aget ci_config) (\<lambda>c.
     abind (alift (validate_spec c spec)) (\<lambda>allocation.
     get_section runtime (fst point) spec allocation))))"

text \<open>\<^verbatim>\<open>mark_prefetch_use\<close>, which \<^verbatim>\<open>get\<close> calls after the critical section of a hit.\<close>

definition mark_prefetch_use :: "page_key \<Rightarrow> u64 \<Rightarrow> unit cache_op" where
  "mark_prefetch_use key generation =
     abind (find_entry key) (\<lambda>found. case found of
       None \<Rightarrow> areturn ()
     | Some e \<Rightarrow>
         if en_generation e \<noteq> generation then areturn ()
         else (case en_state e of
           Loading _ \<Rightarrow> areturn ()
         | Resident r \<Rightarrow>
             if rp_prefetched_unused r
             then athen (put_entry key (e\<lparr>en_state := Resident (r\<lparr>rp_prefetched_unused := False\<rparr>)\<rparr>))
               (athen (meter count_useful_prefetch) (observe PrefetchUseful Demand key (en_length e)))
             else areturn ()
         | Retiring r \<Rightarrow>
             if rt_prefetched_unused r
             then athen (put_entry key (e\<lparr>en_state := Retiring (r\<lparr>rt_prefetched_unused := False\<rparr>)\<rparr>))
               (athen (meter count_useful_prefetch) (observe PrefetchUseful Demand key (en_length e)))
             else areturn ()))"

text \<open>\<^verbatim>\<open>Vec::swap_remove\<close>.\<close>

definition swap_remove :: "'a list \<Rightarrow> nat \<Rightarrow> 'a list" where
  "swap_remove xs i = butlast (xs[i := last xs])"

fun position :: "('a \<Rightarrow> bool) \<Rightarrow> 'a list \<Rightarrow> nat option" where
  "position P [] = None"
| "position P (x # xs) = (if P x then Some 0 else map_option Suc (position P xs))"

definition withdraw_waiter :: "page_key \<Rightarrow> u64 \<Rightarrow> u64 \<Rightarrow> unit cache_op" where
  "withdraw_waiter key generation waiter_id =
     abind (find_entry key) (\<lambda>found. case found of
       None \<Rightarrow> areturn ()
     | Some e \<Rightarrow>
         if en_generation e \<noteq> generation then areturn ()
         else (case en_state e of
           Loading loading \<Rightarrow>
             (case position (\<lambda>w. w = waiter_id) (le_waiters loading) of
                None \<Rightarrow> areturn ()
              | Some i \<Rightarrow>
                  let loading = loading\<lparr>le_waiters := swap_remove (le_waiters loading) i\<rparr>;
                      loading = (if le_waiters loading = [] \<and> \<not> le_prefetch_interest loading
                        then loading\<lparr>le_accepting_waiters := False, le_cancelled := True\<rparr> else loading) in
                  athen (charge (sub_waiters 1))
                  (athen (charge (sub_reservations 1))
                  (athen (put_entry key (e\<lparr>en_state := Loading loading\<rparr>))
                  update_live_metrics)))
         | _ \<Rightarrow> areturn ()))"

text \<open>
  One turn of the waiting loop of \<^verbatim>\<open>get\<close>: the control is checked, then the receiver is polled with a timeout.
  \<open>Pending\<close> goes round again; dropping the future at any other point is \<open>withdraw_waiter\<close> alone.
\<close>

datatype wait_event = WaitReceived "store_error + page_lease" | WaitClosed | WaitElapsed

datatype 'a poll = Pending | Ready 'a

definition get_poll :: "check_point \<Rightarrow> u128 \<Rightarrow> page_spec \<Rightarrow> u64 \<Rightarrow> u64 \<Rightarrow> wait_event \<Rightarrow> page_lease poll cache_op" where
  "get_poll point elapsed spec generation waiter_id event =
     (case check_at point of
        Inl (Err error) \<Rightarrow>
          athen (withdraw_waiter (sp_key spec) generation waiter_id)
          (athen (meter (add_wait_nanoseconds (min elapsed u64_max)))
          (athen (observe TraceCancelled Demand (sp_key spec) (sp_length spec))
          (afail error)))
      | Inl (Panic message) \<Rightarrow> alift (panic message)
      | Inr _ \<Rightarrow>
          (case event of
             WaitReceived result \<Rightarrow>
               athen (meter (add_wait_nanoseconds (min elapsed u64_max)))
               (case result of Inl error \<Rightarrow> afail error | Inr lease \<Rightarrow> areturn (Ready lease))
           | WaitClosed \<Rightarrow> afail (Invariant ''cache load dropped a waiter completion'')
           | WaitElapsed \<Rightarrow> areturn Pending))"

section \<open>Prefetch\<close>

datatype prefetch_outcome = Started | CoalescedWithDemand | Redundant | DroppedBudget

definition drop_prefetch :: "page_spec \<Rightarrow> prefetch_outcome cache_op" where
  "drop_prefetch spec =
     athen (meter count_dropped_prefetch)
     (athen (observe PrefetchDropped Prefetch (sp_key spec) (sp_length spec))
     (areturn DroppedBudget))"

definition redundant_prefetch :: "page_spec \<Rightarrow> prefetch_outcome cache_op" where
  "redundant_prefetch spec =
     athen (meter count_redundant_prefetch)
     (athen (observe PrefetchRedundant Prefetch (sp_key spec) (sp_length spec))
     (areturn Redundant))"

definition prefetch_present :: "page_spec \<Rightarrow> entry \<Rightarrow> prefetch_outcome cache_op" where
  "prefetch_present spec e = (case en_state e of
     Loading loading \<Rightarrow>
       if le_accepting_waiters loading \<and> le_origin loading = Demand \<and> \<not> le_prefetch_interest loading
       then athen (put_entry (sp_key spec) (e\<lparr>en_state := Loading (loading\<lparr>le_prefetch_interest := True\<rparr>)\<rparr>))
         (athen (meter count_coalesced_prefetch)
         (athen (observe PrefetchCoalesced Prefetch (sp_key spec) (sp_length spec))
         (areturn CoalescedWithDemand)))
       else if \<not> le_accepting_waiters loading then drop_prefetch spec
       else redundant_prefetch spec
   | Resident _ \<Rightarrow> redundant_prefetch spec
   | Retiring _ \<Rightarrow> drop_prefetch spec)"

text \<open>
  An absent page: \<open>Inl outcome\<close> returns from \<^verbatim>\<open>prefetch\<close> at once, \<open>Inr outcome\<close> goes on to the live metrics.
\<close>

definition prefetch_absent ::
  "bool \<Rightarrow> nat \<Rightarrow> page_spec \<Rightarrow> u64 \<Rightarrow> (prefetch_outcome + prefetch_outcome) cache_op" where
  "prefetch_absent runtime now spec allocation =
     athen (alift (ensure runtime (Invariant ''cache prefetch requires a Tokio runtime'')))
     (abind next_tick (\<lambda>tick.
     abind next_generation (\<lambda>generation.
     abind (reserve_load allocation Prefetch) (\<lambda>admitted.
     if \<not> admitted then abind (drop_prefetch spec) (\<lambda>outcome. areturn (Inl outcome))
     else athen (put_entry (sp_key spec) (loading_entry_for spec allocation generation [] Prefetch True tick))
     (acatch
       (athen (submit_load now spec generation)
       (athen (observe LoadStarted Prefetch (sp_key spec) (sp_length spec))
       (areturn (Inr Started))))
       (\<lambda>error. athen (unwind_unsubmitted_load (sp_key spec) generation)
         (athen update_live_metrics
         (if error = QueueFull then abind (drop_prefetch spec) (\<lambda>outcome. areturn (Inl outcome))
          else afail error))))))))"

definition prefetch_section :: "bool \<Rightarrow> nat \<Rightarrow> page_spec \<Rightarrow> u64 \<Rightarrow> prefetch_outcome cache_op" where
  "prefetch_section runtime now spec allocation =
     abind (aget ci_shutdown) (\<lambda>shut.
     if shut then afail Shutdown
     else abind (find_entry (sp_key spec)) (\<lambda>found.
     abind (case found of
       None \<Rightarrow> prefetch_absent runtime now spec allocation
     | Some e \<Rightarrow> athen (alift (validate_identity e spec allocation))
         (abind (prefetch_present spec e) (\<lambda>outcome. areturn (Inr outcome)))) (\<lambda>done. case done of
       Inl outcome \<Rightarrow> areturn outcome
     | Inr outcome \<Rightarrow> athen update_live_metrics (areturn outcome))))"

definition prefetch :: "bool \<Rightarrow> check_point \<Rightarrow> page_spec \<Rightarrow> prefetch_outcome cache_op" where
  "prefetch runtime point spec =
     athen (alift (check_at point))
     (athen (meter (add_prefetch_bytes (sp_length spec)))
     (abind (aget ci_config) (\<lambda>c.
     abind (alift (validate_spec c spec)) (\<lambda>allocation.
     prefetch_section runtime (fst point) spec allocation))))"

section \<open>Completion\<close>

text \<open>What is sent on the waiters' channels once the mutex is released, in order.\<close>

type_synonym deliveries = "(u64 \<times> (store_error + page_lease)) list"

definition fail_waiters :: "u64 list \<Rightarrow> store_error \<Rightarrow> deliveries" where
  "fail_waiters waiters error = map (\<lambda>w. (w, Inl error)) waiters"

definition page_fits :: "page_key \<Rightarrow> entry \<Rightarrow> verified_page \<Rightarrow> bool" where
  "page_fits key e page \<longleftrightarrow> \<not> (vp_key page \<noteq> key \<or> length (vp_bytes page) \<noteq> en_length e \<or>
     en_allocation_bytes e < vp_capacity page)"

definition admit_page :: "page_key \<Rightarrow> entry \<Rightarrow> loading_entry \<Rightarrow> verified_page \<Rightarrow> deliveries cache_op" where
  "admit_page key e loading page =
     (let waiter_count = length (le_waiters loading) in
      athen (charge (add_resident (en_allocation_bytes e)))
      (athen (charge (add_leases waiter_count))
      (athen (meter count_admission)
      (athen (put_entry key (e\<lparr>en_state := Resident \<lparr>rp_page = page, rp_leases = waiter_count,
          rp_prefetched_unused = le_prefetch_interest loading \<and> waiter_count = 0,
          rp_last_touch = le_last_touch loading\<rparr>\<rparr>))
      (athen (observe Admitted (le_origin loading) key (en_length e))
      (areturn (map (\<lambda>w. (w, Inr (lease_of key e page))) (le_waiters loading))))))))"

definition settle_load ::
  "page_key \<Rightarrow> entry \<Rightarrow> loading_entry \<Rightarrow> store_error + verified_page \<Rightarrow> deliveries cache_op" where
  "settle_load key e loading outcome =
     abind (aget ci_shutdown) (\<lambda>shut.
     let publish = le_accepting_waiters loading \<and> \<not> shut in
     case outcome of
       Inr page \<Rightarrow>
         if publish then
           if \<not> page_fits key e page then
             athen (charge (sub_pool (en_allocation_bytes e)))
             (athen (observe LoadFailed (le_origin loading) key (en_length e))
             (areturn (fail_waiters (le_waiters loading)
               (Invariant ''verified reader exceeded its reserved page identity or allocation''))))
           else admit_page key e loading page
         else athen (charge (sub_pool (en_allocation_bytes e)))
           (areturn (fail_waiters (le_waiters loading) (if shut then Shutdown else Cancelled)))
     | Inl error \<Rightarrow>
         athen (charge (sub_pool (en_allocation_bytes e)))
         (athen (observe LoadFailed (le_origin loading) key (en_length e))
         (areturn (fail_waiters (le_waiters loading) error))))"

definition complete_load :: "page_key \<Rightarrow> u64 \<Rightarrow> store_error + verified_page \<Rightarrow> deliveries cache_op" where
  "complete_load key generation outcome =
     abind (find_entry key) (\<lambda>found. case found of
       None \<Rightarrow> areturn []
     | Some e \<Rightarrow>
         if en_generation e \<noteq> generation then areturn []
         else (case en_state e of
           Loading loading \<Rightarrow>
             athen (drop_entry key)
             (athen (charge (sub_loads 1))
             (athen (charge (sub_inflight (en_allocation_bytes e)))
             (athen (charge (sub_waiters (length (le_waiters loading))))
             (athen (charge (sub_reservations (length (le_waiters loading))))
             (abind (settle_load key e loading outcome) (\<lambda>sent.
             athen update_live_metrics (areturn sent)))))))
         | _ \<Rightarrow> areturn []))"

definition finish_observed_load ::
  "page_key \<Rightarrow> u64 \<Rightarrow> store_error + verified_page \<Rightarrow> read_stats \<Rightarrow> deliveries cache_op" where
  "finish_observed_load key generation outcome stats =
     athen (meter (add_physical_read_bytes (st_physical_bytes stats)))
     (athen (meter (add_io_nanoseconds (st_io_nanoseconds stats)))
     (complete_load key generation outcome))"

section \<open>Leases, invalidation, shutdown\<close>

definition release_lease :: "page_key \<Rightarrow> u64 \<Rightarrow> unit cache_op" where
  "release_lease key generation =
     abind (find_entry key) (\<lambda>found. case found of
       None \<Rightarrow> areturn ()
     | Some e \<Rightarrow>
         if en_generation e \<noteq> generation then areturn ()
         else athen (case en_state e of
           Resident r \<Rightarrow>
             if 0 < rp_leases r
             then athen (put_entry key (e\<lparr>en_state := Resident (r\<lparr>rp_leases := rp_leases r - 1\<rparr>)\<rparr>))
               (charge (sub_leases 1))
             else areturn ()
         | Retiring r \<Rightarrow>
             if 0 < rt_leases r
             then athen (charge (sub_leases 1))
               (if rt_leases r - 1 = 0
                then athen (drop_entry key)
                  (athen (charge (sub_pool (en_allocation_bytes e)))
                  (athen (charge (sub_retiring (en_allocation_bytes e)))
                  (if rt_prefetched_unused r
                   then athen (meter count_wasted_prefetch) (observe PrefetchWasted Prefetch key (en_length e))
                   else areturn ())))
                else put_entry key (e\<lparr>en_state := Retiring (r\<lparr>rt_leases := rt_leases r - 1\<rparr>)\<rparr>))
             else areturn ()
         | Loading _ \<Rightarrow> areturn ())
         update_live_metrics)"

text \<open>
  Retiring one entry. \<^verbatim>\<open>invalidate\<close> and \<^verbatim>\<open>shutdown\<close> treat residents alike, up to the trace record of a leased one;
  a loading entry is cancelled by both, and \<^verbatim>\<open>shutdown\<close> also takes its waiters away.
\<close>

definition retire_resident :: "bool \<Rightarrow> page_key \<Rightarrow> entry \<Rightarrow> resident_entry \<Rightarrow> unit cache_op" where
  "retire_resident traced key e r =
     (if rp_leases r = 0
      then athen (drop_entry key)
        (athen (charge (sub_pool (en_allocation_bytes e)))
        (athen (charge (sub_resident (en_allocation_bytes e)))
        (if rp_prefetched_unused r
         then athen (meter count_wasted_prefetch) (observe PrefetchWasted Prefetch key (en_length e))
         else areturn ())))
      else athen (charge (sub_resident (en_allocation_bytes e)))
        (athen (charge (add_retiring (en_allocation_bytes e)))
        (athen (put_entry key (e\<lparr>en_state := Retiring \<lparr>rt_page = rp_page r, rt_leases = rp_leases r,
            rt_prefetched_unused = rp_prefetched_unused r\<rparr>\<rparr>))
        (if traced then observe Retired Demand key (en_length e) else areturn ()))))"

definition invalidate :: "page_key \<Rightarrow> bool cache_op" where
  "invalidate key =
     abind (find_entry key) (\<lambda>found. case found of
       None \<Rightarrow> areturn False
     | Some e \<Rightarrow>
         athen (case en_state e of
           Loading loading \<Rightarrow>
             put_entry key (e\<lparr>en_state := Loading (loading\<lparr>le_accepting_waiters := False, le_cancelled := True\<rparr>)\<rparr>)
         | Resident r \<Rightarrow> retire_resident True key e r
         | Retiring _ \<Rightarrow> areturn ())
         (athen update_live_metrics (areturn True)))"

definition shutdown_entry :: "page_key \<Rightarrow> u64 list cache_op" where
  "shutdown_entry key =
     abind (find_entry key) (\<lambda>found. case found of
       None \<Rightarrow> areturn []
     | Some e \<Rightarrow> (case en_state e of
         Loading loading \<Rightarrow>
           athen (charge (sub_waiters (length (le_waiters loading))))
           (athen (charge (sub_reservations (length (le_waiters loading))))
           (athen (put_entry key (e\<lparr>en_state := Loading (loading\<lparr>le_accepting_waiters := False,
               le_cancelled := True, le_waiters := []\<rparr>)\<rparr>))
           (areturn (le_waiters loading))))
       | Resident r \<Rightarrow> athen (retire_resident False key e r) (areturn [])
       | Retiring _ \<Rightarrow> areturn []))"

fun shutdown_entries :: "page_key list \<Rightarrow> u64 list \<Rightarrow> u64 list cache_op" where
  "shutdown_entries [] failures = areturn failures"
| "shutdown_entries (key # keys) failures =
     abind (shutdown_entry key) (\<lambda>waiters. shutdown_entries keys (failures @ waiters))"

text \<open>\<open>order\<close> is the order in which the hash map yields its keys.\<close>

definition cache_shutdown :: "(page_key list \<Rightarrow> page_key list) \<Rightarrow> deliveries cache_op" where
  "cache_shutdown order =
     abind (aget ci_shutdown) (\<lambda>shut.
     if shut then areturn []
     else athen (amodify (\<lambda>s. s\<lparr>ci_shutdown := True\<rparr>))
     (abind (aget (\<lambda>s. order (bt_keys (ci_entries s)))) (\<lambda>keys.
     abind (shutdown_entries keys []) (\<lambda>failures.
     athen update_live_metrics
     (athen (amodify (\<lambda>s. s\<lparr>ci_reader := reader_close (ci_reader s)\<rparr>))
     (areturn (fail_waiters failures Shutdown)))))))"

end
