(* ===== verification/Store_Cache_Inv.thy ===== *)
theory Store_Cache_Inv
  imports Store_Cache
begin

text \<open>
  The invariant of the page cache. Every entry weighs on the ledger: a loading page on the in-flight bytes, the
  loads and the waiters, a resident or retiring one on its byte class and on the leases. \<open>core\<close> states that the
  ledger is the sum of these weights, that every configured limit holds, that each entry holds the page it is
  keyed by, and what shutdown leaves behind; \<open>gauged\<close> that the live gauges show the ledger. Each operation keeps
  the invariant, on its error paths too, and never underflows a ledger field or trips an assertion.
\<close>

text \<open>Statements about all keys stay statements about keys.\<close>

declare split_paired_All [simp del] split_paired_Ex [simp del]

section \<open>The invariant\<close>

definition weigh :: "entry \<Rightarrow> ledger" where
  "weigh e = (case en_state e of
     Loading l \<Rightarrow> \<lparr>lg_page_pool_bytes = en_allocation_bytes e, lg_inflight_bytes = en_allocation_bytes e,
       lg_resident_bytes = 0, lg_retiring_bytes = 0, lg_active_loads = 1, lg_waiters = length (le_waiters l),
       lg_lease_reservations = length (le_waiters l), lg_leases = 0\<rparr>
   | Resident r \<Rightarrow> \<lparr>lg_page_pool_bytes = en_allocation_bytes e, lg_inflight_bytes = 0,
       lg_resident_bytes = en_allocation_bytes e, lg_retiring_bytes = 0, lg_active_loads = 0, lg_waiters = 0,
       lg_lease_reservations = 0, lg_leases = rp_leases r\<rparr>
   | Retiring r \<Rightarrow> \<lparr>lg_page_pool_bytes = en_allocation_bytes e, lg_inflight_bytes = 0,
       lg_resident_bytes = 0, lg_retiring_bytes = en_allocation_bytes e, lg_active_loads = 0, lg_waiters = 0,
       lg_lease_reservations = 0, lg_leases = rt_leases r\<rparr>)"

abbreviation weight :: "(ledger \<Rightarrow> nat) \<Rightarrow> (page_key, entry) btree_map \<Rightarrow> nat" where
  "weight f m \<equiv> btotal (\<lambda>_ e. f (weigh e)) m"

definition balanced :: "(page_key, entry) btree_map \<Rightarrow> ledger \<Rightarrow> bool" where
  "balanced m l \<longleftrightarrow>
     lg_page_pool_bytes l = weight lg_page_pool_bytes m \<and> lg_inflight_bytes l = weight lg_inflight_bytes m \<and>
     lg_resident_bytes l = weight lg_resident_bytes m \<and> lg_retiring_bytes l = weight lg_retiring_bytes m \<and>
     lg_active_loads l = weight lg_active_loads m \<and> lg_waiters l = weight lg_waiters m \<and>
     lg_lease_reservations l = weight lg_lease_reservations m \<and> lg_leases l = weight lg_leases m"

definition within :: "cache_config \<Rightarrow> (page_key, entry) btree_map \<Rightarrow> ledger \<Rightarrow> bool" where
  "within c m l \<longleftrightarrow> lg_page_pool_bytes l \<le> cc_page_pool_capacity c \<and> lg_inflight_bytes l \<le> cc_max_inflight_bytes c \<and>
     lg_active_loads l \<le> cc_max_loads c \<and> lg_waiters l \<le> cc_max_waiters c \<and>
     lg_leases l + lg_lease_reservations l \<le> cc_max_leases c \<and> length m \<le> cc_max_entries c"

text \<open>An entry for a page: the bytes it holds are those of the key, with the fingerprint it was requested with.\<close>

definition authentic :: "(u8 list \<Rightarrow> digest) \<Rightarrow> page_key \<Rightarrow> entry \<Rightarrow> verified_page \<Rightarrow> bool" where
  "authentic sha key e page \<longleftrightarrow> page_fits key e page \<and> sha (vp_bytes page) = en_fingerprint e"

definition entry_ok :: "(u8 list \<Rightarrow> digest) \<Rightarrow> cache_config \<Rightarrow> u64 \<Rightarrow> bool \<Rightarrow> page_key \<Rightarrow> entry \<Rightarrow> bool" where
  "entry_ok sha c generation shut key e \<longleftrightarrow>
     en_generation e \<le> generation \<and> aligned_page_buffer_bytes (en_length e) = Ok (en_allocation_bytes e) \<and>
     (case en_state e of
        Loading l \<Rightarrow> length (le_waiters l) \<le> cc_max_waiters_per_page c \<and> (le_accepting_waiters l \<longleftrightarrow> \<not> le_cancelled l) \<and>
          (shut \<longrightarrow> le_waiters l = [] \<and> \<not> le_accepting_waiters l)
      | Resident r \<Rightarrow> authentic sha key e (rp_page r) \<and> \<not> shut
      | Retiring r \<Rightarrow> authentic sha key e (rt_page r) \<and> 0 < rt_leases r)"

definition config_ok :: "cache_config \<Rightarrow> bool" where
  "config_ok c \<longleftrightarrow> config_validate c = Ok () \<and> cc_page_pool_capacity c \<le> u64_max"

definition core ::
  "(u8 list \<Rightarrow> digest) \<Rightarrow> cache_config \<Rightarrow> (page_key, entry) btree_map \<Rightarrow> ledger \<Rightarrow> u64 \<Rightarrow> bool \<Rightarrow> bool" where
  "core sha c m l generation shut \<longleftrightarrow> config_ok c \<and> bt_wf m \<and> balanced m l \<and> within c m l \<and>
     (\<forall>k e. bt_get m k = Some e \<longrightarrow> entry_ok sha c generation shut k e)"

definition gauged :: "metrics \<Rightarrow> ledger \<Rightarrow> bool" where
  "gauged t l \<longleftrightarrow> mt_active_loads t = lg_active_loads l \<and> mt_page_pool_bytes t = lg_page_pool_bytes l \<and>
     mt_inflight_bytes t = lg_inflight_bytes l \<and> mt_resident_bytes t = lg_resident_bytes l \<and>
     mt_retiring_bytes t = lg_retiring_bytes l \<and> mt_leases t = lg_leases l"

definition core_ok :: "(u8 list \<Rightarrow> digest) \<Rightarrow> cache_inner \<Rightarrow> bool" where
  "core_ok sha s \<longleftrightarrow> core sha (ci_config s) (ci_entries s) (ci_ledger s) (ci_generation s) (ci_shutdown s)"

definition cache_ok :: "(u8 list \<Rightarrow> digest) \<Rightarrow> cache_inner \<Rightarrow> bool" where
  "cache_ok sha s \<longleftrightarrow> core_ok sha s \<and> gauged (ci_metrics s) (ci_ledger s)"

section \<open>Ledger laws\<close>

text \<open>The change of the ledger that goes with an entry changing from one weight to another.\<close>

definition shifted :: "ledger \<Rightarrow> ledger \<Rightarrow> ledger \<Rightarrow> ledger \<Rightarrow> bool" where
  "shifted w w' l l' \<longleftrightarrow>
     lg_page_pool_bytes l' + lg_page_pool_bytes w = lg_page_pool_bytes l + lg_page_pool_bytes w' \<and>
     lg_inflight_bytes l' + lg_inflight_bytes w = lg_inflight_bytes l + lg_inflight_bytes w' \<and>
     lg_resident_bytes l' + lg_resident_bytes w = lg_resident_bytes l + lg_resident_bytes w' \<and>
     lg_retiring_bytes l' + lg_retiring_bytes w = lg_retiring_bytes l + lg_retiring_bytes w' \<and>
     lg_active_loads l' + lg_active_loads w = lg_active_loads l + lg_active_loads w' \<and>
     lg_waiters l' + lg_waiters w = lg_waiters l + lg_waiters w' \<and>
     lg_lease_reservations l' + lg_lease_reservations w = lg_lease_reservations l + lg_lease_reservations w' \<and>
     lg_leases l' + lg_leases w = lg_leases l + lg_leases w'"

lemma balanced_replace:
  assumes "bt_wf m" "bt_get m k = Some e" "balanced m l" "shifted (weigh e) (weigh e') l l'"
  shows "balanced (bt_insert k e' m) l'"
proof -
  have "weight f (bt_insert k e' m) + f (weigh e) = weight f m + f (weigh e')" for f
    by (rule bt_total_replace [OF assms(1,2)])
  note w = this [of lg_page_pool_bytes] this [of lg_inflight_bytes] this [of lg_resident_bytes]
    this [of lg_retiring_bytes] this [of lg_active_loads] this [of lg_waiters] this [of lg_lease_reservations]
    this [of lg_leases]
  show ?thesis using w assms(3,4) unfolding balanced_def shifted_def by linarith
qed

lemma balanced_new:
  assumes "bt_wf m" "bt_get m k = None" "balanced m l" "shifted ledger_default (weigh e) l l'"
  shows "balanced (bt_insert k e m) l'"
proof -
  have "weight f (bt_insert k e m) = weight f m + f (weigh e)" for f
    by (rule bt_total_insert_new [OF assms(1,2)])
  then show ?thesis using assms(3,4) by (simp add: balanced_def shifted_def ledger_default_def)
qed

lemma balanced_drop:
  assumes "bt_wf m" "bt_get m k = Some e" "balanced m l" "shifted (weigh e) ledger_default l l'"
  shows "balanced (bt_remove k m) l'"
proof -
  have "weight f (bt_remove k m) + f (weigh e) = weight f m" for f
    by (rule bt_total_remove [OF assms(1,2)])
  note w = this [of lg_page_pool_bytes] this [of lg_inflight_bytes] this [of lg_resident_bytes]
    this [of lg_retiring_bytes] this [of lg_active_loads] this [of lg_waiters] this [of lg_lease_reservations]
    this [of lg_leases]
  show ?thesis using w assms(3,4) unfolding balanced_def shifted_def
    by (simp add: ledger_default_def)
qed

lemma weigh_le:
  assumes "bt_wf m" "bt_get m k = Some e" "balanced m l"
  shows "lg_page_pool_bytes (weigh e) \<le> lg_page_pool_bytes l" "lg_inflight_bytes (weigh e) \<le> lg_inflight_bytes l"
    "lg_resident_bytes (weigh e) \<le> lg_resident_bytes l" "lg_retiring_bytes (weigh e) \<le> lg_retiring_bytes l"
    "lg_active_loads (weigh e) \<le> lg_active_loads l" "lg_waiters (weigh e) \<le> lg_waiters l"
    "lg_lease_reservations (weigh e) \<le> lg_lease_reservations l" "lg_leases (weigh e) \<le> lg_leases l"
  using assms(3) bt_get_le_total [OF assms(1,2), of "\<lambda>_ e. f (weigh e)" for f] by (simp_all add: balanced_def)

text \<open>The byte classes partition the pool, and every waiter holds one lease reservation.\<close>

lemma balanced_pool:
  assumes "balanced m l"
  shows "lg_page_pool_bytes l = lg_inflight_bytes l + lg_resident_bytes l + lg_retiring_bytes l"
    "lg_lease_reservations l = lg_waiters l"
proof -
  have "weight lg_page_pool_bytes m = weight lg_inflight_bytes m + weight lg_resident_bytes m + weight lg_retiring_bytes m"
    by (induction m) (auto simp: weigh_def split: entry_state.splits)
  then show "lg_page_pool_bytes l = lg_inflight_bytes l + lg_resident_bytes l + lg_retiring_bytes l"
    using assms by (simp add: balanced_def)
  have "weight lg_lease_reservations m = weight lg_waiters m"
    by (induction m) (auto simp: weigh_def split: entry_state.splits)
  then show "lg_lease_reservations l = lg_waiters l" using assms by (simp add: balanced_def)
qed

section \<open>Changing one entry\<close>

lemma coreD:
  assumes "core sha c m l g shut"
  shows "config_ok c" "bt_wf m" "balanced m l" "within c m l"
  using assms by (simp_all add: core_def)

lemma core_entry: "core sha c m l g shut \<Longrightarrow> bt_get m k = Some e \<Longrightarrow> entry_ok sha c g shut k e"
  unfolding core_def by blast

lemma core_le:
  assumes "core sha c m l g shut" "bt_get m k = Some e"
  shows "lg_page_pool_bytes (weigh e) \<le> lg_page_pool_bytes l" "lg_inflight_bytes (weigh e) \<le> lg_inflight_bytes l"
    "lg_resident_bytes (weigh e) \<le> lg_resident_bytes l" "lg_retiring_bytes (weigh e) \<le> lg_retiring_bytes l"
    "lg_active_loads (weigh e) \<le> lg_active_loads l" "lg_waiters (weigh e) \<le> lg_waiters l"
    "lg_lease_reservations (weigh e) \<le> lg_lease_reservations l" "lg_leases (weigh e) \<le> lg_leases l"
  using weigh_le [OF coreD(2) [OF assms(1)] assms(2) coreD(3) [OF assms(1)]] by simp_all

lemma core_replace:
  assumes core: "core sha c m l g shut" and e: "bt_get m k = Some e"
    and shift: "shifted (weigh e) (weigh e') l l'" and lim: "within c m l'" and ok: "entry_ok sha c g shut k e'"
  shows "core sha c (bt_insert k e' m) l' g shut"
proof -
  have "balanced (bt_insert k e' m) l'"
    by (rule balanced_replace [OF coreD(2) [OF core] e coreD(3) [OF core] shift])
  moreover have "within c (bt_insert k e' m) l'"
    using lim length_bt_replace [OF coreD(2) [OF core] e] by (simp add: within_def)
  ultimately show ?thesis using core ok by (auto simp: core_def)
qed

lemma core_drop:
  assumes core: "core sha c m l g shut" and e: "bt_get m k = Some e" and shift: "shifted (weigh e) ledger_default l l'"
  shows "core sha c (bt_remove k m) l' g shut"
proof -
  have "balanced (bt_remove k m) l'"
    by (rule balanced_drop [OF coreD(2) [OF core] e coreD(3) [OF core] shift])
  moreover have "within c (bt_remove k m) l'"
    using coreD(4) [OF core] shift length_bt_remove [OF coreD(2) [OF core] e]
    by (auto simp: within_def shifted_def ledger_default_def)
  ultimately show ?thesis using core by (auto simp: core_def)
qed

lemma core_new:
  assumes core: "core sha c m l g shut" and e: "bt_get m k = None" and shift: "shifted ledger_default (weigh e) l l'"
    and lim: "within c m l'" "length m < cc_max_entries c" and ok: "entry_ok sha c g shut k e"
  shows "core sha c (bt_insert k e m) l' g shut"
proof -
  have "balanced (bt_insert k e m) l'"
    by (rule balanced_new [OF coreD(2) [OF core] e coreD(3) [OF core] shift])
  moreover have "within c (bt_insert k e m) l'"
    using lim length_bt_insert_new [OF coreD(2) [OF core] e] by (simp add: within_def)
  ultimately show ?thesis using core ok by (auto simp: core_def)
qed

lemma core_generation: "core sha c m l g shut \<Longrightarrow> g \<le> g' \<Longrightarrow> core sha c m l g' shut"
  unfolding core_def by (fastforce simp: entry_ok_def)

section \<open>Primitive steps\<close>

lemma wp_sub_u64 [simp]: "wp E (sub_u64 a b) Q = (if b \<le> a then Q (a - b) else E (Panic ''attempt to subtract with overflow''))"
  by (simp add: sub_u64_def checked_sub_def)

lemma wp_add_u64 [simp]: "wp E (add_u64 a b) Q = (if a + b \<le> u64_max then Q (a + b) else E (Panic ''attempt to add with overflow''))"
  by (simp add: add_u64_def checked_add_def)

lemmas cache_prims = meter_def observe_def put_entry_def drop_entry_def find_entry_def charge_def
  ledger_add_def ledger_sub_def

lemma config_okD:
  assumes "config_ok c"
  shows "cc_page_pool_capacity c \<le> u64_max" "cc_max_inflight_bytes c \<le> cc_page_pool_capacity c"
    "cc_max_leases c \<le> MAX_LEASES" "cc_max_waiters c \<le> MAX_WAITERS" "cc_max_loads c \<le> MAX_LOADS"
    "cc_max_entries c \<le> MAX_ENTRIES" "cc_max_loads c \<le> cc_max_entries c" "0 < cc_max_leases c"
    "cc_max_waiters_per_page c \<le> cc_max_waiters c"
  using assms by (auto simp: config_ok_def config_validate_def split: if_splits)

lemma limits_u64: "MAX_LEASES + MAX_WAITERS + MAX_LOADS + MAX_ENTRIES < u64_max"
  by (simp add: MAX_LEASES_def MAX_WAITERS_def MAX_LOADS_def MAX_ENTRIES_def u64_max_def)

text \<open>The assertion in \<open>update_live_metrics\<close> holds, and afterwards the gauges are live.\<close>

lemma awp_live:
  assumes "core_ok sha s" and "\<And>t. gauged t (ci_ledger s) \<Longrightarrow> Q () (s\<lparr>ci_metrics := t\<rparr>)"
  shows "awp E update_live_metrics Q s"
proof -
  let ?l = "ci_ledger s"
  have "lg_page_pool_bytes ?l \<le> u64_max"
    using assms(1) config_okD(1) [of "ci_config s"] by (auto simp: core_ok_def core_def within_def)
  then have "Option.bind (checked_add (lg_inflight_bytes ?l) (lg_resident_bytes ?l))
      (\<lambda>v. checked_add v (lg_retiring_bytes ?l)) = Some (lg_page_pool_bytes ?l)"
    using balanced_pool(1) [of "ci_entries s" ?l] assms(1) by (simp add: core_ok_def core_def checked_add_def)
  then show ?thesis
    using assms(2) [of "set_live (lg_active_loads ?l) (lg_page_pool_bytes ?l) (lg_inflight_bytes ?l)
      (lg_resident_bytes ?l) (lg_retiring_bytes ?l) (lg_leases ?l) (ci_metrics s)"]
    by (simp add: update_live_metrics_def meter_def gauged_def set_live_def)
qed

text \<open>The counters are not gauges.\<close>

lemma gauged_counts [simp]:
  "gauged (add_demand_bytes n t) l = gauged t l" "gauged (add_prefetch_bytes n t) l = gauged t l"
  "gauged (add_physical_read_bytes n t) l = gauged t l" "gauged (add_wait_nanoseconds n t) l = gauged t l"
  "gauged (add_io_nanoseconds n t) l = gauged t l" "gauged (count_hit t) l = gauged t l"
  "gauged (count_miss t) l = gauged t l" "gauged (count_admission t) l = gauged t l"
  "gauged (count_eviction t) l = gauged t l" "gauged (count_coalesced_demand t) l = gauged t l"
  "gauged (count_late_prefetch t) l = gauged t l" "gauged (count_coalesced_prefetch t) l = gauged t l"
  "gauged (count_useful_prefetch t) l = gauged t l" "gauged (count_wasted_prefetch t) l = gauged t l"
  "gauged (count_redundant_prefetch t) l = gauged t l" "gauged (count_dropped_prefetch t) l = gauged t l"
  by (simp_all add: gauged_def add_demand_bytes_def add_prefetch_bytes_def add_physical_read_bytes_def
      add_wait_nanoseconds_def add_io_nanoseconds_def count_hit_def count_miss_def count_admission_def
      count_eviction_def count_coalesced_demand_def count_late_prefetch_def count_coalesced_prefetch_def
      count_useful_prefetch_def count_wasted_prefetch_def count_redundant_prefetch_def count_dropped_prefetch_def)

lemma awp_case_entry_state:
  "awp E (case st of Loading l \<Rightarrow> f l | Resident r \<Rightarrow> g r | Retiring r \<Rightarrow> h r) Q s \<longleftrightarrow>
     (case st of Loading l \<Rightarrow> awp E (f l) Q s | Resident r \<Rightarrow> awp E (g r) Q s | Retiring r \<Rightarrow> awp E (h r) Q s)"
  by (cases st) auto

lemmas awp_cases = awp_case_option awp_case_entry_state

section \<open>Uses of prefetched pages\<close>

lemma core_same_weight:
  assumes "core sha c m l g shut" "bt_get m k = Some e" "weigh e' = weigh e" "entry_ok sha c g shut k e'"
  shows "core sha c (bt_insert k e' m) l g shut"
  using assms by (intro core_replace [OF assms(1,2)]) (auto simp: shifted_def core_def)

lemma mark_prefetch_use_ok:
  assumes "cache_ok sha s"
  shows "awp E (mark_prefetch_use k g) (\<lambda>_. cache_ok sha) s"
proof (cases "bt_get (ci_entries s) k")
  case (Some e)
  have core: "core sha (ci_config s) (ci_entries s) (ci_ledger s) (ci_generation s) (ci_shutdown s)"
    using assms by (simp add: cache_ok_def core_ok_def)
  note ok = core_entry [OF core Some]
  show ?thesis
    using assms ok core_same_weight [OF core Some]
    unfolding mark_prefetch_use_def cache_prims
    by (auto simp: Some awp_cases cache_ok_def core_ok_def weigh_def entry_ok_def authentic_def page_fits_def
        split: entry_state.splits)
qed (use assms in \<open>simp add: mark_prefetch_use_def find_entry_def\<close>)

section \<open>Leases and invalidation\<close>

lemma cache_ok_core: "cache_ok sha s \<Longrightarrow> core sha (ci_config s) (ci_entries s) (ci_ledger s) (ci_generation s) (ci_shutdown s)"
  by (simp add: cache_ok_def core_ok_def)

text \<open>The state changes an entry goes through.\<close>

lemma entry_ok_resident:
  assumes "entry_ok sha c g shut k e" "en_state e = Resident r"
  shows "rp_page r' = rp_page r \<Longrightarrow> entry_ok sha c g shut k (e\<lparr>en_state := Resident r'\<rparr>)"
    "rt_page t = rp_page r \<Longrightarrow> 0 < rt_leases t \<Longrightarrow> entry_ok sha c g shut' k (e\<lparr>en_state := Retiring t\<rparr>)"
  using assms by (auto simp: entry_ok_def authentic_def page_fits_def)

lemma entry_ok_retiring:
  assumes "entry_ok sha c g shut k e" "en_state e = Retiring r"
  shows "rt_page t = rt_page r \<Longrightarrow> 0 < rt_leases t \<Longrightarrow> entry_ok sha c g shut' k (e\<lparr>en_state := Retiring t\<rparr>)"
    "0 < rt_leases r"
  using assms by (auto simp: entry_ok_def authentic_def page_fits_def)

lemma entry_ok_loading:
  assumes "entry_ok sha c g shut k e" "en_state e = Loading l"
  shows "length (le_waiters l') \<le> cc_max_waiters_per_page c \<Longrightarrow> (le_accepting_waiters l' \<longleftrightarrow> \<not> le_cancelled l') \<Longrightarrow>
      (shut' \<Longrightarrow> le_waiters l' = [] \<and> \<not> le_accepting_waiters l') \<Longrightarrow>
      entry_ok sha c g shut' k (e\<lparr>en_state := Loading l'\<rparr>)"
    "authentic sha k e page \<Longrightarrow> rp_page r' = page \<Longrightarrow> \<not> shut \<Longrightarrow> entry_ok sha c g shut k (e\<lparr>en_state := Resident r'\<rparr>)"
    "length (le_waiters l) \<le> cc_max_waiters_per_page c" "le_accepting_waiters l \<longleftrightarrow> \<not> le_cancelled l"
    "shut \<Longrightarrow> le_waiters l = []" "shut \<Longrightarrow> \<not> le_accepting_waiters l"
  using assms by (auto simp: entry_ok_def authentic_def page_fits_def)

lemmas weighing = weigh_def shifted_def within_def ledger_default_def

lemma release_lease_ok:
  assumes "cache_ok sha s"
  shows "awp E (release_lease k g) (\<lambda>_. cache_ok sha) s"
proof (cases "bt_get (ci_entries s) k")
  case (Some e)
  note core = cache_ok_core [OF assms]
  note ok = core_entry [OF core Some] and le = core_le [OF core Some] and lim = coreD(4) [OF core]
  show ?thesis
  proof (cases "en_generation e = g")
    case True
    note defs = release_lease_def cache_prims Some awp_cases cache_ok_def core_ok_def
    show ?thesis
    proof (cases "en_state e")
      case (Loading l)
      then show ?thesis using assms True by (auto simp: defs intro!: awp_live [of sha])
    next
      case (Resident r)
      then show ?thesis
        using assms True le lim entry_ok_resident(1) [OF ok Resident]
        by (auto simp: defs weighing intro!: awp_live [of sha] core_replace [OF core Some])
    next
      case (Retiring r)
      then show ?thesis
        using assms True le lim entry_ok_retiring [OF ok Retiring]
        by (auto simp: defs weighing intro!: awp_live [of sha] core_replace [OF core Some] core_drop [OF core Some])
    qed
  qed (use assms Some in \<open>simp add: release_lease_def find_entry_def\<close>)
qed (use assms in \<open>simp add: release_lease_def find_entry_def\<close>)

lemma core_retiring_room:
  assumes "core sha c m l g shut" "bt_get m k = Some e" "en_state e = Resident r"
  shows "lg_retiring_bytes l + en_allocation_bytes e \<le> u64_max"
  using balanced_pool(1) [OF coreD(3) [OF assms(1)]] config_okD(1) [OF coreD(1) [OF assms(1)]]
    coreD(4) [OF assms(1)] core_le [OF assms(1,2)] assms(3)
  by (simp add: weighing)

definition retired :: "entry \<Rightarrow> resident_entry \<Rightarrow> entry" where
  "retired e r = e\<lparr>en_state := Retiring \<lparr>rt_page = rp_page r, rt_leases = rp_leases r,
     rt_prefetched_unused = rp_prefetched_unused r\<rparr>\<rparr>"

lemma retire_resident_core:
  assumes core: "core sha (ci_config s) (ci_entries s) (ci_ledger s) (ci_generation s) shut"
    and e: "bt_get (ci_entries s) k = Some e" "en_state e = Resident r"
  shows "awp E (retire_resident traced k e r) (\<lambda>_ s'.
    core sha (ci_config s) (ci_entries s') (ci_ledger s') (ci_generation s) shut \<and> ci_config s' = ci_config s \<and>
    ci_generation s' = ci_generation s \<and> ci_shutdown s' = ci_shutdown s \<and>
    bt_get (ci_entries s') = (bt_get (ci_entries s))(k := if rp_leases r = 0 then None else Some (retired e r))) s"
  using core_le [OF core e(1)] coreD(2,4) [OF core] e core_retiring_room [OF core e]
    entry_ok_resident(2) [OF core_entry [OF core e(1)] e(2)]
  by (auto simp: retire_resident_def cache_prims retired_def weighing
      intro!: core_replace [OF core e(1)] core_drop [OF core e(1)])

lemma retire_resident_ok:
  assumes core: "core_ok sha s" and e: "bt_get (ci_entries s) k = Some e" "en_state e = Resident r"
  shows "awp E (retire_resident traced k e r) (\<lambda>_. core_ok sha) s"
  using retire_resident_core [OF core [unfolded core_ok_def] e] by (rule awp_post) (auto simp: core_ok_def)

lemma invalidate_ok:
  assumes "cache_ok sha s"
  shows "awp E (invalidate k) (\<lambda>b s'. cache_ok sha s' \<and> b = (bt_get (ci_entries s) k \<noteq> None)) s"
proof (cases "bt_get (ci_entries s) k")
  case (Some e)
  note core = cache_ok_core [OF assms]
  have core_ok: "core_ok sha s" using assms by (simp add: cache_ok_def)
  note ok = core_entry [OF core Some] 
  note defs = invalidate_def cache_prims Some awp_cases
  show ?thesis
  proof (cases "en_state e")
    case (Loading l)
    let ?e = "e\<lparr>en_state := Loading (l\<lparr>le_accepting_waiters := False, le_cancelled := True\<rparr>)\<rparr>"
    have "entry_ok sha (ci_config s) (ci_generation s) (ci_shutdown s) k ?e"
      using entry_ok_loading(3,5) [OF ok Loading] by (intro entry_ok_loading(1) [OF ok Loading]) auto
    moreover have "weigh ?e = weigh e" using Loading by (simp add: weigh_def)
    ultimately have "core sha (ci_config s) (bt_insert k ?e (ci_entries s)) (ci_ledger s) (ci_generation s) (ci_shutdown s)"
      using core_same_weight [OF core Some] by blast
    then show ?thesis
      using Loading by (auto simp: defs cache_ok_def core_ok_def intro!: awp_live [of sha])
  next
    case (Resident r)
    then show ?thesis
      by (auto simp: defs cache_ok_def intro!: awp_post [OF retire_resident_ok [OF core_ok Some Resident]] awp_live [of sha])
        (auto simp: core_ok_def)
  next
    case (Retiring r)
    then show ?thesis using core_ok by (auto simp: defs cache_ok_def core_ok_def intro!: awp_live [of sha])
  qed
qed (use assms in \<open>simp add: invalidate_def find_entry_def\<close>)

section \<open>Waiters\<close>

lemma position_Some: "position P xs = Some i \<Longrightarrow> i < length xs \<and> P (xs ! i)"
  by (induction xs arbitrary: i) (auto split: if_splits)

lemma position_None: "position P xs = None \<longleftrightarrow> (\<forall>x\<in>set xs. \<not> P x)"
  by (induction xs) auto

lemma length_swap_remove [simp]: "length (swap_remove xs i) = length xs - 1"
  by (simp add: swap_remove_def)

lemma withdraw_waiter_ok:
  assumes "cache_ok sha s"
  shows "awp E (withdraw_waiter k g w) (\<lambda>_. cache_ok sha) s"
proof (cases "bt_get (ci_entries s) k")
  case (Some e)
  note core = cache_ok_core [OF assms]
  note ok = core_entry [OF core Some] and le = core_le [OF core Some] and lim = coreD(4) [OF core]
  show ?thesis
  proof (cases "en_state e")
    case (Loading l)
    show ?thesis
    proof (cases "position (\<lambda>v. v = w) (le_waiters l)")
      case None
      then show ?thesis using assms Some Loading by (simp add: withdraw_waiter_def find_entry_def)
    next
      case (Some i)
      then obtain n where n: "length (le_waiters l) = Suc n"
        using position_Some [of _ "le_waiters l"] by (cases "length (le_waiters l)") auto
      let ?l = "l\<lparr>le_waiters := swap_remove (le_waiters l) i\<rparr>"
      let ?l' = "if le_waiters ?l = [] \<and> \<not> le_prefetch_interest ?l
        then ?l\<lparr>le_accepting_waiters := False, le_cancelled := True\<rparr> else ?l"
      have "entry_ok sha (ci_config s) (ci_generation s) (ci_shutdown s) k (e\<lparr>en_state := Loading ?l'\<rparr>)"
        using entry_ok_loading(3-6) [OF ok Loading] n by (intro entry_ok_loading(1) [OF ok Loading]) auto
      moreover have "shifted (weigh e) (weigh (e\<lparr>en_state := Loading ?l'\<rparr>)) (ci_ledger s)
          ((ci_ledger s)\<lparr>lg_waiters := lg_waiters (ci_ledger s) - 1, lg_lease_reservations := lg_lease_reservations (ci_ledger s) - 1\<rparr>)"
        using le Loading length_swap_remove [of "le_waiters l" i] by (auto simp: weighing n simp del: length_swap_remove)
      ultimately have "core sha (ci_config s) (bt_insert k (e\<lparr>en_state := Loading ?l'\<rparr>) (ci_entries s))
          ((ci_ledger s)\<lparr>lg_waiters := lg_waiters (ci_ledger s) - 1, lg_lease_reservations := lg_lease_reservations (ci_ledger s) - 1\<rparr>)
          (ci_generation s) (ci_shutdown s)"
        using lim by (intro core_replace [OF core \<open>bt_get (ci_entries s) k = Some e\<close>]) (auto simp: within_def)
      then show ?thesis
        using assms le n Loading Some \<open>bt_get (ci_entries s) k = Some e\<close>
        by (auto simp: withdraw_waiter_def cache_prims Let_def cache_ok_def core_ok_def weigh_def intro!: awp_live [of sha])
    qed
  qed (use assms Some in \<open>simp_all add: withdraw_waiter_def find_entry_def\<close>)
qed (use assms in \<open>simp add: withdraw_waiter_def find_entry_def\<close>)

section \<open>Completion\<close>

lemma settle_load_ok:
  assumes ok: "entry_ok sha (ci_config s) (ci_generation s) (ci_shutdown s) k e" and e: "en_state e = Loading l"
    and core: "core sha (ci_config s) m l0 (ci_generation s) (ci_shutdown s)" "bt_get m k = Some e"
    and drop: "ci_entries s = bt_remove k m"
    and s: "ci_ledger s = l0\<lparr>lg_active_loads := lg_active_loads l0 - 1,
        lg_inflight_bytes := lg_inflight_bytes l0 - en_allocation_bytes e,
        lg_waiters := lg_waiters l0 - length (le_waiters l),
        lg_lease_reservations := lg_lease_reservations l0 - length (le_waiters l)\<rparr>"
    and page: "\<And>p. outcome = Inr p \<Longrightarrow> sha (vp_bytes p) = en_fingerprint e"
  shows "awp E (settle_load k e l outcome) (\<lambda>sent s'. core_ok sha s' \<and> map fst sent = le_waiters l) s"
proof -
  note le = core_le [OF core] and lim = coreD(4) [OF core(1)]
  have room: "lg_resident_bytes l0 + en_allocation_bytes e \<le> u64_max" "lg_leases l0 + length (le_waiters l) \<le> u64_max"
    using balanced_pool [OF coreD(3) [OF core(1)]] config_okD(1,3) [OF coreD(1) [OF core(1)]] lim le e limits_u64
    by (auto simp: weighing)
  have dropped: "core sha (ci_config s) (ci_entries s) ((ci_ledger s)\<lparr>lg_page_pool_bytes := lg_page_pool_bytes l0 - en_allocation_bytes e\<rparr>)
      (ci_generation s) (ci_shutdown s)"
    unfolding drop using le e by (intro core_drop [OF core]) (auto simp: weighing s)
  have "core sha (ci_config s) (bt_insert k (e\<lparr>en_state := Resident r\<rparr>) m)
      ((ci_ledger s)\<lparr>lg_resident_bytes := lg_resident_bytes l0 + en_allocation_bytes e,
        lg_leases := lg_leases l0 + length (le_waiters l)\<rparr>) (ci_generation s) (ci_shutdown s)"
    if "page_fits k e p" "outcome = Inr p" "\<not> ci_shutdown s" "rp_page r = p" "rp_leases r = length (le_waiters l)" for r p
    using le e lim that page [OF that(2)]
    by (intro core_replace [OF core] entry_ok_loading(2) [OF ok e]) (auto simp: weighing s authentic_def)
  moreover have "bt_insert k v (bt_remove k m) = bt_insert k v m" for v
    by (rule bt_insert_remove [OF coreD(2) [OF core(1)]])
  ultimately show ?thesis
    using dropped le room e
    by (auto simp: settle_load_def admit_page_def cache_prims Let_def fail_waiters_def core_ok_def s drop weigh_def comp_def
        split: sum.splits)
qed

end
