(* ===== verification/Store_Cache_Ops.thy ===== *)
theory Store_Cache_Ops
  imports Store_Cache_Inv "HOL-Library.Multiset"
begin

text \<open>
  The operations of the page cache that admit, complete and shut down: each keeps the invariant of
  \<open>Store_Cache_Inv\<close> on every path and never panics. \<open>reserve_load\<close> evicts the least recently used unleased
  pages, no more of them than it needs.
\<close>

declare split_paired_All [simp del] split_paired_Ex [simp del]

section \<open>Completion\<close>

lemma cache_okI: "core_ok sha s \<Longrightarrow> gauged t (ci_ledger s) \<Longrightarrow> cache_ok sha (s\<lparr>ci_metrics := t\<rparr>)"
  by (simp add: cache_ok_def core_ok_def)

definition waiting_on :: "cache_inner \<Rightarrow> page_key \<Rightarrow> u64 \<Rightarrow> u64 list" where
  "waiting_on s key generation = (case bt_get (ci_entries s) key of
     Some e \<Rightarrow> if en_generation e = generation then (case en_state e of Loading l \<Rightarrow> le_waiters l | _ \<Rightarrow> []) else []
   | None \<Rightarrow> [])"

lemma complete_load_ok:
  assumes ok: "cache_ok sha s"
    and page: "\<And>e p. outcome = Inr p \<Longrightarrow> bt_get (ci_entries s) k = Some e \<Longrightarrow> en_generation e = g
      \<Longrightarrow> sha (vp_bytes p) = en_fingerprint e"
  shows "awp E (complete_load k g outcome) (\<lambda>sent s'. cache_ok sha s' \<and> map fst sent = waiting_on s k g) s"
proof (cases "\<exists>e l. bt_get (ci_entries s) k = Some e \<and> en_generation e = g \<and> en_state e = Loading l")
  case True
  then obtain e l where e: "bt_get (ci_entries s) k = Some e" "en_generation e = g" "en_state e = Loading l"
    by blast
  note core = cache_ok_core [OF ok]
  note le = core_le [OF core e(1)]
  let ?led = "(ci_ledger s)\<lparr>lg_active_loads := lg_active_loads (ci_ledger s) - 1,
      lg_inflight_bytes := lg_inflight_bytes (ci_ledger s) - en_allocation_bytes e,
      lg_waiters := lg_waiters (ci_ledger s) - length (le_waiters l),
      lg_lease_reservations := lg_lease_reservations (ci_ledger s) - length (le_waiters l)\<rparr>"
  have "awp E (settle_load k e l outcome) (\<lambda>sent s'. core_ok sha s' \<and> map fst sent = le_waiters l)
      (s\<lparr>ci_entries := bt_remove k (ci_entries s), ci_ledger := ?led\<rparr>)"
    using core_entry [OF core e(1)] e core page [OF _ e(1,2)]
    by (intro settle_load_ok [where m = "ci_entries s" and ?l0.0 = "ci_ledger s"]) auto
  then show ?thesis
    using e le
    by (auto simp: complete_load_def cache_prims weigh_def waiting_on_def cache_okI
        elim!: awp_post intro!: awp_live [of sha])
next
  case False
  then show ?thesis
    using ok by (auto simp: complete_load_def find_entry_def waiting_on_def split: option.splits entry_state.splits)
qed

lemma finish_observed_load_ok:
  assumes ok: "cache_ok sha s"
    and page: "\<And>e p. outcome = Inr p \<Longrightarrow> bt_get (ci_entries s) k = Some e \<Longrightarrow> en_generation e = g
      \<Longrightarrow> sha (vp_bytes p) = en_fingerprint e"
  shows "awp E (finish_observed_load k g outcome stats) (\<lambda>sent s'. cache_ok sha s' \<and> map fst sent = waiting_on s k g) s"
proof -
  let ?s = "s\<lparr>ci_metrics := add_io_nanoseconds (st_io_nanoseconds stats)
      (add_physical_read_bytes (st_physical_bytes stats) (ci_metrics s))\<rparr>"
  have "awp E (complete_load k g outcome) (\<lambda>sent s'. cache_ok sha s' \<and> map fst sent = waiting_on ?s k g) ?s"
    using ok page by (intro complete_load_ok) (auto simp: cache_ok_def core_ok_def)
  then show ?thesis
    by (simp add: finish_observed_load_def meter_def waiting_on_def)
qed

lemma unwind_ok:
  assumes core: "core_ok sha s" and e: "bt_get (ci_entries s) k = Some e" "en_generation e = g" "en_state e = Loading l"
  shows "awp E (unwind_unsubmitted_load k g) (\<lambda>_. core_ok sha) s"
proof -
  note core' = core [unfolded core_ok_def]
  show ?thesis
    using core core_le [OF core' e(1)] e
    by (auto simp: unwind_unsubmitted_load_def cache_prims core_ok_def weighing intro!: core_drop [OF core' e(1)])
qed

section \<open>Shutdown\<close>

text \<open>While shutdown goes through the keys, the entries already visited satisfy the invariant of a cache that
  is shut down and the others that of one that is not.\<close>

definition closing :: "(u8 list \<Rightarrow> digest) \<Rightarrow> page_key set \<Rightarrow> cache_inner \<Rightarrow> bool" where
  "closing sha left s \<longleftrightarrow> core sha (ci_config s) (ci_entries s) (ci_ledger s) (ci_generation s) False \<and>
     (\<forall>k e. bt_get (ci_entries s) k = Some e \<longrightarrow> k \<notin> left \<longrightarrow>
        entry_ok sha (ci_config s) (ci_generation s) True k e)"

lemma entry_ok_not_shut: "entry_ok sha c g shut k e \<Longrightarrow> entry_ok sha c g False k e"
  by (auto simp: entry_ok_def split: entry_state.splits)

lemma closing_done:
  assumes "closing sha left s" "dom (bt_get (ci_entries s)) \<inter> left = {}" "ci_shutdown s"
  shows "core_ok sha s"
proof -
  have "entry_ok sha (ci_config s) (ci_generation s) True k e" if "bt_get (ci_entries s) k = Some e" for k e
    using assms(1,2) that unfolding closing_def by blast
  with assms(1,3) show ?thesis unfolding closing_def core_ok_def core_def by simp
qed

lemma closing_replace:
  assumes closing: "closing sha (insert k left) s"
    and core: "core sha (ci_config s) (ci_entries s') (ci_ledger s') (ci_generation s) False"
    and same: "ci_config s' = ci_config s" "ci_generation s' = ci_generation s"
    and look: "bt_get (ci_entries s') = (bt_get (ci_entries s))(k := x)"
    and ok: "\<And>e. x = Some e \<Longrightarrow> entry_ok sha (ci_config s) (ci_generation s) True k e"
  shows "closing sha left s'"
  unfolding closing_def
proof (intro conjI allI impI)
  fix k' e assume *: "bt_get (ci_entries s') k' = Some e" "k' \<notin> left"
  then show "entry_ok sha (ci_config s') (ci_generation s') True k' e"
    using closing ok unfolding closing_def same look by (cases "k' = k") auto
qed (use core same in simp)

definition loading_waiters :: "cache_inner \<Rightarrow> page_key \<Rightarrow> u64 list" where
  "loading_waiters s k = (case bt_get (ci_entries s) k of
     Some e \<Rightarrow> (case en_state e of Loading l \<Rightarrow> le_waiters l | _ \<Rightarrow> []) | None \<Rightarrow> [])"

text \<open>What shutdown makes of one entry.\<close>

definition closed_entry :: "entry \<Rightarrow> entry option" where
  "closed_entry e = (case en_state e of
     Loading l \<Rightarrow> Some (e\<lparr>en_state := Loading (l\<lparr>le_accepting_waiters := False, le_cancelled := True, le_waiters := []\<rparr>)\<rparr>)
   | Resident r \<Rightarrow> if rp_leases r = 0 then None else Some (retired e r)
   | Retiring r \<Rightarrow> Some e)"

lemma shutdown_entry_ok:
  assumes closing: "closing sha (insert k left) s"
  shows "awp E (shutdown_entry k) (\<lambda>ws s'. closing sha left s' \<and> ws = loading_waiters s k \<and>
    ci_shutdown s' = ci_shutdown s \<and> ci_config s' = ci_config s \<and>
    bt_get (ci_entries s') = (bt_get (ci_entries s))(k := Option.bind (bt_get (ci_entries s) k) closed_entry)) s"
proof (cases "bt_get (ci_entries s) k")
  case None
  then have "closing sha left s" using closing unfolding closing_def by (metis insertE option.distinct(1))
  with None show ?thesis by (auto simp: shutdown_entry_def find_entry_def loading_waiters_def)
next
  case (Some e)
  have core: "core sha (ci_config s) (ci_entries s) (ci_ledger s) (ci_generation s) False"
    using closing by (simp add: closing_def)
  note ok = core_entry [OF core Some] and lim = coreD(4) [OF core] and wf = coreD(2) [OF core]
  note defs = shutdown_entry_def cache_prims Some awp_cases loading_waiters_def closed_entry_def
  show ?thesis
  proof (cases "en_state e")
    case (Loading l)
    let ?e = "e\<lparr>en_state := Loading (l\<lparr>le_accepting_waiters := False, le_cancelled := True, le_waiters := []\<rparr>)\<rparr>"
    let ?l = "(ci_ledger s)\<lparr>lg_waiters := lg_waiters (ci_ledger s) - length (le_waiters l),
        lg_lease_reservations := lg_lease_reservations (ci_ledger s) - length (le_waiters l)\<rparr>"
    have ok': "entry_ok sha (ci_config s) (ci_generation s) shut k ?e" for shut
      by (rule entry_ok_loading(1) [OF ok Loading]) auto
    have "core sha (ci_config s) (bt_insert k ?e (ci_entries s)) ?l (ci_generation s) False"
      using core_le [OF core Some] Loading lim ok' by (intro core_replace [OF core Some]) (auto simp: weighing)
    then show ?thesis
      using Loading core_le [OF core Some] wf ok'
      by (auto simp: defs weigh_def intro!: closing_replace [OF closing])
  next
    case (Resident r)
    have "entry_ok sha (ci_config s) (ci_generation s) True k (retired e r)" if "rp_leases r \<noteq> 0"
      unfolding retired_def using that by (intro entry_ok_resident(2) [OF ok Resident]) auto
    then show ?thesis
      using Resident
      by (auto simp: defs intro!: awp_post [OF retire_resident_core [OF core Some Resident]] closing_replace [OF closing]
          split: if_splits)
  next
    case (Retiring r)
    then have "closing sha left s"
      using closing ok Some unfolding closing_def
      by (intro conjI allI impI) (blast, metis (no_types, lifting) entry_ok_def entry_state.simps(12) insertE option.inject)
    then show ?thesis using Retiring Some by (auto simp: defs fun_upd_idem)
  qed
qed

lemma shutdown_entries_ok:
  assumes "closing sha (set keys) s" "distinct keys"
  shows "awp E (shutdown_entries keys failures) (\<lambda>ws s'. closing sha {} s' \<and>
    ws = failures @ concat (map (loading_waiters s) keys) \<and> ci_shutdown s' = ci_shutdown s \<and> ci_config s' = ci_config s \<and>
    bt_get (ci_entries s') = (\<lambda>k. if k \<in> set keys then Option.bind (bt_get (ci_entries s) k) closed_entry
      else bt_get (ci_entries s) k)) s"
  using assms
proof (induction keys arbitrary: s failures)
  case (Cons k keys)
  have step: "awp E (shutdown_entry k) (\<lambda>ws s'. closing sha (set keys) s' \<and> ws = loading_waiters s k \<and>
      ci_shutdown s' = ci_shutdown s \<and> ci_config s' = ci_config s \<and>
      bt_get (ci_entries s') = (bt_get (ci_entries s))(k := Option.bind (bt_get (ci_entries s) k) closed_entry)) s"
    using Cons.prems(1) by (intro shutdown_entry_ok) simp
  show ?case
    unfolding shutdown_entries.simps awp_simps
  proof (rule awp_post [OF step])
    fix ws s' assume s': "closing sha (set keys) s' \<and> ws = loading_waiters s k \<and>
      ci_shutdown s' = ci_shutdown s \<and> ci_config s' = ci_config s \<and>
      bt_get (ci_entries s') = (bt_get (ci_entries s))(k := Option.bind (bt_get (ci_entries s) k) closed_entry)"
    have "k \<notin> set keys" "distinct keys" using Cons.prems(2) by auto
    moreover have "concat (map (loading_waiters s') keys) = concat (map (loading_waiters s) keys)"
      using s' \<open>k \<notin> set keys\<close> by (intro arg_cong [where f = concat]) (auto simp: loading_waiters_def)
    ultimately show "awp E (shutdown_entries keys (failures @ ws)) (\<lambda>ws s'. closing sha {} s' \<and>
        ws = failures @ concat (map (loading_waiters s) (k # keys)) \<and> ci_shutdown s' = ci_shutdown s \<and>
        ci_config s' = ci_config s \<and>
        bt_get (ci_entries s') = (\<lambda>x. if x \<in> set (k # keys) then Option.bind (bt_get (ci_entries s) x) closed_entry
          else bt_get (ci_entries s) x)) s'"
      using s' by (intro awp_post [OF Cons.IH]) auto
  qed
qed (auto simp: closing_def)

lemma cache_shutdown_ok:
  assumes ok: "cache_ok sha s" and order: "mset (order (bt_keys (ci_entries s))) = mset (bt_keys (ci_entries s))"
  shows "awp E (cache_shutdown order) (\<lambda>sent s'. cache_ok sha s' \<and> ci_shutdown s' \<and>
    (\<not> ci_shutdown s \<longrightarrow> sent = fail_waiters (concat (map (loading_waiters s) (order (bt_keys (ci_entries s))))) Shutdown \<and>
      bt_get (ci_entries s') = (\<lambda>k. Option.bind (bt_get (ci_entries s) k) closed_entry))) s"
proof (cases "ci_shutdown s")
  case True
  then show ?thesis using ok by (simp add: cache_shutdown_def)
next
  case False
  let ?keys = "order (bt_keys (ci_entries s))"
  note core = cache_ok_core [OF ok]
  have keys: "set ?keys = dom (bt_get (ci_entries s))" "distinct ?keys"
    using mset_eq_setD [OF order] mset_eq_imp_distinct_iff [OF order] distinct_bt_keys [OF coreD(2) [OF core]]
    by (simp_all add: set_bt_keys)
  have "closing sha (set ?keys) (s\<lparr>ci_shutdown := True\<rparr>)"
    using core False keys(1) unfolding closing_def by auto
  note loop = shutdown_entries_ok [OF this keys(2), of E "[]"]
  have waiters: "loading_waiters (s\<lparr>ci_shutdown := True\<rparr>) = loading_waiters s"
    by (simp add: fun_eq_iff loading_waiters_def)
  have absent: "bt_get (ci_entries s) k = None" if "k \<notin> set ?keys" for k
    using keys(1) that by (auto simp: domIff)
  from loop have loop: "awp E (shutdown_entries ?keys []) (\<lambda>ws s'. closing sha {} s' \<and> ci_shutdown s' \<and>
      ws = concat (map (loading_waiters s) ?keys) \<and>
      bt_get (ci_entries s') = (\<lambda>k. Option.bind (bt_get (ci_entries s) k) closed_entry)) (s\<lparr>ci_shutdown := True\<rparr>)"
    by (simp add: waiters) (erule awp_post, simp add: fun_eq_iff absent)
  have "awp E update_live_metrics (\<lambda>_ t. cache_ok sha (t\<lparr>ci_reader := reader_close (ci_reader t)\<rparr>) \<and> ci_shutdown t \<and>
      bt_get (ci_entries t) = bt_get (ci_entries s')) s'"
    if "closing sha {} s'" "ci_shutdown s'" for s'
    using closing_done [OF that(1) _ that(2)]
    by (intro awp_live [of sha]) (auto simp: cache_ok_def core_ok_def that(2))
  note live = awp_post [OF this]
  from False show ?thesis
    unfolding cache_shutdown_def
    by (auto intro!: awp_post [OF loop] live)
qed

section \<open>Making room\<close>

definition evictable :: "entry \<Rightarrow> bool" where
  "evictable e = (case en_state e of Resident r \<Rightarrow> rp_leases r = 0 | _ \<Rightarrow> False)"

abbreviation freed :: "(page_key \<times> u64 \<times> u64) list \<Rightarrow> nat" where
  "freed cs \<equiv> sum_list (map (\<lambda>(_, _, bytes). bytes) cs)"

text \<open>\<open>n\<close> victims make the load fit.\<close>

definition makes_room :: "u64 \<Rightarrow> usize \<Rightarrow> u64 \<Rightarrow> usize \<Rightarrow> (page_key \<times> u64 \<times> u64) list \<Rightarrow> nat \<Rightarrow> bool" where
  "makes_room maximum max_entries pool entries cs n \<longleftrightarrow>
     pool - freed (take n cs) \<le> maximum \<and> entries - n < max_entries"

lemma select_victims_ok:
  assumes "freed cs \<le> pool" "length cs \<le> entries"
  shows "\<exists>n\<le>length cs. select_victims maximum max_entries pool entries vs cs
      = Ok (pool - freed (take n cs), entries - n, vs @ map fst (take n cs)) \<and>
    (n < length cs \<longrightarrow> makes_room maximum max_entries pool entries cs n) \<and>
    (\<forall>m<n. \<not> makes_room maximum max_entries pool entries cs m)"
  using assms
proof (induction cs arbitrary: pool entries vs)
  case (Cons x cs)
  obtain key touch bytes where x: "x = (key, touch, bytes)" by (cases x)
  show ?case
  proof (cases "pool \<le> maximum \<and> entries < max_entries")
    case True
    then show ?thesis by (intro exI [of _ 0]) (simp add: x makes_room_def)
  next
    case False
    have "freed cs \<le> pool - bytes" "length cs \<le> entries - 1" "bytes \<le> pool" "1 \<le> entries"
      using Cons.prems x by auto
    from Cons.IH [OF this(1,2)] obtain n where n: "n \<le> length cs"
      "select_victims maximum max_entries (pool - bytes) (entries - 1) (vs @ [key]) cs
        = Ok (pool - bytes - freed (take n cs), entries - 1 - n, (vs @ [key]) @ map fst (take n cs))"
      "n < length cs \<longrightarrow> makes_room maximum max_entries (pool - bytes) (entries - 1) cs n"
      "\<forall>m<n. \<not> makes_room maximum max_entries (pool - bytes) (entries - 1) cs m"
      by blast
    have shift: "makes_room maximum max_entries pool entries (x # cs) (Suc m)
        \<longleftrightarrow> makes_room maximum max_entries (pool - bytes) (entries - 1) cs m" for m
      by (simp add: makes_room_def x)
    have "\<not> makes_room maximum max_entries pool entries (x # cs) 0"
      using False by (simp add: makes_room_def)
    then have "\<forall>m<Suc n. \<not> makes_room maximum max_entries pool entries (x # cs) m"
      using n(4) shift by (metis less_Suc_eq_0_disj)
    then show ?thesis
      using n shift False \<open>bytes \<le> pool\<close> \<open>1 \<le> entries\<close>
      by (intro exI [of _ "Suc n"]) (auto simp: x checked_sub_def)
  qed
qed (simp add: makes_room_def)

lemma candidates_mset: "mset (candidates m) = mset (List.map_filter candidate m)"
  by (simp add: candidates_def)

lemma candidate_key: "candidate x = Some y \<Longrightarrow> fst y = fst x"
  by (auto simp: candidate_def split: prod.splits entry_state.splits if_splits)

lemma candidate_bytes: "candidate x = Some (k, touch, bytes) \<Longrightarrow> bytes = en_allocation_bytes (snd x)"
  by (auto simp: candidate_def split: prod.splits entry_state.splits if_splits)

lemma candidate_evictable: "candidate x = Some y \<Longrightarrow> evictable (snd x)"
  by (auto simp: candidate_def evictable_def split: prod.splits entry_state.splits if_splits)

lemma candidate_weight: "candidate x = Some (k, touch, bytes) \<Longrightarrow> bytes = lg_page_pool_bytes (weigh (snd x))"
  by (auto simp: candidate_def weigh_def split: prod.splits entry_state.splits if_splits)

lemma candidates_freed: "freed (candidates m) \<le> weight lg_page_pool_bytes m"
proof -
  have "freed (candidates m) = freed (List.map_filter candidate m)"
    using candidates_mset [of m] by (metis mset_map sum_mset_sum_list)
  also have "\<dots> \<le> weight lg_page_pool_bytes m"
  proof (induction m)
    case (Cons x m)
    then show ?case
      using candidate_weight [of x]
      by (cases "candidate x") (auto simp: List.map_filter_simps)
  qed (simp add: List.map_filter_simps)
  finally show ?thesis .
qed

lemma candidates_length: "length (candidates m) \<le> length m"
proof -
  have "length (candidates m) = length (List.map_filter candidate m)"
    using candidates_mset [of m] by (metis size_mset)
  then show ?thesis by (simp add: List.map_filter_def)
qed

lemma candidates_entry:
  assumes "bt_wf m" "(k, touch, bytes) \<in> set (candidates m)"
  shows "\<exists>e. bt_get m k = Some e \<and> evictable e \<and> bytes = en_allocation_bytes e"
proof -
  have "(k, touch, bytes) \<in> set (List.map_filter candidate m)"
    using assms(2) mset_eq_setD [OF candidates_mset [of m]] by simp
  then obtain x where x: "x \<in> set m" "candidate x = Some (k, touch, bytes)"
    by (force simp: List.map_filter_def)
  then show ?thesis
    using candidate_key [OF x(2)] candidate_evictable [OF x(2)] candidate_bytes [OF x(2)] assms(1)
    by (auto simp: bt_in_set)
qed

lemma candidates_distinct:
  assumes "bt_wf m" shows "distinct (map fst (candidates m))"
proof -
  have "map fst (List.map_filter candidate m) = map fst (filter (\<lambda>x. candidate x \<noteq> None) m)"
    by (induction m) (auto simp: List.map_filter_simps candidate_key split: option.splits)
  then have "distinct (map fst (List.map_filter candidate m))"
    using distinct_bt_keys [OF assms] by (simp add: bt_keys_def distinct_map_filter)
  moreover have "mset (map fst (candidates m)) = mset (map fst (List.map_filter candidate m))"
    using candidates_mset [of m] by simp
  ultimately show ?thesis using mset_eq_imp_distinct_iff by blast
qed

text \<open>The part of the state that eviction leaves alone.\<close>

definition same_counters :: "cache_inner \<Rightarrow> cache_inner \<Rightarrow> bool" where
  "same_counters s s' \<longleftrightarrow> ci_reader s' = ci_reader s \<and> ci_config s' = ci_config s \<and>
     ci_generation s' = ci_generation s \<and> ci_waiter s' = ci_waiter s \<and> ci_tick s' = ci_tick s \<and>
     ci_shutdown s' = ci_shutdown s"

definition same_loads :: "ledger \<Rightarrow> ledger \<Rightarrow> bool" where
  "same_loads l l' \<longleftrightarrow> lg_inflight_bytes l' = lg_inflight_bytes l \<and> lg_retiring_bytes l' = lg_retiring_bytes l \<and>
     lg_active_loads l' = lg_active_loads l \<and> lg_waiters l' = lg_waiters l \<and>
     lg_lease_reservations l' = lg_lease_reservations l \<and> lg_leases l' = lg_leases l"

lemma evict_unleased_ok:
  assumes core: "core_ok sha s" and e: "bt_get (ci_entries s) k = Some e" "evictable e"
  shows "awp E (evict_unleased reason k) (\<lambda>_ s'. same_counters s s' \<and> core_ok sha s' \<and>
    ci_entries s' = bt_remove k (ci_entries s) \<and>
    same_loads (ci_ledger s) (ci_ledger s') \<and>
    lg_page_pool_bytes (ci_ledger s') + en_allocation_bytes e = lg_page_pool_bytes (ci_ledger s)) s"
proof -
  note core' = core [unfolded core_ok_def]
  obtain r where r: "en_state e = Resident r" "rp_leases r = 0"
    using e(2) by (auto simp: evictable_def split: entry_state.splits)
  note le = core_le [OF core' e(1)]
  have "core sha (ci_config s) (bt_remove k (ci_entries s))
      ((ci_ledger s)\<lparr>lg_page_pool_bytes := lg_page_pool_bytes (ci_ledger s) - en_allocation_bytes e,
        lg_resident_bytes := lg_resident_bytes (ci_ledger s) - en_allocation_bytes e\<rparr>) (ci_generation s) (ci_shutdown s)"
    using le r by (intro core_drop [OF core' e(1)]) (simp add: weighing)
  then show ?thesis
    using le r e(1)
    by (auto simp: evict_unleased_def cache_prims same_counters_def same_loads_def core_ok_def weigh_def)
qed

text \<open>The entries without some of the unleased residents.\<close>

definition without :: "page_key list \<Rightarrow> (page_key, entry) btree_map \<Rightarrow> (page_key, entry) btree_map \<Rightarrow> bool" where
  "without ks m m' \<longleftrightarrow> bt_get m' = bt_get m |` (- set ks) \<and> length m' + length ks = length m"

abbreviation charged :: "(page_key, entry) btree_map \<Rightarrow> page_key list \<Rightarrow> nat" where
  "charged m ks \<equiv> sum_list (map (\<lambda>k. case bt_get m k of Some e \<Rightarrow> en_allocation_bytes e | None \<Rightarrow> 0) ks)"

definition evicted :: "(u8 list \<Rightarrow> digest) \<Rightarrow> page_key list \<Rightarrow> cache_inner \<Rightarrow> cache_inner \<Rightarrow> bool" where
  "evicted sha ks s s' \<longleftrightarrow> same_counters s s' \<and> core_ok sha s' \<and> without ks (ci_entries s) (ci_entries s') \<and>
     same_loads (ci_ledger s) (ci_ledger s') \<and>
     lg_page_pool_bytes (ci_ledger s') + charged (ci_entries s) ks = lg_page_pool_bytes (ci_ledger s)"

lemma evicted_Nil: "core_ok sha s \<Longrightarrow> evicted sha [] s s"
  by (auto simp: evicted_def same_counters_def same_loads_def without_def)

lemma evicted_step:
  assumes "evicted sha ks s s'" "k \<notin> set ks" "bt_get (ci_entries s) k = Some e" "evictable e"
  shows "awp E (evict_unleased reason k) (\<lambda>_. evicted sha (ks @ [k]) s) s'"
proof -
  have core: "core_ok sha s'" and "bt_get (ci_entries s') k = Some e"
    using assms by (auto simp: evicted_def without_def)
  moreover have "Suc (length (bt_remove k (ci_entries s'))) = length (ci_entries s')"
    using core calculation by (intro length_bt_remove) (auto simp: core_ok_def core_def)
  moreover have "bt_get (bt_remove k (ci_entries s')) = bt_get (ci_entries s) |` (- set (ks @ [k]))"
    using assms(1) by (auto simp: evicted_def without_def restrict_map_def fun_eq_iff)
  ultimately show ?thesis
    using assms
    by (intro awp_post [OF evict_unleased_ok [of sha s' k e]])
      (auto simp: evicted_def same_counters_def same_loads_def without_def)
qed

lemma evict_all_ok:
  assumes "core_ok sha s" "distinct ks" "\<And>k. k \<in> set ks \<Longrightarrow> \<exists>e. bt_get (ci_entries s) k = Some e \<and> evictable e"
  shows "awp E (afold (evict_unleased reason) ks) (\<lambda>_. evicted sha ks s) s"
proof (rule awp_afold [where P = "\<lambda>ks. evicted sha ks s"])
  fix ys k zs s'
  assume "ks = ys @ k # zs" "evicted sha ys s s'"
  then show "awp E (evict_unleased reason k) (\<lambda>_. evicted sha (ys @ [k]) s) s'"
    using evicted_step [of sha ys s s' k] assms(2) assms(3) [of k] by auto
qed (rule evicted_Nil [OF assms(1)])

lemma charged_candidates:
  assumes "bt_wf m" "set cs \<subseteq> set (candidates m)" shows "charged m (map fst cs) = freed cs"
  using assms(2)
proof (induction cs)
  case (Cons x cs)
  then show ?case using candidates_entry [OF assms(1), of "fst x" "fst (snd x)" "snd (snd x)"] by (cases x) auto
qed simp

text \<open>A reservation for a load: some victims are gone, and the ledger has room for the page.\<close>

definition reserve :: "u64 \<Rightarrow> ledger \<Rightarrow> ledger" where
  "reserve allocation l = l\<lparr>lg_active_loads := lg_active_loads l + 1,
     lg_page_pool_bytes := lg_page_pool_bytes l + allocation, lg_inflight_bytes := lg_inflight_bytes l + allocation\<rparr>"

definition victims :: "u64 \<Rightarrow> nat \<Rightarrow> cache_inner \<Rightarrow> bool" where
  "victims allocation n s \<longleftrightarrow> n \<le> length (candidates (ci_entries s)) \<and>
     makes_room (cc_page_pool_capacity (ci_config s) - allocation) (cc_max_entries (ci_config s))
       (lg_page_pool_bytes (ci_ledger s)) (length (ci_entries s)) (candidates (ci_entries s)) n \<and>
     (\<forall>m<n. \<not> makes_room (cc_page_pool_capacity (ci_config s) - allocation) (cc_max_entries (ci_config s))
       (lg_page_pool_bytes (ci_ledger s)) (length (ci_entries s)) (candidates (ci_entries s)) m)"

definition reserved :: "(u8 list \<Rightarrow> digest) \<Rightarrow> u64 \<Rightarrow> cache_inner \<Rightarrow> cache_inner \<Rightarrow> bool" where
  "reserved sha allocation s s' \<longleftrightarrow> (\<exists>n t. victims allocation n s \<and>
     evicted sha (map fst (take n (candidates (ci_entries s)))) s t \<and>
     s' = t\<lparr>ci_ledger := reserve allocation (ci_ledger t)\<rparr> \<and>
     lg_page_pool_bytes (ci_ledger t) + allocation \<le> cc_page_pool_capacity (ci_config s) \<and>
     lg_inflight_bytes (ci_ledger t) + allocation \<le> cc_max_inflight_bytes (ci_config s) \<and>
     lg_active_loads (ci_ledger t) < cc_max_loads (ci_config s) \<and>
     length (ci_entries t) < cc_max_entries (ci_config s))"

lemma reserve_load_ok:
  assumes core: "core_ok sha s" and a: "a \<le> cc_page_pool_capacity (ci_config s)"
  shows "awp E (reserve_load a reason) (\<lambda>admitted s'. if admitted then reserved sha a s s' else s' = s) s"
proof -
  let ?c = "ci_config s" and ?l = "ci_ledger s" and ?m = "ci_entries s"
  let ?cs = "candidates ?m" and ?max = "cc_page_pool_capacity ?c - a"
  note core' = core [unfolded core_ok_def]
  note wf = coreD(2) [OF core'] and lims = config_okD [OF coreD(1) [OF core']] and lim = coreD(4) [OF core']
  have "freed ?cs \<le> lg_page_pool_bytes ?l"
    using candidates_freed [of ?m] coreD(3) [OF core'] by (simp add: balanced_def)
  from select_victims_ok [OF this candidates_length, where vs = "[]" and maximum = ?max and max_entries = "cc_max_entries ?c"]
  obtain n where n: "n \<le> length ?cs"
    "select_victims ?max (cc_max_entries ?c) (lg_page_pool_bytes ?l) (length ?m) [] ?cs
      = Ok (lg_page_pool_bytes ?l - freed (take n ?cs), length ?m - n, map fst (take n ?cs))"
    "\<forall>m<n. \<not> makes_room ?max (cc_max_entries ?c) (lg_page_pool_bytes ?l) (length ?m) ?cs m"
    by auto
  have ev: "awp E (afold (evict_unleased reason) (map fst (take n ?cs))) (\<lambda>_. evicted sha (map fst (take n ?cs)) s) s"
  proof (rule evict_all_ok [OF core])
    show "distinct (map fst (take n ?cs))"
      using candidates_distinct [OF wf] by (metis distinct_take take_map)
    show "\<exists>e. bt_get ?m k = Some e \<and> evictable e" if "k \<in> set (map fst (take n ?cs))" for k
      using that candidates_entry [OF wf] by (force dest: in_set_takeD)
  qed
  have "charged ?m (map fst (take n ?cs)) = freed (take n ?cs)"
    by (rule charged_candidates [OF wf set_take_subset])
  note room = this
  have fits: "lg_page_pool_bytes ?l - freed (take n ?cs) + a \<le> cc_page_pool_capacity ?c \<and> length ?m - n < cc_max_entries ?c"
    if "makes_room ?max (cc_max_entries ?c) (lg_page_pool_bytes ?l) (length ?m) ?cs n"
    using that a by (auto simp: makes_room_def)
  show ?thesis
  proof (cases "cc_max_inflight_bytes ?c < a \<or> cc_max_inflight_bytes ?c - a < lg_inflight_bytes ?l \<or>
      cc_max_loads ?c \<le> lg_active_loads ?l \<or>
      \<not> makes_room ?max (cc_max_entries ?c) (lg_page_pool_bytes ?l) (length ?m) ?cs n")
    case True
    then show ?thesis
      using a lims n(2) by (auto simp: reserve_load_def Let_def makes_room_def not_le)
  next
    case False
    then have "victims a n s" using n by (simp add: victims_def)
    moreover have "lg_page_pool_bytes (ci_ledger t) = lg_page_pool_bytes ?l - freed (take n ?cs)"
      "length (ci_entries t) = length ?m - n" "same_loads ?l (ci_ledger t)"
      if "evicted sha (map fst (take n ?cs)) s t" for t
      using that n(1) room by (auto simp: evicted_def without_def)
    note evictions = this
    ultimately have "reserved sha a s (t\<lparr>ci_ledger := (ci_ledger t)\<lparr>lg_active_loads := lg_active_loads ?l + 1,
        lg_page_pool_bytes := lg_page_pool_bytes ?l - freed (take n ?cs) + a,
        lg_inflight_bytes := lg_inflight_bytes ?l + a\<rparr>\<rparr>)"
      if "evicted sha (map fst (take n ?cs)) s t" for t
      using that False fits
      by (auto simp: reserved_def reserve_def same_loads_def intro!: exI [of _ n] exI [of _ t])
    moreover have "lg_page_pool_bytes ?l - freed (take n ?cs) + a \<le> u64_max" "lg_inflight_bytes ?l + a \<le> u64_max"
      "lg_active_loads ?l + 1 \<le> u64_max"
      using fits False lims limits_u64 by auto
    ultimately show ?thesis
      using a lims n(2) False fits evictions
      by (auto simp: reserve_load_def Let_def makes_room_def checked_add_def intro!: awp_post [OF ev])
  qed
qed

end
