(* ===== verification/Store_Cache_Demand.thy ===== *)
theory Store_Cache_Demand
  imports Store_Cache_Ops
begin

text \<open>
  Demand and prefetch keep the invariant of the page cache: hits, waits on a load in flight and new loads, with
  the reservation given back when the reader refuses one.
\<close>

declare split_paired_All [simp del] split_paired_Ex [simp del]

section \<open>Admission\<close>

lemma reserved_frame:
  assumes "reserved sha a s s'"
  shows "same_counters s s'" "lg_waiters (ci_ledger s') = lg_waiters (ci_ledger s)"
    "lg_lease_reservations (ci_ledger s') = lg_lease_reservations (ci_ledger s)"
    "lg_leases (ci_ledger s') = lg_leases (ci_ledger s)"
    "bt_get (ci_entries s) k = None \<Longrightarrow> bt_get (ci_entries s') k = None" "bt_wf (ci_entries s')"
  using assms
  by (auto simp: reserved_def evicted_def same_counters_def same_loads_def without_def reserve_def restrict_map_def
      core_ok_def core_def)

lemma core_admit:
  assumes res: "reserved sha a s s'" and new: "bt_get (ci_entries s) k = None"
    and e: "en_state e = Loading l" "en_allocation_bytes e = a" "length (le_waiters l) = n"
    and ok: "entry_ok sha (ci_config s) (ci_generation s) (ci_shutdown s) k e"
    and room: "lg_waiters (ci_ledger s) + n \<le> cc_max_waiters (ci_config s)"
      "lg_leases (ci_ledger s) + lg_lease_reservations (ci_ledger s) + n \<le> cc_max_leases (ci_config s)"
  shows "core sha (ci_config s) (bt_insert k e (ci_entries s'))
    ((ci_ledger s')\<lparr>lg_waiters := lg_waiters (ci_ledger s) + n,
      lg_lease_reservations := lg_lease_reservations (ci_ledger s) + n\<rparr>) (ci_generation s) (ci_shutdown s)"
proof -
  from res obtain vs t where t: "evicted sha vs s t" "s' = t\<lparr>ci_ledger := reserve a (ci_ledger t)\<rparr>"
      "lg_page_pool_bytes (ci_ledger t) + a \<le> cc_page_pool_capacity (ci_config s)"
      "lg_inflight_bytes (ci_ledger t) + a \<le> cc_max_inflight_bytes (ci_config s)"
      "lg_active_loads (ci_ledger t) < cc_max_loads (ci_config s)" "length (ci_entries t) < cc_max_entries (ci_config s)"
    by (auto simp: reserved_def)
  have core: "core sha (ci_config s) (ci_entries t) (ci_ledger t) (ci_generation s) (ci_shutdown s)"
    and same: "same_loads (ci_ledger s) (ci_ledger t)"
    using t(1) by (auto simp: evicted_def core_ok_def same_counters_def)
  have "bt_get (ci_entries t) k = None" using reserved_frame(5) [OF res new] t(2) by simp
  from core_new [OF core this, of e "(ci_ledger s')\<lparr>lg_waiters := lg_waiters (ci_ledger s) + n,
      lg_lease_reservations := lg_lease_reservations (ci_ledger s) + n\<rparr>"]
  show ?thesis
    using t(2-6) same e ok room coreD(4) [OF core] by (simp add: weighing same_loads_def reserve_def)
qed

text \<open>Handing a load to the reader changes nothing else.\<close>

lemma awp_submit_load:
  assumes "\<And>r. Q () (s\<lparr>ci_reader := r\<rparr>)" "\<And>x. E (Err x) s"
  shows "awp E (submit_load now spec g) Q s"
  using assms
  by (auto simp: submit_load_def submit_observed_def check_at_def control_check_def reader_submit_def unbounded_def)

lemma lease_slots_ok:
  assumes "core_ok sha s"
  shows "lease_slots_full s = Ok (cc_max_leases (ci_config s) \<le> lg_leases (ci_ledger s) + lg_lease_reservations (ci_ledger s))"
    "lg_leases (ci_ledger s) + lg_lease_reservations (ci_ledger s) < u64_max" "lg_waiters (ci_ledger s) < u64_max"
proof -
  note core = assms [unfolded core_ok_def]
  show *: "lg_leases (ci_ledger s) + lg_lease_reservations (ci_ledger s) < u64_max" "lg_waiters (ci_ledger s) < u64_max"
    using coreD(4) [OF core] config_okD [OF coreD(1) [OF core]] limits_u64 by (auto simp: within_def)
  then show "lease_slots_full s = Ok (cc_max_leases (ci_config s) \<le> lg_leases (ci_ledger s) + lg_lease_reservations (ci_ledger s))"
    by (simp add: lease_slots_full_def add_u64_def checked_add_def)
qed

lemma wp_reserve_waiter:
  assumes "core_ok sha s"
    and "lg_waiters (ci_ledger s) < cc_max_waiters (ci_config s) \<Longrightarrow> n < cc_max_waiters_per_page (ci_config s) \<Longrightarrow>
      lg_leases (ci_ledger s) + lg_lease_reservations (ci_ledger s) < cc_max_leases (ci_config s) \<Longrightarrow> Q ()"
    and "\<And>x. E (Err x)"
  shows "wp E (reserve_waiter s n) Q"
  using assms by (auto simp: reserve_waiter_def lease_slots_ok [OF assms(1)])

lemma get_resident_ok:
  assumes ok: "cache_ok sha s" and e: "bt_get (ci_entries s) (sp_key spec) = Some e" "en_state e = Resident r"
  shows "awp (safe (cache_ok sha)) (get_resident spec tick e r) (\<lambda>_. core_ok sha) s"
proof -
  note core = cache_ok_core [OF ok]
  let ?s = "s\<lparr>ci_metrics := count_hit (ci_metrics s)\<rparr>"
  have "core_ok sha ?s" using core by (simp add: core_ok_def)
  note slots = lease_slots_ok [OF this]
  have r: "rp_leases r \<le> lg_leases (ci_ledger s)" using core_le(8) [OF core e(1)] e(2) by (simp add: weigh_def)
  have "core sha (ci_config s) (bt_insert (sp_key spec) (e\<lparr>en_state := Resident (r\<lparr>rp_last_touch := tick, rp_leases := Suc (rp_leases r)\<rparr>)\<rparr>)
      (ci_entries s)) ((ci_ledger s)\<lparr>lg_leases := Suc (lg_leases (ci_ledger s))\<rparr>) (ci_generation s) (ci_shutdown s)"
    if "lg_leases (ci_ledger s) + lg_lease_reservations (ci_ledger s) < cc_max_leases (ci_config s)"
    using e(2) that coreD(4) [OF core] entry_ok_resident(1) [OF core_entry [OF core e(1)] e(2)]
    by (intro core_replace [OF core e(1)]) (auto simp: weighing)
  then show ?thesis
    using ok slots r by (auto simp: get_resident_def cache_prims cache_ok_def core_ok_def)
qed

lemma get_loading_ok:
  assumes ok: "cache_ok sha s" and e: "bt_get (ci_entries s) (sp_key spec) = Some e" "en_state e = Loading l"
    and live: "\<not> ci_shutdown s"
  shows "awp (safe (cache_ok sha)) (get_loading spec tick e l) (\<lambda>_. core_ok sha) s"
proof -
  note core = cache_ok_core [OF ok]
  have cok: "core_ok sha s" using ok by (simp add: cache_ok_def)
  have "core sha (ci_config s) (bt_insert (sp_key spec) (e\<lparr>en_state :=
        Loading (l\<lparr>le_waiters := le_waiters l @ [w], le_last_touch := tick\<rparr>)\<rparr>) (ci_entries s))
      ((ci_ledger s)\<lparr>lg_waiters := Suc (lg_waiters (ci_ledger s)),
        lg_lease_reservations := Suc (lg_lease_reservations (ci_ledger s))\<rparr>) (ci_generation s) (ci_shutdown s)"
    if "lg_waiters (ci_ledger s) < cc_max_waiters (ci_config s)" "length (le_waiters l) < cc_max_waiters_per_page (ci_config s)"
      "lg_leases (ci_ledger s) + lg_lease_reservations (ci_ledger s) < cc_max_leases (ci_config s)" for w
    using e(2) that coreD(4) [OF core] live entry_ok_loading(3-6) [OF core_entry [OF core e(1)] e(2)]
    by (intro core_replace [OF core e(1)] entry_ok_loading(1) [OF core_entry [OF core e(1)] e(2)]) (auto simp: weighing)
  moreover have "core_ok sha (s\<lparr>ci_metrics := t, ci_trace := u\<rparr>)" for t u
    using core by (simp add: core_ok_def)
  ultimately show ?thesis
    using ok lease_slots_ok(2,3) [OF cok]
    by (auto simp: get_loading_def cache_prims next_waiter_def cache_ok_def core_ok_def checked_add_def
        intro!: wp_reserve_waiter [of sha])
qed

text \<open>The entry of a load that has just been reserved.\<close>

lemma loading_entry_ok:
  assumes "allocation_bytes spec = Ok a" "g \<le> g'" "length ws \<le> cc_max_waiters_per_page c"
  shows "entry_ok sha c g' False k (loading_entry_for spec a g ws origin interest tick)"
  using assms by (simp add: entry_ok_def loading_entry_for_def allocation_bytes_def)

lemma admitted_core:
  assumes res: "reserved sha a s s'" and new: "bt_get (ci_entries s) k = None" and live: "\<not> ci_shutdown s"
    and spec: "allocation_bytes spec = Ok a" and g: "g \<le> ci_generation s"
    and room: "length ws \<le> cc_max_waiters_per_page (ci_config s)"
      "lg_waiters (ci_ledger s) + length ws \<le> cc_max_waiters (ci_config s)"
      "lg_leases (ci_ledger s) + lg_lease_reservations (ci_ledger s) + length ws \<le> cc_max_leases (ci_config s)"
  shows "core_ok sha (s'\<lparr>ci_ledger := (ci_ledger s')\<lparr>lg_waiters := lg_waiters (ci_ledger s) + length ws,
      lg_lease_reservations := lg_lease_reservations (ci_ledger s) + length ws\<rparr>,
    ci_entries := bt_insert k (loading_entry_for spec a g ws origin interest tick) (ci_entries s')\<rparr>)"
  using core_admit [OF res new _ _ _ _ room(2,3)] loading_entry_ok [OF spec g room(1)] live
    reserved_frame(1) [OF res]
  by (simp add: core_ok_def loading_entry_for_def same_counters_def)

text \<open>When the reader refuses the load, the reservation and the entry are given back.\<close>

lemma unwind_admitted_ok:
  assumes "core_ok sha s" "bt_get (ci_entries s) k = Some (loading_entry_for spec a g ws origin interest tick)"
    "\<And>s'. cache_ok sha s' \<Longrightarrow> awp E rest Q s'"
  shows "awp E (unwind_unsubmitted_load k g) (\<lambda>_. awp E (athen update_live_metrics rest) Q) s"
proof (rule awp_post)
  show "awp E (unwind_unsubmitted_load k g) (\<lambda>_. core_ok sha) s"
    by (rule unwind_ok [OF assms(1,2)]) (simp_all add: loading_entry_for_def)
  show "awp E (athen update_live_metrics rest) Q s'" if "core_ok sha s'" for s'
    using that assms(3) by (auto intro!: awp_live [of sha] cache_okI)
qed

lemma awp_prims:
  "awp E (meter f) Q s = Q () (s\<lparr>ci_metrics := f (ci_metrics s)\<rparr>)"
  "awp E (observe outcome reason k bytes) Q s = Q () (s\<lparr>ci_trace := ci_trace s @ [(outcome, reason, k, bytes)]\<rparr>)"
  "awp E (put_entry k e) Q s = Q () (s\<lparr>ci_entries := bt_insert k e (ci_entries s)\<rparr>)"
  "awp E (find_entry k) R s = R (bt_get (ci_entries s) k) s"
  by (simp_all add: cache_prims)

lemma start_demand_ok:
  assumes res: "reserved sha a s s'" and new: "bt_get (ci_entries s) (sp_key spec) = None" and live: "\<not> ci_shutdown s"
    and spec: "allocation_bytes spec = Ok a" and g: "g \<le> ci_generation s"
    and room: "0 < cc_max_waiters_per_page (ci_config s)" "lg_waiters (ci_ledger s) < cc_max_waiters (ci_config s)"
      "lg_leases (ci_ledger s) + lg_lease_reservations (ci_ledger s) < cc_max_leases (ci_config s)"
    and width: "lg_leases (ci_ledger s) + lg_lease_reservations (ci_ledger s) < u64_max" "lg_waiters (ci_ledger s) < u64_max"
  shows "awp (safe (cache_ok sha)) (athen (charge (add_waiters 1))
     (athen (charge (add_reservations 1))
     (athen (put_entry (sp_key spec) (loading_entry_for spec a g [w] Demand False tick))
     (athen (acatch (submit_load now spec g)
       (\<lambda>error. athen (unwind_unsubmitted_load (sp_key spec) g)
         (athen update_live_metrics (afail error))))
     (athen (observe LoadStarted Demand (sp_key spec) (sp_length spec))
     (areturn (Registered g w))))))) (\<lambda>_. core_ok sha) s'"
proof -
  note frame = reserved_frame [OF res]
  let ?s = "s'\<lparr>ci_ledger := (ci_ledger s')\<lparr>lg_waiters := Suc (lg_waiters (ci_ledger s)),
      lg_lease_reservations := Suc (lg_lease_reservations (ci_ledger s))\<rparr>,
      ci_entries := bt_insert (sp_key spec) (loading_entry_for spec a g [w] Demand False tick) (ci_entries s')\<rparr>"
  have "core_ok sha ?s"
    using room admitted_core [OF res new live spec g, of "[w]" Demand False tick] by simp
  moreover from this have "core_ok sha (?s\<lparr>ci_reader := r, ci_trace := u\<rparr>)" for r u by (simp add: core_ok_def)
  ultimately show ?thesis
    using frame width
    by (auto simp: awp_prims charge_def ledger_add_def
      intro!: awp_submit_load unwind_admitted_ok [where sha = sha and spec = spec and a = a and ws = "[w]" and origin = Demand
        and interest = False and tick = tick])
qed

lemma get_absent_ok:
  assumes ok: "cache_ok sha s" and new: "bt_get (ci_entries s) (sp_key spec) = None" and live: "\<not> ci_shutdown s"
    and spec: "allocation_bytes spec = Ok a" "a \<le> cc_page_pool_capacity (ci_config s)"
  shows "awp (safe (cache_ok sha)) (get_absent runtime now spec a tick) (\<lambda>_. core_ok sha) s"
proof -
  note core = cache_ok_core [OF ok]
  have cok: "core_ok sha s" using ok by (simp add: cache_ok_def)
  let ?at = "\<lambda>t u. s\<lparr>ci_metrics := t, ci_trace := u, ci_generation := Suc (ci_generation s), ci_waiter := Suc (ci_waiter s)\<rparr>"
  have at: "core_ok sha (?at t u)" "core_ok sha (s\<lparr>ci_metrics := t, ci_trace := u\<rparr>)" for t u
    using core core_generation [OF core, of "Suc (ci_generation s)"] by (simp_all add: core_ok_def)
  have step: "cache_ok sha (s\<lparr>ci_metrics := count_miss (ci_metrics s), ci_trace := u\<rparr>)"
    "cache_ok sha (s\<lparr>ci_metrics := count_miss (ci_metrics s), ci_trace := u, ci_generation := Suc (ci_generation s)\<rparr>)"
    "cache_ok sha (?at (count_miss (ci_metrics s)) u)" for u
    using ok core_generation [OF core, of "Suc (ci_generation s)"] by (simp_all add: cache_ok_def core_ok_def)
  show ?thesis
    using lease_slots_ok(2,3) [OF cok] spec new live
    by (auto simp: get_absent_def awp_prims checked_add_def next_generation_def next_waiter_def at step
        intro!: wp_reserve_waiter [of sha] awp_post [OF reserve_load_ok [of sha]] start_demand_ok [simplified awp_simps One_nat_def])
qed

section \<open>Entry points\<close>

lemma validate_spec_ok:
  assumes "\<And>a. allocation_bytes spec = Ok a \<Longrightarrow> a \<le> cc_page_pool_capacity c \<Longrightarrow> Q a" "\<And>x. E (Err x)"
  shows "wp E (validate_spec c spec) Q"
  using assms
  by (cases "sp_length spec + (PAGE_BUFFER_ALIGNMENT - 1) \<le> u64_max")
    (auto simp: validate_spec_def allocation_bytes_def aligned_page_buffer_bytes_def checked_add_def)

lemma get_section_ok:
  assumes ok: "cache_ok sha s" and spec: "allocation_bytes spec = Ok a" "a \<le> cc_page_pool_capacity (ci_config s)"
  shows "awp (safe (cache_ok sha)) (get_section runtime now spec a) (\<lambda>_. cache_ok sha) s"
proof (cases "ci_shutdown s")
  case False
  let ?s = "s\<lparr>ci_tick := saturating_add (ci_tick s) (Suc 0)\<rparr>"
  have ok': "cache_ok sha ?s" using ok by (simp add: cache_ok_def core_ok_def)
  have live: "core_ok sha s' \<Longrightarrow> awp E (athen update_live_metrics (areturn x)) (\<lambda>_. cache_ok sha) s'" for s' E x
    by (auto intro!: awp_live [of sha] cache_okI)
  show ?thesis
  proof (cases "bt_get (ci_entries s) (sp_key spec)")
    case None
    with False spec show ?thesis
      by (auto simp: get_section_def next_tick_def awp_prims intro!: awp_post [OF get_absent_ok [OF ok']] live)
  next
    case (Some e)
    from Some False ok' show ?thesis
      by (auto simp: get_section_def next_tick_def awp_prims awp_cases validate_identity_def split: entry_state.splits
          intro!: awp_post [OF get_resident_ok [OF ok']] awp_post [OF get_loading_ok [OF ok']] live)
  qed
qed (use ok in \<open>simp add: get_section_def\<close>)

lemma cache_ok_metrics: "cache_ok sha s \<Longrightarrow> gauged t (ci_ledger s) \<Longrightarrow> cache_ok sha (s\<lparr>ci_metrics := t\<rparr>)"
  by (simp add: cache_ok_def core_ok_def)

lemma cache_ok_gauged: "cache_ok sha s \<Longrightarrow> gauged (ci_metrics s) (ci_ledger s)"
  by (simp add: cache_ok_def)

lemma wp_check_at: "Q () \<Longrightarrow> (\<And>x. E (Err x)) \<Longrightarrow> wp E (check_at point) Q"
  by (auto simp: check_at_def control_check_def split: option.splits)

lemma get_enter_ok:
  assumes "cache_ok sha s"
  shows "awp (safe (cache_ok sha)) (get_enter runtime point spec) (\<lambda>_. cache_ok sha) s"
  using assms
  by (auto simp: get_enter_def awp_prims cache_ok_metrics cache_ok_gauged
      intro!: validate_spec_ok get_section_ok wp_check_at)

lemma get_poll_ok:
  assumes "cache_ok sha s"
  shows "awp (safe (cache_ok sha)) (get_poll point elapsed spec g w event) (\<lambda>_. cache_ok sha) s"
proof -
  have "awp (safe (cache_ok sha)) (withdraw_waiter (sp_key spec) g w) (\<lambda>_. cache_ok sha) s"
    by (rule withdraw_waiter_ok [OF assms])
  then have "awp (safe (cache_ok sha)) (athen (withdraw_waiter (sp_key spec) g w)
      (athen (meter (add_wait_nanoseconds n)) (athen (observe TraceCancelled Demand (sp_key spec) (sp_length spec))
        (afail error)))) (\<lambda>_. cache_ok sha) s" for n error
    by (auto simp: awp_prims cache_ok_def core_ok_def elim!: awp_post)
  then show ?thesis
    using assms
    by (auto simp: get_poll_def check_at_def control_check_def awp_prims cache_ok_def core_ok_def
        split: option.splits wait_event.splits sum.splits)
qed

section \<open>Prefetch\<close>

lemma drop_prefetch_ok: "cache_ok sha s \<Longrightarrow> awp E (drop_prefetch spec) (\<lambda>_. cache_ok sha) s"
  "core_ok sha s \<Longrightarrow> awp E (drop_prefetch spec) (\<lambda>_. core_ok sha) s"
  by (simp_all add: drop_prefetch_def awp_prims cache_ok_def core_ok_def)

lemma prefetch_present_ok:
  assumes ok: "cache_ok sha s" and e: "bt_get (ci_entries s) (sp_key spec) = Some e"
  shows "awp E (prefetch_present spec e) (\<lambda>_. core_ok sha) s"
proof (cases "en_state e")
  case (Loading l)
  note core = cache_ok_core [OF ok]
  let ?e = "e\<lparr>en_state := Loading (l\<lparr>le_prefetch_interest := True\<rparr>)\<rparr>"
  have "entry_ok sha (ci_config s) (ci_generation s) (ci_shutdown s) (sp_key spec) ?e"
    using entry_ok_loading(3-6) [OF core_entry [OF core e] Loading]
    by (intro entry_ok_loading(1) [OF core_entry [OF core e] Loading]) auto
  moreover have "weigh ?e = weigh e" using Loading by (simp add: weigh_def)
  ultimately have "core sha (ci_config s) (bt_insert (sp_key spec) ?e (ci_entries s)) (ci_ledger s) (ci_generation s) (ci_shutdown s)"
    using core_same_weight [OF core e] by blast
  then show ?thesis
    using Loading core
    by (auto simp: prefetch_present_def drop_prefetch_def redundant_prefetch_def awp_prims core_ok_def)
qed (use ok in \<open>auto simp: prefetch_present_def drop_prefetch_def redundant_prefetch_def awp_prims cache_ok_def core_ok_def\<close>)

abbreviation settled :: "(u8 list \<Rightarrow> digest) \<Rightarrow> prefetch_outcome + prefetch_outcome \<Rightarrow> cache_inner \<Rightarrow> bool" where
  "settled sha outcome s \<equiv> case outcome of Inl _ \<Rightarrow> cache_ok sha s | Inr _ \<Rightarrow> core_ok sha s"

lemma start_prefetch_ok:
  assumes res: "reserved sha a s s'" and new: "bt_get (ci_entries s) (sp_key spec) = None" and live: "\<not> ci_shutdown s"
    and spec: "allocation_bytes spec = Ok a" and g: "g \<le> ci_generation s" and core: "core_ok sha s"
  shows "awp (safe (cache_ok sha)) (athen (put_entry (sp_key spec) (loading_entry_for spec a g [] Prefetch True tick))
     (acatch
       (athen (submit_load now spec g)
       (athen (observe LoadStarted Prefetch (sp_key spec) (sp_length spec))
       (areturn (Inr Started))))
       (\<lambda>error. athen (unwind_unsubmitted_load (sp_key spec) g)
         (athen update_live_metrics
         (if error = QueueFull then abind (drop_prefetch spec) (\<lambda>outcome. areturn (Inl outcome))
          else afail error))))) (settled sha) s'"
proof -
  note frame = reserved_frame [OF res]
  let ?s = "s'\<lparr>ci_entries := bt_insert (sp_key spec) (loading_entry_for spec a g [] Prefetch True tick) (ci_entries s')\<rparr>"
  have "(ci_ledger s')\<lparr>lg_waiters := lg_waiters (ci_ledger s), lg_lease_reservations := lg_lease_reservations (ci_ledger s)\<rparr>
      = ci_ledger s'"
    using frame(2,3) by simp
  moreover have "lg_waiters (ci_ledger s) \<le> cc_max_waiters (ci_config s)"
    "lg_leases (ci_ledger s) + lg_lease_reservations (ci_ledger s) \<le> cc_max_leases (ci_config s)"
    using coreD(4) [OF core [unfolded core_ok_def]] by (simp_all add: within_def)
  ultimately have "core_ok sha ?s"
    using admitted_core [OF res new live spec g, of "[]" Prefetch True tick] by (simp add: core_ok_def)
  moreover from this have "core_ok sha (?s\<lparr>ci_reader := r, ci_trace := u\<rparr>)" for r u by (simp add: core_ok_def)
  ultimately show ?thesis
    using frame(6)
    by (auto simp: awp_prims drop_prefetch_def cache_ok_def core_ok_def
      intro!: awp_submit_load unwind_admitted_ok [where sha = sha and spec = spec and a = a and ws = "[]" and origin = Prefetch
        and interest = True and tick = tick])
qed

lemma prefetch_absent_ok:
  assumes ok: "cache_ok sha s" and new: "bt_get (ci_entries s) (sp_key spec) = None" and live: "\<not> ci_shutdown s"
    and spec: "allocation_bytes spec = Ok a" "a \<le> cc_page_pool_capacity (ci_config s)"
  shows "awp (safe (cache_ok sha)) (prefetch_absent runtime now spec a) (settled sha) s"
proof -
  note core = cache_ok_core [OF ok]
  let ?at = "s\<lparr>ci_tick := saturating_add (ci_tick s) (Suc 0), ci_generation := Suc (ci_generation s)\<rparr>"
  have at: "cache_ok sha ?at" "cache_ok sha (s\<lparr>ci_tick := saturating_add (ci_tick s) (Suc 0)\<rparr>)" "core_ok sha ?at"
    using ok core_generation [OF core, of "Suc (ci_generation s)"] by (simp_all add: cache_ok_def core_ok_def)
  have dropped: "awp (safe (cache_ok sha)) (abind (drop_prefetch spec) (\<lambda>outcome. areturn (Inl outcome))) (settled sha) ?at"
    by (auto intro: awp_post [OF drop_prefetch_ok(1) [OF at(1)]])
  show ?thesis
    using ok at spec new live dropped
    by (auto simp: prefetch_absent_def next_tick_def next_generation_def checked_add_def
      intro!: awp_post [OF reserve_load_ok [of sha]] start_prefetch_ok [simplified awp_simps])
qed

lemma prefetch_section_ok:
  assumes ok: "cache_ok sha s" and spec: "allocation_bytes spec = Ok a" "a \<le> cc_page_pool_capacity (ci_config s)"
  shows "awp (safe (cache_ok sha)) (prefetch_section runtime now spec a) (\<lambda>_. cache_ok sha) s"
proof -
  have live: "awp (safe (cache_ok sha)) (case outcome of Inl x \<Rightarrow> areturn x | Inr x \<Rightarrow> athen update_live_metrics (areturn x))
      (\<lambda>_. cache_ok sha) s'" if "settled sha outcome s'" for outcome s'
    using that by (cases outcome) (auto intro!: awp_live [of sha] cache_okI)
  show ?thesis
  proof (cases "bt_get (ci_entries s) (sp_key spec)")
    case None
    with ok spec show ?thesis
      by (auto simp: prefetch_section_def awp_prims intro!: awp_post [OF prefetch_absent_ok [OF ok]] live)
  next
    case (Some e)
    with ok show ?thesis
      by (auto simp: prefetch_section_def awp_prims validate_identity_def
          intro!: awp_post [OF prefetch_present_ok [OF ok]] awp_live [of sha] cache_okI)
  qed
qed

lemma prefetch_ok:
  assumes "cache_ok sha s"
  shows "awp (safe (cache_ok sha)) (prefetch runtime point spec) (\<lambda>_. cache_ok sha) s"
  using assms
  by (auto simp: prefetch_def awp_prims cache_ok_metrics cache_ok_gauged
      intro!: validate_spec_ok prefetch_section_ok wp_check_at)

end
