(* ===== verification/Store_Protocol.thy ===== *)
theory Store_Protocol
  imports Store_Cache "HOL-Library.Multiset"
begin

text \<open>
  What the page cache promises, without its ledger, limits, recency and metrics: pages that are awaited or held,
  one outstanding load for every awaited page, live leases, and answers on their way to the callers. The steps
  change one page at a time; the invariant says that leases and loads are counted exactly, that a held page is the
  one its identity names, and that a waiting caller is either still registered or has its answer.
\<close>

declare split_paired_All [simp del] split_paired_Ex [simp del]

section \<open>States\<close>

type_synonym identity = "digest \<times> u64"

datatype holding = Awaiting "u64 multiset" | Holding verified_page nat

record slot =
  sl_generation :: u64
  sl_identity :: identity
  sl_holding :: holding

type_synonym answer = "store_error + page_lease"

record protocol =
  pr_pages :: "page_key \<Rightarrow> slot option"
  pr_loads :: "(page_key \<times> u64 \<times> identity) multiset"
  pr_waits :: "u64 \<Rightarrow> (page_key \<times> u64 \<times> identity) option"
  pr_inbox :: "(u64 \<times> answer) multiset"
  pr_leases :: "page_lease multiset"
  pr_generation :: u64
  pr_waiter :: u64

definition genuine :: "(u8 list \<Rightarrow> digest) \<Rightarrow> page_key \<Rightarrow> identity \<Rightarrow> verified_page \<Rightarrow> bool" where
  "genuine sha k i p \<longleftrightarrow> vp_key p = k \<and> sha (vp_bytes p) = fst i \<and> length (vp_bytes p) = snd i"

text \<open>An answer reaches the callers that still wait; a lease nobody waits for is dropped later by its sender.\<close>

definition posted :: "(u64 \<Rightarrow> 'a option) \<Rightarrow> u64 multiset \<Rightarrow> answer \<Rightarrow> (u64 \<times> answer) multiset" where
  "posted waits ws r = image_mset (\<lambda>w. (w, r)) (filter_mset (\<lambda>w. w \<in> dom waits) ws)"

definition orphans :: "(u64 \<Rightarrow> 'a option) \<Rightarrow> u64 multiset \<Rightarrow> page_lease \<Rightarrow> page_lease multiset" where
  "orphans waits ws l = image_mset (\<lambda>_. l) (filter_mset (\<lambda>w. w \<notin> dom waits) ws)"

definition sent_leases :: "(u64 \<times> answer) multiset \<Rightarrow> page_lease multiset" where
  "sent_leases inbox = image_mset (\<lambda>(_, r). projr r) (filter_mset (\<lambda>(_, r). \<not> isl r) inbox)"

abbreviation lease_for :: "verified_page \<Rightarrow> page_key \<Rightarrow> u64 \<Rightarrow> page_lease" where
  "lease_for p k g \<equiv> \<lparr>pl_page = p, pl_key = k, pl_generation = g\<rparr>"

section \<open>Steps\<close>

inductive protocol_step :: "(u8 list \<Rightarrow> digest) \<Rightarrow> protocol \<Rightarrow> protocol \<Rightarrow> bool" for sha where
  evict: "pr_pages a k = Some sl \<Longrightarrow> sl_holding sl = Holding p 0 \<Longrightarrow>
    protocol_step sha a (a\<lparr>pr_pages := (pr_pages a)(k := None)\<rparr>)"
| hit: "pr_pages a k = Some sl \<Longrightarrow> sl_holding sl = Holding p n \<Longrightarrow>
    protocol_step sha a (a\<lparr>pr_pages := (pr_pages a)(k \<mapsto> sl\<lparr>sl_holding := Holding p (Suc n)\<rparr>),
      pr_leases := add_mset (lease_for p k (sl_generation sl)) (pr_leases a)\<rparr>)"
| bump: "pr_generation a \<le> g \<Longrightarrow> pr_waiter a \<le> w \<Longrightarrow>
    protocol_step sha a (a\<lparr>pr_generation := g, pr_waiter := w\<rparr>)"
| start: "pr_pages a k = None \<Longrightarrow> pr_generation a < g \<Longrightarrow>
    protocol_step sha a (a\<lparr>pr_pages := (pr_pages a)(k \<mapsto> \<lparr>sl_generation = g, sl_identity = i, sl_holding = Awaiting {#}\<rparr>),
      pr_loads := add_mset (k, g, i) (pr_loads a), pr_generation := g\<rparr>)"
| join: "pr_pages a k = Some sl \<Longrightarrow> sl_holding sl = Awaiting ws \<Longrightarrow> pr_waiter a < w \<Longrightarrow>
    protocol_step sha a (a\<lparr>pr_pages := (pr_pages a)(k \<mapsto> sl\<lparr>sl_holding := Awaiting (add_mset w ws)\<rparr>),
      pr_waiter := w, pr_waits := (pr_waits a)(w \<mapsto> (k, sl_generation sl, sl_identity sl))\<rparr>)"
| withdraw: "pr_pages a k = Some sl \<Longrightarrow> sl_holding sl = Awaiting ws \<Longrightarrow> pr_waits a w = None \<Longrightarrow>
    protocol_step sha a (a\<lparr>pr_pages := (pr_pages a)(k \<mapsto> sl\<lparr>sl_holding := Awaiting (ws - {#w#})\<rparr>)\<rparr>)"
| resolve: "protocol_step sha a (a\<lparr>pr_waits := (pr_waits a)(w := None),
      pr_inbox := filter_mset (\<lambda>(v, _). v \<noteq> w) (pr_inbox a),
      pr_leases := pr_leases a + sent_leases (filter_mset (\<lambda>(v, _). v = w) (pr_inbox a))\<rparr>)"
| publish: "(k, sl_generation sl, sl_identity sl) \<in># pr_loads a \<Longrightarrow> pr_pages a k = Some sl \<Longrightarrow>
    sl_holding sl = Awaiting ws \<Longrightarrow> genuine sha k (sl_identity sl) p \<Longrightarrow>
    l = lease_for p k (sl_generation sl) \<Longrightarrow>
    protocol_step sha a (a\<lparr>pr_pages := (pr_pages a)(k \<mapsto> sl\<lparr>sl_holding := Holding p (size ws)\<rparr>),
      pr_loads := pr_loads a - {#(k, sl_generation sl, sl_identity sl)#},
      pr_inbox := pr_inbox a + posted (pr_waits a) ws (Inr l), pr_leases := pr_leases a + orphans (pr_waits a) ws l\<rparr>)"
| discard: "(k, sl_generation sl, sl_identity sl) \<in># pr_loads a \<Longrightarrow> pr_pages a k = Some sl \<Longrightarrow>
    sl_holding sl = Awaiting ws \<Longrightarrow>
    protocol_step sha a (a\<lparr>pr_pages := (pr_pages a)(k := None),
      pr_loads := pr_loads a - {#(k, sl_generation sl, sl_identity sl)#},
      pr_inbox := pr_inbox a + posted (pr_waits a) ws (Inl e)\<rparr>)"
| flush: "pr_pages a k = Some sl \<Longrightarrow> sl_holding sl = Awaiting ws \<Longrightarrow>
    protocol_step sha a (a\<lparr>pr_pages := (pr_pages a)(k \<mapsto> sl\<lparr>sl_holding := Awaiting {#}\<rparr>),
      pr_inbox := pr_inbox a + posted (pr_waits a) ws (Inl e)\<rparr>)"
| release: "l \<in># pr_leases a \<Longrightarrow> pr_pages a (pl_key l) = Some sl \<Longrightarrow> sl_generation sl = pl_generation l \<Longrightarrow>
    sl_holding sl = Holding p (Suc n) \<Longrightarrow>
    protocol_step sha a (a\<lparr>pr_pages := (pr_pages a)(pl_key l \<mapsto> sl\<lparr>sl_holding := Holding p n\<rparr>),
      pr_leases := pr_leases a - {#l#}\<rparr>)"

section \<open>The invariant\<close>

definition live :: "protocol \<Rightarrow> page_lease multiset" where
  "live a = pr_leases a + sent_leases (pr_inbox a)"

definition leased :: "page_lease multiset \<Rightarrow> page_key \<Rightarrow> u64 \<Rightarrow> nat" where
  "leased M k g = size (filter_mset (\<lambda>l. pl_key l = k \<and> pl_generation l = g) M)"

definition held :: "slot option \<Rightarrow> u64 \<Rightarrow> nat" where
  "held x g = (case x of None \<Rightarrow> 0 | Some sl \<Rightarrow>
     if sl_generation sl = g then (case sl_holding sl of Holding _ n \<Rightarrow> n | Awaiting _ \<Rightarrow> 0) else 0)"

definition leases_ok :: "(u8 list \<Rightarrow> digest) \<Rightarrow> protocol \<Rightarrow> bool" where
  "leases_ok sha a \<longleftrightarrow> (\<forall>k g. leased (live a) k g = held (pr_pages a k) g) \<and>
     (\<forall>l\<in>#live a. \<exists>sl n. pr_pages a (pl_key l) = Some sl \<and> sl_generation sl = pl_generation l \<and>
        sl_holding sl = Holding (pl_page l) n) \<and>
     (\<forall>k sl p n. pr_pages a k = Some sl \<longrightarrow> sl_holding sl = Holding p n \<longrightarrow> genuine sha k (sl_identity sl) p)"

definition outstanding :: "page_key \<Rightarrow> slot option \<Rightarrow> (page_key \<times> u64 \<times> identity) multiset" where
  "outstanding k x = (case x of None \<Rightarrow> {#} | Some sl \<Rightarrow>
     (case sl_holding sl of Awaiting _ \<Rightarrow> {#(k, sl_generation sl, sl_identity sl)#} | Holding _ _ \<Rightarrow> {#}))"

definition loads_ok :: "protocol \<Rightarrow> bool" where
  "loads_ok a \<longleftrightarrow> (\<forall>k. filter_mset (\<lambda>x. fst x = k) (pr_loads a) = outstanding k (pr_pages a k)) \<and>
     (\<forall>k sl. pr_pages a k = Some sl \<longrightarrow> sl_generation sl \<le> pr_generation a)"

definition waiters :: "slot option \<Rightarrow> u64 multiset" where
  "waiters x = (case x of None \<Rightarrow> {#} | Some sl \<Rightarrow> (case sl_holding sl of Awaiting ws \<Rightarrow> ws | Holding _ _ \<Rightarrow> {#}))"

definition label :: "page_key \<Rightarrow> slot option \<Rightarrow> (page_key \<times> u64 \<times> identity) option" where
  "label k x = map_option (\<lambda>sl. (k, sl_generation sl, sl_identity sl)) x"

definition answers :: "(u64 \<times> answer) multiset \<Rightarrow> u64 \<Rightarrow> nat" where
  "answers inbox w = size (filter_mset (\<lambda>x. fst x = w) inbox)"

definition answer_ok :: "(u8 list \<Rightarrow> digest) \<Rightarrow> page_key \<times> u64 \<times> identity \<Rightarrow> answer \<Rightarrow> bool" where
  "answer_ok sha x r \<longleftrightarrow> (case r of Inl _ \<Rightarrow> True
     | Inr l \<Rightarrow> pl_key l = fst x \<and> pl_generation l = fst (snd x) \<and> genuine sha (fst x) (snd (snd x)) (pl_page l))"

definition waiting_ok :: "protocol \<Rightarrow> page_key \<Rightarrow> u64 \<Rightarrow> bool" where
  "waiting_ok a k w \<longleftrightarrow> w \<le> pr_waiter a \<and> count (waiters (pr_pages a k)) w = 1 \<and> answers (pr_inbox a) w = 0 \<and>
     (pr_waits a w = None \<or> pr_waits a w = label k (pr_pages a k))"

definition answered_ok :: "protocol \<Rightarrow> u64 \<Rightarrow> page_key \<times> u64 \<times> identity \<Rightarrow> bool" where
  "answered_ok a w x \<longleftrightarrow> w \<le> pr_waiter a \<and> (answers (pr_inbox a) w = 1 \<or> w \<in># waiters (pr_pages a (fst x)))"

definition waits_ok :: "(u8 list \<Rightarrow> digest) \<Rightarrow> protocol \<Rightarrow> bool" where
  "waits_ok sha a \<longleftrightarrow>
     (\<forall>k w. w \<in># waiters (pr_pages a k) \<longrightarrow> waiting_ok a k w) \<and>
     (\<forall>w x. pr_waits a w = Some x \<longrightarrow> answered_ok a w x) \<and>
     (\<forall>w r. (w, r) \<in># pr_inbox a \<longrightarrow> (\<exists>x. pr_waits a w = Some x \<and> answer_ok sha x r))"

definition consistent :: "(u8 list \<Rightarrow> digest) \<Rightarrow> protocol \<Rightarrow> bool" where
  "consistent sha a \<longleftrightarrow> leases_ok sha a \<and> loads_ok a \<and> waits_ok sha a"

section \<open>Leases\<close>

lemma leased_simps [simp]:
  "leased {#} k g = 0" "leased (M + N) k g = leased M k g + leased N k g"
  "leased (add_mset l M) k g = (if pl_key l = k \<and> pl_generation l = g then 1 else 0) + leased M k g"
  by (simp_all add: leased_def)

lemma leased_diff: "l \<in># M \<Longrightarrow> leased M k g = (if pl_key l = k \<and> pl_generation l = g then 1 else 0) + leased (M - {#l#}) k g"
  by (metis insert_DiffM leased_simps(3))

lemma leased_pos: "l \<in># M \<Longrightarrow> 0 < leased M (pl_key l) (pl_generation l)"
  by (simp add: leased_diff [of l M])

lemma sent_leases_simps [simp]:
  "sent_leases {#} = {#}" "sent_leases (M + N) = sent_leases M + sent_leases N"
  by (simp_all add: sent_leases_def)

lemma sent_posted_Inl [simp]: "sent_leases (posted waits ws (Inl e)) = {#}"
  by (induction ws) (auto simp: sent_leases_def posted_def)

lemma sent_posted_Inr: "sent_leases (posted waits ws (Inr l)) + orphans waits ws l = replicate_mset (size ws) l"
  by (induction ws) (auto simp: sent_leases_def posted_def orphans_def)

lemma leased_replicate: "leased (replicate_mset n l) k g = (if pl_key l = k \<and> pl_generation l = g then n else 0)"
  by (induction n) auto

lemma sent_partition: "sent_leases (filter_mset (\<lambda>(v, _). v \<noteq> w) M) + sent_leases (filter_mset (\<lambda>(v, _). v = w) M) = sent_leases M"
proof -
  have "M = filter_mset (\<lambda>(v, _). v \<noteq> w) M + filter_mset (\<lambda>(v, _). v = w) M"
    by (rule multiset_eqI) (auto simp: case_prod_beta)
  then show ?thesis by (metis sent_leases_simps(2))
qed

lemma held_simps [simp]: "held None g = 0"
  "held (Some sl) g = (if sl_generation sl = g then (case sl_holding sl of Holding _ n \<Rightarrow> n | Awaiting _ \<Rightarrow> 0) else 0)"
  by (simp_all add: held_def)

lemma leases_okD:
  assumes "leases_ok sha a"
  shows "leased (live a) k g = held (pr_pages a k) g"
    "l \<in># live a \<Longrightarrow> \<exists>sl n. pr_pages a (pl_key l) = Some sl \<and> sl_generation sl = pl_generation l \<and>
       sl_holding sl = Holding (pl_page l) (Suc n)"
    "pr_pages a k = Some sl \<Longrightarrow> sl_holding sl = Holding p n \<Longrightarrow> genuine sha k (sl_identity sl) p"
proof -
  show "leased (live a) k g = held (pr_pages a k) g" for k g using assms by (simp add: leases_ok_def)
  then show "\<exists>sl n. pr_pages a (pl_key l) = Some sl \<and> sl_generation sl = pl_generation l \<and>
       sl_holding sl = Holding (pl_page l) (Suc n)" if "l \<in># live a"
  proof -
    from assms that obtain sl n where sl: "pr_pages a (pl_key l) = Some sl" "sl_generation sl = pl_generation l"
        "sl_holding sl = Holding (pl_page l) n"
      unfolding leases_ok_def by blast
    moreover have "0 < n"
      using leased_pos [OF that] \<open>\<And>k g. leased (live a) k g = held (pr_pages a k) g\<close> [of "pl_key l" "pl_generation l"] sl by simp
    ultimately show ?thesis by (metis gr0_conv_Suc)
  qed
  show "pr_pages a k = Some sl \<Longrightarrow> sl_holding sl = Holding p n \<Longrightarrow> genuine sha k (sl_identity sl) p"
    using assms unfolding leases_ok_def by blast
qed

text \<open>Changing one page and the leases of it.\<close>

lemma leases_ok_change:
  assumes ok: "leases_ok sha a" and pages: "pr_pages b = (pr_pages a)(k := x)"
    and count: "\<And>g. leased (live b) k g = held x g" and other: "\<And>k' g. k' \<noteq> k \<Longrightarrow> leased (live b) k' g = leased (live a) k' g"
    and new: "\<And>l. l \<in># live b \<Longrightarrow> pl_key l = k \<Longrightarrow> \<exists>sl n. x = Some sl \<and> sl_generation sl = pl_generation l \<and> sl_holding sl = Holding (pl_page l) n"
    and old: "\<And>l. l \<in># live b \<Longrightarrow> pl_key l \<noteq> k \<Longrightarrow> l \<in># live a"
    and page: "\<And>sl p n. x = Some sl \<Longrightarrow> sl_holding sl = Holding p n \<Longrightarrow> genuine sha k (sl_identity sl) p"
  shows "leases_ok sha b"
proof -
  have "leased (live b) k' g = held (pr_pages b k') g" for k' g
    using count other leases_okD(1) [OF ok] by (simp add: pages)
  moreover have "\<exists>sl n. pr_pages b (pl_key l) = Some sl \<and> sl_generation sl = pl_generation l \<and> sl_holding sl = Holding (pl_page l) n"
    if "l \<in># live b" for l
    using new [OF that] leases_okD(2) [OF ok old [OF that]] by (cases "pl_key l = k") (auto simp: pages)
  moreover have "genuine sha k' (sl_identity sl) p" if "pr_pages b k' = Some sl" "sl_holding sl = Holding p n" for k' sl p n
    using page leases_okD(3) [OF ok] that by (auto simp: pages split: if_splits)
  ultimately show ?thesis unfolding leases_ok_def by blast
qed

lemma leases_ok_same: "leases_ok sha a \<Longrightarrow> pr_pages b = pr_pages a \<Longrightarrow> live b = live a \<Longrightarrow> leases_ok sha b"
  by (simp add: leases_ok_def)

lemma live_key_held:
  assumes "leases_ok sha a" "l \<in># live a" "pr_pages a (pl_key l) = Some sl"
  shows "\<exists>n. sl_generation sl = pl_generation l \<and> sl_holding sl = Holding (pl_page l) (Suc n)"
  using leases_okD(2) [OF assms(1,2)] assms(3) by auto

lemma leases_ok_unheld:
  assumes ok: "leases_ok sha a" and before: "\<And>g. held (pr_pages a k) g = 0" and after: "\<And>g. held x g = 0"
    and pages: "pr_pages b = (pr_pages a)(k := x)" and live: "live b = live a"
    and x: "\<And>sl p n. x = Some sl \<Longrightarrow> sl_holding sl \<noteq> Holding p n"
  shows "leases_ok sha b"
proof -
  have none: "pl_key l \<noteq> k" if "l \<in># live a" for l
    using leased_pos [OF that] leases_okD(1) [OF ok, of k "pl_generation l"] before by auto
  show ?thesis
    by (rule leases_ok_change [OF ok pages]) (use live none after x before leases_okD(1) [OF ok, of k] in simp_all)
qed

lemma leases_ok_step:
  assumes step: "protocol_step sha a b" and ok: "leases_ok sha a"
  shows "leases_ok sha b"
  using step
proof cases
  case (evict k sl p)
  then show ?thesis by (intro leases_ok_unheld [OF ok, of k None]) (auto simp: live_def)
next
  case (hit k sl p n)
  define l where "l = lease_for p k (sl_generation sl)"
  have l: "pl_key l = k" "pl_generation l = sl_generation sl" "pl_page l = p" by (simp_all add: l_def)
  have b: "live b = add_mset l (live a)" using hit by (simp add: live_def l_def)
  have old: "sl_generation sl = pl_generation m \<and> pl_page m = p" if "m \<in># live a" "pl_key m = k" for m
    using live_key_held [OF ok that(1)] that(2) hit(2,3) by auto
  show ?thesis
    by (rule leases_ok_change [OF ok, of b k "Some (sl\<lparr>sl_holding := Holding p (Suc n)\<rparr>)"])
      (use hit b l old leases_okD(1) [OF ok, of k] leases_okD(3) [OF ok hit(2,3)] in auto)
next
  case (bump g w)
  then show ?thesis by (auto intro: leases_ok_same [OF ok] simp: live_def)
next
  case (start k g i)
  then show ?thesis
    by (intro leases_ok_unheld [OF ok, of k "Some \<lparr>sl_generation = g, sl_identity = i, sl_holding = Awaiting {#}\<rparr>"])
      (auto simp: live_def)
next
  case (join k sl ws w)
  then show ?thesis
    by (intro leases_ok_unheld [OF ok, of k "Some (sl\<lparr>sl_holding := Awaiting (add_mset w ws)\<rparr>)"]) (auto simp: live_def)
next
  case (withdraw k sl ws w)
  then show ?thesis
    by (intro leases_ok_unheld [OF ok, of k "Some (sl\<lparr>sl_holding := Awaiting (ws - {#w#})\<rparr>)"]) (auto simp: live_def)
next
  case (resolve w)
  then show ?thesis
    using sent_partition [of w "pr_inbox a"] by (auto intro: leases_ok_same [OF ok] simp: live_def ac_simps)
next
  case (publish k sl ws p l)
  have b: "live b = live a + replicate_mset (size ws) l"
    using publish sent_posted_Inr [of "pr_waits a" ws l] by (simp add: live_def ac_simps)
  have none: "pl_key m \<noteq> k" if "m \<in># live a" for m
    using live_key_held [OF ok that, of sl] publish by auto
  have l: "pl_key l = k" "pl_generation l = sl_generation sl" "pl_page l = p" using publish by simp_all
  show ?thesis
    by (rule leases_ok_change [OF ok, of b k "Some (sl\<lparr>sl_holding := Holding p (size ws)\<rparr>)"])
      (use publish(1,3-5) b l none leases_okD(1) [OF ok, of k] in \<open>auto simp: leased_replicate split: if_splits\<close>)
next
  case (discard k sl ws e)
  then show ?thesis by (intro leases_ok_unheld [OF ok, of k None]) (auto simp: live_def)
next
  case (flush k sl ws e)
  then show ?thesis
    by (intro leases_ok_unheld [OF ok, of k "Some (sl\<lparr>sl_holding := Awaiting {#}\<rparr>)"]) (auto simp: live_def)
next
  case (release l sl p n)
  then have l: "l \<in># live a" and b: "live a = add_mset l (live b)" by (auto simp: live_def)
  have pages: "pr_pages b = (pr_pages a)(pl_key l \<mapsto> sl\<lparr>sl_holding := Holding p n\<rparr>)" using release by simp
  have old: "sl_generation sl = pl_generation m \<and> pl_page m = p" if "m \<in># live b" "pl_key m = pl_key l" for m
    using live_key_held [OF ok, of m sl] that release(3,5) b by auto
  have count: "leased (live a) k g = (if pl_key l = k \<and> pl_generation l = g then 1 else 0) + leased (live b) k g" for k g
    by (simp add: b)
  show ?thesis
  proof (rule leases_ok_change [OF ok pages])
    show "leased (live b) (pl_key l) g = held (Some (sl\<lparr>sl_holding := Holding p n\<rparr>)) g" for g
      using count [of "pl_key l" g] leases_okD(1) [OF ok, of "pl_key l" g] release(3-5) by (auto split: if_splits)
  qed (use old count b leases_okD(3) [OF ok release(3,5)] in auto)
qed

section \<open>Loads\<close>

lemma outstanding_simps [simp]: "outstanding k None = {#}"
  "outstanding k (Some sl) = (case sl_holding sl of Awaiting _ \<Rightarrow> {#(k, sl_generation sl, sl_identity sl)#} | Holding _ _ \<Rightarrow> {#})"
  by (simp_all add: outstanding_def)

lemma loads_ok_change:
  assumes ok: "loads_ok a" and pages: "pr_pages b = (pr_pages a)(k := x)" and gen: "pr_generation a \<le> pr_generation b"
    and new: "\<And>sl. x = Some sl \<Longrightarrow> sl_generation sl \<le> pr_generation b"
    and count: "filter_mset (\<lambda>x. fst x = k) (pr_loads b) = outstanding k x"
    and other: "\<And>k'. k' \<noteq> k \<Longrightarrow> filter_mset (\<lambda>x. fst x = k') (pr_loads b) = filter_mset (\<lambda>x. fst x = k') (pr_loads a)"
  shows "loads_ok b"
proof -
  have "sl_generation sl \<le> pr_generation b" if "pr_pages a k' = Some sl" for k' sl
  proof -
    have "sl_generation sl \<le> pr_generation a" using ok that unfolding loads_ok_def by blast
    with gen show ?thesis by simp
  qed
  with assms show ?thesis by (auto simp: loads_ok_def split: if_splits)
qed

lemma loads_okD:
  assumes "loads_ok a"
  shows "filter_mset (\<lambda>x. fst x = k) (pr_loads a) = outstanding k (pr_pages a k)"
    "pr_pages a k = Some sl \<Longrightarrow> sl_generation sl \<le> pr_generation a"
  using assms unfolding loads_ok_def by blast+

lemma loads_ok_step:
  assumes step: "protocol_step sha a b" and ok: "loads_ok a"
  shows "loads_ok b"
  using step
proof cases
  case (evict k sl p)
  then show ?thesis using loads_okD(1) [OF ok, of k] by (intro loads_ok_change [OF ok, of b k None]) auto
next
  case (hit k sl p n)
  then show ?thesis
    using loads_okD(1) [OF ok, of k] loads_okD(2) [OF ok hit(2)]
    by (intro loads_ok_change [OF ok, of b k "Some (sl\<lparr>sl_holding := Holding p (Suc n)\<rparr>)"]) auto
next
  case (bump g w)
  then show ?thesis using ok unfolding loads_ok_def by (fastforce intro: le_trans)
next
  case (start k g i)
  then show ?thesis
    using loads_okD(1) [OF ok, of k]
    by (intro loads_ok_change [OF ok, of b k "Some \<lparr>sl_generation = g, sl_identity = i, sl_holding = Awaiting {#}\<rparr>"]) auto
next
  case (join k sl ws w)
  then show ?thesis
    using loads_okD(1) [OF ok, of k] loads_okD(2) [OF ok join(2)]
    by (intro loads_ok_change [OF ok, of b k "Some (sl\<lparr>sl_holding := Awaiting (add_mset w ws)\<rparr>)"]) auto
next
  case (withdraw k sl ws w)
  then show ?thesis
    using loads_okD(1) [OF ok, of k] loads_okD(2) [OF ok withdraw(2)]
    by (intro loads_ok_change [OF ok, of b k "Some (sl\<lparr>sl_holding := Awaiting (ws - {#w#})\<rparr>)"]) auto
next
  case (resolve w)
  then show ?thesis using ok by (simp add: loads_ok_def)
next
  case (publish k sl ws p l)
  then show ?thesis
    using loads_okD(1) [OF ok, of k] loads_okD(2) [OF ok publish(3)]
    by (intro loads_ok_change [OF ok, of b k "Some (sl\<lparr>sl_holding := Holding p (size ws)\<rparr>)"]) auto
next
  case (discard k sl ws e)
  then show ?thesis using loads_okD(1) [OF ok, of k] by (intro loads_ok_change [OF ok, of b k None]) auto
next
  case (flush k sl ws e)
  then show ?thesis
    using loads_okD(1) [OF ok, of k] loads_okD(2) [OF ok flush(2)]
    by (intro loads_ok_change [OF ok, of b k "Some (sl\<lparr>sl_holding := Awaiting {#}\<rparr>)"]) auto
next
  case (release l sl p n)
  then show ?thesis
    using loads_okD(1) [OF ok, of "pl_key l"] loads_okD(2) [OF ok release(3)]
    by (intro loads_ok_change [OF ok, of b "pl_key l" "Some (sl\<lparr>sl_holding := Holding p n\<rparr>)"]) auto
qed

section \<open>Waiting callers\<close>

lemma waiters_simps [simp]: "waiters None = {#}"
  "waiters (Some sl) = (case sl_holding sl of Awaiting ws \<Rightarrow> ws | Holding _ _ \<Rightarrow> {#})"
  by (simp_all add: waiters_def)

lemma label_simps [simp]: "label k None = None" "label k (Some sl) = Some (k, sl_generation sl, sl_identity sl)"
  by (simp_all add: label_def)

lemma answers_simps [simp]: "answers {#} w = 0" "answers (M + N) w = answers M w + answers N w"
  by (simp_all add: answers_def)

lemma answers_pos: "(w, r) \<in># M \<Longrightarrow> 0 < answers M w"
  by (force simp: answers_def filter_mset_eq_conv simp flip: neq0_conv)

lemma answers_posted: "answers (posted waits ws r) w = (if w \<in> dom waits then count ws w else 0)"
  by (induction ws) (auto simp: answers_def posted_def)

lemma in_posted: "(w, r') \<in># posted waits ws r \<longleftrightarrow> r' = r \<and> w \<in># ws \<and> w \<in> dom waits"
  by (auto simp: posted_def)

lemma waits_okD:
  assumes "waits_ok sha a"
  shows "w \<in># waiters (pr_pages a k) \<Longrightarrow> waiting_ok a k w" "pr_waits a w = Some x \<Longrightarrow> answered_ok a w x"
    "(w, r) \<in># pr_inbox a \<Longrightarrow> \<exists>x. pr_waits a w = Some x \<and> answer_ok sha x r"
  using assms unfolding waits_ok_def by blast+

lemma waits_okI:
  assumes "\<And>k w. w \<in># waiters (pr_pages a k) \<Longrightarrow> waiting_ok a k w" "\<And>w x. pr_waits a w = Some x \<Longrightarrow> answered_ok a w x"
    "\<And>w r. (w, r) \<in># pr_inbox a \<Longrightarrow> \<exists>x. pr_waits a w = Some x \<and> answer_ok sha x r"
  shows "waits_ok sha a"
  using assms unfolding waits_ok_def by blast

lemma waits_ok_same:
  assumes ok: "waits_ok sha a" and pages: "pr_pages b = (pr_pages a)(k := x)"
    and unaffected: "waiters (pr_pages a k) = {#}" "waiters x = {#}"
    and "pr_inbox b = pr_inbox a" "pr_waits b = pr_waits a" "pr_waiter a \<le> pr_waiter b"
  shows "waits_ok sha b"
proof (rule waits_okI)
  show "waiting_ok b k' w" if "w \<in># waiters (pr_pages b k')" for k' w
    using that assms waits_okD(1) [OF ok, of w k'] by (cases "k' = k") (auto simp: waiting_ok_def)
  show "answered_ok b w y" if "pr_waits b w = Some y" for w y
    using that assms waits_okD(2) [OF ok, of w y] by (cases "fst y = k") (auto simp: answered_ok_def)
qed (use assms waits_okD(3) [OF ok] in auto)

lemma waits_ok_post:
  assumes ok: "waits_ok sha a" and pages: "pr_pages b = (pr_pages a)(k := x)" and x: "waiters x = {#}"
    and sl: "pr_pages a k = Some sl" "sl_holding sl = Awaiting ws"
    and inbox: "pr_inbox b = pr_inbox a + posted (pr_waits a) ws r" and frame: "pr_waits b = pr_waits a" "pr_waiter b = pr_waiter a"
    and r: "answer_ok sha (k, sl_generation sl, sl_identity sl) r"
  shows "waits_ok sha b"
proof (rule waits_okI)
  have ws: "waiting_ok a k w" if "w \<in># ws" for w
    using waits_okD(1) [OF ok, of w k] that sl by simp
  have single: "pr_waits a w = None" if "w \<in># waiters (pr_pages a k')" "k' \<noteq> k" "w \<in># ws" for k' w
    using waits_okD(1) [OF ok that(1)] ws [OF that(3)] that(2) sl(1)
    by (cases "pr_pages a k'") (auto simp: waiting_ok_def)
  show "waiting_ok b k' w" if "w \<in># waiters (pr_pages b k')" for k' w
    using that assms waits_okD(1) [OF ok, of w k'] single [of w k']
    by (cases "k' = k"; cases "w \<in># ws") (auto simp: waiting_ok_def answers_posted not_in_iff)
  show "answered_ok b w y" if "pr_waits b w = Some y" for w y
    using that assms waits_okD(2) [OF ok, of w y] ws [of w]
    by (cases "w \<in># ws") (auto simp: answered_ok_def waiting_ok_def answers_posted count_eq_zero_iff)
  show "\<exists>y. pr_waits b w = Some y \<and> answer_ok sha y r'" if "(w, r') \<in># pr_inbox b" for w r'
    using that assms waits_okD(3) [OF ok, of w r'] ws [of w] by (auto simp: in_posted waiting_ok_def)
qed

lemma answers_0_iff: "answers M w = 0 \<longleftrightarrow> (\<forall>r. (w, r) \<notin># M)"
  by (force simp: answers_def filter_mset_eq_conv)

lemma answers_filter: "answers (filter_mset (\<lambda>(v, _). v \<noteq> w) M) v = (if v = w then 0 else answers M v)"
proof -
  have "filter_mset (\<lambda>x. fst x = v) (filter_mset (\<lambda>(v, _). v \<noteq> w) M) = (if v = w then {#} else filter_mset (\<lambda>x. fst x = v) M)"
    by (rule multiset_eqI) auto
  then show ?thesis by (simp add: answers_def)
qed

lemma fresh_waiter:
  assumes ok: "waits_ok sha a" and w: "pr_waiter a < w"
  shows "pr_waits a w = None" "w \<notin># waiters (pr_pages a k)" "answers (pr_inbox a) w = 0"
proof -
  show none: "pr_waits a w = None"
    using waits_okD(2) [OF ok, of w] w by (cases "pr_waits a w") (auto simp: answered_ok_def)
  show "w \<notin># waiters (pr_pages a k)" using waits_okD(1) [OF ok, of w k] w by (auto simp: waiting_ok_def)
  show "answers (pr_inbox a) w = 0" using waits_okD(3) [OF ok, of w] none by (auto simp: answers_0_iff)
qed

lemma waits_ok_join:
  assumes ok: "waits_ok sha a" and sl: "pr_pages a k = Some sl" "sl_holding sl = Awaiting ws" and w: "pr_waiter a < w"
    and pages: "pr_pages b = (pr_pages a)(k \<mapsto> sl\<lparr>sl_holding := Awaiting (add_mset w ws)\<rparr>)"
    and b: "pr_waiter b = w" "pr_waits b = (pr_waits a)(w \<mapsto> (k, sl_generation sl, sl_identity sl))" "pr_inbox b = pr_inbox a"
  shows "waits_ok sha b"
proof (rule waits_okI)
  note fresh = fresh_waiter [OF ok w]
  have ws: "w \<notin># ws" using fresh(2) [of k] sl by simp
  show "waiting_ok b k' v" if "v \<in># waiters (pr_pages b k')" for k' v
  proof (cases "v = w")
    case True
    then have "k' = k" using that fresh(2) [of k'] by (auto simp: pages split: if_splits)
    then show ?thesis using True ws fresh by (simp add: waiting_ok_def pages b not_in_iff)
  next
    case False
    then have "v \<in># waiters (pr_pages a k')" using that sl by (auto simp: pages split: if_splits)
    then show ?thesis using waits_okD(1) [OF ok, of v k'] False w sl by (auto simp: waiting_ok_def pages b)
  qed
  show "answered_ok b v y" if "pr_waits b v = Some y" for v y
    using waits_okD(2) [OF ok, of v y] that w sl by (auto simp: answered_ok_def pages b split: if_splits)
  show "\<exists>x. pr_waits b v = Some x \<and> answer_ok sha x r" if "(v, r) \<in># pr_inbox b" for v r
    using waits_okD(3) [OF ok, of v r] that fresh(1) by (auto simp: b)
qed

lemma waits_ok_withdraw:
  assumes ok: "waits_ok sha a" and sl: "pr_pages a k = Some sl" "sl_holding sl = Awaiting ws" and w: "pr_waits a w = None"
    and pages: "pr_pages b = (pr_pages a)(k \<mapsto> sl\<lparr>sl_holding := Awaiting (ws - {#w#})\<rparr>)"
    and b: "pr_waiter b = pr_waiter a" "pr_waits b = pr_waits a" "pr_inbox b = pr_inbox a"
  shows "waits_ok sha b"
proof (rule waits_okI)
  show "waiting_ok b k' v" if "v \<in># waiters (pr_pages b k')" for k' v
  proof -
    have "v \<in># waiters (pr_pages a k')" using that sl by (auto simp: pages split: if_splits dest: in_diffD)
    with that show ?thesis
      using waits_okD(1) [OF ok, of v k'] sl by (auto simp: waiting_ok_def pages b in_diff_count split: if_splits)
  qed
  show "answered_ok b v y" if "pr_waits b v = Some y" for v y
    using waits_okD(2) [OF ok, of v y] that w sl
    by (auto simp: answered_ok_def pages b in_diff_count not_in_iff split: if_splits)
qed (use waits_okD(3) [OF ok] in \<open>simp add: b\<close>)

lemma waits_ok_resolve:
  assumes ok: "waits_ok sha a" and b: "pr_pages b = pr_pages a" "pr_waiter b = pr_waiter a"
    "pr_waits b = (pr_waits a)(w := None)" "pr_inbox b = filter_mset (\<lambda>(v, _). v \<noteq> w) (pr_inbox a)"
  shows "waits_ok sha b"
proof (rule waits_okI)
  show "waiting_ok b k v" if "v \<in># waiters (pr_pages b k)" for k v
    using waits_okD(1) [OF ok, of v k] that by (auto simp: waiting_ok_def b answers_filter)
  show "answered_ok b v y" if "pr_waits b v = Some y" for v y
    using waits_okD(2) [OF ok, of v y] that by (auto simp: answered_ok_def b answers_filter split: if_splits)
  show "\<exists>x. pr_waits b v = Some x \<and> answer_ok sha x r" if "(v, r) \<in># pr_inbox b" for v r
    using waits_okD(3) [OF ok, of v r] that by (auto simp: b)
qed

lemma waits_ok_step:
  assumes step: "protocol_step sha a b" and ok: "waits_ok sha a"
  shows "waits_ok sha b"
  using step
proof cases
  case (evict k sl p)
  then show ?thesis by (intro waits_ok_same [OF ok, of b k None]) auto
next
  case (hit k sl p n)
  then show ?thesis by (intro waits_ok_same [OF ok, of b k "Some (sl\<lparr>sl_holding := Holding p (Suc n)\<rparr>)"]) auto
next
  case (bump g w)
  then show ?thesis using ok unfolding waits_ok_def waiting_ok_def answered_ok_def by (fastforce intro: le_trans)
next
  case (start k g i)
  then show ?thesis
    by (intro waits_ok_same [OF ok, of b k "Some \<lparr>sl_generation = g, sl_identity = i, sl_holding = Awaiting {#}\<rparr>"]) auto
next
  case (join k sl ws w)
  then show ?thesis by (intro waits_ok_join [OF ok, of k sl ws w b]) auto
next
  case (withdraw k sl ws w)
  then show ?thesis by (intro waits_ok_withdraw [OF ok, of k sl ws w b]) auto
next
  case (resolve w)
  then show ?thesis by (intro waits_ok_resolve [OF ok, of b w]) auto
next
  case (publish k sl ws p l)
  then show ?thesis
    by (intro waits_ok_post [OF ok, of b k "Some (sl\<lparr>sl_holding := Holding p (size ws)\<rparr>)" sl ws "Inr l"])
      (auto simp: answer_ok_def)
next
  case (discard k sl ws e)
  then show ?thesis by (intro waits_ok_post [OF ok, of b k None sl ws "Inl e"]) (auto simp: answer_ok_def)
next
  case (flush k sl ws e)
  then show ?thesis
    by (intro waits_ok_post [OF ok, of b k "Some (sl\<lparr>sl_holding := Awaiting {#}\<rparr>)" sl ws "Inl e"]) (auto simp: answer_ok_def)
next
  case (release l sl p n)
  then show ?thesis by (intro waits_ok_same [OF ok, of b "pl_key l" "Some (sl\<lparr>sl_holding := Holding p n\<rparr>)"]) auto
qed

theorem consistent_step: "protocol_step sha a b \<Longrightarrow> consistent sha a \<Longrightarrow> consistent sha b"
  by (simp add: consistent_def leases_ok_step loads_ok_step waits_ok_step)

lemma consistent_steps: "(protocol_step sha)\<^sup>*\<^sup>* a b \<Longrightarrow> consistent sha a \<Longrightarrow> consistent sha b"
  by (induction rule: rtranclp_induct) (auto intro: consistent_step)

definition protocol_init :: protocol where
  "protocol_init = \<lparr>pr_pages = Map.empty, pr_loads = {#}, pr_waits = Map.empty, pr_inbox = {#}, pr_leases = {#},
     pr_generation = 0, pr_waiter = 0\<rparr>"

lemma consistent_init: "consistent sha protocol_init"
  by (simp add: consistent_def protocol_init_def leases_ok_def live_def loads_ok_def waits_ok_def)

end
