(* ===== verification/Store_Read.thy ===== *)
theory Store_Read
  imports Store_Page Format_Verified
begin

text \<open>
  Reading one page: the loop of positional reads ends, accounts for what it transferred and fills the buffer; a page
  that is returned has the bytes its fingerprint names, whatever the file holds.
\<close>

section \<open>Positional reads\<close>

lemma read_loop_chunk:
  assumes "filled < length bytes" "t = take (min (saturating_add filled READ_CHUNK_BYTES) (length bytes) - filled) available"
  shows "filled + length t \<le> length bytes" "length (take filled bytes @ t @ drop (filled + length t) bytes) = length bytes"
proof -
  show "filled + length t \<le> length bytes" using assms by auto
  then show "length (take filled bytes @ t @ drop (filled + length t) bytes) = length bytes"
    using assms(1) by simp
qed

definition loop_ok :: "u8 list \<Rightarrow> usize \<Rightarrow> (u8 list) observed option \<Rightarrow> bool" where
  "loop_ok bytes filled x \<longleftrightarrow> (\<forall>r n. x = Some (r, n) \<longrightarrow> filled \<le> n \<and> n \<le> length bytes \<and> 
     (\<forall>msg. r \<noteq> panic msg) \<and> (\<forall>bs. r = Inr bs \<longrightarrow> length bs = length bytes \<and> n = length bytes))"

lemma check_at_cases: "check_at point = Ok () \<or> (\<exists>e. check_at point = fail e)"
  by (auto simp: check_at_def control_check_def split: option.splits)

lemma loop_ok_simps [simp]:
  "loop_ok bytes filled None" "loop_ok bytes filled (Some (fail e, n)) \<longleftrightarrow> filled \<le> n \<and> n \<le> length bytes"
  by (simp_all add: loop_ok_def)

lemma loop_ok_step:
  "loop_ok bytes' n x \<Longrightarrow> length bytes' = length bytes \<Longrightarrow> filled \<le> n \<Longrightarrow> loop_ok bytes filled x"
  by (auto simp: loop_ok_def)

lemma read_loop_ok: "filled \<le> length bytes \<Longrightarrow> loop_ok bytes filled (read_loop kind len offset bytes filled steps)"
proof (induction steps arbitrary: bytes filled)
  case (Cons s steps)
  show ?case
  proof (cases "filled < length bytes")
    case True
    let ?t = "\<lambda>v. take (min (saturating_add filled READ_CHUNK_BYTES) (length bytes) - filled) v"
    have onward: "loop_ok bytes filled (read_loop kind len offset (take filled bytes @ ?t v @ drop (filled + length (?t v)) bytes)
        (filled + length (?t v)) steps)" for v
      using read_loop_chunk [OF True refl, of v] by (intro loop_ok_step [OF Cons.IH]) simp_all
    have again: "loop_ok bytes filled (read_loop kind len offset bytes filled steps)"
      using True by (intro Cons.IH) simp
    show ?thesis
      using True check_at_cases [of "rs_check s"] check_at_cases [of "rs_interrupt_check s"]
      by (auto simp: Let_def checked_add_def onward again simp del: length_take split: option.split pread_response.split)
  qed (use Cons.prems in \<open>simp add: loop_ok_def\<close>)
qed (auto simp: loop_ok_def)

text \<open>Every response but an interruption transfers a byte or ends the loop.\<close>

abbreviation answered_steps :: "read_step list \<Rightarrow> read_step list" where
  "answered_steps steps \<equiv> filter (\<lambda>s. rs_response s \<noteq> PreadInterrupted) steps"

lemma read_loop_ends:
  assumes "filled \<le> length bytes" "length bytes - filled \<le> length (answered_steps steps)"
  shows "read_loop kind len offset bytes filled steps \<noteq> None"
  using assms
proof (induction steps arbitrary: bytes filled)
  case (Cons s steps)
  show ?case
  proof (cases "filled < length bytes")
    case True
    let ?t = "\<lambda>v. take (min (saturating_add filled READ_CHUNK_BYTES) (length bytes) - filled) v"
    have onward: "read_loop kind len offset (take filled bytes @ ?t v @ drop (filled + length (?t v)) bytes)
        (filled + length (?t v)) steps \<noteq> None" if "?t v \<noteq> []" "rs_response s = PreadOk v" for v
      using read_loop_chunk [OF True refl, of v] that Cons.prems
      by (intro Cons.IH) (auto simp flip: length_greater_0_conv)
    have again: "read_loop kind len offset bytes filled steps \<noteq> None" if "rs_response s = PreadInterrupted"
      using that Cons.prems by (intro Cons.IH) simp_all
    show ?thesis
    proof (cases "rs_response s")
      case (PreadOk v)
      with True check_at_cases [of "rs_check s"] onward [OF _ PreadOk] show ?thesis
        by (auto simp: Let_def checked_add_def simp del: length_take not_None_eq)
    next
      case PreadInterrupted
      with True check_at_cases [of "rs_check s"] check_at_cases [of "rs_interrupt_check s"] again show ?thesis
        by (auto simp: Let_def checked_add_def simp del: not_None_eq)
    next
      case (PreadError message)
      with True check_at_cases [of "rs_check s"] show ?thesis by (auto simp: Let_def checked_add_def)
    qed
  qed simp
qed simp

section \<open>Verified pages\<close>

lemma wp_check: "wp graceful (check_at point) (\<lambda>_. True)"
  using check_at_cases [of point] by auto

lemma expect_object_length_wp: "wp graceful (expect_object_length spec stat) (\<lambda>_. True)"
  by (auto simp: expect_object_length_def metadata_len_regular_def Let_def split: sum.split)

lemma hash_checks_wp: "wp graceful (rfold (\<lambda>i _. check_at (f i)) is ()) (\<lambda>_. True)"
  by (rule wp_rfold_inv [where P = "\<lambda>_. True"]) (simp_all add: wp_check)

lemma verify_bytes_wp:
  "wp graceful (verify_bytes sha env spec (bytes, capacity)) (\<lambda>p. vp_key p = sp_key spec \<and> vp_bytes p = bytes \<and>
     vp_capacity p = capacity \<and> sha bytes = sp_fingerprint spec)"
  by (auto simp: verify_bytes_def intro!: wp_conseq [OF expect_object_length_wp] wp_conseq [OF hash_checks_wp] wp_conseq [OF wp_check])

lemma validate_specification_wp: "wp graceful (validate_specification spec) (\<lambda>_. True)"
  by (simp add: validate_specification_def Let_def)

lemma graceful_iff: "graceful e \<longleftrightarrow> (\<forall>msg. e \<noteq> Panic msg)"
  by (cases e) auto

lemma aligned_wp: "wp graceful (aligned_page_buffer_bytes len) (\<lambda>_. True)"
  by (simp add: aligned_page_buffer_bytes_def)

lemma wp_failure: "wp E m P \<Longrightarrow> m = Inl e \<Longrightarrow> wp E (Inl e) Q"
  by (simp add: wp_def)

lemma read_exact_ok:
  assumes "read_exact_at_observed alloc io offset len kind = Some (r, n)"
  shows "wp graceful r (\<lambda>(bytes, capacity). length bytes = len) \<and> n \<le> len"
proof (cases "check_at (ri_first_check io)")
  case (Inl e)
  then show ?thesis using assms wp_failure [OF wp_check Inl] by (auto simp: read_exact_at_observed_def)
next
  case (Inr u)
  note first = Inr
  show ?thesis
  proof (cases "aligned_page_buffer_bytes len")
    case (Inl e)
    then show ?thesis using assms first wp_failure [OF aligned_wp Inl] by (auto simp: read_exact_at_observed_def)
  next
    case (Inr a)
    from assms first Inr obtain r' where loop: "read_loop kind len offset (replicate len 0) 0 (ri_steps io) = Some (r', n)"
        "r = (case r' of Inl e \<Rightarrow> Inl e | Inr bytes \<Rightarrow> rbind (check_at (ri_last_check io)) (\<lambda>_. Ok (bytes, alloc a)))"
      by (auto simp: read_exact_at_observed_def split: option.splits sum.splits)
    have "loop_ok (replicate len 0) 0 (Some (r', n))"
      using read_loop_ok [of 0 "replicate len 0" kind len offset "ri_steps io"] loop(1) by simp
    then have "n \<le> len" "\<forall>msg. r' \<noteq> panic msg" "\<forall>bs. r' = Inr bs \<longrightarrow> length bs = len"
      by (auto simp: loop_ok_def)
    then show ?thesis
      using loop(2) wp_check [of "ri_last_check io"]
      by (cases r') (auto simp: graceful_iff intro: wp_conseq)
  qed
qed

text \<open>What a read that comes to an end yields: no panic, at most the page's bytes read, and only genuine bytes.\<close>

lemma read_observed_ok:
  assumes "read_observed sha alloc env spec = Some (r, stats)"
  shows "wp graceful r (\<lambda>p. vp_key p = sp_key spec \<and> length (vp_bytes p) = sp_length spec \<and>
      sha (vp_bytes p) = sp_fingerprint spec)" "st_physical_bytes stats \<le> sp_length spec"
proof -
  let ?m = "rbind (check_at (re_check env)) (\<lambda>_. rbind (validate_specification spec) (\<lambda>_.
      expect_object_length spec (re_initial_stat env)))"
  let ?Q = "\<lambda>p. vp_key p = sp_key spec \<and> length (vp_bytes p) = sp_length spec \<and> sha (vp_bytes p) = sp_fingerprint spec"
  have m: "wp graceful ?m (\<lambda>_. True)"
    by (auto intro!: wp_conseq [OF wp_check] wp_conseq [OF validate_specification_wp] wp_conseq [OF expect_object_length_wp])
  have "wp graceful r ?Q \<and> st_physical_bytes stats \<le> sp_length spec"
  proof (cases ?m)
    case (Inl e)
    then show ?thesis using assms wp_failure [OF m Inl] by (auto simp: read_observed_def)
  next
    case (Inr u)
    then obtain result n where read: "read_exact_at_observed alloc (re_io env) (sp_offset spec) (sp_length spec) ''page'' = Some (result, n)"
        "r = rbind result (verify_bytes sha env spec)" "st_physical_bytes stats = n"
      using assms by (auto simp: read_observed_def split: option.splits)
    have "wp graceful (verify_bytes sha env spec buffer) ?Q" if "case buffer of (bytes, _) \<Rightarrow> length bytes = sp_length spec" for buffer
      using that by (cases buffer) (auto intro: wp_conseq [OF verify_bytes_wp])
    then show ?thesis
      using read_exact_ok [OF read(1)] read(2,3) by (auto intro: wp_conseq)
  qed
  then show "wp graceful r ?Q" "st_physical_bytes stats \<le> sp_length spec" by auto
qed

end
