(* ===== verification/Store_Cache_View.thy ===== *)
theory Store_Cache_View
  imports Store_Cache_Demand Store_Protocol Store_Read
begin

text \<open>
  What each operation of the page cache does to the pages and to the queue of the reader, in the terms of
  \<open>Store_Protocol\<close>: the abstraction forgets the ledger, the limits, recency, counters and the trace.
\<close>

declare split_paired_All [simp del] split_paired_Ex [simp del]

section \<open>The abstraction\<close>

definition slot_of :: "entry \<Rightarrow> slot" where
  "slot_of e = \<lparr>sl_generation = en_generation e, sl_identity = (en_fingerprint e, en_length e),
     sl_holding = (case en_state e of Loading l \<Rightarrow> Awaiting (mset (le_waiters l))
       | Resident r \<Rightarrow> Holding (rp_page r) (rp_leases r) | Retiring r \<Rightarrow> Holding (rt_page r) (rt_leases r))\<rparr>"

definition pages_of :: "(page_key, entry) btree_map \<Rightarrow> page_key \<Rightarrow> slot option" where
  "pages_of m = (\<lambda>k. map_option slot_of (bt_get m k))"

abbreviation pages :: "cache_inner \<Rightarrow> page_key \<Rightarrow> slot option" where
  "pages s \<equiv> pages_of (ci_entries s)"

abbreviation queue :: "cache_inner \<Rightarrow> request list" where
  "queue s \<equiv> ar_queue (ci_reader s)"

abbreviation spec_identity :: "page_spec \<Rightarrow> identity" where
  "spec_identity spec \<equiv> (sp_fingerprint spec, sp_length spec)"

lemma slot_of_simps [simp]:
  "sl_generation (slot_of e) = en_generation e" "sl_identity (slot_of e) = (en_fingerprint e, en_length e)"
  "en_state e = Loading l \<Longrightarrow> sl_holding (slot_of e) = Awaiting (mset (le_waiters l))"
  "en_state e = Resident r \<Longrightarrow> sl_holding (slot_of e) = Holding (rp_page r) (rp_leases r)"
  "en_state e = Retiring t \<Longrightarrow> sl_holding (slot_of e) = Holding (rt_page t) (rt_leases t)"
  by (simp_all add: slot_of_def)

lemma slot_of_state [simp]:
  "slot_of (e\<lparr>en_state := Loading l\<rparr>) = (slot_of e)\<lparr>sl_holding := Awaiting (mset (le_waiters l))\<rparr>"
  "slot_of (e\<lparr>en_state := Resident r\<rparr>) = (slot_of e)\<lparr>sl_holding := Holding (rp_page r) (rp_leases r)\<rparr>"
  "slot_of (e\<lparr>en_state := Retiring t\<rparr>) = (slot_of e)\<lparr>sl_holding := Holding (rt_page t) (rt_leases t)\<rparr>"
  by (simp_all add: slot_of_def)

lemma pages_of_simps [simp]:
  "bt_get m k = Some e \<Longrightarrow> pages_of m k = Some (slot_of e)" "bt_get m k = None \<Longrightarrow> pages_of m k = None"
  "bt_wf m \<Longrightarrow> pages_of (bt_insert k e m) = (pages_of m)(k \<mapsto> slot_of e)"
  "pages_of (bt_remove k m) = (pages_of m)(k := None)" "pages_of [] = Map.empty"
  by (auto simp: pages_of_def bt_get_insert)

text \<open>A page that has not changed.\<close>

lemma pages_of_same: "bt_get m k = Some e \<Longrightarrow> slot_of e' = slot_of e \<Longrightarrow> (pages_of m)(k \<mapsto> slot_of e') = pages_of m"
  by (simp add: fun_upd_idem_iff)

definition onward :: "cache_inner \<Rightarrow> cache_inner \<Rightarrow> bool" where
  "onward s s' \<longleftrightarrow> ci_generation s \<le> ci_generation s' \<and> ci_waiter s \<le> ci_waiter s'"

definition idle :: "slot option \<Rightarrow> bool" where
  "idle x \<longleftrightarrow> (\<exists>sl p. x = Some sl \<and> sl_holding sl = Holding p 0)"

text \<open>Only unleased pages are gone.\<close>

definition thinned :: "(page_key \<Rightarrow> slot option) \<Rightarrow> (page_key \<Rightarrow> slot option) \<Rightarrow> bool" where
  "thinned P P' \<longleftrightarrow> (\<exists>ks. (\<forall>k\<in>set ks. idle (P k)) \<and> P' = P |` (- set ks))"

definition quiet :: "cache_inner \<Rightarrow> cache_inner \<Rightarrow> bool" where
  "quiet s s' \<longleftrightarrow> thinned (pages s) (pages s') \<and> queue s' = queue s \<and> onward s s'"

lemma thinned_refl [simp]: "thinned P P"
  unfolding thinned_def by (rule exI [of _ "[]"]) (simp add: restrict_map_def)

lemma thinned_drop: "idle (P k) \<Longrightarrow> thinned P (P(k := None))"
  unfolding thinned_def by (rule exI [of _ "[k]"]) (auto simp: restrict_map_def fun_eq_iff)

lemma quietI: "pages s' = pages s \<Longrightarrow> queue s' = queue s \<Longrightarrow> onward s s' \<Longrightarrow> quiet s s'"
  by (simp add: quiet_def)

lemma quiet_simps [simp]:
  "quiet s (s\<lparr>ci_metrics := t\<rparr>)" "quiet s (s\<lparr>ci_trace := u\<rparr>)" "quiet s s"
  by (simp_all add: quietI onward_def)

section \<open>Operations on one page\<close>

abbreviation unfailing :: "'e failure \<Rightarrow> cache_inner \<Rightarrow> bool" where
  "unfailing e s \<equiv> True"

lemma awp_live_view:
  assumes "\<And>t. Q () (s\<lparr>ci_metrics := t\<rparr>)"
  shows "awp unfailing update_live_metrics Q s"
  using assms by (simp add: update_live_metrics_def meter_def)

lemma mset_swap_remove: "i < length xs \<Longrightarrow> mset (swap_remove xs i) = mset xs - {#xs ! i#}"
proof -
  assume i: "i < length xs"
  then have "xs[i := last xs] \<noteq> []" by auto
  then have "add_mset (last (xs[i := last xs])) (mset (swap_remove xs i)) = mset (xs[i := last xs])"
    by (metis append_butlast_last_id mset_append swap_remove_def add_mset_add_single mset_single_iff_right)
  moreover have "last (xs[i := last xs]) = last xs" using i by (subst last_list_update) auto
  ultimately show ?thesis using i by (simp add: mset_update)
qed

lemma withdraw_waiter_view:
  assumes "bt_wf (ci_entries s)"
  shows "awp unfailing (withdraw_waiter k g w) (\<lambda>_ s'. queue s' = queue s \<and> onward s s' \<and> (pages s' = pages s \<or>
    (\<exists>sl ws. pages s k = Some sl \<and> sl_holding sl = Awaiting ws \<and>
      pages s' = (pages s)(k \<mapsto> sl\<lparr>sl_holding := Awaiting (ws - {#w#})\<rparr>)))) s"
proof (cases "\<exists>e l i. bt_get (ci_entries s) k = Some e \<and> en_state e = Loading l \<and> position (\<lambda>v. v = w) (le_waiters l) = Some i")
  case True
  then obtain e l i where e: "bt_get (ci_entries s) k = Some e" "en_state e = Loading l" "position (\<lambda>v. v = w) (le_waiters l) = Some i"
    by blast
  have "mset (swap_remove (le_waiters l) i) = mset (le_waiters l) - {#w#}"
    using position_Some [OF e(3)] by (simp add: mset_swap_remove)
  then show ?thesis
    using e assms
    by (auto simp: withdraw_waiter_def cache_prims Let_def onward_def intro!: awp_live_view)
next
  case False
  then show ?thesis
    by (auto simp: withdraw_waiter_def find_entry_def onward_def awp_cases split: option.splits entry_state.splits)
qed

lemma withdraw_waiter_no_error: "awp (\<lambda>e _. \<not> graceful e) (withdraw_waiter k g w) (\<lambda>_ _. True) s"
  by (auto simp: withdraw_waiter_def update_live_metrics_def cache_prims Let_def split: option.splits entry_state.splits)

lemma mark_prefetch_use_view:
  assumes "bt_wf (ci_entries s)"
  shows "awp unfailing (mark_prefetch_use k g) (\<lambda>_ s'. quiet s s') s"
  using assms
  by (auto simp: mark_prefetch_use_def awp_prims awp_cases onward_def slot_of_def intro!: quietI pages_of_same
      split: option.splits entry_state.splits)

lemma release_lease_view:
  assumes wf: "bt_wf (ci_entries s)" and sl: "pages s k = Some sl" "sl_generation sl = g" "sl_holding sl = Holding p (Suc n)"
  shows "awp unfailing (release_lease k g) (\<lambda>_ s'. queue s' = queue s \<and> onward s s' \<and>
    (pages s' = (pages s)(k \<mapsto> sl\<lparr>sl_holding := Holding p n\<rparr>) \<or> n = 0 \<and> pages s' = (pages s)(k := None))) s"
proof -
  obtain e where e: "bt_get (ci_entries s) k = Some e" "sl = slot_of e" using sl(1) by (auto simp: pages_of_def)
  show ?thesis
  proof (cases "en_state e")
    case (Loading l)
    then show ?thesis using sl e by simp
  next
    case (Resident r)
    then show ?thesis
      using sl e wf by (auto simp: release_lease_def cache_prims onward_def intro!: awp_live_view)
  next
    case (Retiring r)
    then show ?thesis
      using sl e wf by (auto simp: release_lease_def cache_prims onward_def intro!: awp_live_view)
  qed
qed

lemma invalidate_view:
  assumes wf: "bt_wf (ci_entries s)"
  shows "awp unfailing (invalidate k) (\<lambda>_ s'. quiet s s') s"
proof (cases "bt_get (ci_entries s) k")
  case (Some e)
  have idle: "idle (pages s k)" if "en_state e = Resident r" "rp_leases r = 0" for r
    using Some that by (simp add: idle_def)
  have retired: "(pages s)(k \<mapsto> (slot_of e)\<lparr>sl_holding := Holding (rp_page r) (rp_leases r)\<rparr>) = pages s"
    if "en_state e = Resident r" for r
    using Some that by (simp add: fun_upd_idem_iff slot_of_def)
  show ?thesis
  proof (cases "en_state e")
    case (Loading l)
    then show ?thesis
      using Some wf by (auto simp: invalidate_def awp_prims onward_def slot_of_def fun_upd_idem_iff intro!: awp_live_view quietI)
  next
    case (Resident r)
    then show ?thesis
      using Some wf idle [OF Resident] retired [OF Resident]
      by (auto simp: invalidate_def retire_resident_def cache_prims onward_def quiet_def
          intro!: awp_live_view thinned_drop)
  next
    case (Retiring r)
    then show ?thesis
      using Some by (auto simp: invalidate_def awp_prims onward_def intro!: awp_live_view quietI)
  qed
qed (simp add: invalidate_def find_entry_def)

definition withdrawn_view :: "page_key \<Rightarrow> u64 \<Rightarrow> cache_inner \<Rightarrow> cache_inner \<Rightarrow> bool" where
  "withdrawn_view k w s s' \<longleftrightarrow> queue s' = queue s \<and> onward s s' \<and> (pages s' = pages s \<or>
    (\<exists>sl ws. pages s k = Some sl \<and> sl_holding sl = Awaiting ws \<and>
      pages s' = (pages s)(k \<mapsto> sl\<lparr>sl_holding := Awaiting (ws - {#w#})\<rparr>)))"

lemma get_poll_view:
  assumes wf: "bt_wf (ci_entries s)"
  shows "awp (\<lambda>e s'. graceful e \<longrightarrow> withdrawn_view (sp_key spec) w s s') (get_poll point elapsed spec g w event)
    (\<lambda>_ s'. withdrawn_view (sp_key spec) w s s') s"
proof -
  let ?E = "\<lambda>e s'. graceful e \<longrightarrow> withdrawn_view (sp_key spec) w s s'"
  have frame: "withdrawn_view k w s (t\<lparr>ci_metrics := m\<rparr>) = withdrawn_view k w s t" "withdrawn_view k w s (t\<lparr>ci_trace := u\<rparr>) = withdrawn_view k w s t"
    "withdrawn_view k w s s" for k t m u
    by (simp_all add: withdrawn_view_def onward_def)
  have "awp ?E (withdraw_waiter (sp_key spec) g w) (\<lambda>_ s'. withdrawn_view (sp_key spec) w s s') s"
    using awp_conj [OF withdraw_waiter_view [OF wf, of "sp_key spec" g w] withdraw_waiter_no_error [of "sp_key spec" g w s]]
    by (rule awp_conseq) (auto simp: withdrawn_view_def)
  then have "awp ?E (athen (withdraw_waiter (sp_key spec) g w) (athen (meter (add_wait_nanoseconds n))
      (athen (observe TraceCancelled Demand (sp_key spec) (sp_length spec)) (afail error)))) Q s" for n error and Q :: "page_lease poll \<Rightarrow> cache_inner \<Rightarrow> bool"
    by (auto simp: awp_prims frame elim!: awp_post)
  then show ?thesis
    using check_at_cases [of point]
    by (auto simp: get_poll_def awp_prims frame split: wait_event.splits sum.splits)
qed

section \<open>Completion\<close>

definition settled_view :: "page_key \<Rightarrow> slot \<Rightarrow> store_error + verified_page \<Rightarrow> u64 list \<Rightarrow> cache_inner \<Rightarrow> deliveries \<Rightarrow> cache_inner \<Rightarrow> bool" where
  "settled_view k sl outcome ws s sent s' \<longleftrightarrow> queue s' = queue s \<and> onward s s' \<and>
     ((\<exists>p. outcome = Inr p \<and> vp_key p = k \<and> length (vp_bytes p) = snd (sl_identity sl) \<and>
         pages s' = (pages s)(k \<mapsto> sl\<lparr>sl_holding := Holding p (length ws)\<rparr>) \<and>
         sent = map (\<lambda>w. (w, Inr (lease_for p k (sl_generation sl)))) ws) \<or>
      (\<exists>e. pages s' = (pages s)(k := None) \<and> sent = map (\<lambda>w. (w, Inl e)) ws))"

lemma settled_metrics [simp]:
  "settled_view k sl outcome ws s sent (s'\<lparr>ci_metrics := t\<rparr>) = settled_view k sl outcome ws s sent s'"
  "settled_view k sl outcome ws (s\<lparr>ci_metrics := t\<rparr>) sent s' = settled_view k sl outcome ws s sent s'"
  by (simp_all add: settled_view_def onward_def)

lemma settle_load_view:
  assumes wf: "bt_wf (ci_entries s)" and s: "pages s = (pages t)(k := None)" "queue s = queue t"
    "ci_generation s = ci_generation t" "ci_waiter s = ci_waiter t"
  shows "awp unfailing (settle_load k e l outcome) (settled_view k (slot_of e) outcome (le_waiters l) t) s"
proof (cases outcome)
  case (Inl x)
  then show ?thesis
    using s by (simp add: settle_load_def cache_prims settled_view_def onward_def fail_waiters_def)
next
  case (Inr p)
  have "(pages s)(k \<mapsto> v) = (pages t)(k \<mapsto> v)" for v using s(1) by simp
  then show ?thesis
    using s(2-4) Inr wf s(1)
    by (auto simp: settle_load_def admit_page_def cache_prims Let_def settled_view_def onward_def fail_waiters_def
        page_fits_def lease_of_def)
qed

lemma complete_load_view:
  assumes wf: "bt_wf (ci_entries s)" and e: "bt_get (ci_entries s) k = Some e" "en_generation e = g" "en_state e = Loading l"
  shows "awp unfailing (finish_observed_load k g outcome stats) (settled_view k (slot_of e) outcome (le_waiters l) s) s"
  using e wf
  by (auto simp: finish_observed_load_def complete_load_def cache_prims bt_wf_remove
      intro!: awp_post [OF settle_load_view [where t = s]] awp_live_view)

section \<open>Demand\<close>

definition gently :: "cache_inner \<Rightarrow> store_error failure \<Rightarrow> cache_inner \<Rightarrow> bool" where
  "gently s e s' \<longleftrightarrow> (\<exists>x. e = Err x) \<longrightarrow> quiet s s'"

lemma gently_simps [simp]: "gently s (Err x) s' = quiet s s'" "gently s (Panic msg) s'"
  by (simp_all add: gently_def)

definition hit_view :: "page_spec \<Rightarrow> page_lease \<Rightarrow> cache_inner \<Rightarrow> cache_inner \<Rightarrow> bool" where
  "hit_view spec l s s' \<longleftrightarrow> (\<exists>sl p n. pages s (sp_key spec) = Some sl \<and> sl_identity sl = spec_identity spec \<and>
     sl_holding sl = Holding p n \<and> l = lease_for p (sp_key spec) (sl_generation sl) \<and>
     pages s' = (pages s)(sp_key spec \<mapsto> sl\<lparr>sl_holding := Holding p (Suc n)\<rparr>)) \<and> queue s' = queue s \<and> onward s s'"

definition join_view :: "page_spec \<Rightarrow> u64 \<Rightarrow> u64 \<Rightarrow> cache_inner \<Rightarrow> cache_inner \<Rightarrow> bool" where
  "join_view spec g w s s' \<longleftrightarrow> (\<exists>sl ws. pages s (sp_key spec) = Some sl \<and> sl_identity sl = spec_identity spec \<and>
     sl_generation sl = g \<and> sl_holding sl = Awaiting ws \<and>
     pages s' = (pages s)(sp_key spec \<mapsto> sl\<lparr>sl_holding := Awaiting (add_mset w ws)\<rparr>)) \<and> queue s' = queue s \<and>
     ci_generation s \<le> ci_generation s' \<and> ci_waiter s < w \<and> ci_waiter s' = w"

definition start_view :: "page_spec \<Rightarrow> u64 \<Rightarrow> u64 list \<Rightarrow> cache_inner \<Rightarrow> cache_inner \<Rightarrow> bool" where
  "start_view spec g ws s s' \<longleftrightarrow> (\<exists>P. thinned (pages s) P \<and> P (sp_key spec) = None \<and>
     pages s' = P(sp_key spec \<mapsto> \<lparr>sl_generation = g, sl_identity = spec_identity spec, sl_holding = Awaiting (mset ws)\<rparr>)) \<and>
     queue s' = queue s @ [\<lparr>rq_spec = spec, rq_completion = Detached (sp_key spec) g\<rparr>] \<and>
     ci_generation s < g \<and> ci_generation s' = g \<and> ci_waiter s \<le> ci_waiter s' \<and>
     (ws = [] \<or> ws = [ci_waiter s'] \<and> ci_waiter s < ci_waiter s')"

lemma reserved_view:
  assumes core: "core_ok sha s" and res: "reserved sha a s s'"
  shows "thinned (pages s) (pages s')" "queue s' = queue s" "ci_generation s' = ci_generation s" "ci_waiter s' = ci_waiter s"
proof -
  have wf: "bt_wf (ci_entries s)" using core by (simp add: core_ok_def core_def)
  from res obtain n t where t: "evicted sha (map fst (take n (candidates (ci_entries s)))) s t"
      "s' = t\<lparr>ci_ledger := reserve a (ci_ledger t)\<rparr>"
    by (auto simp: reserved_def)
  let ?ks = "map fst (take n (candidates (ci_entries s)))"
  have "idle (pages s k)" if k: "k \<in> set ?ks" for k
  proof -
    from k obtain touch bytes where "(k, touch, bytes) \<in> set (candidates (ci_entries s))"
      by (auto dest: in_set_takeD)
    from candidates_entry [OF wf this] obtain e where "bt_get (ci_entries s) k = Some e" "evictable e" by blast
    then show ?thesis by (cases "en_state e") (auto simp: idle_def evictable_def)
  qed
  moreover have "pages s' = pages s |` (- set ?ks)"
    using t by (auto simp: evicted_def without_def pages_of_def restrict_map_def fun_eq_iff)
  ultimately show "thinned (pages s) (pages s')" unfolding thinned_def by blast
  show "queue s' = queue s" "ci_generation s' = ci_generation s" "ci_waiter s' = ci_waiter s"
    using reserved_frame(1) [OF res] by (simp_all add: same_counters_def)
qed

lemma slot_of_loading [simp]:
  "slot_of (loading_entry_for spec a g ws origin interest tick) =
     \<lparr>sl_generation = g, sl_identity = spec_identity spec, sl_holding = Awaiting (mset ws)\<rparr>"
  by (simp add: slot_of_def loading_entry_for_def)

text \<open>What is left of a reservation whose load the reader has refused.\<close>

lemma unwind_view:
  assumes "bt_wf m" "bt_get m k = None" "ci_entries s = bt_insert k (loading_entry_for spec a g ws origin interest tick) m"
    and Q: "\<And>s'. pages s' = pages_of m \<Longrightarrow> queue s' = queue s \<Longrightarrow> ci_generation s' = ci_generation s \<Longrightarrow>
      ci_waiter s' = ci_waiter s \<Longrightarrow> awp E rest Q s'" and E: "\<And>msg s'. E (Panic msg) s'"
  shows "awp E (unwind_unsubmitted_load k g) (\<lambda>_. awp E (athen update_live_metrics rest) Q) s"
  using assms(1-3) E
  by (auto simp: unwind_unsubmitted_load_def update_live_metrics_def cache_prims bt_get_insert loading_entry_for_def
      bt_remove_insert intro!: Q)

lemma awp_submit_view:
  assumes "\<And>r. ar_queue r = queue s @ [\<lparr>rq_spec = spec, rq_completion = Detached (sp_key spec) g\<rparr>] \<Longrightarrow> Q () (s\<lparr>ci_reader := r\<rparr>)"
    "\<And>x. E (Err x) s"
  shows "awp E (submit_load now spec g) Q s"
  using assms
  by (auto simp: submit_load_def submit_observed_def check_at_def control_check_def reader_submit_def unbounded_def)

lemma get_resident_view:
  assumes wf: "bt_wf (ci_entries s)" and e: "bt_get (ci_entries s) (sp_key spec) = Some e" "en_state e = Resident r"
    and id: "(en_fingerprint e, en_length e) = spec_identity spec"
  shows "awp (gently s) (get_resident spec tick e r) (\<lambda>outcome s'. \<exists>l. outcome = Immediate l \<and> hit_view spec l s s') s"
  using e wf id
  by (auto simp: get_resident_def cache_prims lease_slots_full_def hit_view_def lease_of_def onward_def)

lemma get_loading_view:
  assumes wf: "bt_wf (ci_entries s)" and e: "bt_get (ci_entries s) (sp_key spec) = Some e" "en_state e = Loading l"
    and id: "(en_fingerprint e, en_length e) = spec_identity spec"
  shows "awp (gently s) (get_loading spec tick e l) (\<lambda>outcome s'. \<exists>g w. outcome = Registered g w \<and> join_view spec g w s s') s"
proof -
  have reserve: "wp F (reserve_waiter t n) R" if "R ()" "\<And>x. F (Err x)" "\<And>msg. F (Panic msg)" for F R t n
    using that by (auto simp: reserve_waiter_def lease_slots_full_def)
  show ?thesis
    using e wf id
    by (auto simp: get_loading_def cache_prims next_waiter_def checked_add_def join_view_def onward_def
        intro!: reserve quietI)
qed

lemma start_demand_view:
  assumes core: "core_ok sha s" and res: "reserved sha a s s'" and new: "bt_get (ci_entries s) (sp_key spec) = None"
    and g: "ci_generation t < ci_generation s" and w: "ci_waiter t < ci_waiter s" and t: "ci_entries s = ci_entries t" "queue s = queue t"
  shows "awp (gently t) (athen (charge (add_waiters 1))
     (athen (charge (add_reservations 1))
     (athen (put_entry (sp_key spec) (loading_entry_for spec a (ci_generation s) [ci_waiter s] Demand False tick))
     (athen (acatch (submit_load now spec (ci_generation s))
       (\<lambda>error. athen (unwind_unsubmitted_load (sp_key spec) (ci_generation s))
         (athen update_live_metrics (afail error))))
     (athen (observe LoadStarted Demand (sp_key spec) (sp_length spec))
     (areturn (Registered (ci_generation s) (ci_waiter s)))))))) 
    (\<lambda>outcome s'. \<exists>g w. outcome = Registered g w \<and> start_view spec g [w] t s') s'"
proof -
  note view = reserved_view [OF core res] and wf = reserved_frame(6) [OF res] and new' = reserved_frame(5) [OF res new]
  show ?thesis
    using wf new' g w t view
    by (auto simp: awp_prims charge_def ledger_add_def start_view_def quiet_def onward_def
        intro!: awp_submit_view unwind_view [OF wf new'] exI [of _ "pages s'"])
qed

lemma get_absent_view:
  assumes ok: "core_ok sha s" and new: "bt_get (ci_entries s) (sp_key spec) = None"
    and spec: "a \<le> cc_page_pool_capacity (ci_config s)"
  shows "awp (gently s) (get_absent runtime now spec a tick)
    (\<lambda>outcome s'. \<exists>g w. outcome = Registered g w \<and> start_view spec g [w] s s') s"
proof -
  note core = ok [unfolded core_ok_def]
  let ?at = "\<lambda>t u. s\<lparr>ci_metrics := t, ci_trace := u, ci_generation := Suc (ci_generation s), ci_waiter := Suc (ci_waiter s)\<rparr>"
  have at: "core_ok sha (?at t u)" for t u
    using core_generation [OF core, of "Suc (ci_generation s)"] by (simp add: core_ok_def)
  have reserve: "wp F (reserve_waiter t n) R" if "R ()" "\<And>x. F (Err x)" "\<And>msg. F (Panic msg)" for F R t n
    using that by (auto simp: reserve_waiter_def lease_slots_full_def)
  have load: "awp (gently s) (reserve_load a Demand) (\<lambda>b s'. if b then reserved sha a (?at t u) s' else s' = ?at t u) (?at t u)" for t u
    by (rule reserve_load_ok [OF at]) (use spec in simp)
  have tail: "awp (gently s) (athen (charge (add_waiters 1))
     (athen (charge (add_reservations 1))
     (athen (put_entry (sp_key spec) (loading_entry_for spec a (Suc (ci_generation s)) [Suc (ci_waiter s)] Demand False tick))
     (athen (acatch (submit_load now spec (Suc (ci_generation s)))
       (\<lambda>error. athen (unwind_unsubmitted_load (sp_key spec) (Suc (ci_generation s)))
         (athen update_live_metrics (afail error))))
     (athen (observe LoadStarted Demand (sp_key spec) (sp_length spec))
     (areturn (Registered (Suc (ci_generation s)) (Suc (ci_waiter s)))))))))
    (\<lambda>outcome s'. \<exists>g w. outcome = Registered g w \<and> start_view spec g [w] s s') s'"
    if "reserved sha a (?at t u) s'" for t u s'
    using start_demand_view [OF at that, where t = s and spec = spec and tick = tick and now = now] new by simp
  show ?thesis
    by (auto simp: get_absent_def awp_prims checked_add_def next_generation_def next_waiter_def onward_def
        intro!: reserve awp_post [OF load] tail [simplified awp_simps One_nat_def] quietI)
qed

definition got_view :: "page_spec \<Rightarrow> get_outcome \<Rightarrow> cache_inner \<Rightarrow> cache_inner \<Rightarrow> bool" where
  "got_view spec outcome s s' \<longleftrightarrow> (case outcome of Immediate l \<Rightarrow> hit_view spec l s s'
     | Registered g w \<Rightarrow> join_view spec g w s s' \<or> start_view spec g [w] s s')"

lemma view_frame [simp]:
  "quiet (s\<lparr>ci_tick := n\<rparr>) = quiet s" "quiet (s\<lparr>ci_metrics := t\<rparr>) = quiet s" "quiet s (s'\<lparr>ci_metrics := t\<rparr>) = quiet s s'"
  "gently (s\<lparr>ci_tick := n\<rparr>) = gently s" "gently (s\<lparr>ci_metrics := t\<rparr>) = gently s"
  "got_view spec outcome (s\<lparr>ci_tick := n\<rparr>) = got_view spec outcome s"
  "got_view spec outcome (s\<lparr>ci_metrics := t\<rparr>) = got_view spec outcome s"
  "got_view spec outcome s (s'\<lparr>ci_metrics := t\<rparr>) = got_view spec outcome s s'"
  "start_view spec g ws (s\<lparr>ci_tick := n\<rparr>) = start_view spec g ws s"
  "start_view spec g ws (s\<lparr>ci_metrics := t\<rparr>) = start_view spec g ws s"
  "start_view spec g ws s (s'\<lparr>ci_metrics := t\<rparr>) = start_view spec g ws s s'"
  by (auto simp: fun_eq_iff quiet_def gently_def got_view_def hit_view_def join_view_def start_view_def onward_def
      split: get_outcome.splits)

lemma awp_live_gently:
  assumes "\<And>t. Q () (s'\<lparr>ci_metrics := t\<rparr>)"
  shows "awp (gently s) update_live_metrics Q s'"
  using assms by (simp add: update_live_metrics_def meter_def)

lemma get_section_view:
  assumes ok: "core_ok sha s" and spec: "a \<le> cc_page_pool_capacity (ci_config s)"
  shows "awp (gently s) (get_section runtime now spec a) (\<lambda>outcome. got_view spec outcome s) s"
proof (cases "ci_shutdown s")
  case False
  let ?s = "s\<lparr>ci_tick := saturating_add (ci_tick s) (Suc 0)\<rparr>"
  have ok': "core_ok sha ?s" and wf: "bt_wf (ci_entries s)" using ok by (simp_all add: core_ok_def core_def)
  have live: "awp (gently s) (athen update_live_metrics (areturn x)) (\<lambda>outcome. got_view spec outcome s) s'"
    if "got_view spec x s s'" for x s'
    using that by (auto intro: awp_live_gently)
  have view: "got_view spec (Immediate l) s s' = hit_view spec l ?s s'" "got_view spec (Registered g w) s s' = (join_view spec g w ?s s' \<or> start_view spec g [w] ?s s')"
    for l g w s'
    by (auto simp: got_view_def hit_view_def join_view_def start_view_def onward_def)
  show ?thesis
  proof (cases "bt_get (ci_entries s) (sp_key spec)")
    case None
    have "awp (gently s) (get_absent runtime now spec a (saturating_add (ci_tick s) (Suc 0)))
        (\<lambda>outcome s'. \<exists>g w. outcome = Registered g w \<and> start_view spec g [w] ?s s') ?s"
      using get_absent_view [OF ok', of spec a] None spec by simp
    with None False show ?thesis
      by (auto simp: get_section_def next_tick_def awp_prims view elim!: awp_post intro!: live)
  next
    case (Some e)
    have res: "awp (gently s) (get_resident spec t e r) (\<lambda>outcome s'. \<exists>l. outcome = Immediate l \<and> hit_view spec l ?s s') ?s"
      if "en_state e = Resident r" "(en_fingerprint e, en_length e) = spec_identity spec" for r t
      using get_resident_view [of ?s spec e r] Some that wf by simp
    have load: "awp (gently s) (get_loading spec t e l) (\<lambda>outcome s'. \<exists>g w. outcome = Registered g w \<and> join_view spec g w ?s s') ?s"
      if "en_state e = Loading l" "(en_fingerprint e, en_length e) = spec_identity spec" for l t
      using get_loading_view [of ?s spec e l] Some that wf by simp
    from Some False show ?thesis
      by (auto simp: get_section_def next_tick_def awp_prims awp_cases validate_identity_def onward_def view
          intro!: awp_post [OF res] awp_post [OF load] live quietI split: entry_state.splits)
  qed
qed (simp add: get_section_def)

lemma validate_spec_gently:
  assumes "\<And>a. a \<le> cc_page_pool_capacity c \<Longrightarrow> Q a" "\<And>x. E (Err x)"
  shows "wp E (validate_spec c spec) Q"
  by (rule validate_spec_ok) (use assms in auto)

lemma core_ok_metrics [simp]: "core_ok sha (s\<lparr>ci_metrics := t\<rparr>) = core_ok sha s"
  by (simp add: core_ok_def)

lemma get_enter_view:
  assumes "core_ok sha s"
  shows "awp (gently s) (get_enter runtime point spec) (\<lambda>outcome. got_view spec outcome s) s"
proof -
  have "awp (gently s) (get_section runtime now spec a) (\<lambda>outcome. got_view spec outcome s) (s\<lparr>ci_metrics := t\<rparr>)"
    if "a \<le> cc_page_pool_capacity (ci_config s)" for now a t
    using get_section_view [of sha "s\<lparr>ci_metrics := t\<rparr>" a] assms that by simp
  then show ?thesis
    by (auto simp: get_enter_def awp_prims intro!: validate_spec_gently wp_check_at)
qed

section \<open>Prefetch\<close>

definition prefetched_view :: "page_spec \<Rightarrow> prefetch_outcome \<Rightarrow> cache_inner \<Rightarrow> cache_inner \<Rightarrow> bool" where
  "prefetched_view spec outcome s s' \<longleftrightarrow>
     (if outcome = Started then \<exists>g. start_view spec g [] s s' else quiet s s')"

lemma prefetched_view_frame [simp]:
  "prefetched_view spec outcome (s\<lparr>ci_metrics := t\<rparr>) = prefetched_view spec outcome s"
  by (simp add: fun_eq_iff prefetched_view_def)

lemma start_prefetch_view:
  assumes core: "core_ok sha s" and res: "reserved sha a s s'" and new: "bt_get (ci_entries s) (sp_key spec) = None"
    and g: "ci_generation t < ci_generation s" and t: "ci_waiter s = ci_waiter t" "ci_entries s = ci_entries t" "queue s = queue t"
  shows "awp (gently t) (athen (put_entry (sp_key spec) (loading_entry_for spec a (ci_generation s) [] Prefetch True tick))
     (acatch
       (athen (submit_load now spec (ci_generation s))
       (athen (observe LoadStarted Prefetch (sp_key spec) (sp_length spec))
       (areturn (Inr Started))))
       (\<lambda>error. athen (unwind_unsubmitted_load (sp_key spec) (ci_generation s))
         (athen update_live_metrics
         (if error = QueueFull then abind (drop_prefetch spec) (\<lambda>outcome. areturn (Inl outcome))
          else afail error)))))
    (\<lambda>outcome s'. case outcome of Inl x \<Rightarrow> x \<noteq> Started \<and> quiet t s' | Inr x \<Rightarrow> prefetched_view spec x t s') s'"
proof -
  note view = reserved_view [OF core res] and wf = reserved_frame(6) [OF res] and new' = reserved_frame(5) [OF res new]
  show ?thesis
    using wf new' g t view
    by (auto simp: awp_prims start_view_def prefetched_view_def quiet_def onward_def drop_prefetch_def
        intro!: awp_submit_view unwind_view [OF wf new'] exI [of _ "ci_generation s"] exI [of _ "pages s'"])
qed

lemma prefetch_absent_view:
  assumes ok: "core_ok sha s" and new: "bt_get (ci_entries s) (sp_key spec) = None"
    and spec: "a \<le> cc_page_pool_capacity (ci_config s)"
  shows "awp (gently s) (prefetch_absent runtime now spec a)
    (\<lambda>outcome s'. case outcome of Inl x \<Rightarrow> x \<noteq> Started \<and> quiet s s' | Inr x \<Rightarrow> prefetched_view spec x s s') s"
proof -
  note core = ok [unfolded core_ok_def]
  let ?at = "s\<lparr>ci_tick := saturating_add (ci_tick s) (Suc 0), ci_generation := Suc (ci_generation s)\<rparr>"
  have at: "core_ok sha ?at"
    using core_generation [OF core, of "Suc (ci_generation s)"] by (simp add: core_ok_def)
  have load: "awp (gently s) (reserve_load a Prefetch) (\<lambda>b s'. if b then reserved sha a ?at s' else s' = ?at) ?at"
    by (rule reserve_load_ok [OF at]) (use spec in simp)
  have dropped: "awp (gently s) (drop_prefetch spec) (\<lambda>x. awp (gently s) (areturn (Inl x)) (\<lambda>outcome s'.
      case outcome of Inl x \<Rightarrow> x \<noteq> Started \<and> quiet s s' | Inr x \<Rightarrow> prefetched_view spec x s s')) ?at"
    by (auto simp: drop_prefetch_def awp_prims onward_def intro!: quietI)
  have tail: "awp (gently s) (athen (put_entry (sp_key spec)
      (loading_entry_for spec a (Suc (ci_generation s)) [] Prefetch True (saturating_add (ci_tick s) (Suc 0))))
     (acatch
       (athen (submit_load now spec (Suc (ci_generation s)))
       (athen (observe LoadStarted Prefetch (sp_key spec) (sp_length spec))
       (areturn (Inr Started))))
       (\<lambda>error. athen (unwind_unsubmitted_load (sp_key spec) (Suc (ci_generation s)))
         (athen update_live_metrics
         (if error = QueueFull then abind (drop_prefetch spec) (\<lambda>outcome. areturn (Inl outcome))
          else afail error)))))
    (\<lambda>outcome s'. case outcome of Inl x \<Rightarrow> x \<noteq> Started \<and> quiet s s' | Inr x \<Rightarrow> prefetched_view spec x s s') s'"
    if "reserved sha a ?at s'" for s'
    using start_prefetch_view [OF at that, where t = s and spec = spec and now = now] new by simp
  show ?thesis
    by (auto simp: prefetch_absent_def checked_add_def next_generation_def next_tick_def onward_def dropped
        intro!: awp_post [OF load] tail [simplified awp_simps] quietI)
qed

lemma prefetch_present_view:
  assumes wf: "bt_wf (ci_entries s)" and e: "bt_get (ci_entries s) (sp_key spec) = Some e"
  shows "awp (gently s) (prefetch_present spec e) (\<lambda>outcome s'. outcome \<noteq> Started \<and> quiet s s') s"
  using assms
  by (auto simp: prefetch_present_def drop_prefetch_def redundant_prefetch_def awp_prims awp_cases onward_def slot_of_def
      fun_upd_idem_iff split: entry_state.splits intro!: quietI)

lemma prefetch_section_view:
  assumes ok: "core_ok sha s" and spec: "a \<le> cc_page_pool_capacity (ci_config s)"
  shows "awp (gently s) (prefetch_section runtime now spec a) (\<lambda>outcome. prefetched_view spec outcome s) s"
proof -
  have wf: "bt_wf (ci_entries s)" using ok by (simp add: core_ok_def core_def)
  have live: "awp (gently s) (case outcome of Inl x \<Rightarrow> areturn x | Inr x \<Rightarrow> athen update_live_metrics (areturn x))
      (\<lambda>outcome. prefetched_view spec outcome s) s'"
    if "case outcome of Inl x \<Rightarrow> x \<noteq> Started \<and> quiet s s' | Inr x \<Rightarrow> prefetched_view spec x s s'" for outcome s'
    using that by (cases outcome) (auto simp: prefetched_view_def intro!: awp_live_gently)
  show ?thesis
  proof (cases "bt_get (ci_entries s) (sp_key spec)")
    case None
    with spec show ?thesis
      by (auto simp: prefetch_section_def awp_prims intro!: awp_post [OF prefetch_absent_view [OF ok]] live)
  next
    case (Some e)
    then show ?thesis
      by (auto simp: prefetch_section_def awp_prims validate_identity_def prefetched_view_def
          intro!: awp_post [OF prefetch_present_view [OF wf Some]] awp_live_gently)
  qed
qed

lemma prefetch_view:
  assumes "core_ok sha s"
  shows "awp (gently s) (prefetch runtime point spec) (\<lambda>outcome. prefetched_view spec outcome s) s"
proof -
  have "awp (gently s) (prefetch_section runtime now spec a) (\<lambda>outcome. prefetched_view spec outcome s) (s\<lparr>ci_metrics := t\<rparr>)"
    if "a \<le> cc_page_pool_capacity (ci_config s)" for now a t
    using prefetch_section_view [of sha "s\<lparr>ci_metrics := t\<rparr>" a] assms that by (simp add: prefetched_view_def)
  then show ?thesis
    by (auto simp: prefetch_def awp_prims intro!: validate_spec_gently wp_check_at)
qed

section \<open>Shutdown\<close>

lemma shutdown_entry_frame:
  "awp unfailing (shutdown_entry k) (\<lambda>_ s'. ci_reader s' = ci_reader s \<and> ci_generation s' = ci_generation s \<and> ci_waiter s' = ci_waiter s) s"
  by (auto simp: shutdown_entry_def retire_resident_def cache_prims split: option.splits entry_state.splits)

lemma shutdown_entries_frame:
  "awp unfailing (shutdown_entries keys failures) (\<lambda>_ s'. ci_reader s' = ci_reader s \<and> ci_generation s' = ci_generation s \<and> ci_waiter s' = ci_waiter s) s"
proof (induction keys arbitrary: s failures)
  case (Cons k keys)
  show ?case by (auto intro!: awp_post [OF shutdown_entry_frame] awp_post [OF Cons.IH])
qed simp

lemma cache_shutdown_frame:
  "awp unfailing (cache_shutdown order) (\<lambda>_ s'. queue s' = queue s \<and> ci_generation s' = ci_generation s \<and> ci_waiter s' = ci_waiter s) s"
  by (auto simp: cache_shutdown_def reader_close_def intro!: awp_post [OF shutdown_entries_frame] awp_live_view)

end
