(* ===== verification/Store_System.thy ===== *)
theory Store_System
  imports Store_Cache_View Store_Read
begin

text \<open>
  The page cache with the callers, the leases they hold and the worker threads of the asynchronous reader. A step is
  one critical section of the cache, or a worker taking a request, or a caller giving up. Every step of the system
  is a sequence of steps of \<open>Store_Protocol\<close>, and keeps the invariant of the cache.
\<close>

declare split_paired_All [simp del] split_paired_Ex [simp del]

section \<open>States and steps\<close>

record system =
  sy_cache :: cache_inner
  sy_running :: "request list"
  sy_waits :: "u64 \<Rightarrow> (page_spec \<times> u64) option"
  sy_inbox :: deliveries
  sy_leases :: "page_lease list"

text \<open>
  Sending on a waiter's channel. When the receiver is gone \<^verbatim>\<open>send\<close> returns the value, whose destructor runs later.
\<close>

definition lease_list :: "deliveries \<Rightarrow> page_lease list" where
  "lease_list sent = map (projr \<circ> snd) (filter (\<lambda>(_, r). \<not> isl r) sent)"

definition deliver :: "deliveries \<Rightarrow> system \<Rightarrow> system" where
  "deliver sent y = y\<lparr>sy_inbox := sy_inbox y @ filter (\<lambda>(w, _). sy_waits y w \<noteq> None) sent,
     sy_leases := sy_leases y @ lease_list (filter (\<lambda>(w, _). sy_waits y w = None) sent)\<rparr>"

text \<open>The future of a waiting caller ends: it returns its answer, or it drops the channel with what is in it.\<close>

definition resolve_wait :: "u64 \<Rightarrow> system \<Rightarrow> system" where
  "resolve_wait w y = y\<lparr>sy_waits := (sy_waits y)(w := None), sy_inbox := filter (\<lambda>(v, _). v \<noteq> w) (sy_inbox y),
     sy_leases := sy_leases y @ lease_list (filter (\<lambda>(v, _). v = w) (sy_inbox y))\<rparr>"

definition read_outcome :: "(store_error, verified_page) result \<Rightarrow> (store_error + verified_page) option" where
  "read_outcome r = (case r of Inr p \<Rightarrow> Some (Inr p) | Inl (Err e) \<Rightarrow> Some (Inl e) | Inl (Panic _) \<Rightarrow> None)"

text \<open>The worker threads: one takes the oldest request, or completes the one it has read.\<close>

inductive worker_step :: "(u8 list \<Rightarrow> digest) \<Rightarrow> (usize \<Rightarrow> usize) \<Rightarrow> system \<Rightarrow> system \<Rightarrow> bool" for sha alloc where
  take: "reader_recv (ci_reader (sy_cache y)) = RecvRequest rq r \<Longrightarrow>
    worker_step sha alloc y (y\<lparr>sy_cache := (sy_cache y)\<lparr>ci_reader := r\<rparr>, sy_running := rq # sy_running y\<rparr>)"
| finished: "rq \<in> set (sy_running y) \<Longrightarrow> rq_completion rq = Detached k g \<Longrightarrow>
    read_observed sha alloc env (rq_spec rq) = Some (result, stats) \<Longrightarrow> read_outcome result = Some outcome \<Longrightarrow>
    finish_observed_load k g outcome stats (sy_cache y) = (Inr sent, c) \<Longrightarrow>
    worker_step sha alloc y (deliver sent (y\<lparr>sy_cache := c, sy_running := remove1 rq (sy_running y)\<rparr>))"
| answered: "rq \<in> set (sy_running y) \<Longrightarrow> rq_completion rq = Await \<Longrightarrow>
    worker_step sha alloc y (y\<lparr>sy_running := remove1 rq (sy_running y)\<rparr>)"

inductive system_step :: "(u8 list \<Rightarrow> digest) \<Rightarrow> (usize \<Rightarrow> usize) \<Rightarrow> system \<Rightarrow> system \<Rightarrow> bool" for sha alloc where
  get_hit: "get_enter runtime point spec (sy_cache y) = (Inr (Immediate l), c) \<Longrightarrow>
    system_step sha alloc y (y\<lparr>sy_cache := c, sy_leases := l # sy_leases y\<rparr>)"
| get_wait: "get_enter runtime point spec (sy_cache y) = (Inr (Registered g w), c) \<Longrightarrow>
    system_step sha alloc y (y\<lparr>sy_cache := c, sy_waits := (sy_waits y)(w \<mapsto> (spec, g))\<rparr>)"
| get_error: "get_enter runtime point spec (sy_cache y) = (Inl (Err e), c) \<Longrightarrow>
    system_step sha alloc y (y\<lparr>sy_cache := c\<rparr>)"
| use: "mark_prefetch_use k g (sy_cache y) = (Inr (), c) \<Longrightarrow> system_step sha alloc y (y\<lparr>sy_cache := c\<rparr>)"
| poll_pending: "sy_waits y w = Some (spec, g) \<Longrightarrow> w \<notin> fst ` set (sy_inbox y) \<Longrightarrow>
    get_poll point elapsed spec g w WaitElapsed (sy_cache y) = (Inr Pending, c) \<Longrightarrow>
    system_step sha alloc y (y\<lparr>sy_cache := c\<rparr>)"
| poll_cancelled: "sy_waits y w = Some (spec, g) \<Longrightarrow> w \<notin> fst ` set (sy_inbox y) \<Longrightarrow>
    get_poll point elapsed spec g w WaitElapsed (sy_cache y) = (Inl (Err e), c) \<Longrightarrow>
    system_step sha alloc y (resolve_wait w (y\<lparr>sy_cache := c\<rparr>))"
| poll_received: "sy_waits y w = Some (spec, g) \<Longrightarrow> (w, r) \<in> set (sy_inbox y) \<Longrightarrow>
    get_poll point elapsed spec g w (WaitReceived r) (sy_cache y) = (outcome, c) \<Longrightarrow>
    system_step sha alloc y (resolve_wait w (y\<lparr>sy_cache := c\<rparr>))"
| abandon: "sy_waits y w = Some (spec, g) \<Longrightarrow> system_step sha alloc y (resolve_wait w y)"
| withdraw_registration: "sy_waits y w = None \<Longrightarrow> withdraw_waiter k g w (sy_cache y) = (Inr (), c) \<Longrightarrow>
    system_step sha alloc y (y\<lparr>sy_cache := c\<rparr>)"
| prefetched: "prefetch runtime point spec (sy_cache y) = (Inr outcome, c) \<Longrightarrow>
    system_step sha alloc y (y\<lparr>sy_cache := c\<rparr>)"
| prefetch_error: "prefetch runtime point spec (sy_cache y) = (Inl (Err e), c) \<Longrightarrow>
    system_step sha alloc y (y\<lparr>sy_cache := c\<rparr>)"
| work: "worker_step sha alloc y y' \<Longrightarrow> system_step sha alloc y y'"
| drop_lease: "l \<in> set (sy_leases y) \<Longrightarrow> release_lease (pl_key l) (pl_generation l) (sy_cache y) = (Inr (), c) \<Longrightarrow>
    system_step sha alloc y (y\<lparr>sy_cache := c, sy_leases := remove1 l (sy_leases y)\<rparr>)"
| invalidated: "invalidate k (sy_cache y) = (Inr b, c) \<Longrightarrow> system_step sha alloc y (y\<lparr>sy_cache := c\<rparr>)"
| shut_down: "(\<And>ks. mset (order ks) = mset ks) \<Longrightarrow> cache_shutdown order (sy_cache y) = (Inr sent, c) \<Longrightarrow>
    system_step sha alloc y (deliver sent (y\<lparr>sy_cache := c\<rparr>))"
| foreign_read: "submit_observed point spec Await (ci_reader (sy_cache y)) = Inr r \<Longrightarrow>
    system_step sha alloc y (y\<lparr>sy_cache := (sy_cache y)\<lparr>ci_reader := r\<rparr>\<rparr>)"
| foreign_close: "system_step sha alloc y (y\<lparr>sy_cache := (sy_cache y)\<lparr>ci_reader := reader_close (ci_reader (sy_cache y))\<rparr>\<rparr>)"

section \<open>The abstraction\<close>

definition load_of :: "request \<Rightarrow> (page_key \<times> u64 \<times> identity) option" where
  "load_of rq = (case rq_completion rq of Detached k g \<Rightarrow> Some (k, g, spec_identity (rq_spec rq)) | Await \<Rightarrow> None)"

definition load_list :: "request list \<Rightarrow> (page_key \<times> u64 \<times> identity) list" where
  "load_list rqs = List.map_filter load_of rqs"

definition protocol_of :: "system \<Rightarrow> protocol" where
  "protocol_of y = \<lparr>pr_pages = pages (sy_cache y), pr_loads = mset (load_list (queue (sy_cache y) @ sy_running y)),
     pr_waits = (\<lambda>w. map_option (\<lambda>(spec, g). (sp_key spec, g, spec_identity spec)) (sy_waits y w)),
     pr_inbox = mset (sy_inbox y), pr_leases = mset (sy_leases y), pr_generation = ci_generation (sy_cache y),
     pr_waiter = ci_waiter (sy_cache y)\<rparr>"

section \<open>Simulation\<close>

abbreviation protocol_steps :: "(u8 list \<Rightarrow> digest) \<Rightarrow> protocol \<Rightarrow> protocol \<Rightarrow> bool" where
  "protocol_steps sha \<equiv> (protocol_step sha)\<^sup>*\<^sup>*"

lemma thinned_steps:
  assumes "\<forall>k\<in>set ks. idle (pr_pages a k)"
  shows "protocol_steps sha a (a\<lparr>pr_pages := pr_pages a |` (- set ks)\<rparr>)"
  using assms
proof (induction ks)
  case Nil
  have "pr_pages a |` UNIV = pr_pages a" by (simp add: restrict_map_def)
  then show ?case by simp
next
  case (Cons k ks)
  let ?b = "a\<lparr>pr_pages := pr_pages a |` (- set ks)\<rparr>"
  have eq: "pr_pages a |` (- set (k # ks)) = (pr_pages ?b)(k := None)"
    by (auto simp: restrict_map_def fun_eq_iff)
  show ?case
  proof (cases "k \<in> set ks")
    case True
    then have "set (k # ks) = set ks" by auto
    then show ?thesis using Cons by simp
  next
    case False
    from Cons.prems obtain sl p where "pr_pages a k = Some sl" "sl_holding sl = Holding p 0" by (auto simp: idle_def)
    with False have "protocol_step sha ?b (?b\<lparr>pr_pages := (pr_pages ?b)(k := None)\<rparr>)"
      by (intro evict) auto
    then show ?thesis using Cons unfolding eq by (auto intro: rtranclp.rtrancl_into_rtrancl)
  qed
qed

lemma protocol_ofs [simp]:
  "pr_pages (protocol_of y) = pages (sy_cache y)" "pr_inbox (protocol_of y) = mset (sy_inbox y)"
  "pr_leases (protocol_of y) = mset (sy_leases y)" "pr_generation (protocol_of y) = ci_generation (sy_cache y)"
  "pr_waiter (protocol_of y) = ci_waiter (sy_cache y)"
  "pr_loads (protocol_of y) = mset (load_list (queue (sy_cache y) @ sy_running y))"
  "pr_waits (protocol_of y) w = map_option (\<lambda>(spec, g). (sp_key spec, g, spec_identity spec)) (sy_waits y w)"
  by (simp_all add: protocol_of_def)

lemma quiet_steps:
  assumes "quiet (sy_cache y) c"
  shows "protocol_steps sha (protocol_of y) (protocol_of (y\<lparr>sy_cache := c\<rparr>))"
proof -
  from assms obtain ks where ks: "\<forall>k\<in>set ks. idle (pages (sy_cache y) k)" "pages c = pages (sy_cache y) |` (- set ks)"
    by (auto simp: quiet_def thinned_def)
  let ?a = "(protocol_of y)\<lparr>pr_pages := pages c\<rparr>"
  have "protocol_steps sha (protocol_of y) ?a"
    using thinned_steps [of ks "protocol_of y"] ks by simp
  moreover have "protocol_step sha ?a (?a\<lparr>pr_generation := ci_generation c, pr_waiter := ci_waiter c\<rparr>)"
    using assms by (intro bump) (auto simp: quiet_def onward_def)
  moreover have "?a\<lparr>pr_generation := ci_generation c, pr_waiter := ci_waiter c\<rparr> = protocol_of (y\<lparr>sy_cache := c\<rparr>)"
    using assms by (simp add: protocol_of_def quiet_def)
  ultimately show ?thesis by (metis rtranclp.rtrancl_into_rtrancl)
qed

text \<open>A step that changes the pages at one key, followed by a rise of the counters.\<close>

lemma bump_after:
  assumes "protocol_step sha a b" "pr_generation b \<le> g" "pr_waiter b \<le> w"
  shows "protocol_steps sha a (b\<lparr>pr_generation := g, pr_waiter := w\<rparr>)"
  using bump [OF assms(2,3), of sha] assms(1) by (meson converse_rtranclp_into_rtranclp r_into_rtranclp)

lemma hit_steps:
  assumes "hit_view spec l (sy_cache y) c"
  shows "protocol_steps sha (protocol_of y) (protocol_of (y\<lparr>sy_cache := c, sy_leases := l # sy_leases y\<rparr>))"
proof -
  let ?a = "protocol_of y"
  from assms obtain sl p n where sl: "pages (sy_cache y) (sp_key spec) = Some sl" "sl_holding sl = Holding p n"
      "l = lease_for p (sp_key spec) (sl_generation sl)"
      "pages c = (pages (sy_cache y))(sp_key spec \<mapsto> sl\<lparr>sl_holding := Holding p (Suc n)\<rparr>)"
    by (auto simp: hit_view_def)
  have "protocol_step sha ?a (?a\<lparr>pr_pages := (pr_pages ?a)(sp_key spec \<mapsto> sl\<lparr>sl_holding := Holding p (Suc n)\<rparr>),
      pr_leases := add_mset (lease_for p (sp_key spec) (sl_generation sl)) (pr_leases ?a)\<rparr>)"
    using sl by (intro hit) auto
  from bump_after [OF this, of "ci_generation c" "ci_waiter c"] show ?thesis
    using assms sl by (simp add: protocol_of_def hit_view_def onward_def)
qed

lemma join_steps:
  assumes "join_view spec g w (sy_cache y) c"
  shows "protocol_steps sha (protocol_of y) (protocol_of (y\<lparr>sy_cache := c, sy_waits := (sy_waits y)(w \<mapsto> (spec, g))\<rparr>))"
proof -
  let ?a = "protocol_of y"
  from assms obtain sl ws where sl: "pages (sy_cache y) (sp_key spec) = Some sl" "sl_identity sl = spec_identity spec"
      "sl_generation sl = g" "sl_holding sl = Awaiting ws"
      "pages c = (pages (sy_cache y))(sp_key spec \<mapsto> sl\<lparr>sl_holding := Awaiting (add_mset w ws)\<rparr>)"
    by (auto simp: join_view_def)
  have "protocol_step sha ?a (?a\<lparr>pr_pages := (pr_pages ?a)(sp_key spec \<mapsto> sl\<lparr>sl_holding := Awaiting (add_mset w ws)\<rparr>),
      pr_waiter := w, pr_waits := (pr_waits ?a)(w \<mapsto> (sp_key spec, sl_generation sl, sl_identity sl))\<rparr>)"
    using sl assms by (intro join) (auto simp: join_view_def)
  from bump_after [OF this, of "ci_generation c" w] show ?thesis
    using assms sl by (simp add: protocol_of_def join_view_def fun_upd_def cong: if_cong) (simp add: if_distrib cong: if_cong)
qed

lemma load_list_simps [simp]:
  "load_list [] = []" "load_list (xs @ ys) = load_list xs @ load_list ys"
  "load_list (rq # rqs) = (case load_of rq of None \<Rightarrow> load_list rqs | Some x \<Rightarrow> x # load_list rqs)"
  by (auto simp: load_list_def List.map_filter_def split: option.splits)

lemma load_of_simps [simp]:
  "load_of \<lparr>rq_spec = spec, rq_completion = Detached k g\<rparr> = Some (k, g, spec_identity spec)"
  "load_of \<lparr>rq_spec = spec, rq_completion = Await\<rparr> = None"
  by (simp_all add: load_of_def)

lemma start_steps:
  assumes "start_view spec g ws (sy_cache y) c"
  shows "protocol_steps sha (protocol_of y) ((protocol_of (y\<lparr>sy_cache := c\<rparr>))\<lparr>
    pr_pages := (pages c)(sp_key spec \<mapsto> \<lparr>sl_generation = g, sl_identity = spec_identity spec, sl_holding = Awaiting {#}\<rparr>),
    pr_waiter := ci_waiter (sy_cache y)\<rparr>)"
proof -
  let ?a = "protocol_of y" and ?k = "sp_key spec"
  let ?new = "\<lparr>sl_generation = g, sl_identity = spec_identity spec, sl_holding = Awaiting {#}\<rparr>"
  from assms obtain P ks where P: "\<forall>k\<in>set ks. idle (pages (sy_cache y) k)" "P = pages (sy_cache y) |` (- set ks)" "P ?k = None"
      "pages c = P(?k \<mapsto> \<lparr>sl_generation = g, sl_identity = spec_identity spec, sl_holding = Awaiting (mset ws)\<rparr>)"
    by (auto simp: start_view_def thinned_def)
  let ?b = "?a\<lparr>pr_pages := P\<rparr>"
  have "protocol_steps sha ?a ?b" using thinned_steps [of ks ?a] P by simp
  moreover have "protocol_step sha ?b (?b\<lparr>pr_pages := (pr_pages ?b)(?k \<mapsto> ?new),
      pr_loads := add_mset (?k, g, spec_identity spec) (pr_loads ?b), pr_generation := g\<rparr>)"
    using assms P by (intro start) (auto simp: start_view_def)
  moreover have "?b\<lparr>pr_pages := (pr_pages ?b)(?k \<mapsto> ?new), pr_loads := add_mset (?k, g, spec_identity spec) (pr_loads ?b),
      pr_generation := g\<rparr> = (protocol_of (y\<lparr>sy_cache := c\<rparr>))\<lparr>pr_pages := (pages c)(?k \<mapsto> ?new), pr_waiter := ci_waiter (sy_cache y)\<rparr>"
    using assms P(4) by (simp add: protocol_of_def start_view_def)
  ultimately show ?thesis by (metis rtranclp.rtrancl_into_rtrancl)
qed

lemma start_prefetch_steps:
  assumes "start_view spec g [] (sy_cache y) c"
  shows "protocol_steps sha (protocol_of y) (protocol_of (y\<lparr>sy_cache := c\<rparr>))"
proof -
  let ?b = "(protocol_of (y\<lparr>sy_cache := c\<rparr>))\<lparr>pr_waiter := ci_waiter (sy_cache y)\<rparr>"
  have "(pages c)(sp_key spec \<mapsto> \<lparr>sl_generation = g, sl_identity = spec_identity spec, sl_holding = Awaiting {#}\<rparr>) = pages c"
    using assms by (auto simp: start_view_def)
  with start_steps [OF assms, of sha] have "protocol_steps sha (protocol_of y) ?b"
    by (simp add: protocol_of_def)
  moreover have "protocol_step sha ?b (?b\<lparr>pr_generation := ci_generation c, pr_waiter := ci_waiter c\<rparr>)"
    using assms by (intro bump) (auto simp: start_view_def)
  moreover have "?b\<lparr>pr_generation := ci_generation c, pr_waiter := ci_waiter c\<rparr> = protocol_of (y\<lparr>sy_cache := c\<rparr>)"
    by (simp add: protocol_of_def)
  ultimately show ?thesis by (metis rtranclp.rtrancl_into_rtrancl)
qed

lemma start_demand_steps:
  assumes "start_view spec g [w] (sy_cache y) c"
  shows "protocol_steps sha (protocol_of y) (protocol_of (y\<lparr>sy_cache := c, sy_waits := (sy_waits y)(w \<mapsto> (spec, g))\<rparr>))"
proof -
  let ?k = "sp_key spec" and ?new = "\<lparr>sl_generation = g, sl_identity = spec_identity spec, sl_holding = Awaiting {#}\<rparr>"
  let ?b = "(protocol_of (y\<lparr>sy_cache := c\<rparr>))\<lparr>pr_pages := (pages c)(?k \<mapsto> ?new), pr_waiter := ci_waiter (sy_cache y)\<rparr>"
  let ?c = "?b\<lparr>pr_pages := (pr_pages ?b)(?k \<mapsto> ?new\<lparr>sl_holding := Awaiting (add_mset w {#})\<rparr>),
      pr_waiter := w, pr_waits := (pr_waits ?b)(w \<mapsto> (?k, sl_generation ?new, sl_identity ?new))\<rparr>"
  have "protocol_step sha ?b ?c"
    using assms by (intro join) (auto simp: start_view_def)
  moreover have "pages c = (pages c)(?k \<mapsto> ?new\<lparr>sl_holding := Awaiting (add_mset w {#})\<rparr>)"
    using assms by (auto simp: start_view_def)
  then have "?c = protocol_of (y\<lparr>sy_cache := c, sy_waits := (sy_waits y)(w \<mapsto> (spec, g))\<rparr>)"
    using assms by (auto simp: protocol_of_def start_view_def fun_eq_iff)
  ultimately show ?thesis using start_steps [OF assms, of sha] by (metis rtranclp.rtrancl_into_rtrancl)
qed

lemma withdraw_steps:
  assumes view: "withdrawn_view k w (sy_cache y) c" and w: "sy_waits y w = None"
  shows "protocol_steps sha (protocol_of y) (protocol_of (y\<lparr>sy_cache := c\<rparr>))"
proof -
  from view consider (same) "quiet (sy_cache y) c" | (gone) sl ws where "pages (sy_cache y) k = Some sl" "sl_holding sl = Awaiting ws"
      "pages c = (pages (sy_cache y))(k \<mapsto> sl\<lparr>sl_holding := Awaiting (ws - {#w#})\<rparr>)"
    by (auto simp: withdrawn_view_def quiet_def)
  then show ?thesis
  proof cases
    case same
    then show ?thesis by (rule quiet_steps)
  next
    case gone
    let ?a = "protocol_of y"
    have "protocol_step sha ?a (?a\<lparr>pr_pages := (pr_pages ?a)(k \<mapsto> sl\<lparr>sl_holding := Awaiting (ws - {#w#})\<rparr>)\<rparr>)"
      using gone w by (intro withdraw) auto
    from bump_after [OF this, of "ci_generation c" "ci_waiter c"] show ?thesis
      using gone view by (simp add: protocol_of_def withdrawn_view_def onward_def)
  qed
qed

lemma mset_lease_list: "mset (lease_list sent) = sent_leases (mset sent)"
  by (induction sent) (auto simp: lease_list_def sent_leases_def)

lemma resolve_steps: "protocol_steps sha (protocol_of y) (protocol_of (resolve_wait w y))"
proof -
  have "protocol_of (resolve_wait w y) = (protocol_of y)\<lparr>pr_waits := (pr_waits (protocol_of y))(w := None),
      pr_inbox := filter_mset (\<lambda>(v, _). v \<noteq> w) (pr_inbox (protocol_of y)),
      pr_leases := pr_leases (protocol_of y) + sent_leases (filter_mset (\<lambda>(v, _). v = w) (pr_inbox (protocol_of y)))\<rparr>"
    by (auto simp: protocol_of_def resolve_wait_def mset_lease_list fun_eq_iff)
  then show ?thesis using resolve [of sha "protocol_of y" w] by (simp add: r_into_rtranclp)
qed

lemma release_steps:
  assumes l: "l \<in> set (sy_leases y)" and sl: "pages (sy_cache y) (pl_key l) = Some sl" "sl_generation sl = pl_generation l"
      "sl_holding sl = Holding p (Suc n)"
    and c: "queue c = queue (sy_cache y)" "onward (sy_cache y) c"
      "pages c = (pages (sy_cache y))(pl_key l \<mapsto> sl\<lparr>sl_holding := Holding p n\<rparr>) \<or>
        n = 0 \<and> pages c = (pages (sy_cache y))(pl_key l := None)"
  shows "protocol_steps sha (protocol_of y) (protocol_of (y\<lparr>sy_cache := c, sy_leases := remove1 l (sy_leases y)\<rparr>))"
proof -
  let ?a = "protocol_of y"
  let ?b = "?a\<lparr>pr_pages := (pr_pages ?a)(pl_key l \<mapsto> sl\<lparr>sl_holding := Holding p n\<rparr>), pr_leases := pr_leases ?a - {#l#}\<rparr>"
  have step: "protocol_step sha ?a ?b" using l sl by (intro release) auto
  from c(3) show ?thesis
  proof (elim disjE conjE)
    assume "pages c = (pages (sy_cache y))(pl_key l \<mapsto> sl\<lparr>sl_holding := Holding p n\<rparr>)"
    then show ?thesis
      using bump_after [OF step, of "ci_generation c" "ci_waiter c"] c by (simp add: protocol_of_def onward_def)
  next
    assume n: "n = 0" "pages c = (pages (sy_cache y))(pl_key l := None)"
    have "protocol_step sha ?b (?b\<lparr>pr_pages := (pr_pages ?b)(pl_key l := None)\<rparr>)"
      using n by (intro evict [of _ _ "sl\<lparr>sl_holding := Holding p n\<rparr>" p]) auto
    from bump_after [OF this, of "ci_generation c" "ci_waiter c"] step show ?thesis
      using n c by (auto simp: protocol_of_def onward_def intro: converse_rtranclp_into_rtranclp)
  qed
qed

lemma mset_load_list: "mset (load_list xs) = image_mset (the \<circ> load_of) (filter_mset (\<lambda>x. load_of x \<noteq> None) (mset xs))"
  by (induction xs) (auto split: option.splits)

lemma load_list_remove1:
  assumes "rq \<in> set xs" "load_of rq = Some x"
  shows "mset (load_list xs) = add_mset x (mset (load_list (remove1 rq xs)))"
  using assms by (induction xs) (auto split: option.splits)

lemma load_list_remove1_None:
  assumes "load_of rq = None" shows "mset (load_list (remove1 rq xs)) = mset (load_list xs)"
proof (cases "rq \<in> set xs")
  case True
  then have "mset xs = add_mset rq (mset (remove1 rq xs))" by simp
  then show ?thesis using assms by (simp only: mset_load_list) simp
qed (simp add: remove1_idem)

text \<open>A load in flight has its entry.\<close>

lemma load_entry:
  assumes ok: "consistent sha (protocol_of y)" and rq: "rq \<in> set (queue (sy_cache y)) \<union> set (sy_running y)" "rq_completion rq = Detached k g"
  shows "\<exists>e l. bt_get (ci_entries (sy_cache y)) k = Some e \<and> en_generation e = g \<and> en_state e = Loading l \<and>
    (en_fingerprint e, en_length e) = spec_identity (rq_spec rq)"
proof -
  let ?x = "(k, g, spec_identity (rq_spec rq))"
  have "?x \<in># pr_loads (protocol_of y)"
    using rq by (force simp: mset_load_list load_of_def image_iff)
  then have "?x \<in># filter_mset (\<lambda>x. fst x = k) (pr_loads (protocol_of y))" by (simp del: protocol_ofs)
  moreover have "loads_ok (protocol_of y)" using ok by (simp add: consistent_def)
  ultimately have "?x \<in># outstanding k (pr_pages (protocol_of y) k)" by (simp only: loads_okD(1))
  then have "?x \<in># outstanding k (pages (sy_cache y) k)" by simp
  then obtain e where e: "bt_get (ci_entries (sy_cache y)) k = Some e" "?x \<in># outstanding k (Some (slot_of e))"
    by (auto simp: outstanding_def pages_of_def split: option.splits)
  then show ?thesis
    by (auto simp: slot_of_def split: entry_state.splits holding.splits)
qed

lemma deliver_all:
  fixes y :: system
  assumes "sent = map (\<lambda>w. (w, r)) ws"
  shows "mset (sy_inbox (deliver sent y)) = mset (sy_inbox y) + posted (pr_waits (protocol_of y)) (mset ws) r"
    "mset (sy_leases (deliver sent y)) = mset (sy_leases y) +
      (case r of Inl _ \<Rightarrow> {#} | Inr l \<Rightarrow> orphans (pr_waits (protocol_of y)) (mset ws) l)"
proof -
  have dom: "w \<in> dom (pr_waits (protocol_of y)) \<longleftrightarrow> sy_waits y w \<noteq> None" for w
    by (auto simp: dom_def)
  have sent: "filter (\<lambda>(w, _). P w) sent = map (\<lambda>w. (w, r)) (filter P ws)" for P
    unfolding assms by (induction ws) auto
  have leases: "lease_list (map (\<lambda>w. (w, r)) vs) = (case r of Inl _ \<Rightarrow> [] | Inr l \<Rightarrow> map (\<lambda>_. l) vs)" for vs
    by (induction vs) (auto simp: lease_list_def split: sum.splits)
  show "mset (sy_inbox (deliver sent y)) = mset (sy_inbox y) + posted (pr_waits (protocol_of y)) (mset ws) r"
    by (simp add: deliver_def posted_def dom sent)
  show "mset (sy_leases (deliver sent y)) = mset (sy_leases y) +
      (case r of Inl _ \<Rightarrow> {#} | Inr l \<Rightarrow> orphans (pr_waits (protocol_of y)) (mset ws) l)"
    by (simp add: deliver_def orphans_def dom sent leases split: sum.split)
qed

lemma complete_steps:
  assumes ok: "consistent sha (protocol_of y)" and rq: "rq \<in> set (sy_running y)" "rq_completion rq = Detached k g"
    and e: "bt_get (ci_entries (sy_cache y)) k = Some e" "en_generation e = g" "en_state e = Loading l"
      "(en_fingerprint e, en_length e) = spec_identity (rq_spec rq)"
    and view: "settled_view k (slot_of e) outcome (le_waiters l) (sy_cache y) sent c"
    and page: "\<And>p. outcome = Inr p \<Longrightarrow> sha (vp_bytes p) = sp_fingerprint (rq_spec rq)"
  shows "protocol_steps sha (protocol_of y) (protocol_of (deliver sent (y\<lparr>sy_cache := c, sy_running := remove1 rq (sy_running y)\<rparr>)))"
proof -
  let ?a = "protocol_of y" and ?y = "y\<lparr>sy_cache := c, sy_running := remove1 rq (sy_running y)\<rparr>" and ?sl = "slot_of e"
  let ?x = "(k, sl_generation ?sl, sl_identity ?sl)" and ?ws = "mset (le_waiters l)"
  have x: "load_of rq = Some ?x" using rq(2) e by (simp add: load_of_def)
  have loads: "pr_loads ?a = add_mset ?x (mset (load_list (queue (sy_cache y) @ remove1 rq (sy_running y))))"
    using load_list_remove1 [OF rq(1) x] by simp
  have waits: "pr_waits (protocol_of ?y) = pr_waits ?a" by (simp add: protocol_of_def)
  have frame: "queue c = queue (sy_cache y)" "onward (sy_cache y) c" using view by (simp_all add: settled_view_def)
  from view consider (publish) p where "outcome = Inr p" "vp_key p = k" "length (vp_bytes p) = en_length e"
      "pages c = (pages (sy_cache y))(k \<mapsto> ?sl\<lparr>sl_holding := Holding p (length (le_waiters l))\<rparr>)"
      "sent = map (\<lambda>w. (w, Inr (lease_for p k (sl_generation ?sl)))) (le_waiters l)"
    | (discard) err where "pages c = (pages (sy_cache y))(k := None)" "sent = map (\<lambda>w. (w, Inl err)) (le_waiters l)"
    by (auto simp: settled_view_def)
  then show ?thesis
  proof cases
    case publish
    have "genuine sha k (sl_identity ?sl) p" using publish page e(4) by (simp add: genuine_def)
    then have step: "protocol_step sha ?a (?a\<lparr>pr_pages := (pr_pages ?a)(k \<mapsto> ?sl\<lparr>sl_holding := Holding p (size ?ws)\<rparr>),
        pr_loads := pr_loads ?a - {#?x#},
        pr_inbox := pr_inbox ?a + posted (pr_waits ?a) ?ws (Inr (lease_for p k (sl_generation ?sl))),
        pr_leases := pr_leases ?a + orphans (pr_waits ?a) ?ws (lease_for p k (sl_generation ?sl))\<rparr>)"
      using e(1,3) loads by (intro protocol_step.publish [OF _ _ _ _ refl]) auto
    show ?thesis
      using bump_after [OF step, of "ci_generation c" "ci_waiter c"] deliver_all [OF publish(5), of ?y] loads waits frame publish(4)
      by (simp add: protocol_of_def onward_def deliver_def)
  next
    case discard
    have step: "protocol_step sha ?a (?a\<lparr>pr_pages := (pr_pages ?a)(k := None), pr_loads := pr_loads ?a - {#?x#},
        pr_inbox := pr_inbox ?a + posted (pr_waits ?a) ?ws (Inl err)\<rparr>)"
      using e(1,3) loads by (intro protocol_step.discard) auto
    show ?thesis
      using bump_after [OF step, of "ci_generation c" "ci_waiter c"] deliver_all [OF discard(2), of ?y] loads waits frame discard(1)
      by (simp add: protocol_of_def onward_def deliver_def)
  qed
qed

text \<open>What shutdown makes of a page.\<close>

definition closed :: "slot option \<Rightarrow> slot option" where
  "closed x = (case x of None \<Rightarrow> None | Some sl \<Rightarrow> (case sl_holding sl of
     Awaiting _ \<Rightarrow> Some (sl\<lparr>sl_holding := Awaiting {#}\<rparr>) | Holding p n \<Rightarrow> if n = 0 then None else Some sl))"

lemma close_step:
  "protocol_steps sha a (a\<lparr>pr_pages := (pr_pages a)(k := closed (pr_pages a k)),
     pr_inbox := pr_inbox a + posted (pr_waits a) (waiters (pr_pages a k)) (Inl e)\<rparr>)"
proof (cases "pr_pages a k")
  case None
  then have "(pr_pages a)(k := closed (pr_pages a k)) = pr_pages a" by (auto simp: closed_def)
  then show ?thesis using None by (simp add: posted_def)
next
  case (Some sl)
  show ?thesis
  proof (cases "sl_holding sl")
    case (Awaiting ws)
    then show ?thesis
      using Some protocol_step.flush [OF Some Awaiting, of sha e] by (simp add: closed_def r_into_rtranclp)
  next
    case (Holding p n)
    show ?thesis
    proof (cases "n = 0")
      case True
      then show ?thesis
        using Some Holding protocol_step.evict [OF Some, of p sha] by (simp add: closed_def posted_def r_into_rtranclp)
    next
      case False
      then have "(pr_pages a)(k := closed (pr_pages a k)) = pr_pages a" using Some Holding by (auto simp: closed_def)
      then show ?thesis using Some Holding by (simp add: posted_def)
    qed
  qed
qed

lemma posted_add: "posted waits (ws + vs) r = posted waits ws r + posted waits vs r"
  by (simp add: posted_def)

definition closed_pages :: "page_key list \<Rightarrow> (page_key \<Rightarrow> slot option) \<Rightarrow> page_key \<Rightarrow> slot option" where
  "closed_pages ks P = (\<lambda>k. if k \<in> set ks then closed (P k) else P k)"

definition all_waiters :: "page_key list \<Rightarrow> (page_key \<Rightarrow> slot option) \<Rightarrow> u64 multiset" where
  "all_waiters ks P = (\<Sum>k\<leftarrow>ks. waiters (P k))"

lemma close_steps:
  assumes "distinct ks"
  shows "protocol_steps sha a (a\<lparr>pr_pages := closed_pages ks (pr_pages a),
     pr_inbox := pr_inbox a + posted (pr_waits a) (all_waiters ks (pr_pages a)) (Inl e)\<rparr>)"
  using assms
proof (induction ks arbitrary: a)
  case (Cons k ks)
  let ?P = "(pr_pages a)(k := closed (pr_pages a k))"
  let ?b = "a\<lparr>pr_pages := ?P, pr_inbox := pr_inbox a + posted (pr_waits a) (waiters (pr_pages a k)) (Inl e)\<rparr>"
  have "map (\<lambda>k'. waiters (?P k')) ks = map (\<lambda>k'. waiters (pr_pages a k')) ks"
    using Cons.prems by (intro map_cong) auto
  then have ws: "all_waiters ks ?P = all_waiters ks (pr_pages a)" by (simp only: all_waiters_def)
  have pages: "closed_pages ks ?P = closed_pages (k # ks) (pr_pages a)"
    using Cons.prems by (auto simp: fun_eq_iff closed_pages_def)
  have "protocol_steps sha a ?b" by (rule close_step)
  moreover have "protocol_steps sha ?b (?b\<lparr>pr_pages := closed_pages ks (pr_pages ?b),
     pr_inbox := pr_inbox ?b + posted (pr_waits ?b) (all_waiters ks (pr_pages ?b)) (Inl e)\<rparr>)"
    using Cons.prems by (intro Cons.IH) simp
  moreover have "all_waiters (k # ks) (pr_pages a) = waiters (pr_pages a k) + all_waiters ks (pr_pages a)"
    by (simp add: all_waiters_def)
  ultimately show ?case by (auto simp: ws pages posted_add ac_simps elim: rtranclp_trans)
next
  case Nil
  show ?case by (simp add: posted_def closed_pages_def all_waiters_def)
qed

lemma shutdown_steps:
  assumes ok: "cache_ok sha (sy_cache y)" and live: "\<not> ci_shutdown (sy_cache y)"
    and order: "mset keys = mset (bt_keys (ci_entries (sy_cache y)))"
    and c: "queue c = queue (sy_cache y)" "ci_generation c = ci_generation (sy_cache y)" "ci_waiter c = ci_waiter (sy_cache y)"
      "bt_get (ci_entries c) = (\<lambda>k. Option.bind (bt_get (ci_entries (sy_cache y)) k) closed_entry)"
    and sent: "sent = fail_waiters (concat (map (loading_waiters (sy_cache y)) keys)) Shutdown"
  shows "protocol_steps sha (protocol_of y) (protocol_of (deliver sent (y\<lparr>sy_cache := c\<rparr>)))"
proof -
  let ?s = "sy_cache y" and ?a = "protocol_of y"
  note core = cache_ok_core [OF ok]
  have keys: "distinct keys" "set keys = dom (bt_get (ci_entries ?s))"
    using order distinct_bt_keys [OF coreD(2) [OF core]] mset_eq_imp_distinct_iff mset_eq_setD set_bt_keys by metis+
  have page: "map_option slot_of (Option.bind (bt_get (ci_entries ?s) k) closed_entry) = closed (pages ?s k)" for k
  proof (cases "bt_get (ci_entries ?s) k")
    case (Some e)
    then show ?thesis
      using core_entry [OF core Some]
      by (auto simp: closed_entry_def closed_def slot_of_def retired_def entry_ok_def split: entry_state.splits)
  qed (simp add: closed_def)
  have "pages ?s k = None" if "k \<notin> set keys" for k using that keys(2) by (auto simp: pages_of_def domIff)
  then have pages: "pages c = closed_pages keys (pages ?s)"
    using c(4) page by (auto simp: fun_eq_iff pages_of_def closed_def closed_pages_def)
  have "mset (loading_waiters ?s k) = waiters (pages ?s k)" for k
    by (auto simp: loading_waiters_def pages_of_def slot_of_def split: option.splits entry_state.splits)
  then have "mset (concat (map (loading_waiters ?s) keys)) = all_waiters keys (pages ?s)"
    by (induction keys) (auto simp: all_waiters_def)
  then show ?thesis
    using close_steps [OF keys(1), of sha ?a Shutdown] pages c
      deliver_all [OF sent [unfolded fail_waiters_def], of "y\<lparr>sy_cache := c\<rparr>"]
    by (simp add: protocol_of_def deliver_def)
qed

section \<open>The invariant of the system\<close>

definition system_ok :: "(u8 list \<Rightarrow> digest) \<Rightarrow> system \<Rightarrow> bool" where
  "system_ok sha y \<longleftrightarrow> cache_ok sha (sy_cache y) \<and> consistent sha (protocol_of y)"

text \<open>A step keeps the cache's invariant and is a sequence of protocol steps.\<close>

definition simulated :: "(u8 list \<Rightarrow> digest) \<Rightarrow> system \<Rightarrow> system \<Rightarrow> bool" where
  "simulated sha y y' \<longleftrightarrow> cache_ok sha (sy_cache y') \<and> protocol_steps sha (protocol_of y) (protocol_of y')"

lemma resolve_wait_cache [simp]: "sy_cache (resolve_wait w y) = sy_cache y" "sy_cache (deliver sent y) = sy_cache y"
  "resolve_wait w (y\<lparr>sy_cache := c\<rparr>) = (resolve_wait w y)\<lparr>sy_cache := c\<rparr>" "sy_waits (resolve_wait w y) w = None"
  by (simp_all add: resolve_wait_def deliver_def)

lemma cache_ok_reader [simp]: "cache_ok sha (c\<lparr>ci_reader := r\<rparr>) = cache_ok sha c"
  by (simp add: cache_ok_def core_ok_def)

lemma poll_simulated:
  assumes ok: "cache_ok sha (sy_cache y)" and poll: "get_poll point elapsed spec g w event (sy_cache y) = (outcome, c)"
  shows "simulated sha y (resolve_wait w (y\<lparr>sy_cache := c\<rparr>))"
proof -
  let ?y = "resolve_wait w y"
  have wf: "bt_wf (ci_entries (sy_cache y))" using ok by (simp add: cache_ok_def core_ok_def core_def)
  have "cache_ok sha c \<and> withdrawn_view (sp_key spec) w (sy_cache y) c"
    using awp_conj [OF get_poll_ok [OF ok, of point elapsed spec g w event] get_poll_view [OF wf, of spec w point elapsed g event]] poll
    by (cases outcome) (auto simp: awp_def safe_def)
  then show ?thesis
    using rtranclp_trans [OF resolve_steps withdraw_steps [of "sp_key spec" w ?y c]] by (simp add: simulated_def)
qed

lemma simulated_quiet:
  assumes "cache_ok sha c" "quiet (sy_cache y) c" shows "simulated sha y (y\<lparr>sy_cache := c\<rparr>)"
  using assms quiet_steps by (simp add: simulated_def)

lemma finish_simulated:
  assumes ok: "system_ok sha y" and rq: "rq \<in> set (sy_running y)" "rq_completion rq = Detached k g"
    and read: "read_observed sha alloc env (rq_spec rq) = Some (result, stats)" "read_outcome result = Some outcome"
    and finish: "finish_observed_load k g outcome stats (sy_cache y) = (Inr sent, c)"
  shows "simulated sha y (deliver sent (y\<lparr>sy_cache := c, sy_running := remove1 rq (sy_running y)\<rparr>))"
proof -
  note cok = ok [unfolded system_ok_def, THEN conjunct1] and con = ok [unfolded system_ok_def, THEN conjunct2]
  have wf: "bt_wf (ci_entries (sy_cache y))" using cok by (simp add: cache_ok_def core_ok_def core_def)
  obtain e l where e: "bt_get (ci_entries (sy_cache y)) k = Some e" "en_generation e = g" "en_state e = Loading l"
      "(en_fingerprint e, en_length e) = spec_identity (rq_spec rq)"
    using load_entry [OF con _ rq(2)] rq(1) by blast
  have page: "sha (vp_bytes p) = sp_fingerprint (rq_spec rq)" if "outcome = Inr p" for p
    using read_observed_ok(1) [OF read(1)] read(2) that
    by (auto simp: read_outcome_def split: sum.splits failure.splits)
  have "awp (\<lambda>_ _. True) (finish_observed_load k g outcome stats) (\<lambda>sent s'. cache_ok sha s' \<and> map fst sent = waiting_on (sy_cache y) k g) (sy_cache y)"
    by (rule finish_observed_load_ok [OF cok]) (use page e in auto)
  from awp_Ok [OF this finish] have "cache_ok sha c" by simp
  moreover have "settled_view k (slot_of e) outcome (le_waiters l) (sy_cache y) sent c"
    using awp_Ok [OF complete_load_view [OF wf e(1-3)] finish] .
  ultimately show ?thesis
    using complete_steps [OF con rq e _ page] by (simp add: simulated_def)
qed

lemma shutdown_simulated:
  assumes ok: "cache_ok sha (sy_cache y)" and order: "\<And>ks. mset (order ks) = mset ks"
    and shut: "cache_shutdown order (sy_cache y) = (Inr sent, c)"
  shows "simulated sha y (deliver sent (y\<lparr>sy_cache := c\<rparr>))"
proof (cases "ci_shutdown (sy_cache y)")
  case True
  then have "sent = []" "c = sy_cache y" using shut by (auto simp: cache_shutdown_def abind_def aget_def areturn_def)
  then show ?thesis using ok by (simp add: simulated_def deliver_def lease_list_def)
next
  case False
  let ?keys = "order (bt_keys (ci_entries (sy_cache y)))"
  have "awp (\<lambda>_ _. True) (cache_shutdown order) (\<lambda>sent s'. cache_ok sha s' \<and> ci_shutdown s' \<and>
    (\<not> ci_shutdown (sy_cache y) \<longrightarrow> sent = fail_waiters (concat (map (loading_waiters (sy_cache y)) ?keys)) Shutdown \<and>
      bt_get (ci_entries s') = (\<lambda>k. Option.bind (bt_get (ci_entries (sy_cache y)) k) closed_entry))) (sy_cache y)"
    by (rule cache_shutdown_ok) (use ok order in auto)
  note sok = awp_Ok [OF this shut] and frame = awp_Ok [OF cache_shutdown_frame shut]
  have "protocol_steps sha (protocol_of y) (protocol_of (deliver sent (y\<lparr>sy_cache := c\<rparr>)))"
    by (rule shutdown_steps [OF ok False order]) (use sok frame False in auto)
  then show ?thesis using sok by (simp add: simulated_def)
qed

lemma drop_simulated:
  assumes ok: "system_ok sha y" and l: "l \<in> set (sy_leases y)"
    and drop: "release_lease (pl_key l) (pl_generation l) (sy_cache y) = (Inr (), c)"
  shows "simulated sha y (y\<lparr>sy_cache := c, sy_leases := remove1 l (sy_leases y)\<rparr>)"
proof -
  note cok = ok [unfolded system_ok_def, THEN conjunct1]
  have wf: "bt_wf (ci_entries (sy_cache y))" using cok by (simp add: cache_ok_def core_ok_def core_def)
  have "leases_ok sha (protocol_of y)" "l \<in># live (protocol_of y)"
    using ok l by (simp_all add: system_ok_def consistent_def live_def)
  from leases_okD(2) [OF this] obtain sl n where sl: "pages (sy_cache y) (pl_key l) = Some sl"
      "sl_generation sl = pl_generation l" "sl_holding sl = Holding (pl_page l) (Suc n)"
    by auto
  show ?thesis
    using awp_Ok [OF release_lease_view [OF wf sl] drop] awp_Ok [OF release_lease_ok [OF cok, of "\<lambda>_ _. True"] drop]
      release_steps [OF l sl, of c] by (simp add: simulated_def)
qed

lemma worker_step_simulated:
  assumes step: "worker_step sha alloc y y'" and ok: "system_ok sha y"
  shows "simulated sha y y'"
proof -
  note cok = ok [unfolded system_ok_def, THEN conjunct1]
  from step show ?thesis
  proof cases
    case (take rq r)
    then show ?thesis
      using cok by (auto simp: simulated_def protocol_of_def reader_recv_def split: list.splits if_splits option.splits)
  next
    case (finished rq k g env result stats outcome sent c)
    then show ?thesis using finish_simulated [OF ok finished(2-6)] by simp
  next
    case (answered rq)
    then show ?thesis
      using cok load_list_remove1_None [of rq "sy_running y"] by (simp add: simulated_def protocol_of_def load_of_def)
  qed
qed

lemma system_step_simulated:
  assumes step: "system_step sha alloc y y'" and ok: "system_ok sha y"
  shows "simulated sha y y'"
proof -
  note cok = ok [unfolded system_ok_def, THEN conjunct1] and con = ok [unfolded system_ok_def, THEN conjunct2]
  have core: "core_ok sha (sy_cache y)" and wf: "bt_wf (ci_entries (sy_cache y))"
    using cok by (simp_all add: cache_ok_def core_ok_def core_def)
  note got = get_enter_view [OF core] get_enter_ok [OF cok] and pre = prefetch_view [OF core] prefetch_ok [OF cok]
  from step show ?thesis
  proof cases
    case (get_hit runtime point spec l c)
    then show ?thesis
      using awp_Ok [OF got(1) get_hit(2)] awp_Ok [OF got(2) get_hit(2)] hit_steps by (simp add: simulated_def got_view_def)
  next
    case (get_wait runtime point spec g w c)
    then show ?thesis
      using awp_Ok [OF got(1) get_wait(2)] awp_Ok [OF got(2) get_wait(2)] join_steps start_demand_steps
      by (auto simp: simulated_def got_view_def)
  next
    case (get_error runtime point spec e c)
    then show ?thesis
      using awp_Err [OF got(1) get_error(2)] awp_Err [OF got(2) get_error(2)] by (simp add: simulated_quiet)
  next
    case (use k g c)
    have kept: "awp (\<lambda>_ _. True) (mark_prefetch_use k g) (\<lambda>_. cache_ok sha) (sy_cache y)" by (rule mark_prefetch_use_ok [OF cok])
    then show ?thesis
      using awp_Ok [OF mark_prefetch_use_view [OF wf] use(2)] awp_Ok [OF kept use(2)] use(1) by (simp add: simulated_quiet)
  next
    case (poll_pending w spec g point elapsed c)
    then have "c = sy_cache y"
      using check_at_cases [of point]
      by (auto simp: get_poll_def areturn_def afail_def athen_def abind_def split: prod.splits sum.splits)
    then show ?thesis using poll_pending(1) cok by (simp add: simulated_def)
  next
    case (poll_cancelled w spec g point elapsed e c)
    then show ?thesis using poll_simulated [OF cok poll_cancelled(4)] by simp
  next
    case (poll_received w spec g r point elapsed outcome c)
    then show ?thesis using poll_simulated [OF cok poll_received(4)] by simp
  next
    case (abandon w spec g)
    then show ?thesis using cok resolve_steps by (simp add: simulated_def)
  next
    case (withdraw_registration w k g c)
    have kept: "awp (\<lambda>_ _. True) (withdraw_waiter k g w) (\<lambda>_. cache_ok sha) (sy_cache y)" by (rule withdraw_waiter_ok [OF cok])
    then show ?thesis
      using awp_Ok [OF withdraw_waiter_view [OF wf] withdraw_registration(3)] awp_Ok [OF kept withdraw_registration(3)]
        withdraw_registration(1,2) withdraw_steps by (simp add: simulated_def withdrawn_view_def)
  next
    case (prefetched runtime point spec outcome c)
    then show ?thesis
      using awp_Ok [OF pre(1) prefetched(2)] awp_Ok [OF pre(2) prefetched(2)] start_prefetch_steps
      by (auto simp: simulated_def prefetched_view_def quiet_steps split: if_splits)
  next
    case (prefetch_error runtime point spec e c)
    then show ?thesis
      using awp_Err [OF pre(1) prefetch_error(2)] awp_Err [OF pre(2) prefetch_error(2)] by (simp add: simulated_quiet)
  next
    case work
    then show ?thesis using worker_step_simulated ok by blast
  next
    case (drop_lease l c)
    then show ?thesis using drop_simulated [OF ok drop_lease(2,3)] by simp
  next
    case (invalidated k b c)
    have kept: "awp (\<lambda>_ _. True) (invalidate k) (\<lambda>b s'. cache_ok sha s' \<and> b = (bt_get (ci_entries (sy_cache y)) k \<noteq> None)) (sy_cache y)"
      by (rule invalidate_ok [OF cok])
    then show ?thesis
      using awp_Ok [OF invalidate_view [OF wf] invalidated(2)] awp_Ok [OF kept invalidated(2)] invalidated(1) by (auto simp: simulated_quiet)
  next
    case (shut_down order sent c)
    then show ?thesis using shutdown_simulated [OF cok shut_down(2,3)] by simp
  next
    case (foreign_read point spec r)
    then show ?thesis
      using cok by (auto simp: simulated_def protocol_of_def submit_observed_def reader_submit_def split: if_splits)
  next
    case foreign_close
    then show ?thesis using cok by (simp add: simulated_def protocol_of_def reader_close_def)
  qed
qed

end
