(* ===== verification/Store_Guarantees.thy ===== *)
theory Store_Guarantees
  imports Store_System
begin

text \<open>
  What holds in every state the page cache can reach with its callers and workers: the invariants, the integrity of
  leases and answers, one load for a page that is awaited, that nobody waits in vain, that the workers come to
  an end with everybody answered, and what shutdown leaves.
\<close>

declare split_paired_All [simp del] split_paired_Ex [simp del]

section \<open>Reachable states\<close>

abbreviation foreign :: "request list \<Rightarrow> bool" where
  "foreign rqs \<equiv> \<forall>rq\<in>set rqs. rq_completion rq = Await"

inductive reachable :: "(u8 list \<Rightarrow> digest) \<Rightarrow> (usize \<Rightarrow> usize) \<Rightarrow> system \<Rightarrow> bool" for sha alloc where
  init: "cache_new reader config = Inr c \<Longrightarrow> cc_page_pool_capacity config \<le> u64_max \<Longrightarrow> foreign (ar_queue reader) \<Longrightarrow>
    foreign running \<Longrightarrow>
    reachable sha alloc \<lparr>sy_cache = c, sy_running = running, sy_waits = Map.empty, sy_inbox = [], sy_leases = []\<rparr>"
| step: "reachable sha alloc y \<Longrightarrow> system_step sha alloc y y' \<Longrightarrow> reachable sha alloc y'"

lemma load_list_foreign: "foreign rqs \<Longrightarrow> load_list rqs = []"
  by (induction rqs) (auto simp: load_of_def)

lemma cache_new_ok:
  assumes "cache_new reader config = Inr c" "cc_page_pool_capacity config \<le> u64_max"
  shows "cache_ok sha c" "ci_entries c = []" "ci_generation c = 0" "ci_waiter c = 0" "ci_reader c = reader"
  using assms
  by (auto simp: cache_new_def rbind_Inr_iff cache_ok_def core_ok_def core_def config_ok_def balanced_def within_def
      ledger_default_def gauged_def metrics_default_def)

lemma reachable_ok:
  assumes "reachable sha alloc y" shows "system_ok sha y"
  using assms
proof induction
  case (init reader config c running)
  have "protocol_of \<lparr>sy_cache = c, sy_running = running, sy_waits = Map.empty, sy_inbox = [], sy_leases = []\<rparr> = protocol_init"
    using cache_new_ok [OF init(1,2)] load_list_foreign [OF init(3)] load_list_foreign [OF init(4)]
    by (simp add: protocol_of_def protocol_init_def)
  then show ?case
    using cache_new_ok [OF init(1,2)] consistent_init by (simp add: system_ok_def)
next
  case (step y y')
  then show ?case
    using system_step_simulated [OF step(2,3)] consistent_steps [of sha "protocol_of y" "protocol_of y'"]
    by (simp add: simulated_def system_ok_def)
qed

lemma reachable_steps: "(system_step sha alloc)\<^sup>*\<^sup>* y y' \<Longrightarrow> reachable sha alloc y \<Longrightarrow> reachable sha alloc y'"
  by (induction rule: rtranclp_induct) (auto intro: step)

section \<open>Leases\<close>

definition leases_held :: "cache_inner \<Rightarrow> page_key \<Rightarrow> u64 \<Rightarrow> nat" where
  "leases_held c k g = (case bt_get (ci_entries c) k of None \<Rightarrow> 0 | Some e \<Rightarrow> if en_generation e = g then
     (case en_state e of Loading _ \<Rightarrow> 0 | Resident r \<Rightarrow> rp_leases r | Retiring r \<Rightarrow> rt_leases r) else 0)"

definition entry_page :: "entry \<Rightarrow> verified_page option" where
  "entry_page e = (case en_state e of Loading _ \<Rightarrow> None | Resident r \<Rightarrow> Some (rp_page r) | Retiring r \<Rightarrow> Some (rt_page r))"

text \<open>The leases in existence: those callers hold and those on their way in a channel.\<close>

definition live_leases :: "system \<Rightarrow> page_lease list" where
  "live_leases y = sy_leases y @ lease_list (sy_inbox y)"

lemma mset_live_leases: "mset (live_leases y) = live (protocol_of y)"
  by (simp add: live_leases_def live_def mset_lease_list)

lemma leases_held_view: "leases_held c k g = held (pages c k) g"
  by (auto simp: leases_held_def pages_of_def slot_of_def split: option.splits entry_state.splits)

lemma leased_list: "leased (mset ls) k g = length (filter (\<lambda>l. pl_key l = k \<and> pl_generation l = g) ls)"
  by (induction ls) auto

lemma lease_counts:
  assumes "reachable sha alloc y"
  shows "leases_held (sy_cache y) k g = length (filter (\<lambda>l. pl_key l = k \<and> pl_generation l = g) (live_leases y))"
  using leases_okD(1) [of sha "protocol_of y" k g] reachable_ok [OF assms]
  by (simp add: system_ok_def consistent_def leases_held_view leased_list flip: mset_live_leases)

lemma live_lease_entry:
  assumes "reachable sha alloc y" "l \<in> set (live_leases y)"
  shows "\<exists>e. bt_get (ci_entries (sy_cache y)) (pl_key l) = Some e \<and> en_generation e = pl_generation l \<and>
    entry_page e = Some (pl_page l) \<and> vp_key (pl_page l) = pl_key l \<and>
    sha (vp_bytes (pl_page l)) = en_fingerprint e \<and> length (vp_bytes (pl_page l)) = en_length e"
proof -
  have ok: "leases_ok sha (protocol_of y)" using reachable_ok [OF assms(1)] by (simp add: system_ok_def consistent_def)
  have "l \<in># live (protocol_of y)" using assms(2) by (simp flip: mset_live_leases)
  from leases_okD(2) [OF ok this] obtain sl n where sl: "pages (sy_cache y) (pl_key l) = Some sl"
      "sl_generation sl = pl_generation l" "sl_holding sl = Holding (pl_page l) (Suc n)"
    by auto
  then have "genuine sha (pl_key l) (sl_identity sl) (pl_page l)" using leases_okD(3) [OF ok, of "pl_key l" sl] by simp
  moreover obtain e where "bt_get (ci_entries (sy_cache y)) (pl_key l) = Some e" "sl = slot_of e"
    using sl(1) by (auto simp: pages_of_def)
  ultimately show ?thesis using sl(2,3) by (cases "en_state e") (auto simp: entry_page_def genuine_def)
qed

section \<open>Loads\<close>

abbreviation outstanding_loads :: "system \<Rightarrow> request list" where
  "outstanding_loads y \<equiv> filter (\<lambda>rq. rq_completion rq \<noteq> Await) (queue (sy_cache y) @ sy_running y)"

definition loading :: "cache_inner \<Rightarrow> page_key \<Rightarrow> bool" where
  "loading c k = (case bt_get (ci_entries c) k of Some e \<Rightarrow> (case en_state e of Loading _ \<Rightarrow> True | _ \<Rightarrow> False) | None \<Rightarrow> False)"

lemma length_load_list: "length (filter (\<lambda>x. fst x = k) (load_list rqs)) = length (filter (\<lambda>rq. \<exists>g. rq_completion rq = Detached k g) rqs)"
  by (induction rqs) (auto simp: load_of_def split: option.splits completion.splits)

lemma one_load:
  assumes "reachable sha alloc y"
  shows "length (filter (\<lambda>rq. \<exists>g. rq_completion rq = Detached k g) (queue (sy_cache y) @ sy_running y)) =
    (if loading (sy_cache y) k then 1 else 0)"
proof -
  have "filter_mset (\<lambda>x. fst x = k) (pr_loads (protocol_of y)) = outstanding k (pages (sy_cache y) k)"
    using loads_okD(1) [of "protocol_of y" k] reachable_ok [OF assms] by (simp add: system_ok_def consistent_def)
  then have "length (filter (\<lambda>x. fst x = k) (load_list (queue (sy_cache y) @ sy_running y))) = size (outstanding k (pages (sy_cache y) k))"
    by (metis mset_filter protocol_ofs(6) size_mset)
  then show ?thesis
    unfolding length_load_list
    by (auto simp: loading_def pages_of_def slot_of_def outstanding_def split: option.splits entry_state.splits)
qed

section \<open>Waiting callers\<close>

lemma waiting_caller:
  assumes "reachable sha alloc y" "sy_waits y w = Some (spec, g)"
  shows "(\<exists>r. (w, r) \<in> set (sy_inbox y)) \<or> w \<in> set (loading_waiters (sy_cache y) (sp_key spec)) \<and> loading (sy_cache y) (sp_key spec)"
proof -
  have "waits_ok sha (protocol_of y)" using reachable_ok [OF assms(1)] by (simp add: system_ok_def consistent_def)
  from waits_okD(2) [OF this, of w "(sp_key spec, g, spec_identity spec)"]
  have "answers (mset (sy_inbox y)) w = 1 \<or> w \<in># waiters (pages (sy_cache y) (sp_key spec))"
    using assms(2) by (simp add: answered_ok_def)
  then show ?thesis
  proof
    assume "answers (mset (sy_inbox y)) w = 1"
    then show ?thesis using answers_0_iff [of "mset (sy_inbox y)" w] by auto
  next
    assume "w \<in># waiters (pages (sy_cache y) (sp_key spec))"
    then show ?thesis
      by (auto simp: loading_waiters_def loading_def pages_of_def slot_of_def split: option.splits entry_state.splits)
  qed
qed

lemma answer_genuine:
  assumes "reachable sha alloc y" "sy_waits y w = Some (spec, g)" "(w, Inr l) \<in> set (sy_inbox y)"
  shows "pl_key l = sp_key spec \<and> vp_key (pl_page l) = sp_key spec \<and> sha (vp_bytes (pl_page l)) = sp_fingerprint spec \<and>
    length (vp_bytes (pl_page l)) = sp_length spec"
proof -
  have "waits_ok sha (protocol_of y)" using reachable_ok [OF assms(1)] by (simp add: system_ok_def consistent_def)
  from waits_okD(3) [OF this, of w "Inr l"] show ?thesis
    using assms(2,3) by (auto simp: answer_ok_def genuine_def)
qed

lemma one_answer:
  assumes "reachable sha alloc y" "(w, r) \<in> set (sy_inbox y)"
  shows "sy_waits y w \<noteq> None"
proof -
  have "waits_ok sha (protocol_of y)" using reachable_ok [OF assms(1)] by (simp add: system_ok_def consistent_def)
  from waits_okD(3) [OF this, of w r] show ?thesis using assms(2) by auto
qed

section \<open>Progress of the workers\<close>

text \<open>The worker steps that remain when nothing new is submitted.\<close>

definition backlog :: "system \<Rightarrow> nat" where
  "backlog y = 2 * length (queue (sy_cache y)) + length (sy_running y)"

lemma finish_keeps_reader:
  assumes "system_ok sha y" "rq \<in> set (sy_running y)" "rq_completion rq = Detached k g"
    "finish_observed_load k g outcome stats (sy_cache y) = (Inr sent, c)"
  shows "queue c = queue (sy_cache y)"
proof -
  note cok = assms(1) [unfolded system_ok_def, THEN conjunct1] and con = assms(1) [unfolded system_ok_def, THEN conjunct2]
  have wf: "bt_wf (ci_entries (sy_cache y))" using cok by (simp add: cache_ok_def core_ok_def core_def)
  obtain e l where e: "bt_get (ci_entries (sy_cache y)) k = Some e" "en_generation e = g" "en_state e = Loading l"
    using load_entry [OF con _ assms(3)] assms(2) by blast
  from awp_Ok [OF complete_load_view [OF wf e] assms(4)] show ?thesis by (simp add: settled_view_def)
qed

lemma deliver_frame [simp]: "sy_cache (deliver sent y) = sy_cache y" "sy_running (deliver sent y) = sy_running y"
  "sy_waits (deliver sent y) = sy_waits y"
  by (simp_all add: deliver_def)

lemma worker_step_backlog:
  assumes "worker_step sha alloc y y'" "system_ok sha y"
  shows "Suc (backlog y') = backlog y \<and> sy_waits y' = sy_waits y"
  using assms(1)
proof cases
  case (take rq r)
  then show ?thesis by (auto simp: backlog_def reader_recv_def split: list.splits if_splits)
next
  case (finished rq k g env result stats outcome sent c)
  then have "0 < length (sy_running y)" by (auto simp: length_pos_if_in_set)
  then show ?thesis
    using finish_keeps_reader [OF assms(2) finished(2,3,6)] finished(1,2) by (simp add: backlog_def length_remove1)
next
  case (answered rq)
  then have "0 < length (sy_running y)" by (auto simp: length_pos_if_in_set)
  then show ?thesis using answered by (simp add: backlog_def length_remove1)
qed

lemma finish_possible:
  assumes "system_ok sha y" "rq \<in> set (sy_running y)" "rq_completion rq = Detached k g"
    "read_observed sha alloc env (rq_spec rq) = Some (result, stats)"
  shows "\<exists>y'. worker_step sha alloc y y'"
proof -
  note cok = assms(1) [unfolded system_ok_def, THEN conjunct1] and con = assms(1) [unfolded system_ok_def, THEN conjunct2]
  obtain e l where e: "bt_get (ci_entries (sy_cache y)) k = Some e" "en_generation e = g" "en_state e = Loading l"
      "(en_fingerprint e, en_length e) = spec_identity (rq_spec rq)"
    using load_entry [OF con _ assms(3)] assms(2) by blast
  note read = read_observed_ok(1) [OF assms(4)]
  have "read_outcome result \<noteq> None"
    using read by (auto simp: read_outcome_def wp_def graceful_iff split: sum.splits failure.splits)
  then obtain outcome where outcome: "read_outcome result = Some outcome" by blast
  have page: "sha (vp_bytes p) = sp_fingerprint (rq_spec rq)" if "outcome = Inr p" for p
    using read outcome that by (auto simp: read_outcome_def split: sum.splits failure.splits)
  have "awp (\<lambda>_ _. False) (finish_observed_load k g outcome stats)
      (\<lambda>sent s'. cache_ok sha s' \<and> map fst sent = waiting_on (sy_cache y) k g) (sy_cache y)"
    by (rule finish_observed_load_ok [OF cok]) (use page e in auto)
  then obtain sent c where "finish_observed_load k g outcome stats (sy_cache y) = (Inr sent, c)"
    by (cases "finish_observed_load k g outcome stats (sy_cache y)"; cases "fst (finish_observed_load k g outcome stats (sy_cache y))")
      (auto simp: awp_def)
  from finished [OF assms(2-4) outcome this] show ?thesis by blast
qed

text \<open>A read always can come to an end: at the latest when its caller has cancelled it.\<close>

lemma read_can_end: "\<exists>env result stats. read_observed sha alloc env spec = Some (result, stats)"
proof -
  obtain env :: read_env where "check_at (re_check env) = fail Cancelled"
    by (auto simp: check_at_def control_check_def intro!: that [of "undefined\<lparr>re_check := (0, cancel unbounded)\<rparr>"]
        simp: cancel_def unbounded_def)
  then show ?thesis by (intro exI [of _ env]) (simp add: read_observed_def)
qed

lemma idle_workers:
  assumes "reachable sha alloc y" "\<nexists>y'. worker_step sha alloc y y'"
  shows "queue (sy_cache y) = []" "sy_running y = []"
proof -
  note ok = reachable_ok [OF assms(1)]
  show "queue (sy_cache y) = []"
    using assms(2) take [of y _ _ sha alloc] by (cases "queue (sy_cache y)") (auto simp: reader_recv_def)
  have False if "rq \<in> set (sy_running y)" for rq
  proof (cases "rq_completion rq")
    case Await
    then show ?thesis using answered [OF that] assms(2) by blast
  next
    case (Detached k g)
    then show ?thesis using finish_possible [OF ok that Detached] read_can_end [of sha alloc "rq_spec rq"] assms(2) by blast
  qed
  then show "sy_running y = []" by (cases "sy_running y") auto
qed

lemma workers_answer:
  assumes "reachable sha alloc y" "\<nexists>y'. worker_step sha alloc y y'" "sy_waits y w = Some (spec, g)"
  shows "\<exists>r. (w, r) \<in> set (sy_inbox y)"
  using waiting_caller [OF assms(1,3)] one_load [OF assms(1), of "sp_key spec"] idle_workers [OF assms(1,2)] by auto

lemma worker_run:
  assumes "(worker_step sha alloc ^^ n) y y'" "reachable sha alloc y"
  shows "reachable sha alloc y' \<and> n + backlog y' = backlog y \<and> sy_waits y' = sy_waits y"
  using assms(1)
proof (induction n arbitrary: y')
  case (Suc n)
  then obtain z where z: "(worker_step sha alloc ^^ n) y z" "worker_step sha alloc z y'" by auto
  then show ?case
    using Suc.IH [OF z(1)] worker_step_backlog [OF z(2)] reachable_ok [of sha alloc z] reachable.step [of sha alloc z y'] work [OF z(2)]
    by auto
qed (use assms(2) in auto)

section \<open>Shutdown\<close>

lemma shutdown_drained:
  assumes y: "reachable sha alloc y" and shut: "ci_shutdown (sy_cache y)" and idle: "outstanding_loads y = []" "live_leases y = []"
  shows "ci_entries (sy_cache y) = [] \<and> ci_ledger (sy_cache y) = ledger_default"
proof -
  let ?s = "sy_cache y"
  have ok: "cache_ok sha ?s" using reachable_ok [OF y] by (simp add: system_ok_def)
  note core = cache_ok_core [OF ok]
  have "bt_get (ci_entries ?s) k = None" for k
  proof (cases "bt_get (ci_entries ?s) k")
    case (Some e)
    note e = core_entry [OF core Some]
    have none: "leases_held ?s k (en_generation e) = 0" using lease_counts [OF y] idle(2) by simp
    have "\<not> loading ?s k"
    proof
      assume "loading ?s k"
      then have "filter (\<lambda>rq. \<exists>g. rq_completion rq = Detached k g) (queue ?s @ sy_running y) \<noteq> []"
        using one_load [OF y, of k] by auto
      then show False using idle(1) by (auto simp: filter_empty_conv)
    qed
    then show ?thesis
      using e none shut Some by (auto simp: entry_ok_def loading_def leases_held_def split: entry_state.splits)
  qed
  then have "ci_entries ?s = []" by (intro bt_ext [OF coreD(2) [OF core] bt_wf_Nil]) auto
  then show ?thesis using coreD(3) [OF core] by (simp add: balanced_def ledger_default_def)
qed

end
