(* ===== verification/Store_Sample.thy ===== *)
theory Store_Sample
  imports Store_Guarantees
begin

text \<open>
  A small concrete run of the page cache: one page of four bytes, a cache with room for one page, a caller that
  misses, waits, and gets its lease once a worker has read the page. It is where the properties are evaluated.
\<close>

declare split_paired_All [simp del] split_paired_Ex [simp del]

section \<open>A page\<close>

definition sample_sha :: "u8 list \<Rightarrow> digest" where
  "sample_sha bytes = take 32 (bytes @ replicate 32 0)"

definition sample_payload :: "u8 list" where
  "sample_payload = [1, 2, 3, 4]"

definition sample_object :: retained_object where
  "sample_object = \<lparr>
     ro_descriptor = \<lparr>or_digest = sample_sha sample_payload, or_length = 4, or_page_size = 65536,
       or_page_table = replicate 32 0, or_page_table_length = 96\<rparr>,
     ro_page_table = \<lparr>pt_bytes = replicate 64 0 @ sample_sha sample_payload, pt_page_size = 65536,
       pt_object_length = 4, pt_page_count = 1, pt_object_digest = sample_sha sample_payload\<rparr>\<rparr>"

definition sample_key :: page_key where
  "sample_key = (sample_sha sample_payload, 65536, 0)"

definition sample_spec :: page_spec where
  "sample_spec = \<lparr>sp_key = sample_key, sp_offset = 0, sp_length = 4, sp_fingerprint = sample_sha sample_payload,
     sp_object = sample_object\<rparr>"

definition now_free :: check_point where
  "now_free = (0, unbounded)"

definition sample_page :: verified_page where
  "sample_page = \<lparr>vp_key = sample_key, vp_bytes = sample_payload, vp_capacity = 64\<rparr>"

text \<open>An environment in which the file is read in two pieces, with an interruption between them.\<close>

definition sample_env :: read_env where
  "sample_env = \<lparr>re_check = now_free, re_initial_stat = Inr (True, 4),
     re_io = \<lparr>ri_first_check = now_free,
       ri_steps = map (\<lambda>r. \<lparr>rs_check = now_free, rs_response = r, rs_interrupt_check = now_free\<rparr>)
         [PreadOk [1], PreadInterrupted, PreadOk [2, 3, 4]],
       ri_last_check = now_free\<rparr>,
     re_nanoseconds = 7, re_final_stat = Inr (True, 4), re_hash_checks = (\<lambda>_. now_free), re_publish_check = now_free\<rparr>"

lemma sample_length_sha [simp]: "length (sample_sha bytes) = 32"
  by (simp add: sample_sha_def)

lemma now_free_check [simp]: "check_at now_free = Ok ()"
  by (simp add: check_at_def now_free_def control_check_def unbounded_def)

lemma sample_for_object: "for_object sample_object 0 = Ok sample_spec"
  by (simp add: for_object_def sample_object_def sample_spec_def sample_key_def checked_mul_def checked_sub_def
      page_hash_def checked_add_def slice_get_def PAGE_TABLE_HEADER_BYTES_def u64_max_def)

lemma sample_valid: "validate_specification sample_spec = Ok ()"
  by (simp add: validate_specification_def sample_object_def sample_spec_def sample_key_def checked_mul_def checked_sub_def
      page_hash_def checked_add_def slice_get_def PAGE_TABLE_HEADER_BYTES_def u64_max_def)

lemma sample_zeroes: "replicate 4 (0 :: u8) = [0, 0, 0, 0]"
  by (simp add: numeral_eq_Suc)

lemma sample_read:
  "read_observed sample_sha (\<lambda>n. n) sample_env sample_spec =
     Some (Ok sample_page, \<lparr>st_physical_bytes = 4, st_io_nanoseconds = 7\<rparr>)"
  by (simp add: read_observed_def sample_valid)
    (simp add: sample_env_def sample_spec_def sample_object_def expect_object_length_def metadata_len_regular_def
      read_exact_at_observed_def aligned_page_buffer_bytes_def checked_add_def PAGE_BUFFER_ALIGNMENT_def u64_max_def
      READ_CHUNK_BYTES_def saturating_add_def sample_zeroes verify_bytes_def chunks.simps sample_payload_def sample_page_def)

section \<open>A run\<close>

definition sample_config :: cache_config where
  "sample_config = \<lparr>cc_page_pool_capacity = 64, cc_max_page_bytes = 64, cc_max_inflight_bytes = 64, cc_max_entries = 2,
     cc_max_loads = 1, cc_max_waiters = 2, cc_max_waiters_per_page = 2, cc_max_leases = 2, cc_trace_capacity = 8\<rparr>"

definition sample_reader :: "request list \<Rightarrow> async_reader" where
  "sample_reader requests = \<lparr>ar_accepting = True, ar_sender = True, ar_receivers = True, ar_capacity = 1, ar_queue = requests\<rparr>"

definition sample_request :: request where
  "sample_request = \<lparr>rq_spec = sample_spec, rq_completion = Detached sample_key 1\<rparr>"

definition sample_empty :: cache_inner where
  "sample_empty = \<lparr>ci_reader = sample_reader [], ci_config = sample_config, ci_entries = [], ci_ledger = ledger_default,
     ci_generation = 0, ci_waiter = 0, ci_tick = 0, ci_shutdown = False, ci_metrics = metrics_default, ci_trace = []\<rparr>"

definition sample_entry :: "entry_state \<Rightarrow> entry" where
  "sample_entry state = \<lparr>en_fingerprint = sample_sha sample_payload, en_length = 4, en_allocation_bytes = 64,
     en_generation = 1, en_state = state\<rparr>"

definition sample_waiting :: "request list \<Rightarrow> cache_inner" where
  "sample_waiting requests = \<lparr>ci_reader = sample_reader requests, ci_config = sample_config,
     ci_entries = [(sample_key, sample_entry (Loading \<lparr>le_waiters = [1], le_cancelled = False, le_origin = Demand,
        le_prefetch_interest = False, le_accepting_waiters = True, le_last_touch = 1\<rparr>))],
     ci_ledger = \<lparr>lg_page_pool_bytes = 64, lg_inflight_bytes = 64, lg_resident_bytes = 0, lg_retiring_bytes = 0,
        lg_active_loads = 1, lg_waiters = 1, lg_lease_reservations = 1, lg_leases = 0\<rparr>,
     ci_generation = 1, ci_waiter = 1, ci_tick = 1, ci_shutdown = False,
     ci_metrics = metrics_default\<lparr>mt_demand_bytes := 4, mt_misses := 1, mt_active_loads := 1, mt_page_pool_bytes := 64,
        mt_inflight_bytes := 64\<rparr>,
     ci_trace = [(Miss, Demand, sample_key, 4), (LoadStarted, Demand, sample_key, 4)]\<rparr>"

definition sample_lease :: page_lease where
  "sample_lease = \<lparr>pl_page = sample_page, pl_key = sample_key, pl_generation = 1\<rparr>"

definition sample_loaded :: cache_inner where
  "sample_loaded = \<lparr>ci_reader = sample_reader [], ci_config = sample_config,
     ci_entries = [(sample_key, sample_entry (Resident \<lparr>rp_page = sample_page, rp_leases = 1, rp_prefetched_unused = False,
        rp_last_touch = 1\<rparr>))],
     ci_ledger = \<lparr>lg_page_pool_bytes = 64, lg_inflight_bytes = 0, lg_resident_bytes = 64, lg_retiring_bytes = 0,
        lg_active_loads = 0, lg_waiters = 0, lg_lease_reservations = 0, lg_leases = 1\<rparr>,
     ci_generation = 1, ci_waiter = 1, ci_tick = 1, ci_shutdown = False,
     ci_metrics = metrics_default\<lparr>mt_demand_bytes := 4, mt_misses := 1, mt_physical_read_bytes := 4, mt_io_nanoseconds := 7,
        mt_admissions := 1, mt_page_pool_bytes := 64, mt_resident_bytes := 64, mt_leases := 1\<rparr>,
     ci_trace = [(Miss, Demand, sample_key, 4), (LoadStarted, Demand, sample_key, 4), (Admitted, Demand, sample_key, 4)]\<rparr>"

lemma sample_new: "cache_new (sample_reader []) sample_config = Ok sample_empty"
  by (simp add: cache_new_def sample_empty_def sample_config_def config_validate_def max_page_allocation_def
      aligned_page_buffer_bytes_def checked_add_def PAGE_BUFFER_ALIGNMENT_def u64_max_def MAX_ENTRIES_def MAX_LOADS_def
      MAX_WAITERS_def MAX_WAITERS_PER_PAGE_def MAX_LEASES_def TRACE_MAX_CAPACITY_def)

lemmas action_defs = athen_def abind_def alift_def aget_def amodify_def areturn_def afail_def azoom_def acatch_def aassert_def

lemmas metric_defs = add_demand_bytes_def add_physical_read_bytes_def add_io_nanoseconds_def add_wait_nanoseconds_def
  count_miss_def count_admission_def set_live_def metric_add_def saturating_add_def metrics_default_def

lemmas cache_defs = meter_def observe_def put_entry_def drop_entry_def find_entry_def charge_def ledger_add_def ledger_sub_def
  update_live_metrics_def next_generation_def next_waiter_def next_tick_def add_u64_def sub_u64_def
  checked_add_def checked_sub_def u64_max_def

lemma sample_allocation: "validate_spec sample_config sample_spec = Ok 64"
  by (simp add: validate_spec_def sample_config_def sample_spec_def allocation_bytes_def aligned_page_buffer_bytes_def
      checked_add_def PAGE_BUFFER_ALIGNMENT_def u64_max_def)

lemma sample_get: "get_enter True now_free sample_spec sample_empty = (Ok (Registered 1 1), sample_waiting [sample_request])"
  by (simp add: get_enter_def action_defs metric_defs cache_defs sample_empty_def get_section_def get_absent_def
      sample_allocation [unfolded sample_config_def sample_spec_def, simplified]
      reserve_waiter_def lease_slots_full_def ledger_default_def sample_config_def reserve_load_def candidates_def Let_def bt_get_def List.map_filter_simps
      loading_entry_for_def submit_load_def submit_observed_def reader_submit_def sample_reader_def unbounded_def
      check_at_def control_check_def sample_waiting_def sample_entry_def sample_spec_def sample_request_def now_free_def)

lemma sample_finish:
  "finish_observed_load sample_key 1 (Inr sample_page) \<lparr>st_physical_bytes = 4, st_io_nanoseconds = 7\<rparr> (sample_waiting []) =
     (Ok [(1, Inr sample_lease)], sample_loaded)"
  by (simp add: finish_observed_load_def complete_load_def settle_load_def admit_page_def page_fits_def lease_of_def action_defs
      metric_defs cache_defs bt_get_def bt_remove_def sample_waiting_def sample_loaded_def sample_entry_def sample_lease_def sample_page_def sample_payload_def)

lemma sample_poll:
  "get_poll now_free 3 sample_spec 1 1 (WaitReceived (Inr sample_lease)) sample_loaded =
     (Ok (Ready sample_lease), sample_loaded\<lparr>ci_metrics := add_wait_nanoseconds 3 (ci_metrics sample_loaded)\<rparr>)"
  by (simp add: get_poll_def action_defs meter_def u64_max_def)

text \<open>The states of the system: created, with a caller waiting, with its load running, answered, and with the lease held.\<close>

definition sample_created :: system where
  "sample_created = \<lparr>sy_cache = sample_empty, sy_running = [], sy_waits = Map.empty, sy_inbox = [], sy_leases = []\<rparr>"

definition sample_queued :: system where
  "sample_queued = sample_created\<lparr>sy_cache := sample_waiting [sample_request], sy_waits := [1 \<mapsto> (sample_spec, 1)]\<rparr>"

definition sample_running :: system where
  "sample_running = sample_queued\<lparr>sy_cache := sample_waiting [], sy_running := [sample_request]\<rparr>"

definition sample_answered :: system where
  "sample_answered = sample_running\<lparr>sy_cache := sample_loaded, sy_running := [], sy_inbox := [(1, Inr sample_lease)]\<rparr>"

definition sample_leased :: system where
  "sample_leased = sample_created\<lparr>sy_cache := sample_loaded\<lparr>ci_metrics := add_wait_nanoseconds 3 (ci_metrics sample_loaded)\<rparr>,
     sy_leases := [sample_lease]\<rparr>"

lemmas sample_system_defs = sample_created_def sample_queued_def sample_running_def sample_answered_def sample_leased_def

lemma sample_reachable_created: "reachable sample_sha (\<lambda>n. n) sample_created"
  unfolding sample_created_def
  by (rule reachable.init [OF sample_new]) (simp_all add: sample_config_def u64_max_def sample_reader_def)

lemma sample_step_queued: "system_step sample_sha (\<lambda>n. n) sample_created sample_queued"
  using get_wait [of True now_free sample_spec sample_created 1 1 "sample_waiting [sample_request]" sample_sha "\<lambda>n. n"] sample_get
  by (simp add: sample_system_defs)

lemma sample_step_running: "worker_step sample_sha (\<lambda>n. n) sample_queued sample_running"
  using take [of sample_queued sample_request "sample_reader []" sample_sha "\<lambda>n. n"]
  by (simp add: sample_system_defs sample_waiting_def reader_recv_def sample_reader_def)

lemma sample_step_answered: "worker_step sample_sha (\<lambda>n. n) sample_running sample_answered"
  using finished [of sample_request sample_running sample_key 1 sample_sha "\<lambda>n. n" sample_env "Ok sample_page"
      "\<lparr>st_physical_bytes = 4, st_io_nanoseconds = 7\<rparr>" "Inr sample_page" "[(1, Inr sample_lease)]" sample_loaded]
    sample_read sample_finish
  by (simp add: sample_system_defs sample_request_def read_outcome_def deliver_def lease_list_def)

lemma sample_step_leased: "system_step sample_sha (\<lambda>n. n) sample_answered sample_leased"
proof -
  have "sy_cache sample_answered = sample_loaded" by (simp add: sample_system_defs)
  note poll = sample_poll [folded this]
  have "system_step sample_sha (\<lambda>n. n) sample_answered
      (resolve_wait 1 (sample_answered\<lparr>sy_cache := sample_loaded\<lparr>ci_metrics := add_wait_nanoseconds 3 (ci_metrics sample_loaded)\<rparr>\<rparr>))"
    by (rule poll_received [where r = "Inr sample_lease" and spec = sample_spec and g = 1])
      (use poll in \<open>simp_all add: sample_system_defs\<close>)
  then show ?thesis by (simp add: sample_system_defs resolve_wait_def lease_list_def)
qed

lemma sample_reachable:
  "reachable sample_sha (\<lambda>n. n) sample_queued" "reachable sample_sha (\<lambda>n. n) sample_running"
  "reachable sample_sha (\<lambda>n. n) sample_answered" "reachable sample_sha (\<lambda>n. n) sample_leased"
  using sample_reachable_created sample_step_queued work [OF sample_step_running] work [OF sample_step_answered] sample_step_leased
  by (blast intro: reachable.step)+

end
