(* ===== verification/Store_Specs.thy ===== *)
theory Store_Specs
  imports Store_Read
begin

text \<open>
  Page specifications: those of an object with a verified page table name its pages one after the other, pass the
  reader's own validation, and cover every byte; those of a tensor cover the tensor. A page the reader returns for
  such a specification has the hash of the page of the verified object.
\<close>

section \<open>One specification\<close>

lemma ceil_div_less: "0 < n \<Longrightarrow> i < ceil_div m n \<longleftrightarrow> i * n < m"
proof -
  assume n: "0 < n"
  have "i < ceil_div m n \<longleftrightarrow> Suc i * n \<le> m + (n - 1)"
    unfolding ceil_div_def using n by (simp add: Suc_le_eq [symmetric] less_eq_div_iff_mult_less_eq)
  also have "\<dots> \<longleftrightarrow> i * n < m" using n by auto
  finally show ?thesis .
qed

definition spec_at :: "retained_object \<Rightarrow> nat \<Rightarrow> page_spec" where
  "spec_at object i =
     (let r = ro_descriptor object; t = ro_page_table object in
      \<lparr>sp_key = (or_digest r, or_page_size r, i), sp_offset = i * or_page_size r,
       sp_length = min (or_length r - i * or_page_size r) (or_page_size r),
       sp_fingerprint = take 32 (drop (64 + 32 * i) (pt_bytes t)), sp_object = object\<rparr>)"

definition wf_retained :: "retained_object \<Rightarrow> bool" where
  "wf_retained object \<longleftrightarrow> wf_table (ro_descriptor object) (ro_page_table object) \<and>
     0 < or_page_size (ro_descriptor object) \<and> or_length (ro_descriptor object) \<le> u64_max"

lemma wf_retained_offset:
  assumes "wf_retained object" "i < pt_page_count (ro_page_table object)"
  shows "i * or_page_size (ro_descriptor object) < or_length (ro_descriptor object)"
  using assms by (simp add: wf_retained_def wf_table_def ceil_div_less)

lemma for_object_wf:
  assumes "wf_retained object"
  shows "for_object object i = (if i < pt_page_count (ro_page_table object) then Ok (spec_at object i)
     else fail (PageOutOfRange i (pt_page_count (ro_page_table object))))"
proof (cases "i < pt_page_count (ro_page_table object)")
  case True
  then show ?thesis
    using wf_retained_offset [OF assms True] assms page_hash_table [of "ro_descriptor object" "ro_page_table object" i]
    by (simp add: for_object_def wf_retained_def spec_at_def Let_def checked_mul_def checked_sub_def mult.commute)
qed (simp add: for_object_def)

lemma spec_at_valid:
  assumes "wf_retained object" "i < pt_page_count (ro_page_table object)"
  shows "validate_specification (spec_at object i) = Ok ()"
  using wf_retained_offset [OF assms] assms page_hash_table [of "ro_descriptor object" "ro_page_table object" i]
  by (simp add: validate_specification_def wf_retained_def wf_table_def spec_at_def Let_def checked_mul_def checked_sub_def
      mult.commute)

section \<open>All of them\<close>

text \<open>Byte \<open>b\<close> of the object is in the page with index \<open>b div page_size\<close> and in no other.\<close>

lemma spec_at_byte:
  assumes "wf_retained object" "b < or_length (ro_descriptor object)"
  shows "sp_offset (spec_at object i) \<le> b \<and> b < sp_offset (spec_at object i) + sp_length (spec_at object i)
    \<longleftrightarrow> i = b div or_page_size (ro_descriptor object)"
    "b div or_page_size (ro_descriptor object) < pt_page_count (ro_page_table object)"
proof -
  let ?n = "or_page_size (ro_descriptor object)"
  have n: "0 < ?n" using assms(1) by (simp add: wf_retained_def)
  have "i * ?n \<le> b \<and> b < i * ?n + ?n \<longleftrightarrow> i = b div ?n"
    using n dividend_less_div_times [OF n, of b] by (auto intro: div_nat_eqI [symmetric] simp: mult.commute)
  then show "sp_offset (spec_at object i) \<le> b \<and> b < sp_offset (spec_at object i) + sp_length (spec_at object i) \<longleftrightarrow> i = b div ?n"
    using assms(2) by (auto simp: spec_at_def Let_def)
  show "b div ?n < pt_page_count (ro_page_table object)"
    using assms n by (simp add: wf_retained_def wf_table_def ceil_div_less) (meson div_times_less_eq_dividend le_less_trans)
qed

lemma spec_at_page:
  assumes "length bytes = or_length (ro_descriptor object)"
  shows "page_of (or_page_size (ro_descriptor object)) bytes i =
    take (sp_length (spec_at object i)) (drop (sp_offset (spec_at object i)) bytes)"
proof -
  have "take n xs = take (min (length xs) n) xs" for n and xs :: "'a list" by (simp add: min_def)
  then show ?thesis unfolding page_of_def spec_at_def Let_def using assms by (metis length_drop page_spec.select_convs(2,3))
qed

lemma concat_page_range: "concat (map (page_of n xs) [a..<a + k]) = take (k * n) (drop (a * n) xs)"
proof (induction k)
  case (Suc k)
  have "take (k * n) (drop (a * n) xs) @ page_of n xs (a + k) = take (k * n + n) (drop (a * n) xs)"
    unfolding page_of_def take_add drop_drop by (simp add: distrib_right add.commute)
  then show ?case using Suc by (simp add: add.commute)
qed simp

text \<open>A range of bytes, cut out of the pages it touches.\<close>

lemma pages_of_range:
  assumes "0 < n" "0 < len"
  shows "take len (drop (offset mod n) (concat (map (page_of n xs) [offset div n..<Suc ((offset + len - 1) div n)]))) =
    take len (drop offset xs)"
proof -
  let ?a = "offset div n" and ?b = "(offset + len - 1) div n"
  have le: "?a \<le> ?b" using assms(2) by (intro div_le_mono) simp
  have "(Suc ?b - ?a) * n + offset div n * n = Suc ?b * n" using le by (simp flip: distrib_right del: mult_Suc)
  moreover have "offset + len \<le> Suc ?b * n"
    using dividend_less_div_times [OF assms(1), of "offset + len - 1"] assms(2) by (simp add: mult.commute)
  ultimately have enough: "offset mod n + len \<le> (Suc ?b - ?a) * n" using div_mult_mod_eq [of offset n] by linarith
  have "concat (map (page_of n xs) [?a..<Suc ?b]) = take ((Suc ?b - ?a) * n) (drop (?a * n) xs)"
    using concat_page_range [of n xs ?a "Suc ?b - ?a"] le by (simp del: upt_Suc)
  then have "take len (drop (offset mod n) (concat (map (page_of n xs) [?a..<Suc ?b]))) =
      take len (drop (offset mod n) (drop (?a * n) xs))"
    using enough by (simp add: drop_take min_absorb1 del: upt_Suc)
  then show ?thesis by (simp add: add.commute mod_div_mult_eq)
qed

text \<open>The pages of a verified object have the fingerprints of its specifications.\<close>

lemma verified_fingerprint:
  assumes "verified_object sha r v" "i < pt_page_count (vo_page_table v)"
  shows "sp_fingerprint (spec_at \<lparr>ro_descriptor = r, ro_page_table = vo_page_table v\<rparr> i) =
    sha (page_of (or_page_size r) (vo_bytes v) i)"
  using assms page_hash_table [of r "vo_page_table v" i] by (auto simp: verified_object_def spec_at_def Let_def)

section \<open>Tensors\<close>

definition wf_stored :: "limits \<Rightarrow> stored_artifact \<Rightarrow> bool" where
  "wf_stored limits a \<longleftrightarrow> wf_manifest limits (sa_manifest a) \<and> lm_object_bytes limits \<le> u64_max \<and>
     (\<forall>r\<in>set (mf_objects (sa_manifest a)). \<exists>object.
        bt_get (sa_objects a) (or_digest r) = Some object \<and> ro_descriptor object = r \<and> wf_table r (ro_page_table object))"

lemma tensor_page_specs_ok:
  assumes a: "wf_stored limits a" and i: "i < length (mf_tensors (sa_manifest a))"
  defines "t \<equiv> mf_tensors (sa_manifest a) ! i"
  obtains object where "wf_retained object" "bt_get (sa_objects a) (tr_object t) = Some object"
    "tr_offset t + tr_length t \<le> or_length (ro_descriptor object)" "0 < tr_length t"
    "tensor_page_specs a i = Ok (map (\<lambda>k. Ok (spec_at object k))
       [tr_offset t div or_page_size (ro_descriptor object)..<
        Suc ((tr_offset t + tr_length t - 1) div or_page_size (ro_descriptor object))])"
proof -
  have "wf_tensor (mf_objects (sa_manifest a)) i t"
    using a i by (simp add: wf_stored_def wf_manifest_def wf_tensors_def t_def)
  then obtain r where t: "tr_id t = i" "0 < tr_length t" and r: "r \<in> set (mf_objects (sa_manifest a))" "or_digest r = tr_object t"
      "tr_offset t + tr_length t \<le> or_length r"
    by (auto simp: wf_tensor_def)
  from a r(1) obtain object where obj: "bt_get (sa_objects a) (or_digest r) = Some object" "ro_descriptor object = r"
      "wf_table r (ro_page_table object)" by (auto simp: wf_stored_def)
  have objects: "wf_objects limits (mf_objects (sa_manifest a))" "lm_object_bytes limits \<le> u64_max"
    using a by (simp_all add: wf_stored_def wf_manifest_def)
  then have "or_length r \<le> lm_object_bytes limits" using r(1) by (simp add: wf_objects_def wf_object_def)
  then have wf: "wf_retained object"
    using objects obj(2,3) wf_objects_page_size [OF objects(1) r(1)] by (simp add: wf_retained_def)
  let ?n = "or_page_size r"
  have range: "k < pt_page_count (ro_page_table object)" if "k \<in> set [tr_offset t div ?n..<Suc ((tr_offset t + tr_length t - 1) div ?n)]" for k
  proof -
    have "k \<le> (tr_offset t + tr_length t - 1) div ?n" using that by auto
    moreover have "(tr_offset t + tr_length t - 1) div ?n < pt_page_count (ro_page_table object)"
      using spec_at_byte(2) [OF wf, of "tr_offset t + tr_length t - 1"] t(2) r(3) obj(2) by simp
    ultimately show ?thesis by simp
  qed
  have "or_length r \<le> u64_max" "0 < ?n" using wf obj(2) by (simp_all add: wf_retained_def)
  then have "tensor_page_specs a i = Ok (map (for_object object) [tr_offset t div ?n..<Suc ((tr_offset t + tr_length t - 1) div ?n)])"
    using i t r(2,3) obj(1,2)
    by (simp add: tensor_page_specs_def t_def [symmetric] Let_def checked_add_def checked_sub_def del: upt_Suc)
  also have "map (for_object object) [tr_offset t div ?n..<Suc ((tr_offset t + tr_length t - 1) div ?n)] =
      map (\<lambda>k. Ok (spec_at object k)) [tr_offset t div ?n..<Suc ((tr_offset t + tr_length t - 1) div ?n)]"
    using range by (intro map_cong) (simp_all add: for_object_wf [OF wf] del: upt_Suc)
  finally show thesis using that [OF wf] r(2,3) t(2) obj(1,2) by simp
qed

end
