(* ===== verification/Store_Honest.thy ===== *)
theory Store_Honest
  imports Store_Specs
begin

text \<open>
  What the page reader returns when the operating system does its part: short reads and interruptions are allowed, in
  any pattern, as long as every transfer delivers bytes of the file from the position asked for. Then the page comes
  back, with exactly the bytes of the file.
\<close>

text \<open>The answers to the reads of one loop, from the position reached so far, until nothing is left to read.\<close>

fun delivers :: "u8 list \<Rightarrow> nat \<Rightarrow> nat \<Rightarrow> nat \<Rightarrow> read_step list \<Rightarrow> bool" where
  "delivers file offset len filled [] \<longleftrightarrow> len \<le> filled"
| "delivers file offset len filled (s # steps) \<longleftrightarrow> len \<le> filled \<or> check_at (rs_check s) = Ok () \<and>
     (case rs_response s of
        PreadOk v \<Rightarrow> v \<noteq> [] \<and> (\<exists>n. v = take n (drop (offset + filled) file)) \<and>
          delivers file offset len (filled + length (take (min (saturating_add filled READ_CHUNK_BYTES) len - filled) v)) steps
      | PreadInterrupted \<Rightarrow> check_at (rs_interrupt_check s) = Ok () \<and> delivers file offset len filled steps
      | PreadError _ \<Rightarrow> False)"

lemma take_drop_append: "take n xs @ take m (drop n xs) = take (n + m) xs"
  by (simp add: take_add)

lemma take_prefix: "xs = take k ys \<Longrightarrow> xs = take (length xs) ys"
  by (auto simp: min_def)

lemma prefix_bytes:
  assumes "take filled bytes = take filled part" "t = take (length t) (drop filled part)" "filled \<le> length bytes" "filled \<le> length part"
  shows "take (filled + length t) (take filled bytes @ t @ rest) = take (filled + length t) part"
proof -
  have "take (filled + length t) (take filled bytes @ t @ rest) = take filled part @ t" using assms(1,3,4) by simp
  also have "\<dots> = take filled part @ take (length t) (drop filled part)" using assms(2) by simp
  finally show ?thesis by (simp add: take_drop_append)
qed

lemma read_loop_delivers:
  assumes "delivers file offset (length bytes) filled steps" "filled \<le> length bytes" "offset + length bytes \<le> length file"
    "take filled bytes = take filled (drop offset file)" "offset + length bytes \<le> u64_max"
  shows "read_loop kind len offset bytes filled steps = Some (Ok (take (length bytes) (drop offset file)), length bytes)"
  using assms
proof (induction steps arbitrary: bytes filled)
  case Nil
  then show ?case by simp
next
  case (Cons s steps)
  show ?case
  proof (cases "filled < length bytes")
    case False
    then show ?thesis using Cons.prems by simp
  next
    case True
    then have check: "check_at (rs_check s) = Ok ()" using Cons.prems(1) by simp
    show ?thesis
    proof (cases "rs_response s")
      case (PreadOk v)
      let ?t = "take (min (saturating_add filled READ_CHUNK_BYTES) (length bytes) - filled) v"
      let ?bytes = "take filled bytes @ ?t @ drop (filled + length ?t) bytes"
      have "v \<noteq> [] \<and> (\<exists>n. v = take n (drop (offset + filled) file)) \<and> delivers file offset (length bytes) (filled + length ?t) steps"
        using Cons.prems(1) True PreadOk by (simp del: length_take)
      then obtain n where v: "v \<noteq> []" "v = take n (drop (offset + filled) file)"
        and more: "delivers file offset (length bytes) (filled + length ?t) steps" by blast
      have "filled < saturating_add filled READ_CHUNK_BYTES"
        using True Cons.prems(3,5) by (simp add: saturating_add_def READ_CHUNK_BYTES_def u64_max_def)
      with True v(1) have t: "?t \<noteq> []" by simp
      note chunk = read_loop_chunk [OF True refl, of v]
      have "?t = take (length ?t) (drop filled (drop offset file))"
        using v(2) by (intro take_prefix) (simp add: add.commute)
      then have same: "take (filled + length ?t) ?bytes = take (filled + length ?t) (drop offset file)"
        using Cons.prems(2,3,4) by (intro prefix_bytes) auto
      have "read_loop kind len offset ?bytes (filled + length ?t) steps = Some (Ok (take (length ?bytes) (drop offset file)), length ?bytes)"
        by (rule Cons.IH [OF _ _ _ same]; unfold chunk(2)) (fact more chunk(1) Cons.prems)+
      note onward = this [unfolded chunk(2)]
      show ?thesis
        using True check PreadOk t chunk(1) Cons.prems(3,5) onward by (simp add: Let_def checked_add_def del: length_take)
    next
      case PreadInterrupted
      then show ?thesis
        using True check Cons.prems Cons.IH [of bytes filled] by (simp add: Let_def checked_add_def)
    next
      case (PreadError message)
      then show ?thesis using True Cons.prems(1) by simp
    qed
  qed
qed

text \<open>An environment in which the object file is there, regular, of its length, and nobody cancels.\<close>

definition honest :: "u8 list \<Rightarrow> page_spec \<Rightarrow> read_env \<Rightarrow> bool" where
  "honest file spec env \<longleftrightarrow> check_at (re_check env) = Ok () \<and>
     re_initial_stat env = Inr (True, int (length file)) \<and> re_final_stat env = Inr (True, int (length file)) \<and>
     check_at (ri_first_check (re_io env)) = Ok () \<and> check_at (ri_last_check (re_io env)) = Ok () \<and>
     (\<forall>i. check_at (re_hash_checks env i) = Ok ()) \<and> check_at (re_publish_check env) = Ok () \<and>
     delivers file (sp_offset spec) (sp_length spec) 0 (ri_steps (re_io env))"

lemma hash_checks_Ok: "(\<And>i. check_at (f i) = Ok ()) \<Longrightarrow> rfold (\<lambda>i _. check_at (f i)) is () = Ok ()"
  by (induction "is") auto

lemma read_observed_honest:
  assumes obj: "wf_retained object" "i < pt_page_count (ro_page_table object)"
    and whole: "length file = or_length (ro_descriptor object)" "or_length (ro_descriptor object) + 63 \<le> u64_max"
    and env: "honest file (spec_at object i) env"
    and hash: "sha (page_of (or_page_size (ro_descriptor object)) file i) = sp_fingerprint (spec_at object i)"
  shows "\<exists>capacity stats. read_observed sha alloc env (spec_at object i) =
    Some (Ok \<lparr>vp_key = sp_key (spec_at object i), vp_bytes = page_of (or_page_size (ro_descriptor object)) file i,
      vp_capacity = capacity\<rparr>, stats) \<and> st_physical_bytes stats = sp_length (spec_at object i)"
proof -
  let ?spec = "spec_at object i" and ?r = "ro_descriptor object"
  have "i * or_page_size ?r < or_length ?r" by (rule wf_retained_offset [OF obj])
  then have fits: "sp_offset ?spec + sp_length ?spec \<le> or_length ?r" by (simp add: spec_at_def Let_def)
  have stat: "expect_object_length ?spec (Inr (True, int (length file))) = Ok ()"
    using whole by (simp add: expect_object_length_def metadata_len_regular_def spec_at_def Let_def)
  have loop: "read_loop ''page'' (sp_length ?spec) (sp_offset ?spec) (replicate (sp_length ?spec) 0) 0 (ri_steps (re_io env)) =
      Some (Ok (take (sp_length ?spec) (drop (sp_offset ?spec) file)), sp_length ?spec)"
    using read_loop_delivers [of "file" "sp_offset ?spec" "replicate (sp_length ?spec) 0" 0 "ri_steps (re_io env)"] env fits whole
    by (simp add: honest_def)
  have "\<exists>a. aligned_page_buffer_bytes (sp_length ?spec) = Ok a"
    using fits whole(2) by (simp add: aligned_page_buffer_bytes_def checked_add_def PAGE_BUFFER_ALIGNMENT_def)
  then obtain a where a: "aligned_page_buffer_bytes (sp_length ?spec) = Ok a" by blast
  have page: "take (sp_length ?spec) (drop (sp_offset ?spec) file) = page_of (or_page_size ?r) file i"
    using spec_at_page [OF whole(1)] by simp
  show ?thesis
    using env stat loop a hash hash_checks_Ok [of "re_hash_checks env"]
    by (simp add: read_observed_def spec_at_valid [OF obj] honest_def read_exact_at_observed_def verify_bytes_def page)
qed

end
