(* ===== verification/Store_Lru.thy ===== *)
theory Store_Lru
  imports Store_Cache_Ops
begin

text \<open>
  What it means to make room for a load by evicting the least recently used pages, said without the code's sorted
  list of candidates: a set of unleased residents that were all touched before every other unleased resident. Then
  the proof that \<open>reserve_load\<close> evicts the smallest such set that is enough.
\<close>

declare split_paired_All [simp del] split_paired_Ex [simp del]

section \<open>The oldest pages\<close>

text \<open>An unleased resident, with the time of its last touch.\<close>

definition touched :: "(page_key, entry) btree_map \<Rightarrow> page_key \<Rightarrow> u64 \<Rightarrow> bool" where
  "touched m k t \<longleftrightarrow> (\<exists>e r. bt_get m k = Some e \<and> en_state e = Resident r \<and> rp_leases r = 0 \<and> rp_last_touch r = t)"

definition unleased :: "(page_key, entry) btree_map \<Rightarrow> page_key set" where
  "unleased m = {k. \<exists>t. touched m k t}"

text \<open>Every page of \<open>V\<close> was touched before every unleased page outside \<open>V\<close>; the key breaks ties.\<close>

definition oldest :: "(page_key, entry) btree_map \<Rightarrow> page_key set \<Rightarrow> bool" where
  "oldest m V \<longleftrightarrow> V \<subseteq> unleased m \<and>
     (\<forall>v t u t'. v \<in> V \<longrightarrow> touched m v t \<longrightarrow> u \<notin> V \<longrightarrow> touched m u t' \<longrightarrow> t < t' \<or> t = t' \<and> v < u)"

definition allocated :: "(page_key, entry) btree_map \<Rightarrow> page_key set \<Rightarrow> nat" where
  "allocated m V = (\<Sum>k\<in>V. case bt_get m k of Some e \<Rightarrow> en_allocation_bytes e | None \<Rightarrow> 0)"

text \<open>With the pages of \<open>V\<close> gone there is room for \<open>a\<close> more bytes and one more entry.\<close>

definition fits_without :: "cache_inner \<Rightarrow> u64 \<Rightarrow> page_key set \<Rightarrow> bool" where
  "fits_without s a V \<longleftrightarrow>
     lg_page_pool_bytes (ci_ledger s) + a \<le> cc_page_pool_capacity (ci_config s) + allocated (ci_entries s) V \<and>
     length (ci_entries s) < cc_max_entries (ci_config s) + card V"

section \<open>Prefixes of a sorted list\<close>

lemma set_take_sorted:
  assumes "sorted_wrt R xs" "x \<in> set (take n xs)" "y \<in> set xs" "y \<notin> set (take n xs)" shows "R x y"
proof -
  have "y \<in> set (drop n xs)" using assms(3,4) by (metis Un_iff append_take_drop_id set_append)
  moreover have "sorted_wrt R (take n xs @ drop n xs)" using assms(1) by simp
  ultimately show ?thesis using assms(2) unfolding sorted_wrt_append by blast
qed

lemma lower_set_prefix:
  assumes "sorted_wrt R xs" "\<And>x y. R x y \<Longrightarrow> \<not> R y x" "W \<subseteq> set xs" "\<And>x y. x \<in> W \<Longrightarrow> y \<in> set xs - W \<Longrightarrow> R x y"
  shows "\<exists>j\<le>length xs. W = set (take j xs)"
  using assms(1,3,4)
proof (induction xs arbitrary: W)
  case (Cons x xs)
  have new: "x \<notin> set xs" using Cons.prems(1) assms(2) by auto
  show ?case
  proof (cases "x \<in> W")
    case True
    have "\<exists>j\<le>length xs. W - {x} = set (take j xs)"
      using Cons.prems new by (intro Cons.IH) auto
    then obtain j where "j \<le> length xs" "W - {x} = set (take j xs)" by blast
    then show ?thesis using True by (intro exI [of _ "Suc j"]) auto
  next
    case False
    have "W = {}"
    proof (rule ccontr)
      assume "W \<noteq> {}"
      then obtain w where w: "w \<in> W" by blast
      then have "R w x" "R x w" using Cons.prems False by auto
      then show False using assms(2) by blast
    qed
    then show ?thesis by (intro exI [of _ 0]) simp
  qed
qed simp

section \<open>The candidates of the code\<close>

definition before :: "(page_key, entry) btree_map \<Rightarrow> page_key \<Rightarrow> page_key \<Rightarrow> bool" where
  "before m k k' \<longleftrightarrow> (\<exists>t t'. touched m k t \<and> touched m k' t' \<and> (t < t' \<or> t = t' \<and> k < k'))"

lemma touched_unique: "touched m k t \<Longrightarrow> touched m k t' \<Longrightarrow> t = t'"
  by (auto simp: touched_def)

lemma before_asym: "before m k k' \<Longrightarrow> \<not> before m k' k"
  unfolding before_def by (metis touched_unique less_asym less_irrefl)

lemma candidates_touched:
  assumes "bt_wf m" shows "(k, t, bytes) \<in> set (candidates m) \<longleftrightarrow>
    touched m k t \<and> (\<exists>e. bt_get m k = Some e \<and> bytes = en_allocation_bytes e)"
proof -
  have eq: "candidate (k, e) = Some (k, t, bytes) \<longleftrightarrow>
      (\<exists>r. en_state e = Resident r \<and> rp_leases r = 0 \<and> rp_last_touch r = t) \<and> bytes = en_allocation_bytes e" for e
    by (cases "en_state e") (auto simp: candidate_def)
  have "(k, t, bytes) \<in> set (candidates m) \<longleftrightarrow> (\<exists>x\<in>set m. candidate x = Some (k, t, bytes))"
    using mset_eq_setD [OF candidates_mset [of m]] by (force simp: List.map_filter_def)
  also have "\<dots> \<longleftrightarrow> (\<exists>e. bt_get m k = Some e \<and> candidate (k, e) = Some (k, t, bytes))"
    using candidate_key bt_in_set [OF assms] by fastforce
  also have "\<dots> \<longleftrightarrow> touched m k t \<and> (\<exists>e. bt_get m k = Some e \<and> bytes = en_allocation_bytes e)"
    using eq unfolding touched_def by auto
  finally show ?thesis .
qed

lemma candidates_keys: "bt_wf m \<Longrightarrow> fst ` set (candidates m) = unleased m"
  by (auto simp: candidates_touched unleased_def touched_def image_iff split_paired_Ex Bex_def)

lemma candidates_sorted:
  assumes "bt_wf m" shows "sorted_wrt (before m) (map fst (candidates m))"
proof -
  let ?cs = "candidates m" and ?key = "\<lambda>(key, last_touch, _ :: nat). (last_touch :: nat, key :: page_key)"
  have "sorted (map ?key ?cs)" unfolding candidates_def by (rule sorted_sort_key)
  then have le: "sorted_wrt (\<lambda>x y. ?key x \<le> ?key y) ?cs" by (simp add: sorted_map)
  have "sorted_wrt (\<lambda>x y. fst x \<noteq> fst y) ?cs"
    using candidates_distinct [OF assms] by (simp add: distinct_conv_nth sorted_wrt_iff_nth_less)
  with le have "sorted_wrt (\<lambda>x y. ?key x \<le> ?key y \<and> fst x \<noteq> fst y) ?cs"
    by (simp add: sorted_wrt_iff_nth_less)
  then show ?thesis
    unfolding sorted_wrt_map
  proof (rule sorted_wrt_mono_rel [rotated])
    fix x y assume xy: "x \<in> set ?cs" "y \<in> set ?cs" "?key x \<le> ?key y \<and> fst x \<noteq> fst y"
    obtain k t b k' t' b' where eq: "x = (k, t, b)" "y = (k', t', b')" by (metis prod_cases3)
    have "touched m k t" "touched m k' t'" using xy eq candidates_touched [OF assms] by blast+
    moreover have "t < t' \<or> t = t' \<and> k < k'" using xy(3) unfolding eq by (simp add: less_eq_prod_def less_le) blast
    ultimately show "before m (fst x) (fst y)" unfolding eq before_def by auto
  qed
qed

section \<open>Eviction is of the oldest\<close>

lemma candidates_prefix_allocated:
  assumes "bt_wf m" shows "allocated m (fst ` set (take n (candidates m))) = freed (take n (candidates m))"
    "card (fst ` set (take n (candidates m))) = length (take n (candidates m))"
proof -
  let ?cs = "take n (candidates m)"
  have d: "distinct (map fst ?cs)" using candidates_distinct [OF assms] by (metis distinct_take take_map)
  then show "card (fst ` set ?cs) = length ?cs" by (metis distinct_card length_map set_map)
  have "allocated m (fst ` set ?cs) = charged m (map fst ?cs)"
    unfolding allocated_def using d by (simp only: set_map [symmetric] sum_list_distinct_conv_sum_set)
  then show "allocated m (fst ` set ?cs) = freed ?cs"
    using charged_candidates [OF assms set_take_subset] by simp
qed

lemma oldest_prefix:
  assumes "bt_wf m" shows "oldest m (fst ` set (take n (candidates m)))"
  unfolding oldest_def
proof (intro conjI allI impI)
  let ?cs = "candidates m"
  show "fst ` set (take n ?cs) \<subseteq> unleased m" using candidates_keys [OF assms] by (metis image_mono set_take_subset)
  fix v t u t' assume v: "v \<in> fst ` set (take n ?cs)" "touched m v t" and u: "u \<notin> fst ` set (take n ?cs)" "touched m u t'"
  have "u \<in> unleased m" using u(2) by (auto simp: unleased_def)
  then have "u \<in> set (map fst ?cs)" using candidates_keys [OF assms] by simp
  moreover have "v \<in> set (take n (map fst ?cs))" "u \<notin> set (take n (map fst ?cs))" using v u by (simp_all add: take_map)
  ultimately have "before m v u" using set_take_sorted [OF candidates_sorted [OF assms]] by blast
  then show "t < t' \<or> t = t' \<and> v < u" using v u touched_unique unfolding before_def by metis
qed

lemma oldest_is_prefix:
  assumes "bt_wf m" "oldest m W" shows "\<exists>j\<le>length (candidates m). W = fst ` set (take j (candidates m))"
proof -
  have "\<exists>j\<le>length (map fst (candidates m)). W = set (take j (map fst (candidates m)))"
  proof (rule lower_set_prefix [OF candidates_sorted [OF assms(1)] before_asym])
    show "W \<subseteq> set (map fst (candidates m))" using assms candidates_keys [OF assms(1)] by (simp add: oldest_def)
    fix x y assume "x \<in> W" "y \<in> set (map fst (candidates m)) - W"
    moreover from this have "x \<in> unleased m" "y \<in> unleased m" using assms candidates_keys [OF assms(1)] by (auto simp: oldest_def)
    ultimately show "before m x y" using assms(2) unfolding oldest_def before_def unleased_def by blast
  qed
  then show ?thesis by (simp add: take_map)
qed

text \<open>The count of victims in the code and the set of victims in the specification make room alike.\<close>

lemma makes_room_fits:
  assumes "core_ok sha s" "a \<le> cc_page_pool_capacity (ci_config s)" "n \<le> length (candidates (ci_entries s))"
  shows "makes_room (cc_page_pool_capacity (ci_config s) - a) (cc_max_entries (ci_config s)) (lg_page_pool_bytes (ci_ledger s))
      (length (ci_entries s)) (candidates (ci_entries s)) n \<longleftrightarrow> fits_without s a (fst ` set (take n (candidates (ci_entries s))))"
proof -
  let ?m = "ci_entries s" let ?cs = "candidates ?m"
  have wf: "bt_wf ?m" and "balanced ?m (ci_ledger s)" using assms(1) by (simp_all add: core_ok_def core_def)
  then have pool: "freed ?cs \<le> lg_page_pool_bytes (ci_ledger s)" using candidates_freed [of ?m] by (simp add: balanced_def)
  have "freed ?cs = freed (take n ?cs) + freed (drop n ?cs)" by (metis append_take_drop_id map_append sum_list_append)
  then show ?thesis
    unfolding makes_room_def fits_without_def candidates_prefix_allocated [OF wf]
    using pool assms(2,3) candidates_length [of ?m] by auto
qed

lemma reserved_oldest:
  assumes "core_ok sha s" "a \<le> cc_page_pool_capacity (ci_config s)" "reserved sha a s s'"
  shows "\<exists>V. oldest (ci_entries s) V \<and> fits_without s a V \<and> (\<forall>W. oldest (ci_entries s) W \<and> W \<subset> V \<longrightarrow> \<not> fits_without s a W) \<and>
    bt_get (ci_entries s') = bt_get (ci_entries s) |` (- V) \<and>
    lg_page_pool_bytes (ci_ledger s') + allocated (ci_entries s) V = lg_page_pool_bytes (ci_ledger s) + a"
proof -
  let ?m = "ci_entries s" let ?cs = "candidates ?m"
  have wf: "bt_wf ?m" using assms(1) by (simp add: core_ok_def core_def)
  from assms(3) obtain n t where n: "victims a n s" "evicted sha (map fst (take n ?cs)) s t"
      "s' = t\<lparr>ci_ledger := reserve a (ci_ledger t)\<rparr>"
    by (auto simp: reserved_def)
  let ?V = "fst ` set (take n ?cs)"
  note room = makes_room_fits [OF assms(1,2)]
  have len: "n \<le> length ?cs" using n(1) by (simp add: victims_def)
  have "\<not> fits_without s a W" if W: "oldest ?m W" "W \<subset> ?V" for W
  proof -
    obtain j where j: "j \<le> length ?cs" "W = fst ` set (take j ?cs)" using oldest_is_prefix [OF wf W(1)] by blast
    have "j < n"
    proof (rule ccontr)
      assume "\<not> j < n"
      then have "?V \<subseteq> W" unfolding j(2) by (intro image_mono set_take_subset_set_take) simp
      then show False using W(2) by blast
    qed
    then show ?thesis using n(1) room [OF j(1)] j(2) by (simp add: victims_def)
  qed
  moreover have "fits_without s a ?V" using n(1) room [OF len] by (simp add: victims_def)
  moreover have "bt_get (ci_entries s') = bt_get ?m |` (- ?V)" using n by (simp add: evicted_def without_def)
  moreover have "charged ?m (map fst (take n ?cs)) = allocated ?m ?V"
    using charged_candidates [OF wf set_take_subset] candidates_prefix_allocated(1) [OF wf] by simp
  then have "lg_page_pool_bytes (ci_ledger s') + allocated ?m ?V = lg_page_pool_bytes (ci_ledger s) + a"
    using n by (simp add: evicted_def reserve_def)
  ultimately show ?thesis using oldest_prefix [OF wf, of n] by blast
qed

text \<open>A load is refused at a limit, or when it would not fit with all unleased pages gone.\<close>

lemma awp_anyhow: "(\<And>s'. Q () s') \<Longrightarrow> awp (\<lambda>_ _. True) (afold f xs) Q s"
  by (auto simp: awp_def split: prod.splits sum.splits)

lemma wp_anyhow: "(\<And>x. Q x) \<Longrightarrow> wp (\<lambda>_. True) m Q"
  by (auto simp: wp_def split: sum.splits)

lemma reserve_load_refused:
  assumes "core_ok sha s" "a \<le> cc_page_pool_capacity (ci_config s)"
  shows "awp (\<lambda>_ _. True) (reserve_load a reason) (\<lambda>admitted _. admitted \<or>
      cc_max_inflight_bytes (ci_config s) < lg_inflight_bytes (ci_ledger s) + a \<or>
      cc_max_loads (ci_config s) \<le> lg_active_loads (ci_ledger s) \<or>
      \<not> fits_without s a (unleased (ci_entries s))) s"
proof -
  let ?cs = "candidates (ci_entries s)" and ?max = "cc_page_pool_capacity (ci_config s) - a"
  have wf: "bt_wf (ci_entries s)" and "balanced (ci_entries s) (ci_ledger s)" using assms(1) by (simp_all add: core_ok_def core_def)
  then have freed: "freed ?cs \<le> lg_page_pool_bytes (ci_ledger s)" using candidates_freed [of "ci_entries s"] by (simp add: balanced_def)
  from select_victims_ok [OF freed candidates_length, of ?max "cc_max_entries (ci_config s)" "[]"]
  obtain n where n: "n \<le> length ?cs" "select_victims ?max (cc_max_entries (ci_config s)) (lg_page_pool_bytes (ci_ledger s))
        (length (ci_entries s)) [] ?cs = Ok (lg_page_pool_bytes (ci_ledger s) - freed (take n ?cs), length (ci_entries s) - n, map fst (take n ?cs))"
      "n < length ?cs \<longrightarrow> makes_room ?max (cc_max_entries (ci_config s)) (lg_page_pool_bytes (ci_ledger s)) (length (ci_entries s)) ?cs n"
    by auto
  have "makes_room ?max (cc_max_entries (ci_config s)) (lg_page_pool_bytes (ci_ledger s)) (length (ci_entries s)) ?cs (length ?cs) \<longleftrightarrow>
      fits_without s a (unleased (ci_entries s))"
    using makes_room_fits [OF assms order_refl] candidates_keys [OF wf] by simp
  then show ?thesis
    unfolding reserve_load_def Let_def
    using n by (auto simp: sub_u64_def checked_sub_def or_panic_def makes_room_def intro!: awp_anyhow wp_anyhow)
qed

end
