(* ===== verification/Store_Closed.thy ===== *)
theory Store_Closed
  imports Store_Guarantees
begin

text \<open>
  The page cache after \<^verbatim>\<open>shutdown\<close>: demands and prefetches are refused and leave only their byte counter behind,
  and from then on entries, loads and leases can only become fewer, whatever callers and workers do.
\<close>

declare split_paired_All [simp del] split_paired_Ex [simp del]

section \<open>Calls that are refused\<close>

text \<open>The refusal of a call that counts its bytes by \<open>counted\<close>.\<close>

definition refused :: "check_point \<Rightarrow> page_spec \<Rightarrow> (metrics \<Rightarrow> metrics) \<Rightarrow> cache_inner \<Rightarrow> store_error failure \<Rightarrow> cache_inner \<Rightarrow> bool" where
  "refused point spec counted s e s' \<longleftrightarrow> graceful e \<and>
     (check_at point = Inl e \<and> s' = s \<or>
      (validate_spec (ci_config s) spec = Inl e \<or> e = Err Shutdown) \<and> s' = s\<lparr>ci_metrics := counted (ci_metrics s)\<rparr>)"

lemma validate_spec_graceful: "validate_spec c spec = Inl e \<Longrightarrow> graceful e"
  by (auto simp: validate_spec_def allocation_bytes_def aligned_page_buffer_bytes_def ok_or_def split: option.splits if_splits elim!: rbind_InlE)

lemma check_at_graceful: "check_at point = Inl e \<Longrightarrow> graceful e"
  using check_at_cases [of point] by auto

lemma get_enter_refused:
  assumes "ci_shutdown s"
  shows "awp (refused point spec (add_demand_bytes (sp_length spec)) s) (get_enter runtime point spec) (\<lambda>_ _. False) s"
  using assms
  by (auto simp: get_enter_def get_section_def meter_def refused_def wp_def
      split: sum.splits dest: validate_spec_graceful check_at_graceful)

lemma prefetch_refused:
  assumes "ci_shutdown s"
  shows "awp (refused point spec (add_prefetch_bytes (sp_length spec)) s) (prefetch runtime point spec) (\<lambda>_ _. False) s"
  using assms
  by (auto simp: prefetch_def prefetch_section_def meter_def refused_def wp_def
      split: sum.splits dest: validate_spec_graceful check_at_graceful)

section \<open>Operations that go on\<close>

definition winds_down :: "cache_inner \<Rightarrow> cache_inner \<Rightarrow> bool" where
  "winds_down s s' \<longleftrightarrow> ci_shutdown s' \<and> ci_reader s' = ci_reader s \<and> dom (bt_get (ci_entries s')) \<subseteq> dom (bt_get (ci_entries s))"

lemma winds_down_refused: "refused point spec counted s e s' \<Longrightarrow> ci_shutdown s \<Longrightarrow> winds_down s s'"
  by (auto simp: refused_def winds_down_def)

lemma winds_down_metrics [simp]: "winds_down s (s'\<lparr>ci_metrics := t\<rparr>) = winds_down s s'" "winds_down s (s'\<lparr>ci_trace := u\<rparr>) = winds_down s s'"
  by (simp_all add: winds_down_def)

lemma live_winds:
  "winds_down s s' \<Longrightarrow> (\<And>t. Q () (s'\<lparr>ci_metrics := t\<rparr>)) \<Longrightarrow> awp (\<lambda>_. winds_down s) update_live_metrics Q s'"
  by (simp add: update_live_metrics_def meter_def)

lemma mark_prefetch_use_winds:
  assumes "ci_shutdown s" "bt_wf (ci_entries s)"
  shows "awp (\<lambda>_. winds_down s) (mark_prefetch_use k g) (\<lambda>_. winds_down s) s"
proof (cases "bt_get (ci_entries s) k")
  case (Some e)
  then show ?thesis using assms by (cases "en_state e") (auto simp: mark_prefetch_use_def cache_prims winds_down_def bt_get_insert)
qed (use assms in \<open>simp add: mark_prefetch_use_def find_entry_def winds_down_def\<close>)

lemma withdraw_waiter_winds:
  assumes "ci_shutdown s" "bt_wf (ci_entries s)"
  shows "awp (\<lambda>_. winds_down s) (withdraw_waiter k g w) (\<lambda>_. winds_down s) s"
proof (cases "bt_get (ci_entries s) k")
  case (Some e)
  then show ?thesis
    using assms
    by (cases "en_state e")
      (auto simp: withdraw_waiter_def cache_prims winds_down_def bt_get_insert Let_def awp_case_option split: option.splits
        intro!: live_winds)
qed (use assms in \<open>simp add: withdraw_waiter_def find_entry_def winds_down_def\<close>)

lemma get_poll_winds:
  assumes "ci_shutdown s" "bt_wf (ci_entries s)"
  shows "awp (\<lambda>_. winds_down s) (get_poll point elapsed spec g w event) (\<lambda>_. winds_down s) s"
proof -
  have refl: "winds_down s s" using assms(1) by (simp add: winds_down_def)
  show ?thesis
    using check_at_cases [of point] withdraw_waiter_winds [OF assms, of "sp_key spec" g w] refl
    by (auto simp: get_poll_def awp_prims split: wait_event.splits sum.splits elim!: awp_post)
qed

lemma release_lease_winds:
  assumes "ci_shutdown s" "bt_wf (ci_entries s)"
  shows "awp (\<lambda>_. winds_down s) (release_lease k g) (\<lambda>_. winds_down s) s"
proof (cases "bt_get (ci_entries s) k")
  case (Some e)
  then show ?thesis
    using assms
    by (cases "en_state e")
      (auto simp: release_lease_def cache_prims winds_down_def bt_get_insert intro!: live_winds)
qed (use assms in \<open>simp add: release_lease_def find_entry_def winds_down_def\<close>)

lemma invalidate_winds:
  assumes "ci_shutdown s" "bt_wf (ci_entries s)"
  shows "awp (\<lambda>_. winds_down s) (invalidate k) (\<lambda>_. winds_down s) s"
proof (cases "bt_get (ci_entries s) k")
  case (Some e)
  then show ?thesis
    using assms
    by (cases "en_state e")
      (auto simp: invalidate_def retire_resident_def cache_prims winds_down_def bt_get_insert intro!: live_winds)
qed (use assms in \<open>simp add: invalidate_def find_entry_def winds_down_def\<close>)

text \<open>A load that ends after the shutdown is not published: its waiters, if any were left, get no lease.\<close>

lemma lease_list_fail_waiters [simp]: "lease_list (fail_waiters ws x) = []"
  by (simp add: lease_list_def fail_waiters_def filter_empty_conv)

lemma settle_load_winds:
  assumes "ci_shutdown t" "winds_down s t"
  shows "awp (\<lambda>_. winds_down s) (settle_load k e l outcome) (\<lambda>sent s'. winds_down s s' \<and> lease_list sent = []) t"
  using assms by (auto simp: settle_load_def cache_prims winds_down_def split: sum.splits)

lemma finish_winds:
  assumes "ci_shutdown s" "bt_wf (ci_entries s)"
  shows "awp (\<lambda>_. winds_down s) (finish_observed_load k g outcome stats) (\<lambda>sent s'. winds_down s s' \<and> lease_list sent = []) s"
proof (cases "bt_get (ci_entries s) k")
  case (Some e)
  have after: "awp (\<lambda>_. winds_down s) (settle_load k e l outcome) (\<lambda>sent. awp (\<lambda>_. winds_down s)
      (athen update_live_metrics (areturn sent)) (\<lambda>sent s'. winds_down s s' \<and> lease_list sent = [])) t"
    if "winds_down s t" for l t
    by (rule awp_post [OF settle_load_winds]) (use that in \<open>auto simp: winds_down_def [of s t] intro!: live_winds\<close>)
  show ?thesis
  proof (cases "en_state e")
    case (Loading l)
    then show ?thesis
      using Some assms after [of _ l]
      by (auto simp: finish_observed_load_def complete_load_def cache_prims winds_down_def lease_list_def)
  qed (use Some assms in \<open>simp_all add: finish_observed_load_def complete_load_def cache_prims winds_down_def lease_list_def\<close>)
qed (use assms in \<open>simp add: finish_observed_load_def complete_load_def cache_prims winds_down_def lease_list_def\<close>)

section \<open>The system after shutdown\<close>

definition fewer :: "system \<Rightarrow> system \<Rightarrow> bool" where
  "fewer y y' \<longleftrightarrow> ci_shutdown (sy_cache y') \<and>
     dom (bt_get (ci_entries (sy_cache y'))) \<subseteq> dom (bt_get (ci_entries (sy_cache y))) \<and>
     mset (outstanding_loads y') \<subseteq># mset (outstanding_loads y) \<and> mset (live_leases y') \<subseteq># mset (live_leases y)"

lemma fewer_cache: "winds_down (sy_cache y) c \<Longrightarrow> fewer y (y\<lparr>sy_cache := c\<rparr>)"
  by (simp add: fewer_def winds_down_def live_leases_def)

lemma lease_list_append [simp]: "lease_list (xs @ ys) = lease_list xs @ lease_list ys"
  by (simp add: lease_list_def)

lemma lease_list_Cons: "lease_list (x # xs) = (case snd x of Inl _ \<Rightarrow> lease_list xs | Inr l \<Rightarrow> l # lease_list xs)"
  by (cases x; cases "snd x") (simp_all add: lease_list_def)

lemma lease_list_split:
  assumes "\<And>x. Q x \<longleftrightarrow> \<not> P x"
  shows "mset (lease_list (filter P xs)) + mset (lease_list (filter Q xs)) = mset (lease_list xs)"
proof (induction xs)
  case (Cons x xs)
  then show ?case using assms [of x] by (cases "snd x") (auto simp: lease_list_Cons)
qed (simp add: lease_list_def)

lemma live_leases_resolve: "mset (live_leases (resolve_wait w y)) = mset (live_leases y)"
  using lease_list_split [of "\<lambda>(v, _). v \<noteq> w" "\<lambda>(v, _). v = w" "sy_inbox y"]
  by (simp add: live_leases_def resolve_wait_def split_beta)

lemma live_leases_deliver: "mset (live_leases (deliver sent y)) = mset (live_leases y) + mset (lease_list sent)"
  using lease_list_split [of "\<lambda>(v, _). sy_waits y v \<noteq> None" "\<lambda>(v, _). sy_waits y v = None" sent]
  by (simp add: live_leases_def deliver_def split_beta)

lemma fewer_resolve: "fewer y z \<Longrightarrow> fewer y (resolve_wait w z)"
  using live_leases_resolve [of w z] by (simp add: fewer_def resolve_wait_def)

lemma fewer_trans: "fewer x y \<Longrightarrow> fewer y z \<Longrightarrow> fewer x z"
  unfolding fewer_def by (meson order.trans subset_mset.order_trans)

lemma fewer_worker:
  assumes "worker_step sha alloc y y'" "ci_shutdown (sy_cache y)" "bt_wf (ci_entries (sy_cache y))"
  shows "fewer y y'"
  using assms(1)
proof cases
  case (take rq r)
  then show ?thesis
    using assms(2) by (auto simp: fewer_def reader_recv_def live_leases_def split: list.splits if_splits)
next
  case (finished rq k g env result stats outcome sent c)
  note c = awp_Ok [OF finish_winds [OF assms(2,3)] finished(6)]
  have "mset (filter P (remove1 rq xs)) \<subseteq># mset (filter P xs)" for P and xs :: "request list"
    by (simp add: multiset_filter_mono)
  then show ?thesis
    using c live_leases_deliver [of sent "y\<lparr>sy_cache := c, sy_running := remove1 rq (sy_running y)\<rparr>"] finished(1)
    by (simp add: fewer_def winds_down_def live_leases_def)
next
  case (answered rq)
  have "mset (filter P (remove1 rq xs)) \<subseteq># mset (filter P xs)" for P and xs :: "request list"
    by (simp add: multiset_filter_mono)
  then show ?thesis using assms(2) answered(1) by (simp add: fewer_def live_leases_def)
qed

lemma fewer_step:
  assumes "system_step sha alloc y y'" "ci_shutdown (sy_cache y)" "bt_wf (ci_entries (sy_cache y))"
  shows "fewer y y'"
  using assms(1)
proof cases
  case (get_hit runtime point spec l c)
  then show ?thesis using awp_Ok [OF get_enter_refused [OF assms(2)]] by blast
next
  case (get_wait runtime point spec g w c)
  then show ?thesis using awp_Ok [OF get_enter_refused [OF assms(2)]] by blast
next
  case (get_error runtime point spec e c)
  then show ?thesis using awp_Err [OF get_enter_refused [OF assms(2)]] winds_down_refused assms(2) fewer_cache by blast
next
  case (use k g c)
  then show ?thesis using awp_Ok [OF mark_prefetch_use_winds [OF assms(2,3)]] fewer_cache by blast
next
  case (poll_pending w spec g point elapsed c)
  then show ?thesis using awp_Ok [OF get_poll_winds [OF assms(2,3)]] fewer_cache by blast
next
  case (poll_cancelled w spec g point elapsed e c)
  then show ?thesis using awp_Err [OF get_poll_winds [OF assms(2,3)]] fewer_cache fewer_resolve by blast
next
  case (poll_received w spec g r point elapsed outcome c)
  have "winds_down (sy_cache y) c"
    using get_poll_winds [OF assms(2,3), of point elapsed spec g w "WaitReceived r"] poll_received(4)
    by (auto simp: awp_def split: sum.splits)
  then show ?thesis using poll_received(1) fewer_cache fewer_resolve by blast
next
  case (abandon w spec g)
  have "fewer y y" using assms(2) by (simp add: fewer_def)
  then show ?thesis using abandon fewer_resolve by blast
next
  case (withdraw_registration w k g c)
  then show ?thesis using awp_Ok [OF withdraw_waiter_winds [OF assms(2,3)]] fewer_cache by blast
next
  case (prefetched runtime point spec outcome c)
  then show ?thesis using awp_Ok [OF prefetch_refused [OF assms(2)]] by blast
next
  case (prefetch_error runtime point spec e c)
  then show ?thesis using awp_Err [OF prefetch_refused [OF assms(2)]] winds_down_refused assms(2) fewer_cache by blast
next
  case work
  then show ?thesis using fewer_worker assms(2,3) by blast
next
  case (drop_lease l c)
  have "winds_down (sy_cache y) c" using awp_Ok [OF release_lease_winds [OF assms(2,3)] drop_lease(3)] .
  then show ?thesis using drop_lease(1) by (simp add: fewer_def winds_down_def live_leases_def)
next
  case (invalidated k b c)
  then show ?thesis using awp_Ok [OF invalidate_winds [OF assms(2,3)]] fewer_cache by blast
next
  case (shut_down order sent c)
  then have "sent = []" "c = sy_cache y" using assms(2) by (auto simp: cache_shutdown_def abind_def aget_def areturn_def)
  then show ?thesis using shut_down(1) assms(2) by (simp add: fewer_def deliver_def live_leases_def lease_list_def)
next
  case (foreign_read point spec r)
  then show ?thesis
    using assms(2)
    by (auto simp: fewer_def live_leases_def submit_observed_def reader_submit_def rbind_Inr_iff split: if_splits)
next
  case foreign_close
  then show ?thesis using assms(2) by (simp add: fewer_def live_leases_def reader_close_def)
qed

lemma fewer_steps:
  assumes "(system_step sha alloc)\<^sup>*\<^sup>* y y'" "reachable sha alloc y" "ci_shutdown (sy_cache y)"
  shows "fewer y y'"
proof -
  have "reachable sha alloc y' \<and> fewer y y'"
    using assms(1)
  proof (induction rule: rtranclp_induct)
    case base
    show ?case using assms(2,3) by (simp add: fewer_def)
  next
    case (step z z')
    have "bt_wf (ci_entries (sy_cache z))"
      using reachable_ok [of sha alloc z] step.IH by (simp add: system_ok_def cache_ok_def core_ok_def core_def)
    then have "fewer z z'" using fewer_step [OF step.hyps(2)] step.IH by (simp add: fewer_def)
    then show ?case using step fewer_trans reachable.step by blast
  qed
  then show ?thesis ..
qed

end
