(* ===== verification/Store_Tracing.thy ===== *)
theory Store_Tracing
  imports Store_Model "HOL-Library.Multiset"
begin

text \<open>
  The disk budget and the trace sink. The sink is used by many threads at once: a thread
  reserves a sequence number, later tries to queue its event, and anybody may drain in between. A step of
  \<open>sink_step\<close> is one of these three atomic actions.
\<close>

section \<open>Disk budget\<close>

text \<open>Preflight passes exactly when the new total is within the budget and the reserve stays free.\<close>

lemma preflight_exact:
  assumes "db_max_bytes b \<le> u64_max"
  shows "preflight b u n = Ok () \<longleftrightarrow> du_final_bytes u + du_staging_bytes u + n \<le> db_max_bytes b \<and>
    (n = 0 \<or> n + db_reserve_bytes b \<le> du_available_bytes u)"
  using assms
  by (auto simp: preflight_def checked_total_bytes_def checked_add_def saturating_sub_def Let_def)

lemma preflight_wp: "wp graceful (preflight b u n) (\<lambda>_. True)"
  by (simp add: preflight_def checked_total_bytes_def Let_def)

section \<open>The trace sink\<close>

record tracing =
  tc_sink :: trace_sink
  tc_pending :: "u64 list"
  tc_drained :: "trace_event list list"
  tc_reserved :: nat

definition tracing_new :: "usize \<Rightarrow> tracing" where
  "tracing_new capacity = \<lparr>tc_sink = trace_new capacity, tc_pending = [], tc_drained = [], tc_reserved = 0\<rparr>"

inductive sink_step :: "tracing \<Rightarrow> tracing \<Rightarrow> bool" where
  reserve: "trace_reserve (tc_sink t) = (n, sink) \<Longrightarrow>
    sink_step t (t\<lparr>tc_sink := sink, tc_pending := n # tc_pending t, tc_reserved := Suc (tc_reserved t)\<rparr>)"
| push: "n \<in> set (tc_pending t) \<Longrightarrow>
    sink_step t (t\<lparr>tc_sink := trace_push lock_free
        \<lparr>te_sequence = n, te_monotonic_nanoseconds = min elapsed u64_max, te_observation = obs\<rparr> (tc_sink t),
      tc_pending := remove1 n (tc_pending t)\<rparr>)"
| drain: "trace_drain (tc_sink t) = (events, sink) \<Longrightarrow>
    sink_step t (t\<lparr>tc_sink := sink, tc_drained := tc_drained t @ [events]\<rparr>)"

text \<open>The sequence numbers in use: not yet queued, queued, or handed out.\<close>

definition issued :: "tracing \<Rightarrow> u64 list" where
  "issued t = tc_pending t @ map te_sequence (sk_events (tc_sink t)) @ map te_sequence (concat (tc_drained t))"

text \<open>A push either keeps the issued numbers, or gives one up and counts it as dropped.\<close>

lemma push_issued:
  fixes lock_free :: bool
  assumes "n \<in> set (tc_pending t)" "te_sequence e = n"
  defines "t' \<equiv> t\<lparr>tc_sink := trace_push lock_free e (tc_sink t), tc_pending := remove1 n (tc_pending t)\<rparr>"
  shows "(mset (issued t') = mset (issued t) \<and> sk_dropped (tc_sink t') = sk_dropped (tc_sink t)) \<or>
    (add_mset n (mset (issued t')) = mset (issued t) \<and> sk_dropped (tc_sink t') = saturating_add (sk_dropped (tc_sink t)) 1)"
  using assms(1,2) by (auto simp: t'_def issued_def trace_push_def)

lemma drain_issued:
  assumes "trace_drain (tc_sink t) = (events, sink)"
  defines "t' \<equiv> t\<lparr>tc_sink := sink, tc_drained := tc_drained t @ [events]\<rparr>"
  shows "mset (issued t') = mset (issued t)" "sorted (map te_sequence events)"
  using assms(1) by (auto simp: t'_def issued_def trace_drain_def)

definition accounted :: "tracing \<Rightarrow> bool" where
  "accounted t \<longleftrightarrow> distinct (issued t) \<and> (\<forall>n\<in>set (issued t). n < tc_reserved t) \<and>
     length (issued t) + sk_dropped (tc_sink t) = tc_reserved t"

lemma accounted_mset:
  assumes "accounted t" "mset (issued t') = mset (issued t)" "sk_dropped (tc_sink t') = sk_dropped (tc_sink t)" "tc_reserved t' = tc_reserved t"
  shows "accounted t'"
  using assms mset_eq_imp_distinct_iff [OF assms(2)] mset_eq_setD [OF assms(2)] mset_eq_length [OF assms(2)]
  by (simp add: accounted_def)

lemma accounted_drop:
  assumes "accounted t" "add_mset n (mset (issued t')) = mset (issued t)" "tc_reserved t' = tc_reserved t"
    "sk_dropped (tc_sink t') = Suc (sk_dropped (tc_sink t))"
  shows "accounted t'"
proof -
  have "mset (n # issued t') = mset (issued t)" using assms(2) by simp
  note mset_eq_imp_distinct_iff [OF this] mset_eq_setD [OF this] mset_eq_length [OF this]
  then show ?thesis using assms by (auto simp: accounted_def)
qed

lemma push_accounted:
  assumes "accounted t" "tc_reserved t < 2 ^ 64" "n \<in> set (tc_pending t)" "te_sequence e = n"
  shows "accounted (t\<lparr>tc_sink := trace_push lock_free e (tc_sink t), tc_pending := remove1 n (tc_pending t)\<rparr>)"
proof -
  have "0 < length (issued t)" using assms(3) by (auto simp: issued_def length_pos_if_in_set)
  then have "sk_dropped (tc_sink t) + 1 \<le> u64_max"
    using assms(1,2) unfolding accounted_def u64_max_def by linarith
  then have "saturating_add (sk_dropped (tc_sink t)) 1 = Suc (sk_dropped (tc_sink t))" by (simp add: saturating_add_def)
  then show ?thesis
    using push_issued [OF assms(3,4), of lock_free] accounted_mset [OF assms(1)] accounted_drop [OF assms(1)] by auto
qed

lemma reserve_accounted:
  assumes "accounted t" "sk_next_sequence (tc_sink t) = tc_reserved t" "trace_reserve (tc_sink t) = (n, sink)"
  shows "accounted (t\<lparr>tc_sink := sink, tc_pending := n # tc_pending t, tc_reserved := Suc (tc_reserved t)\<rparr>)"
proof -
  have "n = tc_reserved t" "sk_events sink = sk_events (tc_sink t)" "sk_dropped sink = sk_dropped (tc_sink t)"
    using assms(2,3) by (auto simp: trace_reserve_def)
  then have "issued (t\<lparr>tc_sink := sink, tc_pending := n # tc_pending t, tc_reserved := Suc (tc_reserved t)\<rparr>) = tc_reserved t # issued t"
      "sk_dropped sink = sk_dropped (tc_sink t)"
    by (simp_all add: issued_def)
  moreover have "tc_reserved t \<notin> set (issued t)" using assms(1) unfolding accounted_def by blast
  ultimately show ?thesis using assms(1) by (simp add: accounted_def less_SucI)
qed

definition tracing_ok :: "usize \<Rightarrow> tracing \<Rightarrow> bool" where
  "tracing_ok capacity t \<longleftrightarrow> sk_capacity (tc_sink t) = min capacity TRACE_MAX_CAPACITY \<and>
     length (sk_events (tc_sink t)) \<le> sk_capacity (tc_sink t) \<and>
     list_all (\<lambda>events. sorted (map te_sequence events)) (tc_drained t) \<and>
     (tc_reserved t < 2 ^ 64 \<longrightarrow> sk_next_sequence (tc_sink t) = tc_reserved t \<and> accounted t)"

lemma tracing_new_ok: "tracing_ok capacity (tracing_new capacity)"
  by (simp add: tracing_ok_def accounted_def tracing_new_def trace_new_def issued_def)

lemma trace_push_frame: "sk_capacity (trace_push b e k) = sk_capacity k" "sk_next_sequence (trace_push b e k) = sk_next_sequence k"
  "length (sk_events k) \<le> sk_capacity k \<Longrightarrow> length (sk_events (trace_push b e k)) \<le> sk_capacity k"
  by (simp_all add: trace_push_def)

lemma tracing_step: "sink_step t t' \<Longrightarrow> tracing_ok capacity t \<Longrightarrow> tracing_ok capacity t'"
proof (induction rule: sink_step.induct)
  case (reserve t n sink)
  let ?t = "t\<lparr>tc_sink := sink, tc_pending := n # tc_pending t, tc_reserved := Suc (tc_reserved t)\<rparr>"
  have "sk_next_sequence sink = Suc (tc_reserved t) \<and> accounted ?t" if "Suc (tc_reserved t) < 2 ^ 64"
  proof -
    have "sk_next_sequence (tc_sink t) = tc_reserved t" "accounted t" using reserve(2) that by (simp_all add: tracing_ok_def)
    then show ?thesis
      using reserve_accounted [OF _ _ reserve(1)] reserve(1) mod_less [OF that] by (auto simp: trace_reserve_def)
  qed
  then show ?case using reserve by (auto simp: tracing_ok_def trace_reserve_def)
next
  case (push n t lock_free elapsed obs)
  let ?e = "\<lparr>te_sequence = n, te_monotonic_nanoseconds = min elapsed u64_max, te_observation = obs\<rparr>"
  have "length (sk_events (trace_push lock_free ?e (tc_sink t))) \<le> sk_capacity (tc_sink t)"
    using push(2) [unfolded tracing_ok_def] by (intro trace_push_frame) blast
  moreover have "accounted (t\<lparr>tc_sink := trace_push lock_free ?e (tc_sink t), tc_pending := remove1 n (tc_pending t)\<rparr>)"
    if "tc_reserved t < 2 ^ 64"
    using push_accounted [OF _ that push(1)] push(2) that by (simp add: tracing_ok_def)
  ultimately show ?case using push(2) by (simp add: tracing_ok_def trace_push_frame)
next
  case (drain t events sink)
  let ?t = "t\<lparr>tc_sink := sink, tc_drained := tc_drained t @ [events]\<rparr>"
  have "accounted t \<Longrightarrow> accounted ?t"
    using accounted_mset [of t ?t] drain_issued [OF drain(1)] drain(1) by (auto simp: trace_drain_def)
  then show ?case using drain drain_issued(2) [OF drain(1)] by (auto simp: tracing_ok_def trace_drain_def)
qed

lemma tracing_steps: "sink_step\<^sup>*\<^sup>* (tracing_new capacity) t \<Longrightarrow> tracing_ok capacity t"
  by (induction rule: rtranclp_induct) (auto intro: tracing_new_ok tracing_step)

end
