(* ===== verification/Store_Import.thy ===== *)
theory Store_Import
  imports Store_Tracing Format_Schema
begin

text \<open>
  The disk accounting of an import: \<^verbatim>\<open>Layout::usage\<close> in \<^verbatim>\<open>crates/runnel-store/src/layout.rs\<close> and
  \<^verbatim>\<open>preflight_import\<close> in \<^verbatim>\<open>cas.rs\<close>. What the file system answers to a listing of a directory, to opening a
  blob and to \<^verbatim>\<open>fstatvfs\<close> is an argument, the \<open>layout\<close>. The staging directory is listed twice, and the two
  answers may differ.
\<close>

declare split_paired_All [simp del] split_paired_Ex [simp del]

section \<open>Blobs and entries\<close>

datatype blob_kind = ManifestBlob | PageTableBlob | ObjectBlob

text \<open>The derived order, by declaration.\<close>

fun blob_rank :: "blob_kind \<Rightarrow> nat" where
  "blob_rank ManifestBlob = 0"
| "blob_rank PageTableBlob = 1"
| "blob_rank ObjectBlob = 2"

lemma blob_rank_inject: "blob_rank x = blob_rank y \<Longrightarrow> x = y"
  by (cases x; cases y) simp_all

instantiation blob_kind :: linorder
begin

definition less_blob_kind :: "blob_kind \<Rightarrow> blob_kind \<Rightarrow> bool" where
  "less_blob_kind x y \<longleftrightarrow> blob_rank x < blob_rank y"

definition less_eq_blob_kind :: "blob_kind \<Rightarrow> blob_kind \<Rightarrow> bool" where
  "less_eq_blob_kind x y \<longleftrightarrow> blob_rank x \<le> blob_rank y"

instance
  by standard (auto simp: less_blob_kind_def less_eq_blob_kind_def intro: blob_rank_inject)

end

record leaf_entry =
  lf_name :: string
  lf_length :: u64
  lf_charged_bytes :: u64
  lf_device :: u64
  lf_inode :: u64

record resume_token =
  rk_kind :: blob_kind
  rk_digest :: digest
  rk_expected_length :: u64
  rk_stage_name :: string

record layout =
  ly_digest_entries :: "blob_kind \<Rightarrow> (store_error, leaf_entry list) result"
  ly_usage_stages :: "(store_error, leaf_entry list) result"
  ly_planned_stages :: "(store_error, leaf_entry list) result"
  ly_statvfs :: "string + u64 \<times> u64"
  ly_open_digest :: "blob_kind \<Rightarrow> digest \<Rightarrow> u64 \<Rightarrow> (store_error, unit) result"

section \<open>Usage\<close>

definition available_bytes :: "string + u64 \<times> u64 \<Rightarrow> (store_error, u64 \<times> u64) result" where
  "available_bytes stat = (case stat of
     Inl message \<Rightarrow> fail (StoreIo ''reading filesystem capacity'' message)
   | Inr (bavail, frsize) \<Rightarrow>
       rbind (ok_or (checked_mul bavail frsize) (StoreOverflow ''computing available filesystem bytes'')) (\<lambda>available.
       Ok (available, frsize)))"

text \<open>\<^verbatim>\<open>charged_inodes.insert\<close> tells whether the file is new; a file with two names is charged once.\<close>

definition charge_entry ::
  "string \<Rightarrow> leaf_entry \<Rightarrow> (u64 \<times> u64, unit) btree_map \<times> u64 \<Rightarrow> (store_error, (u64 \<times> u64, unit) btree_map \<times> u64) result" where
  "charge_entry context' entry st = (case st of (charged_inodes, bytes) \<Rightarrow>
     let inode = (lf_device entry, lf_inode entry) in
     if bt_get charged_inodes inode = None
     then rbind (ok_or (checked_add bytes (lf_charged_bytes entry)) (StoreOverflow context')) (\<lambda>bytes.
       Ok (bt_insert inode () charged_inodes, bytes))
     else Ok (charged_inodes, bytes))"

definition layout_usage :: "layout \<Rightarrow> (store_error, disk_usage) result" where
  "layout_usage ly =
     rbind (rfold (\<lambda>kind st. rbind (ly_digest_entries ly kind) (\<lambda>entries.
         rfold (charge_entry ''summing final CAS bytes'') entries st))
       [ManifestBlob, PageTableBlob, ObjectBlob] ([], 0)) (\<lambda>(charged_inodes, final_bytes).
     rbind (ly_usage_stages ly) (\<lambda>entries.
     rbind (rfold (charge_entry ''summing staged CAS bytes'') entries (charged_inodes, 0)) (\<lambda>(_, staging_bytes).
     rbind (available_bytes (ly_statvfs ly)) (\<lambda>(available, allocation_unit).
     let usage = \<lparr>du_final_bytes = final_bytes, du_staging_bytes = staging_bytes, du_available_bytes = available,
       du_allocation_unit = allocation_unit\<rparr> in
     rbind (checked_total_bytes usage) (\<lambda>_. Ok usage)))))"

section \<open>The plan of an import\<close>

definition import_blobs :: "manifest \<Rightarrow> u64 \<Rightarrow> (blob_kind \<times> digest \<times> u64) list" where
  "import_blobs manifest manifest_length =
     (ManifestBlob, mf_artifact_id manifest, manifest_length) #
     concat (map (\<lambda>record. [(PageTableBlob, or_page_table record, or_page_table_length record),
       (ObjectBlob, or_digest record, or_length record)]) (mf_objects manifest))"

definition staged_bytes ::
  "(blob_kind \<times> digest, resume_token) btree_map \<Rightarrow> (string, leaf_entry) btree_map \<Rightarrow> blob_kind \<Rightarrow> digest \<Rightarrow> u64" where
  "staged_bytes resumes stages kind digest =
     (case Option.bind (bt_get resumes (kind, digest)) (\<lambda>token. bt_get stages (rk_stage_name token)) of
        None \<Rightarrow> 0 | Some entry \<Rightarrow> lf_charged_bytes entry)"

definition plan_blob ::
  "layout \<Rightarrow> disk_usage \<Rightarrow> (blob_kind \<times> digest, resume_token) btree_map \<Rightarrow> (string, leaf_entry) btree_map
   \<Rightarrow> blob_kind \<times> digest \<times> u64 \<Rightarrow> u64 \<Rightarrow> (store_error, u64) result" where
  "plan_blob ly usage resumes stages blob additional = (case blob of (kind, digest, len) \<Rightarrow>
     (case ly_open_digest ly kind digest len of
        Inr _ \<Rightarrow> Ok additional
      | Inl (Err (Missing _)) \<Rightarrow>
          rbind (round_up usage len) (\<lambda>planned.
          ok_or (checked_add additional (saturating_sub planned (staged_bytes resumes stages kind digest)))
            (StoreOverflow ''summing planned CAS allocation''))
      | Inl error \<Rightarrow> Inl error))"

definition preflight_import ::
  "layout \<Rightarrow> disk_budget \<Rightarrow> manifest \<Rightarrow> u64 \<Rightarrow> (blob_kind \<times> digest, resume_token) btree_map \<Rightarrow> (store_error, unit) result" where
  "preflight_import ly budget manifest manifest_length resumes =
     rbind (layout_usage ly) (\<lambda>usage.
     rbind (ly_planned_stages ly) (\<lambda>entries.
     let stages = fold (\<lambda>entry. bt_insert (lf_name entry) entry) entries [] in
     rbind (rfold (plan_blob ly usage resumes stages) (import_blobs manifest manifest_length) 0) (\<lambda>additional.
     preflight budget usage additional)))"

section \<open>What is charged\<close>

abbreviation file_of :: "leaf_entry \<Rightarrow> u64 \<times> u64" where
  "file_of e \<equiv> (lf_device e, lf_inode e)"

text \<open>The allocation is that of the file, whatever name it is listed under.\<close>

definition charged_as :: "(u64 \<times> u64 \<Rightarrow> nat) \<Rightarrow> leaf_entry list \<Rightarrow> bool" where
  "charged_as blocks es \<longleftrightarrow> (\<forall>e\<in>set es. lf_charged_bytes e = blocks (file_of e))"

lemma charge_entry_cases:
  "charge_entry msg e (seen, b) =
     (if bt_get seen (file_of e) \<noteq> None then Ok (seen, b)
      else if b + lf_charged_bytes e \<le> u64_max then Ok (bt_insert (file_of e) () seen, b + lf_charged_bytes e)
      else fail (StoreOverflow msg))"
  by (simp add: charge_entry_def Let_def checked_add_def)

lemma new_file_sum:
  assumes "f \<notin> D" "finite F" shows "sum blocks (insert f F - D) = blocks f + sum blocks (F - insert f D)"
proof -
  have "insert f F - D = insert f (F - insert f D)" using assms(1) by auto
  then show ?thesis using assms(2) by simp
qed

text \<open>The files seen so far, and their allocations added up, each once.\<close>

definition charged_up :: "(u64 \<times> u64 \<Rightarrow> nat) \<Rightarrow> leaf_entry list \<Rightarrow> (u64 \<times> u64, unit) btree_map \<Rightarrow> nat
    \<Rightarrow> (u64 \<times> u64, unit) btree_map \<times> nat \<Rightarrow> bool" where
  "charged_up blocks es seen b st \<longleftrightarrow> bt_wf (fst st) \<and> dom (bt_get (fst st)) = dom (bt_get seen) \<union> file_of ` set es \<and>
     snd st = b + sum blocks (file_of ` set es - dom (bt_get seen))"

lemma charge_entries:
  assumes "charged_as blocks es" "bt_wf seen" "b \<le> u64_max"
  shows "if b + sum blocks (file_of ` set es - dom (bt_get seen)) \<le> u64_max
    then \<exists>st. rfold (charge_entry msg) es (seen, b) = Ok st \<and> charged_up blocks es seen b st
    else rfold (charge_entry msg) es (seen, b) = fail (StoreOverflow msg)"
  using assms
proof (induction es arbitrary: seen b)
  case (Cons e es)
  let ?f = "file_of e" let ?seen = "bt_insert ?f () seen"
  have es: "charged_as blocks es" and e: "lf_charged_bytes e = blocks ?f" using Cons.prems(1) by (simp_all add: charged_as_def)
  show ?case
  proof (cases "bt_get seen ?f")
    case None
    have dom: "dom (bt_get ?seen) = insert ?f (dom (bt_get seen))" using Cons.prems(2) by (auto simp: bt_get_insert)
    have total: "sum blocks (file_of ` set (e # es) - dom (bt_get seen)) =
        blocks ?f + sum blocks (file_of ` set es - dom (bt_get ?seen))"
      using new_file_sum [of ?f "dom (bt_get seen)" "file_of ` set es" blocks] None unfolding dom by (auto simp: domIff)
    have up: "charged_up blocks es ?seen (b + blocks ?f) st \<longleftrightarrow> charged_up blocks (e # es) seen b st" for st
      unfolding charged_up_def total unfolding dom by (simp add: add.assoc)
    show ?thesis
    proof (cases "b + blocks ?f \<le> u64_max")
      case True
      have "bt_wf ?seen" using Cons.prems(2) by simp
      from Cons.IH [OF es this True] show ?thesis
        unfolding total up using True None e by (simp add: charge_entry_cases add.assoc)
    next
      case False
      then show ?thesis unfolding total using None e by (simp add: charge_entry_cases)
    qed
  next
    case (Some u)
    then have "file_of ` set (e # es) - dom (bt_get seen) = file_of ` set es - dom (bt_get seen)"
      "dom (bt_get seen) \<union> file_of ` set (e # es) = dom (bt_get seen) \<union> file_of ` set es" by auto
    then show ?thesis
      using Cons.IH [OF es Cons.prems(2,3)] Some unfolding charged_up_def by (simp add: charge_entry_cases)
  qed
qed (auto simp: charged_up_def)

definition charged_files :: "(u64 \<times> u64 \<Rightarrow> nat) \<Rightarrow> leaf_entry list \<Rightarrow> nat" where
  "charged_files blocks es = sum blocks (file_of ` set es)"

text \<open>The answers of a layout without errors.\<close>

definition listed :: "layout \<Rightarrow> leaf_entry list \<Rightarrow> leaf_entry list \<Rightarrow> leaf_entry list \<Rightarrow> u64 \<times> u64 \<Rightarrow> bool" where
  "listed ly finals stages planned space \<longleftrightarrow> (\<exists>f. (\<forall>kind. ly_digest_entries ly kind = Ok (f kind)) \<and>
     finals = f ManifestBlob @ f PageTableBlob @ f ObjectBlob) \<and>
     ly_usage_stages ly = Ok stages \<and> ly_planned_stages ly = Ok planned \<and> ly_statvfs ly = Inr space"


lemma rfold_kinds:
  assumes "\<And>kind. ly_digest_entries ly kind = Ok (f kind)"
  shows "rfold (\<lambda>kind st. rbind (ly_digest_entries ly kind) (\<lambda>entries. rfold g entries st)) kinds st = rfold g (concat (map f kinds)) st"
proof (induction kinds arbitrary: st)
  case (Cons kind kinds)
  then have "rfold (\<lambda>kind st. rbind (ly_digest_entries ly kind) (\<lambda>entries. rfold g entries st)) kinds = rfold g (concat (map f kinds))"
    by (rule ext)
  then show ?case by (simp add: assms rfold_append)
qed simp

lemma charged_files_append:
  "charged_files blocks finals + sum blocks (file_of ` set stages - file_of ` set finals) = charged_files blocks (finals @ stages)"
proof -
  have "file_of ` set (finals @ stages) = file_of ` set finals \<union> (file_of ` set stages - file_of ` set finals)" by auto
  then show ?thesis unfolding charged_files_def by (simp only:) (rule sum.union_disjoint [symmetric], auto)
qed

lemma layout_usage_exact:
  assumes "listed ly finals stages planned (bavail, frsize)" "charged_as blocks (finals @ stages)"
  shows "if charged_files blocks (finals @ stages) \<le> u64_max \<and> bavail * frsize \<le> u64_max
    then layout_usage ly = Ok \<lparr>du_final_bytes = charged_files blocks finals,
      du_staging_bytes = sum blocks (file_of ` set stages - file_of ` set finals), du_available_bytes = bavail * frsize,
      du_allocation_unit = frsize\<rparr>
    else \<exists>msg. layout_usage ly = fail (StoreOverflow msg)"
proof -
  let ?S = "sum blocks (file_of ` set stages - file_of ` set finals)"
  from assms(1) obtain f where f: "\<And>kind. ly_digest_entries ly kind = Ok (f kind)" "finals = f ManifestBlob @ f PageTableBlob @ f ObjectBlob"
    and answers: "ly_usage_stages ly = Ok stages" "ly_statvfs ly = Inr (bavail, frsize)" by (auto simp: listed_def)
  have as: "charged_as blocks finals" "charged_as blocks stages" using assms(2) by (simp_all add: charged_as_def)
  note usage = layout_usage_def [of ly, unfolded rfold_kinds [OF f(1)]]
  have fin: "concat (map f [ManifestBlob, PageTableBlob, ObjectBlob]) = finals" using f(2) by simp
  show ?thesis
  proof (cases "charged_files blocks finals \<le> u64_max")
    case True
    then obtain seen where seen: "rfold (charge_entry ''summing final CAS bytes'') finals ([], 0) = Ok (seen, charged_files blocks finals)"
        "bt_wf seen" "dom (bt_get seen) = file_of ` set finals"
      using charge_entries [OF as(1), of "[]" 0 "''summing final CAS bytes''"] by (auto simp: charged_up_def charged_files_def)
    note stage = charge_entries [OF as(2) seen(2), of 0 "''summing staged CAS bytes''", unfolded seen(3)]
    show ?thesis
      unfolding charged_files_append [of blocks finals stages, symmetric] usage fin seen(1)
      using stage answers by (cases "?S \<le> u64_max")
        (auto simp: charged_up_def seen(3) available_bytes_def checked_total_bytes_def checked_add_def checked_mul_def Let_def)
  next
    case False
    then show ?thesis
      using charge_entries [OF as(1), of "[]" 0 "''summing final CAS bytes''"]
      unfolding charged_files_append [of blocks finals stages, symmetric] usage fin by (simp add: charged_files_def)
  qed
qed

section \<open>What is planned\<close>

text \<open>The allocation of \<open>n\<close> bytes in whole units, and what a resumed stage already holds of a blob.\<close>

definition rounded :: "nat \<Rightarrow> nat \<Rightarrow> nat" where
  "rounded unit n = max unit 1 * ceil_div n (max unit 1)"

definition staged_of :: "(blob_kind \<times> digest, resume_token) btree_map \<Rightarrow> leaf_entry list \<Rightarrow> blob_kind \<Rightarrow> digest \<Rightarrow> nat" where
  "staged_of resumes entries kind d = (case bt_get resumes (kind, d) of None \<Rightarrow> 0 | Some token \<Rightarrow>
     (case find (\<lambda>e. lf_name e = rk_stage_name token) (rev entries) of None \<Rightarrow> 0 | Some e \<Rightarrow> lf_charged_bytes e))"

definition absent :: "layout \<Rightarrow> blob_kind \<times> digest \<times> u64 \<Rightarrow> bool" where
  "absent ly blob = (case blob of (kind, d, len) \<Rightarrow> \<exists>what. ly_open_digest ly kind d len = fail (Missing what))"

definition shortage :: "nat \<Rightarrow> (blob_kind \<times> digest, resume_token) btree_map \<Rightarrow> leaf_entry list \<Rightarrow> blob_kind \<times> digest \<times> u64 \<Rightarrow> nat" where
  "shortage unit resumes entries blob = (case blob of (kind, d, len) \<Rightarrow> rounded unit len - staged_of resumes entries kind d)"

lemma round_up_exact:
  assumes "n \<le> u64_max"
  shows "round_up u n = (if rounded (du_allocation_unit u) n \<le> u64_max then Ok (rounded (du_allocation_unit u) n)
    else fail (StoreOverflow ''rounding planned disk allocation''))"
proof -
  define k where "k = max (du_allocation_unit u) 1"
  have k: "0 < k" by (simp add: k_def)
  have n: "n = k * (n div k) + n mod k" by simp
  have "k * ceil_div n k = (if n mod k = 0 then n else n + (k - n mod k))"
  proof (cases "n mod k = 0")
    case True
    then obtain q where "n = k * q" by (auto elim: dvdE simp: dvd_eq_mod_eq_0 [symmetric])
    moreover have "(k * q + (k - 1)) div k = q" using k by (intro div_nat_eqI) simp_all
    ultimately show ?thesis using True by (simp only: ceil_div_def) simp
  next
    case False
    have less: "n mod k < k" using k by simp
    have "n + (k - 1) = (n mod k - 1) + k * Suc (n div k)" using n False k by simp
    then have "ceil_div n k = Suc (n div k)" unfolding ceil_div_def using k less by (simp only: div_mult_self2) simp
    moreover have "k * Suc (n div k) = n + (k - n mod k)" using n less unfolding mult_Suc_right by linarith
    ultimately show ?thesis using False by simp
  qed
  then show ?thesis using assms unfolding round_up_def Let_def rounded_def k_def [symmetric] by (auto simp: checked_add_def)
qed

lemma bt_get_stages:
  fixes es :: "leaf_entry list"
  shows "bt_wf m \<Longrightarrow> bt_get (fold (\<lambda>e. bt_insert (lf_name e) e) es m) x =
    (case find (\<lambda>e. lf_name e = x) (rev es) of None \<Rightarrow> bt_get m x | Some e \<Rightarrow> Some e)"
proof (induction es arbitrary: m)
  case (Cons e es)
  have snoc: "find P (xs @ [y]) = (case find P xs of None \<Rightarrow> if P y then Some y else None | Some z \<Rightarrow> Some z)"
    for P and xs :: "leaf_entry list" and y by (induction xs) auto
  then show ?case using Cons by (simp add: bt_get_insert snoc split: option.splits)
qed simp

lemma staged_bytes_of: "staged_bytes resumes (fold (\<lambda>e. bt_insert (lf_name e) e) es []) kind d = staged_of resumes es kind d"
  by (auto simp: staged_bytes_def staged_of_def bt_get_stages split: option.splits)

lemma plan_blob_exact:
  assumes "ly_open_digest ly kind d len = Ok () \<or> absent ly (kind, d, len)" "len \<le> u64_max"
  shows "plan_blob ly u resumes (fold (\<lambda>e. bt_insert (lf_name e) e) es []) (kind, d, len) a =
    (if \<not> absent ly (kind, d, len) then Ok a
     else if u64_max < rounded (du_allocation_unit u) len then fail (StoreOverflow ''rounding planned disk allocation'')
     else if a + shortage (du_allocation_unit u) resumes es (kind, d, len) \<le> u64_max
     then Ok (a + shortage (du_allocation_unit u) resumes es (kind, d, len))
     else fail (StoreOverflow ''summing planned CAS allocation''))"
  using assms
  by (auto simp: plan_blob_def absent_def round_up_exact staged_bytes_of shortage_def saturating_sub_def checked_add_def)

lemma plan_exact:
  assumes "\<forall>(kind, d, len)\<in>set blobs. (ly_open_digest ly kind d len = Ok () \<or> absent ly (kind, d, len)) \<and> len \<le> u64_max" "a \<le> u64_max"
  defines "missing \<equiv> filter (absent ly) blobs"
  shows "(rfold (plan_blob ly u resumes (fold (\<lambda>e. bt_insert (lf_name e) e) es [])) blobs a = Ok r \<longleftrightarrow>
      (\<forall>(kind, d, len)\<in>set missing. rounded (du_allocation_unit u) len \<le> u64_max) \<and>
      r = a + sum_list (map (shortage (du_allocation_unit u) resumes es) missing) \<and> r \<le> u64_max) \<and>
    wp graceful (rfold (plan_blob ly u resumes (fold (\<lambda>e. bt_insert (lf_name e) e) es [])) blobs a) (\<lambda>_. True)"
  using assms(1,2) unfolding missing_def
proof (induction blobs arbitrary: a)
  case (Cons blob blobs)
  obtain kind d len where blob: "blob = (kind, d, len)" by (metis prod_cases3)
  note step = plan_blob_exact [of ly kind d len u resumes es a]
  have tail: "\<forall>(kind, d, len)\<in>set blobs. (ly_open_digest ly kind d len = Ok () \<or> absent ly (kind, d, len)) \<and> len \<le> u64_max"
    using Cons.prems(1) by simp
  show ?case using step Cons.IH [OF tail] Cons.prems unfolding blob by (auto simp: add.assoc)
qed auto

section \<open>The preflight\<close>

lemma preflight_import_iff:
  fixes resumes :: "(blob_kind \<times> digest, resume_token) btree_map"
  assumes "listed ly finals stages planned (bavail, frsize)" "charged_as blocks (finals @ stages)"
    "\<forall>(kind, d, len)\<in>set (import_blobs m manifest_length).
      (ly_open_digest ly kind d len = Ok () \<or> absent ly (kind, d, len)) \<and> len \<le> u64_max"
    "db_max_bytes b \<le> u64_max"
  defines "missing \<equiv> filter (absent ly) (import_blobs m manifest_length)"
  defines "needed \<equiv> sum_list (map (shortage frsize resumes planned) missing)"
  shows "(preflight_import ly b m manifest_length resumes = Ok () \<longleftrightarrow>
      bavail * frsize \<le> u64_max \<and> (\<forall>(kind, d, len)\<in>set missing. rounded frsize len \<le> u64_max) \<and>
      charged_files blocks (finals @ stages) + needed \<le> db_max_bytes b \<and>
      (needed = 0 \<or> needed + db_reserve_bytes b \<le> bavail * frsize)) \<and>
    wp graceful (preflight_import ly b m manifest_length resumes) (\<lambda>_. True)"
proof (cases "charged_files blocks (finals @ stages) \<le> u64_max \<and> bavail * frsize \<le> u64_max")
  case True
  let ?u = "\<lparr>du_final_bytes = charged_files blocks finals,
      du_staging_bytes = sum blocks (file_of ` set stages - file_of ` set finals), du_available_bytes = bavail * frsize,
      du_allocation_unit = frsize\<rparr>"
  have usage: "layout_usage ly = Ok ?u" using layout_usage_exact [OF assms(1,2)] True by simp
  have planned: "ly_planned_stages ly = Ok planned" using assms(1) by (simp add: listed_def)
  have total: "du_final_bytes ?u + du_staging_bytes ?u = charged_files blocks (finals @ stages)"
    using charged_files_append by simp
  note plan = plan_exact [OF assms(3), of 0 ?u resumes planned, folded missing_def, simplified, folded needed_def]
  let ?p = "rfold (plan_blob ly ?u resumes (fold (\<lambda>e. bt_insert (lf_name e) e) planned [])) (import_blobs m manifest_length) 0"
  have run: "preflight_import ly b m manifest_length resumes = rbind ?p (preflight b ?u)"
    by (simp add: preflight_import_def usage planned)
  have ok: "?p = Ok r \<longleftrightarrow> (\<forall>(kind, d, len)\<in>set missing. rounded frsize len \<le> u64_max) \<and> r = needed \<and> r \<le> u64_max" for r
    by (rule conjunct1 [OF plan])
  have exact: "preflight b ?u needed = Ok () \<longleftrightarrow> charged_files blocks (finals @ stages) + needed \<le> db_max_bytes b \<and>
      (needed = 0 \<or> needed + db_reserve_bytes b \<le> bavail * frsize)"
    using preflight_exact [OF assms(4), of ?u needed, unfolded total] by simp
  show ?thesis
  proof (cases ?p)
    case (Inl f)
    then have "graceful f" using conjunct2 [OF plan] by simp
    moreover have "\<not> ((\<forall>(kind, d, len)\<in>set missing. rounded frsize len \<le> u64_max) \<and> needed \<le> u64_max)" using ok [of needed] Inl by simp
    ultimately show ?thesis unfolding run Inl using assms(4) by auto
  next
    case (Inr r)
    from iffD1 [OF ok this] have r: "\<forall>(kind, d, len)\<in>set missing. rounded frsize len \<le> u64_max" "r = needed" by blast+
    have run': "preflight_import ly b m manifest_length resumes = preflight b ?u needed" using run Inr r(2) by simp
    show ?thesis unfolding run' exact using r(1) True preflight_wp [of b ?u needed] by blast
  qed
next
  case False
  then obtain msg where "layout_usage ly = fail (StoreOverflow msg)" using layout_usage_exact [OF assms(1,2)] by (auto split: if_splits)
  then show ?thesis using False assms(4) by (auto simp: preflight_import_def)
qed

end
