(* ===== verification/Store_Properties.thy ===== *)
theory Store_Properties
  imports Store_Sample Store_Honest Store_Lru Store_Closed Store_Import
begin

text \<open>
  The properties of \<^verbatim>\<open>crates/runnel-store\<close>, stated over its operations and over the states the page cache reaches
  with its callers and workers.
\<close>

declare split_paired_All [simp del] split_paired_Ex [simp del]

section \<open>The page cache as a whole\<close>

text \<open>
  C1: The page cache implements the abstract lease protocol. In every state it can reach, with any number of callers,
  workers and other users of the reader, one more step of the system keeps the invariant of the cache (balanced
  ledger, limits of the configuration, authentic pages) and is a sequence of steps of the protocol.
\<close>

theorem cache_refines_protocol:
  assumes "reachable sha alloc y" "system_step sha alloc y y'"
  shows "cache_ok sha (sy_cache y) \<and> cache_ok sha (sy_cache y') \<and>
    (protocol_step sha)\<^sup>*\<^sup>* (protocol_of y) (protocol_of y')"
  using reachable_ok [OF assms(1)] system_step_simulated [OF assms(2)] by (simp add: system_ok_def simulated_def)

theorem cache_refines_protocol_witness:
  "cache_ok sample_sha (sy_cache sample_created) \<and> cache_ok sample_sha (sy_cache sample_queued) \<and>
    (protocol_step sample_sha)\<^sup>*\<^sup>* (protocol_of sample_created) (protocol_of sample_queued)"
  using cache_refines_protocol [OF sample_reachable_created sample_step_queued] .

text \<open>
  C3: A lease is never invalidated under its holder. For every lease in existence, held by a caller or on its way in a
  channel, the cache still has the entry it was given out for, with the same generation and the very page of the
  lease; the bytes of that page have the hash and the length the entry was requested with.
\<close>

theorem lease_protected:
  assumes "reachable sha alloc y" "l \<in> set (live_leases y)"
  shows "\<exists>e. bt_get (ci_entries (sy_cache y)) (pl_key l) = Some e \<and> en_generation e = pl_generation l \<and>
    entry_page e = Some (pl_page l) \<and> vp_key (pl_page l) = pl_key l \<and>
    sha (vp_bytes (pl_page l)) = en_fingerprint e \<and> length (vp_bytes (pl_page l)) = en_length e"
  using assms by (rule live_lease_entry)

theorem lease_protected_witness:
  "\<exists>e. bt_get (ci_entries (sy_cache sample_leased)) sample_key = Some e \<and> en_generation e = 1 \<and>
    entry_page e = Some sample_page \<and> vp_key sample_page = sample_key \<and>
    sample_sha (vp_bytes sample_page) = en_fingerprint e \<and> length (vp_bytes sample_page) = en_length e"
  using lease_protected [OF sample_reachable(4), of sample_lease]
  by (simp add: live_leases_def sample_leased_def sample_lease_def)

text \<open>
  C4: Nobody waits in vain. From any reachable state the workers can take at most \<open>backlog\<close> steps, two for a queued
  request and one for a running one; before that many they are never stuck; and after that many every caller that was
  waiting has an answer in its channel, whatever the reads returned.
\<close>

theorem workers_answer_all:
  assumes "reachable sha alloc y" "(worker_step sha alloc ^^ n) y y'"
  shows "n \<le> backlog y \<and> (n < backlog y \<longrightarrow> (\<exists>z. worker_step sha alloc y' z)) \<and>
    (n = backlog y \<longrightarrow> (\<forall>w. sy_waits y w \<noteq> None \<longrightarrow> (\<exists>r. (w, r) \<in> set (sy_inbox y'))))"
proof -
  note run = worker_run [OF assms(2,1)]
  have stuck: "backlog y' = 0" if "\<nexists>z. worker_step sha alloc y' z"
    using idle_workers [of sha alloc y'] run that by (simp add: backlog_def)
  have "\<nexists>z. worker_step sha alloc y' z" if "backlog y' = 0"
    using worker_step_backlog [of sha alloc y'] reachable_ok [of sha alloc y'] run that by force
  then show ?thesis
    using run stuck workers_answer [of sha alloc y'] by fastforce
qed

theorem workers_answer_all_witness:
  "(worker_step sample_sha (\<lambda>n. n) ^^ 2) sample_queued sample_answered \<and> backlog sample_queued = 2 \<and>
    (\<exists>r. (1, r) \<in> set (sy_inbox sample_answered))"
proof -
  have run: "(worker_step sample_sha (\<lambda>n. n) ^^ 2) sample_queued sample_answered"
    using sample_step_running sample_step_answered by (auto simp: numeral_2_eq_2)
  have "backlog sample_queued = 2" by (simp add: backlog_def sample_queued_def sample_created_def sample_waiting_def sample_reader_def)
  then show ?thesis
    using workers_answer_all [OF sample_reachable(1) run] run by (simp add: sample_queued_def)
qed

text \<open>
  C18: An answer that carries a lease is for the page the caller asked for: the key of its specification, bytes of its
  length, and the hash it names.
\<close>

theorem answers_genuine:
  assumes "reachable sha alloc y" "sy_waits y w = Some (spec, g)" "(w, Inr l) \<in> set (sy_inbox y)"
  shows "pl_key l = sp_key spec \<and> vp_key (pl_page l) = sp_key spec \<and> sha (vp_bytes (pl_page l)) = sp_fingerprint spec \<and>
    length (vp_bytes (pl_page l)) = sp_length spec"
  using assms by (rule answer_genuine)

theorem answers_genuine_witness:
  "sample_sha (vp_bytes (pl_page sample_lease)) = sp_fingerprint sample_spec \<and>
    length (vp_bytes (pl_page sample_lease)) = sp_length sample_spec"
  using answers_genuine [OF sample_reachable(3), of 1 sample_spec 1 sample_lease]
  by (simp add: sample_answered_def sample_running_def sample_queued_def)

text \<open>
  C19: Concurrent demands for one page share one read: in every reachable state a page that is loading has exactly one
  detached request in the queue or with a worker, and any other page has none.
\<close>

theorem loads_coalesced:
  assumes "reachable sha alloc y"
  shows "length (filter (\<lambda>rq. \<exists>g. rq_completion rq = Detached k g) (ar_queue (ci_reader (sy_cache y)) @ sy_running y)) =
    (if loading (sy_cache y) k then 1 else 0)"
  using assms by (rule one_load)

theorem loads_coalesced_witness:
  "loading (sy_cache sample_running) sample_key \<and>
    length (filter (\<lambda>rq. \<exists>g. rq_completion rq = Detached sample_key g) (sy_running sample_running)) = 1"
proof -
  have "loading (sy_cache sample_running) sample_key" "ar_queue (ci_reader (sy_cache sample_running)) = []"
    by (simp_all add: loading_def sample_running_def sample_waiting_def sample_entry_def sample_reader_def bt_get_def)
  then show ?thesis using loads_coalesced [OF sample_reachable(2), of sample_key] by simp
qed

text \<open>
  C16: The memory and the concurrency of the cache are bounded by its configuration in every reachable state: the bytes
  charged to the page pool are the allocations of the entries and within the capacity, and the in-flight bytes,
  loads, waiters, leases (given out or reserved) and entries are within their limits.
\<close>

theorem cache_within_limits:
  assumes "reachable sha alloc y"
  shows "lg_page_pool_bytes (ci_ledger (sy_cache y)) = sum_list (map (\<lambda>(k, e). en_allocation_bytes e) (ci_entries (sy_cache y))) \<and>
    lg_page_pool_bytes (ci_ledger (sy_cache y)) \<le> cc_page_pool_capacity (ci_config (sy_cache y)) \<and>
    lg_inflight_bytes (ci_ledger (sy_cache y)) \<le> cc_max_inflight_bytes (ci_config (sy_cache y)) \<and>
    lg_active_loads (ci_ledger (sy_cache y)) \<le> cc_max_loads (ci_config (sy_cache y)) \<and>
    lg_waiters (ci_ledger (sy_cache y)) \<le> cc_max_waiters (ci_config (sy_cache y)) \<and>
    lg_leases (ci_ledger (sy_cache y)) + lg_lease_reservations (ci_ledger (sy_cache y)) \<le> cc_max_leases (ci_config (sy_cache y)) \<and>
    length (ci_entries (sy_cache y)) \<le> cc_max_entries (ci_config (sy_cache y))"
proof -
  have pool: "weight lg_page_pool_bytes m = sum_list (map (\<lambda>(k, e). en_allocation_bytes e) m)" for m
    by (induction m) (auto simp: btotal_def weigh_def split: entry_state.splits)
  show ?thesis
    using reachable_ok [OF assms] pool
    by (simp add: system_ok_def cache_ok_def core_ok_def core_def balanced_def within_def)
qed

theorem cache_within_limits_witness:
  "lg_page_pool_bytes (ci_ledger (sy_cache sample_queued)) \<le> 64 \<and> lg_page_pool_bytes (ci_ledger (sy_cache sample_queued)) = 64"
  using cache_within_limits [OF sample_reachable(1)]
  by (simp add: sample_queued_def sample_waiting_def sample_config_def sample_entry_def)

section \<open>The operations of the page cache\<close>

text \<open>
  The outcome of a load is an error, or a page with the fingerprint its entry was requested with. The reader sees to
  that before it hands a page over.
\<close>

definition fingerprinted :: "(u8 list \<Rightarrow> digest) \<Rightarrow> cache_inner \<Rightarrow> page_key \<Rightarrow> u64 \<Rightarrow> store_error + verified_page \<Rightarrow> bool" where
  "fingerprinted sha s k g outcome \<longleftrightarrow> (\<forall>p e. outcome = Inr p \<longrightarrow> bt_get (ci_entries s) k = Some e \<longrightarrow> en_generation e = g \<longrightarrow>
     sha (vp_bytes p) = en_fingerprint e)"

text \<open>
  C11: No operation of the cache panics. From any state that satisfies the invariant, each critical section of a caller
  (demand, wait, prefetch, use, withdrawal, lease release, invalidation, shutdown) returns or fails with an error, and
  leaves a state that satisfies the invariant either way. Finishing a load, with an error or with a page of the
  entry's fingerprint, always returns; it keeps the invariant and answers the waiters of that load, each once.
\<close>

theorem operations_never_panic:
  assumes "cache_ok sha s" "mset (order (bt_keys (ci_entries s))) = mset (bt_keys (ci_entries s))"
  shows "awp (safe (cache_ok sha)) (get_enter runtime point spec) (\<lambda>_. cache_ok sha) s \<and>
    awp (safe (cache_ok sha)) (get_poll point elapsed spec g w event) (\<lambda>_. cache_ok sha) s \<and>
    awp (safe (cache_ok sha)) (prefetch runtime point spec) (\<lambda>_. cache_ok sha) s \<and>
    awp (safe (cache_ok sha)) (mark_prefetch_use k g) (\<lambda>_. cache_ok sha) s \<and>
    awp (safe (cache_ok sha)) (withdraw_waiter k g w) (\<lambda>_. cache_ok sha) s \<and>
    awp (safe (cache_ok sha)) (release_lease k g) (\<lambda>_. cache_ok sha) s \<and>
    awp (safe (cache_ok sha)) (invalidate k) (\<lambda>_. cache_ok sha) s \<and>
    awp (safe (cache_ok sha)) (cache_shutdown order) (\<lambda>_. cache_ok sha) s \<and>
    (fingerprinted sha s k g outcome \<longrightarrow>
      awp (\<lambda>_ _. False) (complete_load k g outcome) (\<lambda>sent s'. cache_ok sha s' \<and> map fst sent = waiting_on s k g) s \<and>
      awp (\<lambda>_ _. False) (finish_observed_load k g outcome stats) (\<lambda>sent s'. cache_ok sha s' \<and> map fst sent = waiting_on s k g) s)"
proof -
  have "awp (safe (cache_ok sha)) (invalidate k) (\<lambda>_. cache_ok sha) s"
    by (rule awp_post [OF invalidate_ok [OF assms(1)]]) simp
  moreover have "awp (safe (cache_ok sha)) (cache_shutdown order) (\<lambda>_. cache_ok sha) s"
    by (rule awp_post [OF cache_shutdown_ok [of sha s order, OF assms]]) simp
  ultimately show ?thesis
    by (intro conjI impI get_enter_ok get_poll_ok prefetch_ok mark_prefetch_use_ok withdraw_waiter_ok release_lease_ok
        complete_load_ok finish_observed_load_ok assms) (auto simp: fingerprinted_def)
qed

theorem operations_never_panic_witness:
  "(cache_ok sample_sha sample_loaded \<and> awp (safe (cache_ok sample_sha)) (release_lease sample_key 1) (\<lambda>_. cache_ok sample_sha) sample_loaded) \<and>
   (cache_ok sample_sha (sample_waiting []) \<and> awp (\<lambda>_ _. False)
      (finish_observed_load sample_key 1 (Inr sample_page) \<lparr>st_physical_bytes = 4, st_io_nanoseconds = 7\<rparr>)
      (\<lambda>sent s'. cache_ok sample_sha s' \<and> map fst sent = [1]) (sample_waiting []))"
proof -
  have ok: "cache_ok sample_sha sample_loaded" "cache_ok sample_sha (sample_waiting [])"
    using reachable_ok [OF sample_reachable(3)] reachable_ok [OF sample_reachable(2)]
    by (simp_all add: system_ok_def sample_answered_def sample_running_def)
  have "fingerprinted sample_sha (sample_waiting []) sample_key 1 (Inr sample_page)"
    by (simp add: fingerprinted_def sample_waiting_def bt_get_def sample_entry_def sample_page_def)
  moreover have "waiting_on (sample_waiting []) sample_key 1 = [1]"
    by (simp add: waiting_on_def sample_waiting_def bt_get_def sample_entry_def)
  ultimately show ?thesis
    using operations_never_panic [of sample_sha sample_loaded "\<lambda>ks. ks"] ok
      operations_never_panic [where sha = sample_sha and s = "sample_waiting []" and order = "\<lambda>ks. ks" and k = sample_key and g = 1
        and outcome = "Inr sample_page"]
    by simp
qed

text \<open>
  C20: Room for a load is made by evicting the least recently used pages, and no more of them than needed. When a load is
  admitted, the pages gone are a set \<open>V\<close> of unleased residents, each touched before every unleased resident outside
  \<open>V\<close> (the smaller key first on a tie); without \<open>V\<close> the load fits in the pool and in the number of entries, without a
  smaller such set it would not; every other entry is untouched, and the pool loses the bytes of \<open>V\<close> and gains those of
  the load. When it is refused nothing changed, and the load would not fit with every unleased page gone, or the limit
  of in-flight bytes or of loads is reached. It neither fails nor panics.
\<close>

theorem least_recently_used_evicted:
  assumes "cache_ok sha s" "a \<le> cc_page_pool_capacity (ci_config s)"
  shows "awp (\<lambda>_ _. False) (reserve_load a reason) (\<lambda>admitted s'. if admitted
      then \<exists>V. oldest (ci_entries s) V \<and> fits_without s a V \<and>
        (\<forall>W. oldest (ci_entries s) W \<and> W \<subset> V \<longrightarrow> \<not> fits_without s a W) \<and>
        bt_get (ci_entries s') = bt_get (ci_entries s) |` (- V) \<and>
        lg_page_pool_bytes (ci_ledger s') + allocated (ci_entries s) V = lg_page_pool_bytes (ci_ledger s) + a
      else s' = s \<and> (cc_max_inflight_bytes (ci_config s) < lg_inflight_bytes (ci_ledger s) + a \<or>
        cc_max_loads (ci_config s) \<le> lg_active_loads (ci_ledger s) \<or> \<not> fits_without s a (unleased (ci_entries s)))) s"
proof -
  have core: "core_ok sha s" using assms(1) by (simp add: cache_ok_def)
  have ok: "awp (\<lambda>_ _. False) (reserve_load a reason) (\<lambda>admitted s'. if admitted then reserved sha a s s' else s' = s) s"
    by (rule reserve_load_ok [OF core assms(2)])
  show ?thesis
    by (rule awp_conseq [OF awp_conj [OF ok reserve_load_refused [OF core assms(2), of reason]]])
      (use reserved_oldest [OF core assms(2)] in \<open>simp_all split: if_splits\<close>)
qed

text \<open>A full cache with two pages, of which the one with the larger key was touched first.\<close>

definition later_key :: page_key where
  "later_key = (sample_sha sample_payload, 65536, 1)"

definition resting :: "page_key \<Rightarrow> u64 \<Rightarrow> entry" where
  "resting key tick = sample_entry (Resident \<lparr>rp_page = sample_page\<lparr>vp_key := key\<rparr>, rp_leases = 0, rp_prefetched_unused = False,
     rp_last_touch = tick\<rparr>)"

definition sample_full :: cache_inner where
  "sample_full = sample_empty\<lparr>ci_config := sample_config\<lparr>cc_page_pool_capacity := 128\<rparr>,
     ci_entries := [(sample_key, resting sample_key 2), (later_key, resting later_key 1)],
     ci_ledger := ledger_default\<lparr>lg_page_pool_bytes := 128, lg_resident_bytes := 128\<rparr>,
     ci_metrics := metrics_default\<lparr>mt_page_pool_bytes := 128, mt_resident_bytes := 128\<rparr>,
     ci_generation := 1, ci_tick := 2\<rparr>"

lemma sample_full_entries:
  "bt_get (ci_entries sample_full) k =
     (if k = sample_key then Some (resting sample_key 2) else if k = later_key then Some (resting later_key 1) else None)"
  by (simp add: sample_full_def bt_get_def)

lemma sample_full_ok: "cache_ok sample_sha sample_full"
proof -
  have keys: "sample_key < later_key" by (simp add: sample_key_def later_key_def less_prod_def)
  have "config_ok (ci_config sample_full)"
    by (simp add: sample_full_def config_ok_def sample_config_def config_validate_def max_page_allocation_def
        aligned_page_buffer_bytes_def checked_add_def PAGE_BUFFER_ALIGNMENT_def u64_max_def MAX_ENTRIES_def MAX_LOADS_def
        MAX_WAITERS_def MAX_WAITERS_PER_PAGE_def MAX_LEASES_def TRACE_MAX_CAPACITY_def)
  moreover have "bt_wf (ci_entries sample_full)" using keys by (simp add: sample_full_def bt_wf_def)
  moreover have "entry_ok sample_sha c 1 False k (resting k n)" if "k = sample_key \<or> k = later_key" for k n c
    using that by (auto simp: entry_ok_def resting_def sample_entry_def authentic_def page_fits_def sample_page_def
        sample_key_def later_key_def sample_payload_def aligned_page_buffer_bytes_def checked_add_def PAGE_BUFFER_ALIGNMENT_def u64_max_def)
  then have "\<forall>k e. bt_get (ci_entries sample_full) k = Some e \<longrightarrow>
      entry_ok sample_sha (ci_config sample_full) (ci_generation sample_full) (ci_shutdown sample_full) k e"
    unfolding sample_full_entries by (auto simp: sample_full_def sample_empty_def split: if_splits)
  moreover have "balanced (ci_entries sample_full) (ci_ledger sample_full)" "gauged (ci_metrics sample_full) (ci_ledger sample_full)"
      "within (ci_config sample_full) (ci_entries sample_full) (ci_ledger sample_full)"
    by (simp_all add: sample_full_def balanced_def gauged_def within_def weigh_def resting_def sample_entry_def ledger_default_def
        metrics_default_def sample_config_def btotal_def)
  ultimately show ?thesis by (simp add: cache_ok_def core_ok_def core_def)
qed

theorem least_recently_used_evicted_witness:
  "awp (\<lambda>_ _. False) (reserve_load 64 Demand) (\<lambda>admitted s'. admitted \<and> bt_get (ci_entries s') later_key = None \<and>
     bt_get (ci_entries s') sample_key = Some (resting sample_key 2) \<and> lg_page_pool_bytes (ci_ledger s') = 128) sample_full"
proof -
  let ?m = "ci_entries sample_full"
  have neq: "sample_key \<noteq> later_key" by (simp add: sample_key_def later_key_def)
  have touched: "touched ?m k t \<longleftrightarrow> k = sample_key \<and> t = 2 \<or> k = later_key \<and> t = 1" for k t
    using neq by (auto simp: touched_def sample_full_entries resting_def sample_entry_def)
  have all: "unleased ?m = {sample_key, later_key}" using touched by (auto simp: unleased_def)
  have alloc: "allocated ?m {} = 0" "allocated ?m {later_key} = 64" "allocated ?m {sample_key, later_key} = 128"
    using neq by (simp_all add: allocated_def sample_full_entries resting_def sample_entry_def)
  have fits: "\<not> fits_without sample_full 64 {}" "fits_without sample_full 64 {later_key}" "fits_without sample_full 64 {sample_key, later_key}"
    unfolding fits_without_def alloc using neq by (simp_all add: sample_full_def sample_config_def)
  have least: "V = {later_key}" if V: "oldest ?m V" "fits_without sample_full 64 V"
      "\<forall>W. oldest ?m W \<and> W \<subset> V \<longrightarrow> \<not> fits_without sample_full 64 W" for V
  proof -
    have "oldest ?m {later_key}" unfolding oldest_def touched all using neq by auto
    moreover have "V = {} \<or> V = {later_key} \<or> V = {sample_key} \<or> V = {sample_key, later_key}" using V(1) unfolding oldest_def all by blast
    moreover have "\<not> oldest ?m {sample_key}" unfolding oldest_def touched using neq by auto
    ultimately show ?thesis using V fits neq by blast
  qed
  show ?thesis
    by (rule awp_post [OF least_recently_used_evicted [OF sample_full_ok]])
      (use fits(3) neq least alloc(2) in \<open>auto simp: sample_full_entries all sample_full_def [THEN arg_cong, of ci_config]
         sample_full_def [THEN arg_cong, of ci_ledger] sample_config_def sample_empty_def ledger_default_def split: if_splits dest!: least\<close>)
qed

text \<open>
  C28: Shutdown releases everything. Once the cache is shut down, no load is outstanding and the last lease is dropped,
  the cache holds no entry and its ledger is back at zero.
\<close>

theorem shutdown_releases_all:
  assumes "reachable sha alloc y" "ci_shutdown (sy_cache y)"
    "filter (\<lambda>rq. rq_completion rq \<noteq> Await) (ar_queue (ci_reader (sy_cache y)) @ sy_running y) = []" "live_leases y = []"
  shows "ci_entries (sy_cache y) = [] \<and> ci_ledger (sy_cache y) = ledger_default"
  using assms by (rule shutdown_drained)

definition sample_closed :: cache_inner where
  "sample_closed = sample_empty\<lparr>ci_shutdown := True, ci_reader := reader_close (sample_reader [])\<rparr>"

lemma sample_closed_reachable: "reachable sample_sha (\<lambda>n. n) (sample_created\<lparr>sy_cache := sample_closed\<rparr>)"
proof -
  let ?y = "sample_created\<lparr>sy_cache := sample_closed\<rparr>"
  have "cache_shutdown (\<lambda>ks. ks) (sy_cache sample_created) = (Ok [], sample_closed)"
    by (simp add: sample_created_def sample_empty_def sample_closed_def cache_shutdown_def action_defs bt_keys_def
        update_live_metrics_def meter_def ledger_default_def metrics_default_def set_live_def checked_add_def fail_waiters_def)
  from shut_down [OF _ this] have "system_step sample_sha (\<lambda>n. n) sample_created (deliver [] ?y)" by simp
  then show ?thesis
    using reachable.step [OF sample_reachable_created] by (simp add: deliver_def lease_list_def sample_created_def)
qed

theorem shutdown_releases_all_witness:
  "ci_entries sample_closed = [] \<and> ci_ledger sample_closed = ledger_default"
  using shutdown_releases_all [OF sample_closed_reachable]
  by (simp add: sample_closed_def live_leases_def lease_list_def sample_created_def reader_close_def sample_reader_def)

text \<open>
  C33: A cache that is shut down serves nobody, ever again. Whatever callers and workers do after the shutdown, it stays
  shut down, and the pages it has an entry for, the loads that are outstanding and the leases in existence are among
  those there were. In every such state a demand or a prefetch fails with an error, never with a panic: with the
  cancellation of its caller, changing nothing, or with the rejection of its specification or with
  \<^verbatim>\<open>Shutdown\<close>, having changed nothing but the counter of the bytes asked for.
\<close>

theorem shutdown_serves_nobody:
  assumes "reachable sha alloc y" "ci_shutdown (sy_cache y)" "(system_step sha alloc)\<^sup>*\<^sup>* y y'"
  shows "ci_shutdown (sy_cache y') \<and>
    dom (bt_get (ci_entries (sy_cache y'))) \<subseteq> dom (bt_get (ci_entries (sy_cache y))) \<and>
    mset (outstanding_loads y') \<subseteq># mset (outstanding_loads y) \<and> mset (live_leases y') \<subseteq># mset (live_leases y) \<and>
    awp (refused point spec (add_demand_bytes (sp_length spec)) (sy_cache y')) (get_enter runtime point spec) (\<lambda>_ _. False) (sy_cache y') \<and>
    awp (refused point spec (add_prefetch_bytes (sp_length spec)) (sy_cache y')) (prefetch runtime point spec) (\<lambda>_ _. False) (sy_cache y')"
  using fewer_steps [OF assms(3,1,2)] get_enter_refused prefetch_refused by (simp add: fewer_def)

theorem shutdown_serves_nobody_witness:
  "awp (refused now_free sample_spec (add_demand_bytes 4) sample_closed) (get_enter True now_free sample_spec) (\<lambda>_ _. False) sample_closed \<and>
   ci_shutdown sample_closed"
proof -
  have "ci_shutdown sample_closed" "sp_length sample_spec = 4" by (simp_all add: sample_closed_def sample_spec_def)
  then show ?thesis
    using shutdown_serves_nobody [OF sample_closed_reachable _ rtranclp.rtrancl_refl, of now_free sample_spec True] by simp
qed

section \<open>The page reader\<close>

text \<open>
  C12: A page the reader returns is authentic, whatever the file system does. A read that ends never panics; if it returns
  a page, the page has the key and the length of its specification and its bytes have the hash the specification
  names; and no more bytes are counted as read than the page has.
\<close>

theorem read_authentic:
  assumes "read_observed sha alloc env spec = Some (r, stats)"
  shows "wp graceful r (\<lambda>p. vp_key p = sp_key spec \<and> length (vp_bytes p) = sp_length spec \<and>
      sha (vp_bytes p) = sp_fingerprint spec) \<and> st_physical_bytes stats \<le> sp_length spec"
  using read_observed_ok [OF assms] by blast

theorem read_authentic_witness:
  "read_observed sample_sha (\<lambda>n. n) sample_env sample_spec = Some (Ok sample_page, \<lparr>st_physical_bytes = 4, st_io_nanoseconds = 7\<rparr>) \<and>
    sample_sha (vp_bytes sample_page) = sp_fingerprint sample_spec"
  using read_authentic [OF sample_read] sample_read by simp

text \<open>
  C24: The positional read loop ends. Whatever the answers are, it has returned once as many reads as there are bytes to
  fill have been answered otherwise than by an interruption.
\<close>

theorem read_loop_terminates:
  assumes "filled \<le> length bytes" "length bytes - filled \<le> length (filter (\<lambda>s. rs_response s \<noteq> PreadInterrupted) steps)"
  shows "\<exists>r n. read_loop kind len offset bytes filled steps = Some (r, n) \<and> filled \<le> n \<and> n \<le> length bytes"
proof -
  obtain r n where "read_loop kind len offset bytes filled steps = Some (r, n)"
    using read_loop_ends [OF assms, of kind len offset] by (cases "read_loop kind len offset bytes filled steps") auto
  then show ?thesis using read_loop_ok [OF assms(1), of kind len offset steps] by (simp add: loop_ok_def)
qed

theorem read_loop_terminates_witness:
  "\<exists>r n. read_loop ''page'' 4 0 [0, 0] 0 [\<lparr>rs_check = now_free, rs_response = PreadOk [7], rs_interrupt_check = now_free\<rparr>,
     \<lparr>rs_check = now_free, rs_response = PreadError ''EIO'', rs_interrupt_check = now_free\<rparr>] = Some (r, n) \<and> 0 \<le> n \<and> n \<le> 2"
  using read_loop_terminates [of 0 "[0, 0]" "[\<lparr>rs_check = now_free, rs_response = PreadOk [7], rs_interrupt_check = now_free\<rparr>,
     \<lparr>rs_check = now_free, rs_response = PreadError ''EIO'', rs_interrupt_check = now_free\<rparr>]" "''page''" 4 0]
  by (simp del: read_loop.simps add: numeral_2_eq_2)

lemma page_specs_wf:
  assumes "\<forall>object\<in>set (bt_values (sa_objects a)). wf_retained object"
  shows "set (page_specs a) = {Ok (spec_at object i) | object i.
    object \<in> set (bt_values (sa_objects a)) \<and> i < pt_page_count (ro_page_table object)}"
  using assms by (force simp: page_specs_def for_object_wf)

text \<open>
  C26: The specifications of an object with a verified page table tile it: the page with index \<open>i\<close> exists exactly below the
  page count, its specification passes the reader's own validation, and byte \<open>b\<close> of the object lies in the page
  with index \<open>b div page_size\<close>, which exists, and in no other. The specifications of an artifact with this object, and
  with verified page tables throughout, are all valid, and exactly one of those of the object holds byte \<open>b\<close>.
\<close>

theorem page_specs_tile_object:
  assumes "wf_retained object" "b < or_length (ro_descriptor object)"
  shows "(\<forall>i. for_object object i = (if i < pt_page_count (ro_page_table object) then Ok (spec_at object i)
        else fail (PageOutOfRange i (pt_page_count (ro_page_table object))))) \<and>
    (\<forall>i<pt_page_count (ro_page_table object). validate_specification (spec_at object i) = Ok ()) \<and>
    {i. i < pt_page_count (ro_page_table object) \<and> sp_offset (spec_at object i) \<le> b \<and>
        b < sp_offset (spec_at object i) + sp_length (spec_at object i)} = {b div or_page_size (ro_descriptor object)} \<and>
    (\<forall>a. object \<in> set (bt_values (sa_objects a)) \<and> (\<forall>object\<in>set (bt_values (sa_objects a)). wf_retained object) \<longrightarrow>
      (\<forall>r\<in>set (page_specs a). \<exists>spec. r = Ok spec \<and> validate_specification spec = Ok ()) \<and>
      {spec. Ok spec \<in> set (page_specs a) \<and> sp_object spec = object \<and> sp_offset spec \<le> b \<and> b < sp_offset spec + sp_length spec} =
        {spec_at object (b div or_page_size (ro_descriptor object))})"
proof -
  note byte = spec_at_byte [OF assms]
  have obj: "sp_object (spec_at x i) = x" for x i by (simp add: spec_at_def Let_def)
  have "(\<forall>r\<in>set (page_specs a). \<exists>spec. r = Ok spec \<and> validate_specification spec = Ok ()) \<and>
      {spec. Ok spec \<in> set (page_specs a) \<and> sp_object spec = object \<and> sp_offset spec \<le> b \<and> b < sp_offset spec + sp_length spec} =
        {spec_at object (b div or_page_size (ro_descriptor object))}"
    if "object \<in> set (bt_values (sa_objects a)) \<and> (\<forall>object\<in>set (bt_values (sa_objects a)). wf_retained object)" for a
    unfolding page_specs_wf [OF conjunct2 [OF that]] using that byte spec_at_valid obj by (auto, metis)
  then show ?thesis using for_object_wf [OF assms(1)] spec_at_valid [OF assms(1)] byte by auto
qed

lemma sample_wf_retained: "wf_retained sample_object"
  by (simp add: wf_retained_def wf_table_def sample_object_def ceil_div_def u64_max_def)

theorem page_specs_tile_object_witness:
  "for_object sample_object 0 = Ok (spec_at sample_object 0) \<and> validate_specification (spec_at sample_object 0) = Ok () \<and>
    for_object sample_object 1 = fail (PageOutOfRange 1 1)"
  using page_specs_tile_object [OF sample_wf_retained, of 3] by (simp add: sample_object_def)





text \<open>
  C8: A page the store serves is the page of the artifact that was verified. For an object of a verified artifact, a
  page the reader returns for the specification with index \<open>i\<close> is the \<open>i\<close>-th page of the object's bytes, if the
  hash function does not collide on the two.
\<close>

theorem served_page_is_artifact_page:
  assumes "verified_object sha r v" "0 < or_page_size r" "or_length r \<le> u64_max"
    "for_object \<lparr>ro_descriptor = r, ro_page_table = vo_page_table v\<rparr> i = Ok spec"
    "read_observed sha alloc env spec = Some (Ok p, stats)"
    "inj_on sha {vp_bytes p, page_of (or_page_size r) (vo_bytes v) i}"
  shows "vp_bytes p = page_of (or_page_size r) (vo_bytes v) i"
proof -
  let ?object = "\<lparr>ro_descriptor = r, ro_page_table = vo_page_table v\<rparr>"
  have "wf_retained ?object" using assms(1-3) by (simp add: wf_retained_def verified_object_def)
  then have "i < pt_page_count (vo_page_table v)" "spec = spec_at ?object i"
    using assms(4) by (auto simp: for_object_wf split: if_splits)
  then have "sha (vp_bytes p) = sha (page_of (or_page_size r) (vo_bytes v) i)"
    using read_observed_ok(1) [OF assms(5)] verified_fingerprint [OF assms(1)] by simp
  from inj_onD [OF assms(6) this] show ?thesis by blast
qed

lemma sample_verified:
  "verified_object sample_sha (ro_descriptor sample_object) \<lparr>vo_bytes = sample_payload, vo_page_table = ro_page_table sample_object\<rparr>"
proof -
  have "wf_table (ro_descriptor sample_object) (ro_page_table sample_object)" using sample_wf_retained by (simp add: wf_retained_def)
  note hash = page_hash_table [OF this, of 0]
  show ?thesis
    using sample_wf_retained hash
    by (simp add: verified_object_def wf_retained_def sample_object_def sample_payload_def page_of_def sample_sha_def)
qed

theorem served_page_is_artifact_page_witness:
  "vp_bytes sample_page = page_of 65536 sample_payload 0"
proof -
  have "or_page_size (ro_descriptor sample_object) = 65536" "or_length (ro_descriptor sample_object) \<le> u64_max"
    by (simp_all add: sample_object_def u64_max_def)
  then show ?thesis
    using served_page_is_artifact_page [OF sample_verified, of 0 sample_spec "\<lambda>n. n" sample_env sample_page
        "\<lparr>st_physical_bytes = 4, st_io_nanoseconds = 7\<rparr>"] sample_for_object sample_read
    by (simp add: sample_page_def page_of_def sample_payload_def)
qed

text \<open>
  C23: The page specifications of a tensor are those of the pages it touches: every one of them is valid, and the bytes of
  the tensor are found in the concatenation of these pages, from its offset within the first one.
\<close>

theorem tensor_pages_hold_tensor:
  assumes "wf_stored limits a" "i < length (mf_tensors (sa_manifest a))"
  shows "\<exists>object specs. bt_get (sa_objects a) (tr_object (mf_tensors (sa_manifest a) ! i)) = Some object \<and>
    tensor_page_specs a i = Ok (map Inr specs) \<and> (\<forall>spec\<in>set specs. validate_specification spec = Ok ()) \<and>
    (\<forall>bytes :: u8 list. length bytes = or_length (ro_descriptor object) \<longrightarrow>
       take (tr_length (mf_tensors (sa_manifest a) ! i))
         (drop (tr_offset (mf_tensors (sa_manifest a) ! i) mod or_page_size (ro_descriptor object))
           (concat (map (\<lambda>spec. take (sp_length spec) (drop (sp_offset spec) bytes)) specs))) =
       take (tr_length (mf_tensors (sa_manifest a) ! i)) (drop (tr_offset (mf_tensors (sa_manifest a) ! i)) bytes))"
proof -
  let ?t = "mf_tensors (sa_manifest a) ! i"
  from tensor_page_specs_ok [OF assms] obtain object where object: "wf_retained object"
      "bt_get (sa_objects a) (tr_object ?t) = Some object" "tr_offset ?t + tr_length ?t \<le> or_length (ro_descriptor object)" "0 < tr_length ?t"
      "tensor_page_specs a i = Ok (map (\<lambda>k. Ok (spec_at object k)) [tr_offset ?t div or_page_size (ro_descriptor object)..<
        Suc ((tr_offset ?t + tr_length ?t - 1) div or_page_size (ro_descriptor object))])" .
  let ?n = "or_page_size (ro_descriptor object)"
  let ?ks = "[tr_offset ?t div ?n..<Suc ((tr_offset ?t + tr_length ?t - 1) div ?n)]"
  have "k < pt_page_count (ro_page_table object)" if "k \<in> set ?ks" for k
  proof -
    have "k \<le> (tr_offset ?t + tr_length ?t - 1) div ?n" using that by auto
    also have "\<dots> < pt_page_count (ro_page_table object)" using object(3,4) by (intro spec_at_byte(2) [OF object(1)]) simp
    finally show ?thesis .
  qed
  then have valid: "\<forall>spec\<in>set (map (spec_at object) ?ks). validate_specification spec = Ok ()"
    using spec_at_valid [OF object(1)] by (simp del: upt_Suc)
  have bytes: "take (tr_length ?t) (drop (tr_offset ?t mod ?n)
      (concat (map (\<lambda>spec. take (sp_length spec) (drop (sp_offset spec) bytes)) (map (spec_at object) ?ks)))) =
      take (tr_length ?t) (drop (tr_offset ?t) bytes)" if "length bytes = or_length (ro_descriptor object)" for bytes :: "u8 list"
  proof -
    have "(\<lambda>k. take (sp_length (spec_at object k)) (drop (sp_offset (spec_at object k)) bytes)) = page_of ?n bytes"
      by (simp add: fun_eq_iff spec_at_page [OF that])
    then show ?thesis
      using pages_of_range [of ?n "tr_length ?t" "tr_offset ?t" bytes] object(1,4) by (simp add: wf_retained_def o_def del: upt_Suc)
  qed
  show ?thesis
  proof (intro exI conjI allI impI)
    show "tensor_page_specs a i = Ok (map Inr (map (spec_at object) ?ks))" using object(5) by (simp add: o_def del: upt_Suc)
  qed (rule object(2) valid bytes | assumption)+
qed

definition sample_limits :: limits where
  "sample_limits = limits_default"

definition sample_stored :: stored_artifact where
  "sample_stored = \<lparr>sa_manifest = \<lparr>mf_adapter = \<lparr>ad_id = ''runnel.tiny-causal-moe'', ad_version = 1\<rparr>,
       mf_model = \<lparr>tm_context_length = 1, tm_expert_hidden_size = 1, tm_hidden_size = 1, tm_num_experts = 1, tm_num_heads = 1,
         tm_num_layers = 1, tm_top_k = 1, tm_vocab_size = 1\<rparr>,
       mf_objects = [ro_descriptor sample_object],
       mf_tensors = [\<lparr>tr_dtype = U8, tr_id = 0, tr_length = 4, tr_object = sample_sha sample_payload, tr_offset = 0,
         tr_role = ''payload'', tr_shape = [4]\<rparr>],
       mf_tokenizer = \<lparr>tk_id = ''t'', tk_version = 1, tk_vocab_size = 1\<rparr>, mf_artifact_id = [], mf_canonical_bytes = []\<rparr>,
     sa_objects = [(sample_sha sample_payload, sample_object)]\<rparr>"

lemma sample_partitions: "partitions [ro_descriptor sample_object] (mf_tensors (sa_manifest sample_stored))"
  by (auto simp: partitions_def sample_stored_def sample_object_def tensors_of_def in_range_def tensor_range_def)

lemma sample_wf_stored: "wf_stored sample_limits sample_stored"
proof -
  have "is_power_of_two 65536" unfolding is_power_of_two_def list_ex_iff by (rule bexI [of _ 16]) simp_all
  then show ?thesis
    using sample_partitions sample_wf_retained
    by (simp add: wf_stored_def wf_manifest_def wf_adapter_def wf_model_def wf_objects_def wf_object_def wf_tensors_def wf_tensor_def
        sample_stored_def sample_limits_def limits_default_def wf_retained_def bt_get_def)
      (simp add: sample_object_def MIN_PAGE_SIZE_def MAX_PAGE_SIZE_def ceil_div_def u64_max_def MAX_TENSOR_DIMENSION_def)
qed

theorem tensor_pages_hold_tensor_witness:
  "\<exists>specs. tensor_page_specs sample_stored 0 = Ok (map Inr specs) \<and>
    take 4 (drop 0 (concat (map (\<lambda>spec. take (sp_length spec) (drop (sp_offset spec) sample_payload)) specs))) = sample_payload"
proof -
  have len: "length sample_payload = or_length (ro_descriptor sample_object)" by (simp add: sample_object_def sample_payload_def)
  have "\<exists>object specs. bt_get (sa_objects sample_stored) (sample_sha sample_payload) = Some object \<and>
      tensor_page_specs sample_stored 0 = Ok (map Inr specs) \<and>
      (\<forall>bytes :: u8 list. length bytes = or_length (ro_descriptor object) \<longrightarrow>
        take 4 (drop (0 mod or_page_size (ro_descriptor object))
          (concat (map (\<lambda>spec. take (sp_length spec) (drop (sp_offset spec) bytes)) specs))) = take 4 (drop 0 bytes))"
    using tensor_pages_hold_tensor [OF sample_wf_stored, of 0] by (simp add: sample_stored_def) blast
  moreover have "take 4 sample_payload = sample_payload" by (simp add: sample_payload_def)
  ultimately show ?thesis using len by (auto simp: sample_stored_def bt_get_def)
qed

text \<open>
  C38: The disk preflight of an import is exact. Suppose the file system answers, charges a file the same under each of
  its names, and holds each blob of the manifest or misses it. Then the import may go on precisely when the free
  bytes and the allocation of each missing blob fit in 64 bits, the bytes charged to the store (each file once, final
  or staged) plus what the missing blobs still need stay within the budget, and so much and the reserve are free, unless
  nothing is needed. What a blob needs is its length in whole allocation units less what its resumed stage
  already holds. Otherwise it fails with an error, never with a panic.
\<close>

theorem preflight_import_exact:
  fixes resumes :: "(blob_kind \<times> digest, resume_token) btree_map"
  assumes "listed ly finals stages planned (bavail, frsize)" "charged_as blocks (finals @ stages)"
    "\<forall>(kind, d, len)\<in>set (import_blobs m manifest_length).
      (ly_open_digest ly kind d len = Ok () \<or> absent ly (kind, d, len)) \<and> len \<le> u64_max"
    "db_max_bytes b \<le> u64_max"
  defines "missing \<equiv> filter (absent ly) (import_blobs m manifest_length)"
  defines "needed \<equiv> sum_list (map (shortage frsize resumes planned) missing)"
  shows "(preflight_import ly b m manifest_length resumes = Ok () \<longleftrightarrow>
      bavail * frsize \<le> u64_max \<and> (\<forall>(kind, d, len)\<in>set missing. rounded frsize len \<le> u64_max) \<and>
      charged_files blocks (finals @ stages) + needed \<le> db_max_bytes b \<and>
      (needed = 0 \<or> needed + db_reserve_bytes b \<le> bavail * frsize)) \<and>
    wp graceful (preflight_import ly b m manifest_length resumes) (\<lambda>_. True)"
  unfolding missing_def needed_def by (rule preflight_import_iff [OF assms(1-4)])

text \<open>
  A store with one final file, which is also linked from the staging directory, and a stage of the object of the sample
  artifact. The manifest is stored, the page table and the object are missing.
\<close>

definition leaf :: "string \<Rightarrow> u64 \<Rightarrow> u64 \<Rightarrow> leaf_entry" where
  "leaf name inode bytes = \<lparr>lf_name = name, lf_length = bytes, lf_charged_bytes = bytes, lf_device = 1, lf_inode = inode\<rparr>"

definition sample_layout :: layout where
  "sample_layout = \<lparr>
     ly_digest_entries = (\<lambda>kind. Ok (if kind = ObjectBlob then [leaf ''a'' 10 10] else [])),
     ly_usage_stages = Ok [leaf ''b'' 10 10, leaf ''s'' 11 2], ly_planned_stages = Ok [leaf ''b'' 10 10, leaf ''s'' 11 2],
     ly_statvfs = Inr (100, 2),
     ly_open_digest = (\<lambda>kind _ _. if kind = ManifestBlob then Ok () else fail (Missing ''blob''))\<rparr>"

definition sample_resumes :: "(blob_kind \<times> digest, resume_token) btree_map" where
  "sample_resumes = [((ObjectBlob, sample_sha sample_payload),
     \<lparr>rk_kind = ObjectBlob, rk_digest = sample_sha sample_payload, rk_expected_length = 4, rk_stage_name = ''s''\<rparr>)]"

theorem preflight_import_exact_witness:
  "preflight_import sample_layout \<lparr>db_max_bytes = 110, db_reserve_bytes = 102\<rparr> (sa_manifest sample_stored) 7 sample_resumes = Ok () \<and>
   preflight_import sample_layout \<lparr>db_max_bytes = 109, db_reserve_bytes = 102\<rparr> (sa_manifest sample_stored) 7 sample_resumes \<noteq> Ok () \<and>
   preflight_import sample_layout \<lparr>db_max_bytes = 110, db_reserve_bytes = 103\<rparr> (sa_manifest sample_stored) 7 sample_resumes \<noteq> Ok ()"
proof -
  let ?stages = "[leaf ''b'' 10 10, leaf ''s'' 11 2]" and ?m = "sa_manifest sample_stored"
    and ?blocks = "\<lambda>(device :: nat, inode :: nat). if inode = 10 then 10 else (2 :: nat)"
  have blobs: "import_blobs ?m 7 = [(ManifestBlob, mf_artifact_id ?m, 7), (PageTableBlob, replicate 32 0, 96), (ObjectBlob, sample_sha sample_payload, 4)]"
    by (simp add: import_blobs_def sample_stored_def sample_object_def)
  have listed: "listed sample_layout [leaf ''a'' 10 10] ?stages ?stages (100, 2)"
    by (auto simp: listed_def sample_layout_def intro!: exI [of _ "\<lambda>kind. if kind = ObjectBlob then [leaf ''a'' 10 10] else []"])
  have blocks: "charged_as ?blocks ([leaf ''a'' 10 10] @ ?stages)" by (simp add: charged_as_def leaf_def)
  have open_blobs: "\<forall>(kind, d, len)\<in>set (import_blobs ?m 7).
      (ly_open_digest sample_layout kind d len = Ok () \<or> absent sample_layout (kind, d, len)) \<and> len \<le> u64_max"
    unfolding blobs by (simp add: sample_layout_def absent_def u64_max_def)
  have missing: "filter (absent sample_layout) (import_blobs ?m 7) = [(PageTableBlob, replicate 32 0, 96), (ObjectBlob, sample_sha sample_payload, 4)]"
    unfolding blobs by (simp add: absent_def sample_layout_def)
  have files: "charged_files ?blocks ([leaf ''a'' 10 10] @ ?stages) = 12" by (simp add: charged_files_def leaf_def)
  have units: "rounded 2 96 = 96" "rounded 2 4 = 4" by code_simp+
  have needed: "sum_list (map (shortage 2 sample_resumes ?stages) [(PageTableBlob, replicate 32 0, 96), (ObjectBlob, sample_sha sample_payload, 4)]) = 98"
    by (simp add: shortage_def staged_of_def sample_resumes_def bt_get_def leaf_def units)
  show ?thesis
    using preflight_import_exact [OF listed blocks open_blobs, where b = "\<lparr>db_max_bytes = 110, db_reserve_bytes = 102\<rparr>" and resumes = sample_resumes]
      preflight_import_exact [OF listed blocks open_blobs, where b = "\<lparr>db_max_bytes = 109, db_reserve_bytes = 102\<rparr>" and resumes = sample_resumes]
      preflight_import_exact [OF listed blocks open_blobs, where b = "\<lparr>db_max_bytes = 110, db_reserve_bytes = 103\<rparr>" and resumes = sample_resumes]
    unfolding missing needed files by (simp add: u64_max_def units)
qed

lemma trace_record_steps: "\<exists>t'. sink_step\<^sup>*\<^sup>* t t' \<and> tc_sink t' = trace_record lock_free elapsed obs (tc_sink t)"
proof -
  obtain n sink where r: "trace_reserve (tc_sink t) = (n, sink)" by fastforce
  let ?t = "t\<lparr>tc_sink := sink, tc_pending := n # tc_pending t, tc_reserved := Suc (tc_reserved t)\<rparr>"
  have "sink_step t ?t" using r by (rule reserve)
  moreover have "n \<in> set (tc_pending ?t)" by simp
  note push [OF this, of lock_free elapsed obs]
  ultimately have "sink_step\<^sup>*\<^sup>* t (?t\<lparr>tc_sink := trace_record lock_free elapsed obs (tc_sink t), tc_pending := tc_pending t\<rparr>)"
    using r by (auto simp: trace_record_def intro: converse_rtranclp_into_rtranclp)
  then show ?thesis by fastforce
qed

text \<open>
  C39: The trace sink loses nothing silently. However threads interleave their records and drains, the queue never grows
  over its capacity, every drain is in the order of the sequence numbers, and until \<open>2 ^ 64\<close> events have been recorded
  the sequence numbers are distinct and every recorded event is pending, queued, drained or counted as dropped. A
  record that no other thread interrupts is one of these interleavings.
\<close>

theorem trace_sink_accounts:
  assumes "sink_step\<^sup>*\<^sup>* (tracing_new capacity) t"
  shows "length (sk_events (tc_sink t)) \<le> min capacity TRACE_MAX_CAPACITY \<and>
    list_all (\<lambda>events. sorted (map te_sequence events)) (tc_drained t) \<and>
    (tc_reserved t < 2 ^ 64 \<longrightarrow> distinct (issued t) \<and> length (issued t) + sk_dropped (tc_sink t) = tc_reserved t) \<and>
    (\<exists>t'. sink_step\<^sup>*\<^sup>* (tracing_new capacity) t' \<and> tc_sink t' = trace_record lock_free elapsed obs (tc_sink t))"
proof -
  note ok = tracing_steps [OF assms, unfolded tracing_ok_def accounted_def]
  then have "length (sk_events (tc_sink t)) \<le> min capacity TRACE_MAX_CAPACITY" by metis
  moreover have "\<exists>t'. sink_step\<^sup>*\<^sup>* (tracing_new capacity) t' \<and> tc_sink t' = trace_record lock_free elapsed obs (tc_sink t)"
    using trace_record_steps [of t lock_free elapsed obs] rtranclp_trans [OF assms] by blast
  ultimately show ?thesis using ok by blast
qed

definition sample_reserved :: tracing where
  "sample_reserved = (tracing_new 1)\<lparr>tc_sink := (trace_new 1)\<lparr>sk_next_sequence := 1\<rparr>, tc_pending := [0], tc_reserved := 1\<rparr>"

definition sample_recorded :: tracing where
  "sample_recorded = sample_reserved\<lparr>tc_sink := trace_push True
      \<lparr>te_sequence = 0, te_monotonic_nanoseconds = min 9 u64_max, te_observation = (Hit, Demand, sample_key, 4)\<rparr> (tc_sink sample_reserved),
      tc_pending := remove1 0 (tc_pending sample_reserved)\<rparr>"

theorem trace_sink_accounts_witness:
  "length (sk_events (tc_sink sample_recorded)) = 1 \<and> length (sk_events (tc_sink sample_recorded)) \<le> min 1 TRACE_MAX_CAPACITY \<and>
    length (issued sample_recorded) + sk_dropped (tc_sink sample_recorded) = 1"
proof -
  have "sink_step (tracing_new 1) sample_reserved"
    using reserve [of "tracing_new 1" 0 "(trace_new 1)\<lparr>sk_next_sequence := 1\<rparr>"]
    by (simp add: trace_reserve_def tracing_new_def trace_new_def sample_reserved_def)
  moreover have "sink_step sample_reserved sample_recorded"
    unfolding sample_recorded_def by (rule push) (simp add: sample_reserved_def)
  ultimately have "sink_step\<^sup>*\<^sup>* (tracing_new 1) sample_recorded" by (meson converse_rtranclp_into_rtranclp r_into_rtranclp)
  note trace_sink_accounts [OF this]
  moreover have "tc_reserved sample_recorded = 1" "length (sk_events (tc_sink sample_recorded)) = 1"
    by (simp_all add: sample_recorded_def sample_reserved_def trace_push_def trace_new_def TRACE_MAX_CAPACITY_def)
  ultimately show ?thesis by simp
qed

end
