(* ===== verification/Float32.thy ===== *)
theory Float32
  imports Prelude
begin

text \<open>
  Single-precision floating point, the \<^verbatim>\<open>f32\<close> of the language, on its bits. A finite number is a whole multiple of
  \<open>2 ^ - 149\<close>, the smallest positive one; \<open>ulps\<close> gives that multiple for the bits without the sign. The arithmetic
  operations compute the exact result and round it to nearest, ties to even. A NaN result is the one canonical
  quiet NaN, since the language leaves its sign and payload open.
\<close>

type_synonym f32 = "32 word"

section \<open>Fields\<close>

definition f32_exponent :: "f32 \<Rightarrow> nat" where
  "f32_exponent x = unat x div 2 ^ 23 mod 2 ^ 8"

definition f32_fraction :: "f32 \<Rightarrow> nat" where
  "f32_fraction x = unat x mod 2 ^ 23"

definition f32_negative :: "f32 \<Rightarrow> bool" where
  "f32_negative x \<longleftrightarrow> 2 ^ 31 \<le> unat x"

definition f32_is_finite :: "f32 \<Rightarrow> bool" where
  "f32_is_finite x \<longleftrightarrow> f32_exponent x \<noteq> 255"

definition f32_is_nan :: "f32 \<Rightarrow> bool" where
  "f32_is_nan x \<longleftrightarrow> f32_exponent x = 255 \<and> f32_fraction x \<noteq> 0"

definition f32_magnitude :: "f32 \<Rightarrow> nat" where
  "f32_magnitude x = unat x mod 2 ^ 31"

section \<open>Values\<close>

definition ulps :: "nat \<Rightarrow> nat" where
  "ulps n = (if n < 2 ^ 23 then n else (2 ^ 23 + n mod 2 ^ 23) * 2 ^ (n div 2 ^ 23 - 1))"

definition f32_value :: "f32 \<Rightarrow> int" where
  "f32_value x = (if f32_negative x then - int (ulps (f32_magnitude x)) else int (ulps (f32_magnitude x)))"

section \<open>Rounding\<close>

fun bit_length :: "nat \<Rightarrow> nat" where
  "bit_length n = (if n = 0 then 0 else Suc (bit_length (n div 2)))"

declare bit_length.simps [simp del]

text \<open>The quotient rounded to nearest, ties to even.\<close>

definition round_half_even :: "nat \<Rightarrow> nat \<Rightarrow> nat" where
  "round_half_even n d =
     (let q = n div d; r = n mod d in if 2 * r < d \<or> 2 * r = d \<and> even q then q else q + 1)"

text \<open>The number nearest to \<open>n / 2 ^ k\<close>, in units of the smallest positive number.\<close>

definition f32_round :: "bool \<Rightarrow> nat \<Rightarrow> nat \<Rightarrow> f32" where
  "f32_round negative n k =
     (let e = bit_length (n div 2 ^ k) - 24;
          m = round_half_even n (2 ^ (k + e)) in
      of_nat ((if negative then 2 ^ 31 else 0) + min (e * 2 ^ 23 + m) (255 * 2 ^ 23)))"

definition f32_infinity :: "bool \<Rightarrow> f32" where
  "f32_infinity negative = (if negative then 0xff800000 else 0x7f800000)"

definition f32_nan :: f32 where
  "f32_nan = 0x7fc00000"

definition f32_zero :: "bool \<Rightarrow> f32" where
  "f32_zero negative = (if negative then 0x80000000 else 0)"

section \<open>Arithmetic\<close>

definition f32_mul :: "f32 \<Rightarrow> f32 \<Rightarrow> f32" where
  "f32_mul x y =
     (let negative = (f32_negative x \<noteq> f32_negative y); a = f32_magnitude x; b = f32_magnitude y in
      if f32_is_nan x \<or> f32_is_nan y then f32_nan
      else if \<not> f32_is_finite x then if b = 0 then f32_nan else f32_infinity negative
      else if \<not> f32_is_finite y then if a = 0 then f32_nan else f32_infinity negative
      else f32_round negative (ulps a * ulps b) 149)"

definition f32_add :: "f32 \<Rightarrow> f32 \<Rightarrow> f32" where
  "f32_add x y =
     (if f32_is_nan x \<or> f32_is_nan y then f32_nan
      else if \<not> f32_is_finite x then if \<not> f32_is_finite y \<and> f32_negative x \<noteq> f32_negative y then f32_nan else x
      else if \<not> f32_is_finite y then y
      else let v = f32_value x + f32_value y in
        if v = 0 then f32_zero (f32_negative x \<and> f32_negative y)
        else f32_round (v < 0) (nat \<bar>v\<bar>) 0)"

text \<open>The quotient carries 64 extra bits and a sticky bit for what is below them.\<close>

definition f32_div :: "f32 \<Rightarrow> f32 \<Rightarrow> f32" where
  "f32_div x y =
     (let negative = (f32_negative x \<noteq> f32_negative y); a = ulps (f32_magnitude x); b = ulps (f32_magnitude y) in
      if f32_is_nan x \<or> f32_is_nan y then f32_nan
      else if \<not> f32_is_finite x then if \<not> f32_is_finite y then f32_nan else f32_infinity negative
      else if \<not> f32_is_finite y then f32_zero negative
      else if b = 0 then if a = 0 then f32_nan else f32_infinity negative
      else let n = a * 2 ^ 213 in f32_round negative (2 * (n div b) + (if n mod b = 0 then 0 else 1)) 65)"

definition f32_of_int :: "int \<Rightarrow> f32" where
  "f32_of_int v = f32_round (v < 0) (nat \<bar>v\<bar> * 2 ^ 149) 0"

section \<open>Laws\<close>

lemma f32_magnitude_less: "f32_magnitude x < 2 ^ 31"
  unfolding f32_magnitude_def by (rule mod_less_divisor) simp

lemma f32_unat: "unat x = (if f32_negative x then 2 ^ 31 else 0) + f32_magnitude x"
proof -
  have "unat x < 2 ^ LENGTH(32)" by (rule unsigned_less)
  then have "unat x < 2 ^ 32" by simp
  then show ?thesis
  proof (cases "2 ^ 31 \<le> unat x")
    case True
    then obtain m where "unat x = 2 ^ 31 + m" using le_Suc_ex by blast
    with \<open>unat x < 2 ^ 32\<close> show ?thesis by (simp add: f32_negative_def f32_magnitude_def)
  qed (simp add: f32_negative_def f32_magnitude_def)
qed

lemma f32_fields: "f32_exponent x = f32_magnitude x div 2 ^ 23" "f32_fraction x = f32_magnitude x mod 2 ^ 23"
proof -
  have "unat x mod 2 ^ 31 = 2 ^ 23 * (unat x div 2 ^ 23 mod 2 ^ 8) + unat x mod 2 ^ 23"
    using mod_mult2_eq [of "unat x" "2 ^ 23" "2 ^ 8"] by (simp flip: power_add)
  then show "f32_exponent x = f32_magnitude x div 2 ^ 23" "f32_fraction x = f32_magnitude x mod 2 ^ 23"
    by (simp_all only: f32_exponent_def f32_fraction_def f32_magnitude_def) simp_all
qed

lemma f32_finite_magnitude: "f32_is_finite x \<longleftrightarrow> f32_magnitude x < 255 * 2 ^ 23"
proof -
  have "f32_magnitude x div 2 ^ 23 < 256" using f32_magnitude_less [of x] by (simp add: less_mult_imp_div_less)
  then have "f32_magnitude x div 2 ^ 23 \<noteq> 255 \<longleftrightarrow> f32_magnitude x div 2 ^ 23 < 255" by linarith
  then show ?thesis by (simp add: f32_is_finite_def f32_fields div_less_iff_less_mult)
qed

text \<open>Over the low 16 bits, and into the next number with these bits clear, the value grows evenly.\<close>

lemma ulps_small: "n \<le> 2 ^ 23 \<Longrightarrow> ulps n = n"
  by (cases "n = 2 ^ 23") (simp_all add: ulps_def)

lemma ulps_normal:
  assumes "0 < q" "f \<le> 2 ^ 23" shows "ulps (2 ^ 23 * q + f) = (2 ^ 23 + f) * 2 ^ (q - 1)"
proof (cases "f = 2 ^ 23")
  case True
  obtain p where "q = Suc p" using assms(1) by (cases q) auto
  with True show ?thesis by (simp add: ulps_def)
next
  case False
  with assms have "f < 2 ^ 23" by simp
  then have "(2 ^ 23 * q + f) div 2 ^ 23 = q" "(2 ^ 23 * q + f) mod 2 ^ 23 = f" by simp_all
  moreover have "\<not> 2 ^ 23 * q + f < 2 ^ 23" using assms(1) by (cases q) simp_all
  ultimately show ?thesis unfolding ulps_def by (simp only: if_False)
qed

lemma ulps_step:
  assumes "k \<le> 2 ^ 16"
  shows "ulps (2 ^ 16 * h + k) = ulps (2 ^ 16 * h) + k * 2 ^ (h div 2 ^ 7 - 1)"
proof (cases "h < 2 ^ 7")
  case True
  then have "2 ^ 16 * h + k \<le> 2 ^ 23" "2 ^ 16 * h \<le> 2 ^ 23" using assms by simp_all
  with True show ?thesis by (simp only: ulps_small) simp
next
  case False
  let ?q = "h div 2 ^ 7" and ?r = "h mod 2 ^ 7"
  have q: "0 < ?q" using False by (simp add: div_greater_zero_iff)
  have h: "2 ^ 16 * h = 2 ^ 23 * ?q + 2 ^ 16 * ?r"
  proof -
    have "2 ^ 16 * (q * 2 ^ 7 + r) = 2 ^ 23 * q + 2 ^ 16 * r" for q r :: nat by simp
    from this [of ?q ?r] show ?thesis by (simp only: div_mult_mod_eq)
  qed
  have r: "?r < 2 ^ 7" by simp
  then have "2 ^ 16 * ?r + k \<le> 2 ^ 23" "2 ^ 16 * ?r \<le> 2 ^ 23" using assms by simp_all
  then show ?thesis
    unfolding h using ulps_normal [OF q] by (simp only: add.assoc) (simp add: distrib_right)
qed

lemma ulps_Suc: "ulps n < ulps (Suc n)"
proof -
  have n: "n = 2 ^ 16 * (n div 2 ^ 16) + n mod 2 ^ 16" by simp
  have k: "n mod 2 ^ 16 \<le> 2 ^ 16" "Suc (n mod 2 ^ 16) \<le> 2 ^ 16" using mod_less_divisor [of "2 ^ 16" n] by simp_all
  have "ulps (2 ^ 16 * (n div 2 ^ 16) + n mod 2 ^ 16) < ulps (2 ^ 16 * (n div 2 ^ 16) + Suc (n mod 2 ^ 16))"
    unfolding ulps_step [OF k(1)] ulps_step [OF k(2)] by simp
  then show ?thesis using n by simp
qed

lemma ulps_less: "m < n \<Longrightarrow> ulps m < ulps n"
  using lift_Suc_mono_less [of ulps] ulps_Suc by blast

lemma ulps_less_iff [simp]: "ulps m < ulps n \<longleftrightarrow> m < n"
  by (metis ulps_less linorder_neqE_nat order_less_asym)

lemma ulps_le_iff [simp]: "ulps m \<le> ulps n \<longleftrightarrow> m \<le> n"
  by (simp add: linorder_not_less [symmetric])

lemma ulps_eq_iff [simp]: "ulps m = ulps n \<longleftrightarrow> m = n"
  by (simp add: order_eq_iff)

text \<open>
  A number of at most 24 significant bits, not too large, is represented: rounding it changes nothing. A sum of
  numbers that is such a number is exact.
\<close>

lemma bit_length_bounds: "n < 2 ^ bit_length n" "0 < n \<Longrightarrow> 2 ^ (bit_length n - 1) \<le> n"
proof -
  show "n < 2 ^ bit_length n"
  proof (induction n rule: bit_length.induct)
    case (1 n)
    then show ?case by (cases "n = 0") (auto simp: bit_length.simps [of n])
  qed
  show "2 ^ (bit_length n - 1) \<le> n" if "0 < n"
    using that
  proof (induction n rule: bit_length.induct)
    case (1 n)
    show ?case
    proof (cases "n div 2 = 0")
      case False
      then have "0 < bit_length (n div 2)" by (subst bit_length.simps) simp
      then obtain k where k: "bit_length (n div 2) = Suc k" using gr0_implies_Suc by blast
      then have "2 ^ k \<le> n div 2" using 1 False by simp
      then show ?thesis using 1 k by (simp add: bit_length.simps [of n])
    qed (use 1 in \<open>simp add: bit_length.simps [of n] bit_length.simps [of 0]\<close>)
  qed
qed

lemma bit_length_le: "n < 2 ^ k \<Longrightarrow> bit_length n \<le> k"
proof (rule ccontr)
  assume n: "n < 2 ^ k" and "\<not> bit_length n \<le> k"
  then have "k \<le> bit_length n - 1" "0 < bit_length n" by simp_all
  moreover from this(2) have "0 < n" by (cases n) (simp_all add: bit_length.simps [of 0])
  ultimately show False using n bit_length_bounds(2) [of n] power_increasing [of k "bit_length n - 1" "2 :: nat"] by linarith
qed

lemma ulps_significand: "m < 2 ^ 24 \<Longrightarrow> e = 0 \<or> 2 ^ 23 \<le> m \<Longrightarrow> ulps (e * 2 ^ 23 + m) = m * 2 ^ e"
proof (cases "m < 2 ^ 23")
  case False
  moreover assume "m < 2 ^ 24"
  ultimately have "m = 2 ^ 23 + (m - 2 ^ 23)" "m - 2 ^ 23 < 2 ^ 23" by simp_all
  then obtain r where r: "m = 2 ^ 23 + r" "r < 2 ^ 23" by blast
  then have "e * 2 ^ 23 + m = Suc e * 2 ^ 23 + r" by simp
  then have "(e * 2 ^ 23 + m) div 2 ^ 23 = Suc e" "(e * 2 ^ 23 + m) mod 2 ^ 23 = r" using r(2) by simp_all
  moreover have "\<not> e * 2 ^ 23 + m < 2 ^ 23" using r by simp
  ultimately show ?thesis using r by (simp add: ulps_def)
qed (auto simp: ulps_def)

lemma unat_signed: "m < 2 ^ 31 \<Longrightarrow> unat (of_nat ((if b then 2 ^ 31 else 0) + m) :: f32) = (if b then 2 ^ 31 else 0) + m"
proof -
  assume "m < 2 ^ 31"
  then have "(if b then 2 ^ 31 else 0) + m < 2 ^ LENGTH(32)" by simp
  then show ?thesis by (rule of_nat_inverse [OF refl])
qed

lemma f32_round_exact:
  assumes "n = m * 2 ^ k" "m < 2 ^ 24" "k \<le> 253"
  shows "f32_is_finite (f32_round b n 0)" "f32_value (f32_round b n 0) = (if b then - int n else int n)"
proof -
  define e where "e = bit_length n - 24"
  have "n < 2 ^ (24 + k)" using assms by (simp add: power_add)
  then have e: "e \<le> k" using bit_length_le [of n "24 + k"] by (simp add: e_def)
  then obtain q where q: "n = q * 2 ^ e" using assms(1) by (metis dvd_mult dvd_def le_imp_power_dvd mult.commute)
  have "(2 :: nat) ^ bit_length n \<le> 2 ^ (24 + e)" by (rule power_increasing) (simp_all add: e_def)
  then have "n < 2 ^ 24 * 2 ^ e" using bit_length_bounds(1) [of n] by (simp add: power_add)
  then have less: "q < 2 ^ 24" unfolding q by simp
  have normal: "e = 0 \<or> 2 ^ 23 \<le> q"
  proof (rule disjCI)
    assume "\<not> 2 ^ 23 \<le> q"
    then have "n < 2 ^ 23 * 2 ^ e" unfolding q by simp
    then have "bit_length n \<le> 23 + e" by (intro bit_length_le) (simp add: power_add)
    then show "e = 0" by (simp add: e_def)
  qed
  have exact: "round_half_even n (2 ^ e) = q" unfolding q by (simp add: round_half_even_def)
  have "e * 2 ^ 23 + q < 255 * 2 ^ 23" using e assms(3) less by simp
  then have mag: "f32_round b n 0 = of_nat ((if b then 2 ^ 31 else 0) + (e * 2 ^ 23 + q))"
    using exact by (simp only: f32_round_def Let_def div_by_1 power_0 add_0 e_def [symmetric]) (simp only: min_absorb1 less_imp_le)
  let ?x = "f32_round b n 0" and ?g = "e * 2 ^ 23 + q"
  have g: "?g < 255 * 2 ^ 23" by fact
  then have "unat ?x = (if b then 2 ^ 31 else 0) + ?g" unfolding mag by (intro unat_signed) simp
  with g have f: "f32_negative ?x = b" "f32_magnitude ?x = ?g" by (auto simp: f32_negative_def f32_magnitude_def)
  then show "f32_is_finite ?x" using g by (simp add: f32_finite_magnitude)
  show "f32_value ?x = (if b then - int n else int n)"
    using ulps_significand [OF less normal] by (simp only: f32_value_def f q [symmetric])
qed

lemma f32_add_exact:
  assumes "f32_is_finite x" "f32_is_finite y" "f32_value x + f32_value y = v * 2 ^ k" "\<bar>v\<bar> < 2 ^ 24" "k \<le> 253"
  shows "f32_is_finite (f32_add x y)" "f32_value (f32_add x y) = f32_value x + f32_value y"
proof -
  have abs: "nat \<bar>v * 2 ^ k\<bar> = nat \<bar>v\<bar> * 2 ^ k" by (simp add: abs_mult nat_mult_distrib nat_power_eq)
  have "nat \<bar>v\<bar> < 2 ^ 24" using assms(4) by simp
  note r = f32_round_exact [OF abs this assms(5)]
  have nan: "\<not> f32_is_nan x" "\<not> f32_is_nan y" using assms(1,2) by (simp_all add: f32_is_nan_def f32_is_finite_def)
  have zero: "f32_is_finite (f32_zero b)" "f32_value (f32_zero b) = 0" for b
    by (cases b; simp add: f32_zero_def f32_is_finite_def f32_exponent_def f32_value_def f32_magnitude_def ulps_def)+
  show "f32_is_finite (f32_add x y)"
    using assms(1,2) nan r(1) zero by (simp add: f32_add_def assms(3) Let_def)
  show "f32_value (f32_add x y) = f32_value x + f32_value y"
    using assms(1,2) nan r(2) zero by (simp add: f32_add_def assms(3) Let_def)
qed

end
