(* ===== verification/Kernel_Bf16.thy ===== *)
theory Kernel_Bf16
  imports Float32
begin

text \<open>
  \<^verbatim>\<open>crates/runnel-kernels/src/bf16.rs\<close> and \<^verbatim>\<open>error.rs\<close>: the BF16 storage word and its conversions. A word widens
  to the \<^verbatim>\<open>f32\<close> with the same high half; a conversion rounds to nearest, ties to even.
\<close>

unbundle bit_operations_syntax

section \<open>Errors\<close>

datatype buffer_role = Weights | Input | Output | Workspace

datatype native_status =
    NativeSuccess | NativeNullPointer | NativeInvalidDimension | NativeSizeOverflow | NativeByteLengthMismatch
  | NativeAlignmentFailure | NativeAddressRangeOverflow | NativeRangeOverlap | NativeUnavailableIsa

definition status_from_code :: "int \<Rightarrow> native_status option" where
  "status_from_code code =
     (if code = 0 then Some NativeSuccess else if code = 1 then Some NativeNullPointer
      else if code = 2 then Some NativeInvalidDimension else if code = 3 then Some NativeSizeOverflow
      else if code = 4 then Some NativeByteLengthMismatch else if code = 5 then Some NativeAlignmentFailure
      else if code = 6 then Some NativeAddressRangeOverflow else if code = 7 then Some NativeRangeOverlap
      else if code = 8 then Some NativeUnavailableIsa else None)"

datatype kernel_error =
    InvalidDimensions usize usize
  | SizeOverflow buffer_role
  | MatrixLengthMismatch usize usize
  | ByteLengthMismatch usize usize
  | BufferLengthMismatch buffer_role usize usize
  | NullPointer buffer_role
  | NaturalAlignmentFailure buffer_role
  | NonFiniteWeight usize "16 word"
  | NonFiniteInput usize "32 word"
  | NonFiniteOutput usize "32 word"
  | NonFiniteConversionInput "32 word"
  | ConversionRoundedToInfinity "32 word"
  | AddressRangeOverflow buffer_role
  | RangeOverlap buffer_role buffer_role
  | BackendUnavailable
  | NativeFailure native_status
  | NativeContractViolation int

section \<open>The storage word\<close>

type_synonym bf16 = "16 word"

datatype bf16_class = ClassZero | ClassSubnormal | ClassNormal | ClassInfinity | ClassNan

definition to_f32 :: "bf16 \<Rightarrow> f32" where
  "to_f32 word = push_bit 16 (ucast word)"

definition classify :: "bf16 \<Rightarrow> bf16_class" where
  "classify word =
     (let exponent = word AND 0x7f80; fraction = word AND 0x007f in
      if exponent = 0 then if fraction = 0 then ClassZero else ClassSubnormal
      else if exponent = 0x7f80 then if fraction = 0 then ClassInfinity else ClassNan
      else ClassNormal)"

definition bf16_is_finite :: "bf16 \<Rightarrow> bool" where
  "bf16_is_finite word \<longleftrightarrow> \<not> (classify word = ClassInfinity \<or> classify word = ClassNan)"

definition trailing_zeros_u16 :: "16 word \<Rightarrow> nat" where
  "trailing_zeros_u16 word = length (takeWhile (\<lambda>i. \<not> bit word i) [0..<16])"

definition from_f32_rne :: "f32 \<Rightarrow> bf16" where
  "from_f32_rne bits =
     (let exponent = bits AND 0x7f800000; fraction = bits AND 0x007fffff in
      if exponent = 0x7f800000 \<and> fraction \<noteq> 0 then
        let word = ucast (drop_bit 16 bits) in
        if 7 \<le> trailing_zeros_u16 word then word OR 1 else word
      else
        let retained_lsb = drop_bit 16 bits AND 1;
            rounded = bits + (0x7fff + retained_lsb) in
        ucast (drop_bit 16 rounded))"

definition try_from_f32_rne :: "f32 \<Rightarrow> (kernel_error, bf16) result" where
  "try_from_f32_rne value =
     (if \<not> f32_is_finite value then fail (NonFiniteConversionInput value)
      else let converted = from_f32_rne value in
        if \<not> bf16_is_finite converted then fail (ConversionRoundedToInfinity value)
        else Ok converted)"

section \<open>As numbers\<close>

lemma nat_and_field: "n AND 2 ^ k * (2 ^ m - 1) = 2 ^ k * (n div 2 ^ k mod 2 ^ m)" for n :: nat
proof -
  have "n AND push_bit k (mask m) = push_bit k (take_bit m (drop_bit k n))"
    by (rule bit_eqI) (auto simp: bit_simps)
  then show ?thesis by (simp add: mask_eq_exp_minus_1 push_bit_eq_mult take_bit_eq_mod drop_bit_eq_div mult.commute)
qed

lemma unat_to_f32: "unat (to_f32 w) = 2 ^ 16 * unat w"
proof -
  have "unat w < 2 ^ LENGTH(16)" by (rule unsigned_less)
  then have "2 ^ 16 * unat w < 2 ^ 32" by simp
  then show ?thesis
    unfolding to_f32_def unsigned_push_bit_eq unsigned_ucast_eq by (simp add: take_bit_eq_mod push_bit_eq_mult mult.commute)
qed

lemma bf16_fields:
  "unat (w AND 0x7f80 :: bf16) = 2 ^ 7 * (unat w div 2 ^ 7 mod 2 ^ 8)" "unat (w AND 0x007f :: bf16) = unat w mod 2 ^ 7"
  using nat_and_field [of "unat w" 7 8] nat_and_field [of "unat w" 0 7] by (simp_all add: unsigned_and_eq)

lemma f32_masks:
  "unat (x AND 0x7f800000 :: f32) = 2 ^ 23 * f32_exponent x" "unat (x AND 0x007fffff :: f32) = f32_fraction x"
  using nat_and_field [of "unat x" 23 8] nat_and_field [of "unat x" 0 23]
  by (simp_all add: unsigned_and_eq f32_exponent_def f32_fraction_def)

lemma bf16_finite_iff: "bf16_is_finite w \<longleftrightarrow> unat w div 2 ^ 7 mod 2 ^ 8 \<noteq> 255"
proof -
  have "w AND 0x7f80 = 0 \<longleftrightarrow> unat w div 2 ^ 7 mod 2 ^ 8 = 0" "w AND 0x7f80 = 0x7f80 \<longleftrightarrow> unat w div 2 ^ 7 mod 2 ^ 8 = 255"
    using bf16_fields(1) [of w] by (simp_all add: unat_eq_zero [symmetric] word_unat_eq_iff)
  then show ?thesis by (simp add: bf16_is_finite_def classify_def Let_def)
qed

lemma nan_test: "x AND 0x7f800000 = 0x7f800000 \<and> x AND 0x007fffff \<noteq> 0 \<longleftrightarrow> f32_is_nan x"
  using f32_masks [of x] by (simp add: f32_is_nan_def word_unat_eq_iff)

text \<open>Adding half of the last place, less one for an even quotient, is rounding to nearest, ties to even.\<close>

lemma round_half_even_add: "(n + 0x7fff + n div 2 ^ 16 mod 2) div 2 ^ 16 = round_half_even n (2 ^ 16)"
proof -
  let ?q = "n div 2 ^ 16" and ?r = "n mod 2 ^ 16"
  have n: "n = ?q * 2 ^ 16 + ?r" by simp
  have r: "?r < 2 ^ 16" by simp
  have "(n + 0x7fff + ?q mod 2) div 2 ^ 16 = ?q + (?r + 0x7fff + ?q mod 2) div 2 ^ 16"
  proof -
    have "(q * 2 ^ 16 + r + 0x7fff + b) div 2 ^ 16 = q + (r + 0x7fff + b) div 2 ^ 16" for q r b :: nat
      by (simp add: add.assoc)
    from this [of ?q ?r "?q mod 2"] show ?thesis by (simp only: n [symmetric])
  qed
  moreover have "(?r + 0x7fff + ?q mod 2) div 2 ^ 16 = (if 2 * ?r < 2 ^ 16 \<or> 2 * ?r = 2 ^ 16 \<and> even ?q then 0 else 1)"
    using r by (intro div_nat_eqI) (auto simp: even_iff_mod_2_eq_zero odd_iff_mod_2_eq_one split: if_splits)
  ultimately show ?thesis by (simp add: round_half_even_def Let_def)
qed

lemma unat_from_f32:
  assumes "\<not> f32_is_nan x"
  shows "unat (from_f32_rne x) = (if f32_negative x then 2 ^ 15 else 0) + round_half_even (f32_magnitude x) (2 ^ 16)"
proof -
  let ?m = "f32_magnitude x" and ?s = "if f32_negative x then 2 ^ 31 else 0 :: nat"
  have m: "?m \<le> 255 * 2 ^ 23"
    using assms f32_magnitude_less [of x] by (auto simp: f32_is_nan_def f32_fields)
  have x: "unat x = ?s + ?m" by (rule f32_unat)
  have parity: "unat x div 2 ^ 16 mod 2 = ?m div 2 ^ 16 mod 2"
  proof -
    have "(32768 + k) mod 2 = k mod 2" for k :: nat by presburger
    then have "(2 ^ 31 + n) div 2 ^ 16 mod 2 = n div 2 ^ 16 mod 2" for n :: nat
      using div_mult_self3 [of "2 ^ 16" "2 ^ 15" n] by simp
    then show ?thesis unfolding x by (cases "f32_negative x") simp_all
  qed
  let ?lsb = "?m div 2 ^ 16 mod 2"
  have lsb: "unat (drop_bit 16 x AND 1) = ?lsb"
    using parity by (simp add: and_one_eq drop_bit_eq_div unat_div unat_mod)
  have "?lsb < 2" by (rule mod_less_divisor) simp
  then have small: "?m + 0x7fff + ?lsb < 2 ^ 31" using m by simp
  have rounded: "unat (x + (0x7fff + (drop_bit 16 x AND 1))) = ?s + (?m + 0x7fff + ?lsb)"
  proof -
    have "unat (0x7fff + (drop_bit 16 x AND 1)) = 0x7fff + ?lsb" using lsb small by (simp add: unat_word_ariths)
    then show ?thesis using x small by (simp add: unat_word_ariths)
  qed
  have high: "(?s + n) div 2 ^ 16 = (if f32_negative x then 2 ^ 15 else 0) + n div 2 ^ 16" for n
    using div_mult_self3 [of "2 ^ 16" "2 ^ 15" n] by simp
  have "unat (from_f32_rne x) = (?s + (?m + 0x7fff + ?lsb)) div 2 ^ 16 mod 2 ^ 16"
    using assms rounded
    by (simp add: from_f32_rne_def nan_test Let_def unsigned_ucast_eq take_bit_eq_mod drop_bit_eq_div unat_div)
  also have "\<dots> = (if f32_negative x then 2 ^ 15 else 0) + (?m + 0x7fff + ?lsb) div 2 ^ 16"
    unfolding high using small by (simp add: mod_less less_mult_imp_div_less)
  finally show ?thesis unfolding round_half_even_add .
qed

lemma to_f32_magnitude: "f32_magnitude (to_f32 w) = 2 ^ 16 * (unat w mod 2 ^ 15)" "f32_negative (to_f32 w) \<longleftrightarrow> 2 ^ 15 \<le> unat w"
  by (simp_all add: f32_magnitude_def f32_negative_def unat_to_f32 mult_mod_right)

section \<open>Rounding to nearest\<close>

text \<open>Of two neighbours \<open>a\<close> and \<open>a + e\<close> around \<open>a + x\<close>, the closer one is at least as close as any other point outside.\<close>

lemma closest_neighbour:
  fixes a b e x :: int
  assumes "0 \<le> x" "x < e" "b \<le> a \<or> a + e \<le> b"
  shows "2 * x \<le> e \<Longrightarrow> \<bar>(a + x) - a\<bar> \<le> \<bar>(a + x) - b\<bar>" "e \<le> 2 * x \<Longrightarrow> \<bar>(a + x) - (a + e)\<bar> \<le> \<bar>(a + x) - b\<bar>"
    "2 * x < e \<Longrightarrow> \<bar>(a + x) - a\<bar> = \<bar>(a + x) - b\<bar> \<Longrightarrow> b = a"
    "e < 2 * x \<Longrightarrow> \<bar>(a + x) - (a + e)\<bar> = \<bar>(a + x) - b\<bar> \<Longrightarrow> b = a + e"
  using assms by arith+

lemma round_half_even_nearest:
  fixes m h' :: nat
  defines "r \<equiv> round_half_even m (2 ^ 16)"
  shows "\<bar>int (ulps m) - int (ulps (2 ^ 16 * r))\<bar> \<le> \<bar>int (ulps m) - int (ulps (2 ^ 16 * h'))\<bar> \<and>
    (\<bar>int (ulps m) - int (ulps (2 ^ 16 * r))\<bar> = \<bar>int (ulps m) - int (ulps (2 ^ 16 * h'))\<bar> \<longrightarrow> h' = r \<or> even r)"
proof -
  define h k d where "h = m div 2 ^ 16" and "k = m mod 2 ^ 16" and "d = int (2 ^ (h div 2 ^ 7 - 1))"
  have m: "m = 2 ^ 16 * h + k" and k: "k < 2 ^ 16" and d: "0 < d" by (simp_all add: h_def k_def d_def)
  let ?a = "int (ulps (2 ^ 16 * h))" and ?b = "int (ulps (2 ^ 16 * h'))" and ?x = "int k * d" and ?e = "2 ^ 16 * d"
  have here: "int (ulps m) = ?a + ?x" unfolding m d_def using ulps_step [of k h] k by simp
  have up: "int (ulps (2 ^ 16 * Suc h)) = ?a + ?e" unfolding d_def using ulps_step [of "2 ^ 16" h] by (simp add: add.commute)
  have inj: "?b = int (ulps (2 ^ 16 * n)) \<longleftrightarrow> h' = n" for n by simp
  have "?b \<le> ?a \<or> int (ulps (2 ^ 16 * Suc h)) \<le> ?b" by (cases "h' \<le> h") (auto simp: not_le Suc_le_eq)
  then have outside: "?b \<le> ?a \<or> ?a + ?e \<le> ?b" unfolding up .
  have x: "0 \<le> ?x" "?x < ?e" using k d by simp_all
  note closest = closest_neighbour [OF x outside, folded here up, unfolded inj]
  have half: "2 * ?x < ?e \<longleftrightarrow> 2 * k < 2 ^ 16" "?e < 2 * ?x \<longleftrightarrow> 2 ^ 16 < 2 * k"
    using d by (simp_all add: mult.assoc [symmetric])
  have r: "r = (if 2 * k < 2 ^ 16 \<or> 2 * k = 2 ^ 16 \<and> even h then h else Suc h)"
    by (simp add: r_def round_half_even_def Let_def h_def k_def)
  show ?thesis
  proof (cases "2 * k" "2 ^ 16 :: nat" rule: linorder_cases)
    case less
    then have lt: "2 * ?x < ?e" using half(1) by blast
    have rh: "r = h" unfolding r using less by simp
    show ?thesis unfolding rh using closest(1) [OF less_imp_le [OF lt]] closest(3) [OF lt] by blast
  next
    case greater
    then have lt: "?e < 2 * ?x" using half(2) by blast
    have rh: "r = Suc h" unfolding r using greater by simp
    show ?thesis unfolding rh using closest(2) [OF less_imp_le [OF lt]] closest(4) [OF lt] by blast
  next
    case equal
    then have "2 * ?x \<le> ?e" "?e \<le> 2 * ?x" using half by linarith+
    moreover have "r = h \<and> even r \<or> r = Suc h \<and> even r" unfolding r using equal by simp
    ultimately show ?thesis using closest(1,2) by blast
  qed
qed

lemma round_half_even_le: "n \<le> b * d \<Longrightarrow> 0 < d \<Longrightarrow> round_half_even n d \<le> b"
proof -
  assume n: "n \<le> b * d" and d: "0 < d"
  show ?thesis
  proof (cases "n mod d = 0")
    case True
    then show ?thesis using div_le_mono [OF n, of d] d by (simp add: round_half_even_def)
  next
    case False
    then have "n div d * d < b * d" using n div_mult_mod_eq [of n d] by linarith
    then show ?thesis using d by (simp add: round_half_even_def Let_def)
  qed
qed

lemma rounded_fields:
  assumes "f32_is_finite x"
  shows "unat (from_f32_rne x) mod 2 ^ 15 = round_half_even (f32_magnitude x) (2 ^ 16)"
    "2 ^ 15 \<le> unat (from_f32_rne x) \<longleftrightarrow> f32_negative x"
proof -
  have "f32_magnitude x \<le> 255 * 2 ^ 7 * 2 ^ 16" using assms by (simp add: f32_finite_magnitude)
  then have "round_half_even (f32_magnitude x) (2 ^ 16) \<le> 255 * 2 ^ 7" by (rule round_half_even_le) simp
  then show "unat (from_f32_rne x) mod 2 ^ 15 = round_half_even (f32_magnitude x) (2 ^ 16)"
      "2 ^ 15 \<le> unat (from_f32_rne x) \<longleftrightarrow> f32_negative x"
    using unat_from_f32 [of x] assms by (simp_all add: f32_is_nan_def f32_is_finite_def)
qed

lemma bf16_nearest:
  assumes "f32_is_finite x"
  shows "\<bar>f32_value x - f32_value (to_f32 (from_f32_rne x))\<bar> \<le> \<bar>f32_value x - f32_value (to_f32 w)\<bar> \<and>
    (\<bar>f32_value x - f32_value (to_f32 (from_f32_rne x))\<bar> = \<bar>f32_value x - f32_value (to_f32 w)\<bar> \<longrightarrow>
      f32_value (to_f32 w) = f32_value (to_f32 (from_f32_rne x)) \<or> even (unat (from_f32_rne x)))"
proof -
  let ?m = "f32_magnitude x" and ?h = "unat w mod 2 ^ 15" and ?word = "from_f32_rne x"
  define r where "r = round_half_even ?m (2 ^ 16)"
  have word: "unat ?word mod 2 ^ 15 = r" "2 ^ 15 \<le> unat ?word \<longleftrightarrow> f32_negative x"
    using rounded_fields [OF assms] by (simp_all only: r_def)
  have even: "even (unat ?word) \<longleftrightarrow> even r"
    unfolding word(1) [symmetric] by (simp add: even_iff_mod_2_eq_zero mod_mod_cancel)
  have val: "f32_value (to_f32 v) = (if 2 ^ 15 \<le> unat v then - 1 else 1) * int (ulps (2 ^ 16 * (unat v mod 2 ^ 15)))" for v
    unfolding f32_value_def to_f32_magnitude by simp
  have here: "f32_value x = (if f32_negative x then - 1 else 1) * int (ulps ?m)" by (simp add: f32_value_def)
  have near: "\<bar>int (ulps ?m) - int (ulps (2 ^ 16 * r))\<bar> \<le> \<bar>int (ulps ?m) - int (ulps (2 ^ 16 * h'))\<bar> \<and>
      (\<bar>int (ulps ?m) - int (ulps (2 ^ 16 * r))\<bar> = \<bar>int (ulps ?m) - int (ulps (2 ^ 16 * h'))\<bar> \<longrightarrow> h' = r \<or> even r)" for h'
    unfolding r_def by (rule round_half_even_nearest)
  have zero: "ulps (2 ^ 16 * 0) = 0" by (simp add: ulps_def)
  show ?thesis
  proof (cases "(2 ^ 15 \<le> unat w) = f32_negative x")
    case True
    then show ?thesis
      unfolding val word even here using near [of ?h] by (cases "f32_negative x") (auto simp: abs_minus_commute)
  next
    case False
    then show ?thesis
      unfolding val word even here using near [of 0, unfolded zero] by (cases "f32_negative x") auto
  qed
qed

section \<open>Round trip, NaN and overflow\<close>

lemma length_takeWhile_upt:
  assumes "n \<le> m" shows "n \<le> length (takeWhile P [0..<m]) \<longleftrightarrow> (\<forall>i<n. P i)"
proof
  assume n: "n \<le> length (takeWhile P [0..<m])"
  show "\<forall>i<n. P i"
  proof (intro allI impI)
    fix i assume i: "i < n"
    then have "takeWhile P [0..<m] ! i = i" using n assms by (simp add: takeWhile_nth)
    then show "P i" using nth_mem [of i "takeWhile P [0..<m]"] set_takeWhileD n i by fastforce
  qed
next
  assume "\<forall>i<n. P i"
  then show "n \<le> length (takeWhile P [0..<m])"
    using nth_length_takeWhile [of P "[0..<m]"] assms by (cases "length (takeWhile P [0..<m]) < m") (auto intro: leI)
qed

lemma trailing_zeros_u16_7: "7 \<le> trailing_zeros_u16 w \<longleftrightarrow> unat w mod 2 ^ 7 = 0"
proof -
  have "7 \<le> trailing_zeros_u16 w \<longleftrightarrow> (\<forall>i<7. \<not> bit w i)"
    unfolding trailing_zeros_u16_def by (rule length_takeWhile_upt) simp
  also have "\<dots> \<longleftrightarrow> take_bit 7 w = 0" by (auto simp: bit_eq_iff bit_simps)
  also have "\<dots> \<longleftrightarrow> unat (take_bit 7 w) = 0" by (simp only: unat_eq_zero)
  also have "unat (take_bit 7 w) = unat w mod 2 ^ 7" unfolding unsigned_take_bit_eq by (simp add: take_bit_eq_mod)
  finally show ?thesis .
qed

lemma unat_high_half: "unat (ucast (drop_bit 16 x) :: bf16) = unat (x :: f32) div 2 ^ 16"
proof -
  have "unat x < 2 ^ LENGTH(32)" by (rule unsigned_less)
  then have "unat x div 2 ^ 16 < 2 ^ 16" by (simp add: less_mult_imp_div_less)
  then show ?thesis by (simp add: unsigned_ucast_eq take_bit_eq_mod drop_bit_eq_div unat_div)
qed

lemma nan_fields: "f32_is_nan (to_f32 w) \<Longrightarrow> unat w mod 2 ^ 7 \<noteq> 0"
  using mult_mod_right [of "2 ^ 16" "unat w" "2 ^ 7"] by (auto simp: f32_is_nan_def f32_fraction_def unat_to_f32)

lemma to_f32_round_trip: "from_f32_rne (to_f32 w) = w"
proof (cases "f32_is_nan (to_f32 w)")
  case True
  have half: "ucast (drop_bit 16 (to_f32 w)) = w"
    by (simp add: word_unat_eq_iff unat_high_half unat_to_f32)
  show ?thesis
    using True nan_fields [OF True] trailing_zeros_u16_7 [of w] by (simp add: from_f32_rne_def Let_def nan_test half)
next
  case False
  have "round_half_even (2 ^ 16 * n) (2 ^ 16) = n" for n by (simp add: round_half_even_def)
  then have "unat (from_f32_rne (to_f32 w)) = (if 2 ^ 15 \<le> unat w then 2 ^ 15 else 0) + unat w mod 2 ^ 15"
    using unat_from_f32 [OF False] by (simp only: to_f32_magnitude)
  moreover have "unat w < 2 ^ LENGTH(16)" by (rule unsigned_less)
  ultimately have "unat (from_f32_rne (to_f32 w)) = unat w" by (cases "2 ^ 15 \<le> unat w") (auto simp: le_mod_geq)
  then show ?thesis by (simp add: word_unat_eq_iff)
qed

lemma nan_stays_nan:
  assumes "f32_is_nan x" shows "classify (from_f32_rne x) = ClassNan"
proof -
  let ?w = "ucast (drop_bit 16 x) :: bf16"
  have "unat ?w div 2 ^ 7 mod 2 ^ 8 = 255"
    using assms unfolding unat_high_half by (simp add: f32_is_nan_def f32_exponent_def div_mult2_eq [symmetric])
  then have e: "?w AND 0x7f80 = 0x7f80" using bf16_fields(1) [of ?w] by (simp add: word_unat_eq_iff)
  then have e': "(?w OR 1) AND 0x7f80 = 0x7f80" by (simp add: bit.conj_disj_distrib2)
  have "(?w OR 1) AND 0x7f \<noteq> 0"
  proof
    assume "(?w OR 1) AND 0x7f = 0"
    then have "\<not> bit ((?w OR 1) AND 0x7f) 0" by simp
    then show False by (simp add: bit_simps)
  qed
  moreover have "?w AND 0x7f \<noteq> 0" if "\<not> 7 \<le> trailing_zeros_u16 ?w"
    using that bf16_fields(2) [of ?w] by (auto simp: trailing_zeros_u16_7)
  ultimately show ?thesis using assms e e' by (simp add: from_f32_rne_def nan_test Let_def classify_def)
qed

lemma rounds_finite_iff:
  assumes "f32_is_finite x" shows "bf16_is_finite (from_f32_rne x) \<longleftrightarrow> f32_magnitude x < 0x7f7f8000"
proof -
  let ?m = "f32_magnitude x"
  have "unat (from_f32_rne x) div 2 ^ 7 mod 2 ^ 8 = unat (from_f32_rne x) mod 2 ^ 15 div 2 ^ 7"
    using mod_mult2_eq [of "unat (from_f32_rne x)" "2 ^ 7" "2 ^ 8"] by simp
  then have "bf16_is_finite (from_f32_rne x) \<longleftrightarrow> round_half_even ?m (2 ^ 16) div 2 ^ 7 \<noteq> 255"
    by (simp only: bf16_finite_iff rounded_fields [OF assms])
  moreover have "?m \<le> 255 * 2 ^ 7 * 2 ^ 16" using assms by (simp add: f32_finite_magnitude)
  then have "round_half_even ?m (2 ^ 16) \<le> 255 * 2 ^ 7" by (rule round_half_even_le) simp
  then have "round_half_even ?m (2 ^ 16) div 2 ^ 7 \<noteq> 255 \<longleftrightarrow> round_half_even ?m (2 ^ 16) < 32640" by auto
  moreover have "round_half_even ?m (2 ^ 16) < 32640 \<longleftrightarrow> ?m < 0x7f7f8000"
  proof -
    define b where "b = ?m div 2 ^ 16 mod 2"
    have "round_half_even ?m (2 ^ 16) = (?m + 0x7fff + b) div 2 ^ 16" unfolding b_def by (rule round_half_even_add [symmetric])
    moreover have "b < 2" by (simp add: b_def)
    moreover have "b = 1" if "?m div 2 ^ 16 = 32639" using that by (simp add: b_def)
    ultimately show ?thesis by (cases "?m div 2 ^ 16" "32639 :: nat" rule: linorder_cases) (auto simp: div_less_iff_less_mult)
  qed
  ultimately show ?thesis by simp
qed

end
