(* ===== verification/Kernel_Matrix.thy ===== *)
theory Kernel_Matrix
  imports Kernel_Bf16
begin

text \<open>
  \<^verbatim>\<open>crates/runnel-kernels/src/matrix.rs\<close>: a dense row-major BF16 matrix in compact storage, its four constructors
  and its accessors. A constructor returns exactly on storage of the right size whose logical words are all finite,
  and what it returns satisfies \<open>wf_matrix\<close>, on which no accessor panics.
\<close>

section \<open>The matrix\<close>

record bf16_matrix =
  bm_rows :: usize
  bm_columns :: usize
  bm_storage :: "16 word list"
  bm_word_offset :: usize

definition validate_dimensions :: "usize \<Rightarrow> usize \<Rightarrow> (kernel_error, unit) result" where
  "validate_dimensions rows columns =
     (if rows = 0 \<or> columns = 0 then fail (InvalidDimensions rows columns) else Ok ())"

definition checked_elements :: "usize \<Rightarrow> usize \<Rightarrow> (kernel_error, usize) result" where
  "checked_elements rows columns = ok_or (checked_mul rows columns) (SizeOverflow Weights)"

definition validate_finite_words :: "16 word list \<Rightarrow> (kernel_error, unit) result" where
  "validate_finite_words ws =
     rfold (\<lambda>(index, bits) _. if \<not> bf16_is_finite bits then fail (NonFiniteWeight index bits) else Ok ())
       (enumerate 0 ws) ()"

text \<open>The slice \<^verbatim>\<open>xs[start..end]\<close>.\<close>

definition slice_range :: "'a list \<Rightarrow> usize \<Rightarrow> usize \<Rightarrow> ('e, 'a list) result" where
  "slice_range xs start stop =
     (if start \<le> stop \<and> stop \<le> length xs then Ok (take (stop - start) (drop start xs)) else panic ''range out of bounds'')"

definition from_storage :: "usize \<Rightarrow> usize \<Rightarrow> 16 word list \<Rightarrow> usize \<Rightarrow> (kernel_error, bf16_matrix) result" where
  "from_storage rows columns storage word_offset =
     rbind (validate_dimensions rows columns) (\<lambda>_.
     rbind (checked_elements rows columns) (\<lambda>logical_words.
     rbind (ok_or (checked_add word_offset logical_words) (SizeOverflow Weights)) (\<lambda>expected_storage_words.
     if length storage \<noteq> expected_storage_words then fail (MatrixLengthMismatch expected_storage_words (length storage))
     else rbind (slice_range storage word_offset expected_storage_words) (\<lambda>logical.
       rbind (validate_finite_words logical) (\<lambda>_.
       Ok \<lparr>bm_rows = rows, bm_columns = columns, bm_storage = storage, bm_word_offset = word_offset\<rparr>)))))"

definition from_words :: "usize \<Rightarrow> usize \<Rightarrow> 16 word list \<Rightarrow> (kernel_error, bf16_matrix) result" where
  "from_words rows columns ws = from_storage rows columns ws 0"

text \<open>\<^verbatim>\<open>chunks_exact(2)\<close> under \<^verbatim>\<open>u16::from_le_bytes\<close>.\<close>

fun le_words :: "u8 list \<Rightarrow> 16 word list" where
  "le_words (low # high # rest) = of_nat (unat low + 256 * unat high) # le_words rest"
| "le_words _ = []"

definition matrix_from_le_bytes :: "usize \<Rightarrow> usize \<Rightarrow> u8 list \<Rightarrow> (kernel_error, bf16_matrix) result" where
  "matrix_from_le_bytes rows columns bytes =
     rbind (validate_dimensions rows columns) (\<lambda>_.
     rbind (checked_elements rows columns) (\<lambda>elements.
     rbind (ok_or (checked_mul elements 2) (SizeOverflow Weights)) (\<lambda>expected_bytes.
     if length bytes \<noteq> expected_bytes then fail (ByteLengthMismatch expected_bytes (length bytes))
     else from_words rows columns (le_words bytes))))"

definition try_from_f32 :: "usize \<Rightarrow> usize \<Rightarrow> f32 list \<Rightarrow> (kernel_error, bf16_matrix) result" where
  "try_from_f32 rows columns values =
     rbind (validate_dimensions rows columns) (\<lambda>_.
     rbind (checked_elements rows columns) (\<lambda>expected.
     if length values \<noteq> expected then fail (MatrixLengthMismatch expected (length values))
     else rbind (rmap try_from_f32_rne values) (\<lambda>ws. from_words rows columns ws)))"

definition mul_usize :: "usize \<Rightarrow> usize \<Rightarrow> ('e, usize) result" where
  "mul_usize a b = or_panic (checked_mul a b) ''attempt to multiply with overflow''"

definition matrix_len :: "bf16_matrix \<Rightarrow> (kernel_error, usize) result" where
  "matrix_len m = mul_usize (bm_rows m) (bm_columns m)"

definition words :: "bf16_matrix \<Rightarrow> (kernel_error, 16 word list) result" where
  "words m = slice_range (bm_storage m) (bm_word_offset m) (length (bm_storage m))"

definition matrix_get :: "bf16_matrix \<Rightarrow> usize \<Rightarrow> usize \<Rightarrow> (kernel_error, bf16 option) result" where
  "matrix_get m row column =
     (if bm_rows m \<le> row \<or> bm_columns m \<le> column then Ok None
      else rbind (words m) (\<lambda>ws.
        rbind (mul_usize row (bm_columns m)) (\<lambda>start.
        rbind (add_u64 start column) (\<lambda>at.
        rbind (at_index ws at) (\<lambda>word. Ok (Some word))))))"

definition matrix_eq :: "bf16_matrix \<Rightarrow> bf16_matrix \<Rightarrow> (kernel_error, bool) result" where
  "matrix_eq a b =
     (if bm_rows a = bm_rows b \<and> bm_columns a = bm_columns b then
        rbind (words a) (\<lambda>ws. rbind (words b) (\<lambda>ws'. Ok (ws = ws')))
      else Ok False)"

section \<open>Well-formed matrices\<close>

definition logical_words :: "bf16_matrix \<Rightarrow> 16 word list" where
  "logical_words m = drop (bm_word_offset m) (bm_storage m)"

definition wf_matrix :: "bf16_matrix \<Rightarrow> bool" where
  "wf_matrix m \<longleftrightarrow>
     0 < bm_rows m \<and> 0 < bm_columns m \<and> bm_rows m * bm_columns m \<le> u64_max
     \<and> length (bm_storage m) = bm_word_offset m + bm_rows m * bm_columns m
     \<and> length (bm_storage m) \<le> u64_max \<and> list_all bf16_is_finite (logical_words m)"

lemma mul_usize_simps [simp]:
  "mul_usize a b = Inr c \<longleftrightarrow> c = a * b \<and> a * b \<le> u64_max" "a * b \<le> u64_max \<Longrightarrow> mul_usize a b = Ok (a * b)"
  by (auto simp: mul_usize_def or_panic_def checked_mul_def)

lemma validate_finite_words_iff: "validate_finite_words ws = Ok () \<longleftrightarrow> list_all bf16_is_finite ws"
proof -
  have "rfold (\<lambda>(index, bits) _. if \<not> bf16_is_finite bits then fail (NonFiniteWeight index bits) else Ok ())
      (enumerate n ws) () = Ok () \<longleftrightarrow> list_all bf16_is_finite ws" for n
    by (induction ws arbitrary: n) auto
  then show ?thesis by (simp add: validate_finite_words_def)
qed

lemma validate_finite_words_wp:
  "wp (\<lambda>e. \<exists>i < length ws. e = Err (NonFiniteWeight i (ws ! i)) \<and> \<not> bf16_is_finite (ws ! i))
     (validate_finite_words ws) (\<lambda>_. list_all bf16_is_finite ws)"
proof -
  have "wp (\<lambda>e. \<exists>i < length ws. e = Err (NonFiniteWeight (n + i) (ws ! i)) \<and> \<not> bf16_is_finite (ws ! i))
     (rfold (\<lambda>(index, bits) _. if \<not> bf16_is_finite bits then fail (NonFiniteWeight index bits) else Ok ())
      (enumerate n ws) ()) (\<lambda>_. list_all bf16_is_finite ws)" for n
  proof (induction ws arbitrary: n)
    case (Cons w ws)
    have shift: "\<exists>i < length (w # ws). e = Err (NonFiniteWeight (n + i) ((w # ws) ! i)) \<and> \<not> bf16_is_finite ((w # ws) ! i)"
      if "\<exists>i < length ws. e = Err (NonFiniteWeight (Suc n + i) (ws ! i)) \<and> \<not> bf16_is_finite (ws ! i)" for e
    proof -
      from that obtain i where "i < length ws" "e = Err (NonFiniteWeight (Suc n + i) (ws ! i))" "\<not> bf16_is_finite (ws ! i)"
        by blast
      then show ?thesis by (intro exI [of _ "Suc i"]) simp
    qed
    show ?case
    proof (cases "bf16_is_finite w")
      case True
      then show ?thesis using wp_mono [OF Cons.IH [of "Suc n"] shift] by simp
    qed auto
  qed simp
  from this [of 0] show ?thesis by (simp add: validate_finite_words_def)
qed

lemma from_storage_iff:
  "from_storage rows columns storage off = Ok m \<longleftrightarrow>
     m = \<lparr>bm_rows = rows, bm_columns = columns, bm_storage = storage, bm_word_offset = off\<rparr> \<and> wf_matrix m"
  by (auto simp: from_storage_def validate_dimensions_def checked_elements_def slice_range_def wf_matrix_def
      logical_words_def validate_finite_words_iff rbind_Inr_iff)

lemma from_storage_graceful: "wp graceful (from_storage rows columns storage off) wf_matrix"
proof (rule wpI)
  fix e assume "from_storage rows columns storage off = Inl e"
  moreover have "wp graceful (validate_finite_words ws) (\<lambda>_. True)" for ws
    by (rule wp_mono [OF validate_finite_words_wp]) auto
  ultimately show "graceful e"
    by (auto simp: from_storage_def validate_dimensions_def checked_elements_def slice_range_def
        elim!: rbind_InlE split: if_splits dest!: wp_Inl [rotated])
qed (simp add: from_storage_iff)

lemma words_ok: "wf_matrix m \<Longrightarrow> words m = Ok (logical_words m)"
  by (simp add: words_def slice_range_def logical_words_def wf_matrix_def)

lemma length_logical_words: "wf_matrix m \<Longrightarrow> length (logical_words m) = bm_rows m * bm_columns m"
  by (simp add: logical_words_def wf_matrix_def)

lemma cell_index:
  fixes row rows column columns :: nat
  assumes "row < rows" "column < columns" shows "row * columns + column < rows * columns"
proof -
  have "row * columns + column < Suc row * columns" using assms(2) by simp
  also have "\<dots> \<le> rows * columns" using assms(1) by (intro mult_le_mono1) simp
  finally show ?thesis .
qed

lemma row_fits: "row < rows \<Longrightarrow> row * columns + columns \<le> rows * columns" for rows :: nat
  using mult_le_mono1 [of "Suc row" rows columns] by simp

lemma matrix_get_ok:
  assumes "wf_matrix m"
  shows "matrix_get m row column =
    Ok (if row < bm_rows m \<and> column < bm_columns m then Some (logical_words m ! (row * bm_columns m + column)) else None)"
proof (cases "row < bm_rows m \<and> column < bm_columns m")
  case True
  then have "row * bm_columns m + column < bm_rows m * bm_columns m" by (simp add: cell_index)
  moreover from this True assms have "row * bm_columns m + column \<le> u64_max" by (simp add: wf_matrix_def)
  ultimately show ?thesis using True assms by (simp add: matrix_get_def words_ok length_logical_words)
qed (use assms in \<open>auto simp: matrix_get_def words_ok\<close>)

lemma matrix_from_le_bytes_graceful: "wp graceful (matrix_from_le_bytes rows columns bytes) wf_matrix"
proof -
  have "wp graceful (from_words rows columns ws) wf_matrix" for ws
    unfolding from_words_def by (rule from_storage_graceful)
  then show ?thesis
    by (simp add: matrix_from_le_bytes_def validate_dimensions_def checked_elements_def)
qed

lemma try_from_f32_graceful: "wp graceful (try_from_f32 rows columns values) wf_matrix"
proof -
  have "wp graceful (from_words rows columns ws) wf_matrix" for ws
    unfolding from_words_def by (rule from_storage_graceful)
  moreover have "wp graceful (rmap try_from_f32_rne xs) (\<lambda>_. True)" for xs
    by (induction xs) (auto simp: try_from_f32_rne_def Let_def elim: wp_conseq)
  ultimately show ?thesis
    by (auto simp: try_from_f32_def validate_dimensions_def checked_elements_def elim: wp_conseq)
qed

text \<open>The words of a matrix as the artifact stores them.\<close>

definition words_to_le_bytes :: "16 word list \<Rightarrow> u8 list" where
  "words_to_le_bytes ws = concat (map (\<lambda>w. le_bytes 2 (unat w)) ws)"

lemma le_words_round_trip: "le_words (words_to_le_bytes ws) = ws"
proof (induction ws)
  case (Cons w ws)
  have "unat w < 2 ^ LENGTH(16)" by (rule unsigned_less)
  then have high: "unat w div 256 mod 256 = unat w div 256" by simp
  have low: "unat (of_nat (n mod 256) :: u8) = n mod 256" for n by (simp add: unat_of_nat)
  have "unat (of_nat (unat w mod 256) :: u8) + 256 * unat (of_nat (unat w div 256 mod 256) :: u8) = unat w"
    unfolding low unfolding high by simp
  then have "(of_nat (unat (of_nat (unat w mod 256) :: u8) + 256 * unat (of_nat (unat w div 256 mod 256) :: u8)) :: 16 word) = w"
    by (simp only: word_unat_eq_iff) (simp add: unat_of_nat)
  with Cons show ?case by (simp add: words_to_le_bytes_def numeral_2_eq_2)
qed (simp add: words_to_le_bytes_def)

lemma length_words_to_le_bytes [simp]: "length (words_to_le_bytes ws) = 2 * length ws"
  by (induction ws) (simp_all add: words_to_le_bytes_def)

lemma matrix_bytes_round_trip:
  assumes "wf_matrix m" "2 * (bm_rows m * bm_columns m) \<le> u64_max"
  shows "matrix_from_le_bytes (bm_rows m) (bm_columns m) (words_to_le_bytes (logical_words m))
    = Ok \<lparr>bm_rows = bm_rows m, bm_columns = bm_columns m, bm_storage = logical_words m, bm_word_offset = 0\<rparr>"
proof -
  have "from_words (bm_rows m) (bm_columns m) (logical_words m)
    = Ok \<lparr>bm_rows = bm_rows m, bm_columns = bm_columns m, bm_storage = logical_words m, bm_word_offset = 0\<rparr>"
    unfolding from_words_def from_storage_iff using assms(1) length_logical_words [OF assms(1)]
    by (simp add: wf_matrix_def logical_words_def)
  moreover have "checked_mul (bm_rows m * bm_columns m) 2 = Some (bm_rows m * bm_columns m * 2)"
    "checked_mul (bm_rows m) (bm_columns m) = Some (bm_rows m * bm_columns m)" using assms by (simp_all add: wf_matrix_def)
  moreover have "bm_rows m \<noteq> 0" "bm_columns m \<noteq> 0" using assms(1) by (simp_all add: wf_matrix_def)
  ultimately show ?thesis
    using length_logical_words [OF assms(1)]
    by (simp add: matrix_from_le_bytes_def validate_dimensions_def checked_elements_def le_words_round_trip
        del: checked_mul_Some_iff)
qed

end
