(* ===== verification/Kernel_Native.thy ===== *)
theory Kernel_Native
  imports Kernel_Matrix
begin

text \<open>
  The native kernel and its boundary: \<^verbatim>\<open>crates/runnel-kernels/native/bf16_gemv.c\<close> and
  \<^verbatim>\<open>crates/runnel-kernels/src/ffi.rs\<close>.

  A pointer is an address together with the live storage behind it. Every load and store of the C code is checked
  against that storage, and one that falls outside is a panic: a theorem that the kernel never panics says that it
  never reads or writes out of bounds. A 256-bit register is a list of eight lanes. Sizes and addresses have 64 bits.
  Column and row counters stay below \<^verbatim>\<open>columns\<close> and \<^verbatim>\<open>rows\<close> and cannot wrap. The build
  switches floating-point contraction off, so a product is rounded before it is added.
\<close>

section \<open>The C kernel\<close>

record 'a slice =
  sl_address :: usize
  sl_elements :: "'a list"

definition c_checked_multiply :: "usize \<Rightarrow> usize \<Rightarrow> usize option" where
  "c_checked_multiply left right =
     (if left \<noteq> 0 \<and> u64_max div left < right then None else Some (left * right mod 2 ^ 64))"

definition c_checked_range :: "usize \<Rightarrow> usize \<Rightarrow> (usize \<times> usize) option" where
  "c_checked_range start byte_length =
     (if u64_max < byte_length \<or> u64_max - byte_length < start then None else Some (start, (start + byte_length) mod 2 ^ 64))"

definition c_ranges_overlap :: "usize \<times> usize \<Rightarrow> usize \<times> usize \<Rightarrow> bool" where
  "c_ranges_overlap left right \<longleftrightarrow> fst left < snd right \<and> fst right < snd left"

definition widen_bf16 :: "16 word \<Rightarrow> f32" where
  "widen_bf16 value = push_bit 16 (ucast value)"

definition load :: "'a list \<Rightarrow> usize \<Rightarrow> nat \<Rightarrow> ('e, 'a list) result" where
  "load storage at count = (if at + count \<le> length storage then Ok (take count (drop at storage)) else panic ''out of bounds read'')"

definition load1 :: "'a list \<Rightarrow> usize \<Rightarrow> ('e, 'a) result" where
  "load1 storage at = (if at < length storage then Ok (storage ! at) else panic ''out of bounds read'')"

definition store1 :: "'a list \<Rightarrow> usize \<Rightarrow> 'a \<Rightarrow> ('e, 'a list) result" where
  "store1 storage at v = (if at < length storage then Ok (storage[at := v]) else panic ''out of bounds write'')"

text \<open>The vector body of one row, from \<^verbatim>\<open>column\<close> on.\<close>

function vector_body ::
  "16 word list \<Rightarrow> f32 list \<Rightarrow> usize \<Rightarrow> usize \<Rightarrow> usize \<Rightarrow> f32 list \<Rightarrow> (kernel_error, f32 list) result" where
  "vector_body weights input row_start vector_columns column accumulator =
     (if column < vector_columns then
        rbind (load weights (row_start + column) 8) (\<lambda>packed.
        rbind (load input column 8) (\<lambda>input_values.
        vector_body weights input row_start vector_columns (column + 8)
          (map2 f32_add accumulator (map2 f32_mul (map widen_bf16 packed) input_values))))
      else Ok accumulator)"
  by pat_completeness auto
termination by (relation "measure (\<lambda>(_, _, _, vector_columns, column, _). vector_columns - column)") auto

declare vector_body.simps [simp del]

definition tail_step ::
  "16 word list \<Rightarrow> f32 list \<Rightarrow> usize \<Rightarrow> usize \<Rightarrow> usize \<Rightarrow> nat \<Rightarrow> f32 \<Rightarrow> (kernel_error, f32) result" where
  "tail_step weights input row_start column remaining k acc =
     (if k + 1 \<le> remaining then
        rbind (load1 weights (row_start + (column + k))) (\<lambda>word.
        rbind (load1 input (column + k)) (\<lambda>value.
        Ok (f32_add acc (f32_mul (widen_bf16 word) value))))
      else Ok acc)"

definition avx2_row ::
  "16 word list \<Rightarrow> f32 list \<Rightarrow> usize \<Rightarrow> usize \<Rightarrow> f32 list \<Rightarrow> (kernel_error, f32 list) result" where
  "avx2_row weights input columns row output =
     (let vector_columns = columns - columns mod 8; row_start = row * columns in
      rbind (vector_body weights input row_start vector_columns 0 (replicate 8 0)) (\<lambda>lanes.
      rbind (rfold (tail_step weights input row_start vector_columns (columns - vector_columns)) [0..<7]
        (fold (\<lambda>lane acc. f32_add acc lane) (tl lanes) (hd lanes))) (\<lambda>acc.
      store1 output row acc)))"

definition bf16_gemv_avx2 ::
  "16 word list \<Rightarrow> f32 list \<Rightarrow> usize \<Rightarrow> usize \<Rightarrow> f32 list \<Rightarrow> (kernel_error, f32 list) result" where
  "bf16_gemv_avx2 weights input rows columns output = rfold (avx2_row weights input columns) [0..<rows] output"

text \<open>The entry point: its status and the contents of the output afterwards.\<close>

definition bf16_gemv_avx2_v1 ::
  "bool \<Rightarrow> 16 word slice \<Rightarrow> usize \<Rightarrow> f32 slice \<Rightarrow> usize \<Rightarrow> f32 slice \<Rightarrow> usize \<Rightarrow> usize \<Rightarrow> usize
     \<Rightarrow> (kernel_error, int \<times> f32 list) result" where
  "bf16_gemv_avx2_v1 cpu_supports weights weight_bytes input input_bytes output output_bytes rows columns =
     (if sl_address weights = 0 \<or> sl_address input = 0 \<or> sl_address output = 0 then Ok (1, sl_elements output)
      else if rows = 0 \<or> columns = 0 then Ok (2, sl_elements output)
      else case c_checked_multiply rows columns of None \<Rightarrow> Ok (3, sl_elements output) | Some element_count \<Rightarrow>
      (case (c_checked_multiply element_count 2, c_checked_multiply columns 4, c_checked_multiply rows 4) of
        (Some expected_weight_bytes, Some expected_input_bytes, Some expected_output_bytes) \<Rightarrow>
          if weight_bytes \<noteq> expected_weight_bytes \<or> input_bytes \<noteq> expected_input_bytes
             \<or> output_bytes \<noteq> expected_output_bytes then Ok (4, sl_elements output)
          else if sl_address weights mod 2 \<noteq> 0 \<or> sl_address input mod 4 \<noteq> 0 \<or> sl_address output mod 4 \<noteq> 0
          then Ok (5, sl_elements output)
          else (case (c_checked_range (sl_address weights) weight_bytes, c_checked_range (sl_address input) input_bytes,
                     c_checked_range (sl_address output) output_bytes) of
            (Some weight_range, Some input_range, Some output_range) \<Rightarrow>
              if c_ranges_overlap weight_range input_range \<or> c_ranges_overlap weight_range output_range
                 \<or> c_ranges_overlap input_range output_range then Ok (7, sl_elements output)
              else if \<not> cpu_supports then Ok (8, sl_elements output)
              else rbind (bf16_gemv_avx2 (sl_elements weights) (sl_elements input) rows columns (sl_elements output))
                (\<lambda>computed. Ok (0, computed))
          | _ \<Rightarrow> Ok (6, sl_elements output))
      | _ \<Rightarrow> Ok (3, sl_elements output)))"

section \<open>The checks of the Rust side\<close>

definition require_pointer :: "usize \<Rightarrow> usize \<Rightarrow> buffer_role \<Rightarrow> (kernel_error, unit) result" where
  "require_pointer address alignment buffer =
     (if address = 0 then fail (NullPointer buffer)
      else if address mod alignment \<noteq> 0 then fail (NaturalAlignmentFailure buffer)
      else Ok ())"

definition checked_bytes :: "usize \<Rightarrow> usize \<Rightarrow> buffer_role \<Rightarrow> (kernel_error, usize) result" where
  "checked_bytes elements element_size buffer = ok_or (checked_mul elements element_size) (SizeOverflow buffer)"

definition require_bytes :: "usize \<Rightarrow> usize \<Rightarrow> usize \<Rightarrow> buffer_role \<Rightarrow> (kernel_error, unit) result" where
  "require_bytes elements element_size expected buffer =
     rbind (checked_bytes elements element_size buffer) (\<lambda>actual.
     if actual \<noteq> expected then fail (BufferLengthMismatch buffer (expected div element_size) elements) else Ok ())"

definition checked_range :: "usize \<Rightarrow> usize \<Rightarrow> buffer_role \<Rightarrow> (kernel_error, usize \<times> usize) result" where
  "checked_range start bytes buffer =
     rbind (ok_or (checked_add start bytes) (AddressRangeOverflow buffer)) (\<lambda>stop. Ok (start, stop))"

definition require_disjoint ::
  "usize \<times> usize \<Rightarrow> usize \<times> usize \<Rightarrow> buffer_role \<Rightarrow> buffer_role \<Rightarrow> (kernel_error, unit) result" where
  "require_disjoint first second first_role second_role =
     (if fst first < snd second \<and> fst second < snd first then fail (RangeOverlap first_role second_role) else Ok ())"

definition map_status :: "int \<Rightarrow> (kernel_error, unit) result" where
  "map_status code =
     (case status_from_code code of
        Some NativeSuccess \<Rightarrow> Ok ()
      | Some status \<Rightarrow> fail (NativeFailure status)
      | None \<Rightarrow> fail (NativeContractViolation code))"

text \<open>
  \<open>native_compiled\<close> is the build switch \<^verbatim>\<open>cfg(runnel_native_avx2)\<close>, \<open>cpu_supports\<close> the answer of
  \<^verbatim>\<open>__builtin_cpu_supports\<close>. The result carries the output buffer as the call leaves it.
\<close>

definition call_native ::
  "bool \<Rightarrow> bool \<Rightarrow> 16 word slice \<Rightarrow> usize \<Rightarrow> f32 slice \<Rightarrow> usize \<Rightarrow> f32 slice \<Rightarrow> usize \<Rightarrow> usize \<Rightarrow> usize
     \<Rightarrow> (kernel_error, unit) result \<times> f32 list" where
  "call_native native_compiled cpu_supports weights weight_bytes input input_bytes output output_bytes rows columns =
     (if native_compiled then
        (case bf16_gemv_avx2_v1 cpu_supports weights weight_bytes input input_bytes output output_bytes rows columns of
           Inl e \<Rightarrow> (Inl e, sl_elements output)
         | Inr (status, computed) \<Rightarrow> (map_status status, computed))
      else (fail BackendUnavailable, sl_elements output))"

definition gemv_checks ::
  "16 word slice \<Rightarrow> f32 slice \<Rightarrow> f32 slice \<Rightarrow> usize \<Rightarrow> usize \<Rightarrow> (kernel_error, usize \<times> usize \<times> usize) result" where
  "gemv_checks weights input output rows columns =
     (if rows = 0 \<or> columns = 0 then fail (InvalidDimensions rows columns)
      else
       rbind (ok_or (checked_mul rows columns) (SizeOverflow Weights)) (\<lambda>elements.
       rbind (checked_bytes elements 2 Weights) (\<lambda>weight_bytes.
       rbind (checked_bytes columns 4 Input) (\<lambda>input_bytes.
       rbind (checked_bytes rows 4 Output) (\<lambda>output_bytes.
       rbind (require_bytes (length (sl_elements weights)) 2 weight_bytes Weights) (\<lambda>_.
       rbind (require_pointer (sl_address weights) 2 Weights) (\<lambda>_.
       rbind (require_pointer (sl_address input) 4 Input) (\<lambda>_.
       rbind (require_pointer (sl_address output) 4 Output) (\<lambda>_.
       rbind (require_bytes (length (sl_elements input)) 4 input_bytes Input) (\<lambda>_.
       rbind (require_bytes (length (sl_elements output)) 4 output_bytes Output) (\<lambda>_.
       rbind (checked_range (sl_address weights) weight_bytes Weights) (\<lambda>weight_range.
       rbind (checked_range (sl_address input) input_bytes Input) (\<lambda>input_range.
       rbind (checked_range (sl_address output) output_bytes Output) (\<lambda>output_range.
       rbind (require_disjoint weight_range input_range Weights Input) (\<lambda>_.
       rbind (require_disjoint weight_range output_range Weights Output) (\<lambda>_.
       rbind (require_disjoint input_range output_range Input Output) (\<lambda>_.
       Ok (weight_bytes, input_bytes, output_bytes))))))))))))))))))"

definition ffi_gemv ::
  "bool \<Rightarrow> bool \<Rightarrow> 16 word slice \<Rightarrow> f32 slice \<Rightarrow> f32 slice \<Rightarrow> usize \<Rightarrow> usize
     \<Rightarrow> (kernel_error, unit) result \<times> f32 list" where
  "ffi_gemv native_compiled cpu_supports weights input output rows columns =
     (case gemv_checks weights input output rows columns of
        Inl e \<Rightarrow> (Inl e, sl_elements output)
      | Inr (weight_bytes, input_bytes, output_bytes) \<Rightarrow>
          call_native native_compiled cpu_supports weights weight_bytes input input_bytes output output_bytes rows columns)"

section \<open>What a row computes\<close>

text \<open>Both kernels round the products of a row alike and differ in the order in which they add them up.\<close>

definition row_products :: "16 word list \<Rightarrow> f32 list \<Rightarrow> f32 list" where
  "row_products row_words input = map2 (\<lambda>word value. f32_mul (widen_bf16 word) value) row_words input"

definition lane_sums :: "f32 list \<Rightarrow> nat \<Rightarrow> nat \<Rightarrow> f32 list \<Rightarrow> f32 list" where
  "lane_sums products j n = fold (\<lambda>i lanes. map2 f32_add lanes (take 8 (drop (8 * i) products))) [j..<n]"

definition add_all :: "f32 list \<Rightarrow> f32 \<Rightarrow> f32" where
  "add_all = fold (\<lambda>value acc. f32_add acc value)"

definition avx2_total :: "f32 list \<Rightarrow> f32" where
  "avx2_total products =
     (let n = length products div 8; lanes = lane_sums products 0 n (replicate 8 0) in
      add_all (drop (8 * n) products) (add_all (tl lanes) (hd lanes)))"

definition row_words :: "16 word list \<Rightarrow> usize \<Rightarrow> usize \<Rightarrow> 16 word list" where
  "row_words weights columns row = take columns (drop (row * columns) weights)"

lemma length_row_words: "row * columns + columns \<le> length weights \<Longrightarrow> length (row_words weights columns row) = columns"
  by (simp add: row_words_def)

lemma length_row_products:
  "row * columns + columns \<le> length weights \<Longrightarrow> length input = columns
    \<Longrightarrow> length (row_products (row_words weights columns row) input) = columns"
  by (simp add: row_products_def length_row_words)

lemma row_products_nth:
  "row * columns + columns \<le> length weights \<Longrightarrow> length input = columns \<Longrightarrow> k < columns
    \<Longrightarrow> row_products (row_words weights columns row) input ! k = f32_mul (widen_bf16 (weights ! (row * columns + k))) (input ! k)"
  by (simp add: row_products_def row_words_def)

lemma block_products:
  assumes "row * columns + columns \<le> length weights" "length input = columns" "8 * j + 8 \<le> columns"
  shows "map2 f32_mul (map widen_bf16 (take 8 (drop (row * columns + 8 * j) weights))) (take 8 (drop (8 * j) input))
    = take 8 (drop (8 * j) (row_products (row_words weights columns row) input))"
  by (rule nth_equalityI) (use assms length_row_products [OF assms(1,2)] in \<open>simp_all add: row_products_nth add.assoc\<close>)

lemma vector_body_lanes:
  assumes "row * columns + columns \<le> length weights" "length input = columns" "8 * n \<le> columns" "j \<le> n"
  shows "vector_body weights input (row * columns) (8 * n) (8 * j) lanes
    = Ok (lane_sums (row_products (row_words weights columns row) input) j n lanes)"
  using assms(4)
proof (induction "n - j" arbitrary: j lanes)
  case 0
  then show ?case by (subst vector_body.simps) (simp add: lane_sums_def)
next
  case (Suc k)
  then have j: "j < n" and "8 * j + 8 \<le> 8 * n" by simp_all
  with assms have fits: "8 * j + 8 \<le> columns" by simp
  let ?lanes = "map2 f32_add lanes (take 8 (drop (8 * j) (row_products (row_words weights columns row) input)))"
  have "vector_body weights input (row * columns) (8 * n) (8 * j) lanes
      = vector_body weights input (row * columns) (8 * n) (8 * Suc j) ?lanes"
    using fits j assms by (subst vector_body.simps) (simp add: load_def block_products add.commute)
  also have "\<dots> = Ok (lane_sums (row_products (row_words weights columns row) input) (Suc j) n ?lanes)"
    using Suc.hyps(1) [of "Suc j" ?lanes] Suc.hyps(2) j by simp
  finally show ?case using j by (simp add: lane_sums_def upt_conv_Cons)
qed

lemma tail_adds:
  assumes "row * columns + columns \<le> length weights" "length input = columns" "column + r = columns"
  shows "rfold (tail_step weights input (row * columns) column r) [j..<m] acc
    = Ok (add_all (drop (column + j) (take (column + m) (row_products (row_words weights columns row) input))) acc)"
proof (induction "m - j" arbitrary: j acc)
  case 0
  then show ?case by (simp add: add_all_def)
next
  case (Suc k)
  then have j: "j < m" by simp
  let ?p = "row_products (row_words weights columns row) input"
  have len: "length ?p = columns" by (rule length_row_products [OF assms(1,2)])
  show ?case
  proof (cases "j < r")
    case True
    then have "drop (column + j) (take (column + m) ?p) = ?p ! (column + j) # drop (column + Suc j) (take (column + m) ?p)"
      using len assms(3) j by (subst Cons_nth_drop_Suc [symmetric]) simp_all
    then show ?thesis
      using True assms j Suc.hyps(1) [of "Suc j"] Suc.hyps(2) len
      by (simp add: upt_conv_Cons tail_step_def load1_def row_products_nth add_all_def)
  next
    case False
    then have past: "drop (column + i) (take (column + m) ?p) = []" if "j \<le> i" for i using len assms(3) that by simp
    show ?thesis
      using False j Suc.hyps(1) [of "Suc j"] Suc.hyps(2) past [of j] past [of "Suc j"]
      by (simp add: upt_conv_Cons tail_step_def)
  qed
qed

lemma avx2_row_ok:
  assumes "row * columns + columns \<le> length weights" "length input = columns" "row < length output"
  shows "avx2_row weights input columns row output
    = Ok (output[row := avx2_total (row_products (row_words weights columns row) input)])"
proof -
  let ?p = "row_products (row_words weights columns row) input"
  have len: "length ?p = columns" by (rule length_row_products [OF assms(1,2)])
  have v: "columns - columns mod 8 = 8 * (columns div 8)" by (simp add: minus_mod_eq_mult_div)
  have r: "8 * (columns div 8) + (columns - 8 * (columns div 8)) = columns" by simp
  have "columns \<le> 8 * (columns div 8) + 7" by presburger
  then have "take (8 * (columns div 8) + 7) ?p = ?p" using len by simp
  then show ?thesis
    using vector_body_lanes [OF assms(1,2), of "columns div 8" 0] tail_adds [OF assms(1,2) r, of 0 7] assms(3)
    by (simp add: avx2_row_def Let_def v avx2_total_def len store1_def add_all_def [symmetric])
qed

definition avx2_rows :: "16 word list \<Rightarrow> f32 list \<Rightarrow> usize \<Rightarrow> usize \<Rightarrow> f32 list" where
  "avx2_rows weights input rows columns =
     map (\<lambda>row. avx2_total (row_products (row_words weights columns row) input)) [0..<rows]"

lemma bf16_gemv_avx2_ok:
  assumes "rows * columns \<le> length weights" "length input = columns" "length output = rows"
  shows "bf16_gemv_avx2 weights input rows columns output = Ok (avx2_rows weights input rows columns)"
proof -
  have "rfold (avx2_row weights input columns) [0..<n] output = Ok (avx2_rows weights input n columns @ drop n output)"
    if "n \<le> rows" for n
    using that
  proof (induction n)
    case (Suc n)
    then have n: "n < rows" by simp
    have len: "length (avx2_rows weights input n columns) = n" by (simp add: avx2_rows_def)
    have "n * columns + columns \<le> length weights" using row_fits [OF n, of columns] assms(1) by simp
    from avx2_row_ok [OF this assms(2), of "avx2_rows weights input n columns @ drop n output"] n assms(3) len Suc.IH
    show ?case by (simp add: rfold_append list_update_append Cons_nth_drop_Suc [symmetric]) (simp add: avx2_rows_def)
  qed (simp add: avx2_rows_def)
  from this [of rows] show ?thesis using assms(3) by (simp add: bf16_gemv_avx2_def)
qed

section \<open>The boundary is safe\<close>

definition passes :: "16 word slice \<Rightarrow> f32 slice \<Rightarrow> f32 slice \<Rightarrow> usize \<Rightarrow> usize \<Rightarrow> bool" where
  "passes weights input output rows columns \<longleftrightarrow>
     0 < rows \<and> 0 < columns \<and> rows * columns * 2 \<le> u64_max \<and> columns * 4 \<le> u64_max \<and> rows * 4 \<le> u64_max
     \<and> length (sl_elements weights) = rows * columns \<and> length (sl_elements input) = columns
     \<and> length (sl_elements output) = rows
     \<and> sl_address weights \<noteq> 0 \<and> sl_address input \<noteq> 0 \<and> sl_address output \<noteq> 0
     \<and> sl_address weights mod 2 = 0 \<and> sl_address input mod 4 = 0 \<and> sl_address output mod 4 = 0
     \<and> sl_address weights + rows * columns * 2 \<le> u64_max \<and> sl_address input + columns * 4 \<le> u64_max
     \<and> sl_address output + rows * 4 \<le> u64_max
     \<and> \<not> (sl_address weights < sl_address input + columns * 4 \<and> sl_address input < sl_address weights + rows * columns * 2)
     \<and> \<not> (sl_address weights < sl_address output + rows * 4 \<and> sl_address output < sl_address weights + rows * columns * 2)
     \<and> \<not> (sl_address input < sl_address output + rows * 4 \<and> sl_address output < sl_address input + columns * 4)"

lemmas check_defs = checked_bytes_def require_bytes_def require_pointer_def checked_range_def require_disjoint_def

lemma gemv_checks_iff:
  "gemv_checks weights input output rows columns = Ok sizes \<longleftrightarrow>
     sizes = (rows * columns * 2, columns * 4, rows * 4) \<and> passes weights input output rows columns"
  unfolding gemv_checks_def check_defs passes_def
  by (auto simp: rbind_Inr_iff)

lemma gemv_checks_graceful: "gemv_checks weights input output rows columns = Inl e \<Longrightarrow> graceful e"
  unfolding gemv_checks_def check_defs
  by (auto elim!: rbind_InlE split: if_splits)

lemma c_checked_multiply_ok: "a * b \<le> u64_max \<Longrightarrow> c_checked_multiply a b = Some (a * b)"
proof -
  assume fits: "a * b \<le> u64_max"
  then have "\<not> u64_max div a < b" if "a \<noteq> 0" using that by (simp add: not_less less_eq_div_iff_mult_less_eq mult.commute)
  moreover have "a * b < 2 ^ 64" using fits by (simp add: u64_max_def)
  ultimately show ?thesis by (cases "a = 0") (simp_all add: c_checked_multiply_def)
qed

lemma c_checked_range_ok: "a + n \<le> u64_max \<Longrightarrow> c_checked_range a n = Some (a, a + n)"
  by (simp add: c_checked_range_def u64_max_def)

text \<open>After the checks of the Rust side, no check of the C side fails but that for the instruction set.\<close>

lemma native_status:
  assumes "passes weights input output rows columns"
  shows "bf16_gemv_avx2_v1 cpu_supports weights (rows * columns * 2) input (columns * 4) output (rows * 4) rows columns
    = Ok (if cpu_supports then (0, avx2_rows (sl_elements weights) (sl_elements input) rows columns) else (8, sl_elements output))"
proof -
  have small: "rows * columns \<le> u64_max" using assms unfolding passes_def by linarith
  have "bf16_gemv_avx2 (sl_elements weights) (sl_elements input) rows columns (sl_elements output)
      = Ok (avx2_rows (sl_elements weights) (sl_elements input) rows columns)"
    by (rule bf16_gemv_avx2_ok) (use assms in \<open>simp_all add: passes_def\<close>)
  then show ?thesis
    using assms small unfolding passes_def bf16_gemv_avx2_v1_def
    by (simp add: c_checked_multiply_ok c_checked_range_ok c_ranges_overlap_def)
qed

lemma ffi_gemv_cases:
  obtains e where "gemv_checks weights input output rows columns = Inl (Err e)"
      "ffi_gemv native cpu weights input output rows columns = (fail e, sl_elements output)"
  | "passes weights input output rows columns"
    "ffi_gemv native cpu weights input output rows columns =
      (if \<not> native then (fail BackendUnavailable, sl_elements output)
       else if \<not> cpu then (fail (NativeFailure NativeUnavailableIsa), sl_elements output)
       else (Ok (), avx2_rows (sl_elements weights) (sl_elements input) rows columns))"
proof (cases "gemv_checks weights input output rows columns")
  case (Inl f)
  then obtain e where "f = Err e" using gemv_checks_graceful [OF Inl] by (cases f) auto
  then show ?thesis using Inl by (intro that(1)) (simp_all add: ffi_gemv_def)
next
  case (Inr sizes)
  then have "passes weights input output rows columns" "sizes = (rows * columns * 2, columns * 4, rows * 4)"
    by (simp_all add: gemv_checks_iff)
  then show ?thesis
    using Inr by (intro that(2)) (simp_all add: ffi_gemv_def call_native_def native_status map_status_def status_from_code_def)
qed

end
