(* ===== verification/Kernel_Gemv.thy ===== *)
theory Kernel_Gemv
  imports Kernel_Native
begin

text \<open>
  \<^verbatim>\<open>crates/runnel-kernels/src/lib.rs\<close> and \<^verbatim>\<open>dispatch.rs\<close>: the input that is proven finite, the choice of the
  backend, and the prepared matrix-vector product. An operation that writes through \<^verbatim>\<open>&mut\<close> arguments returns
  its result together with their contents afterwards. Where the slices lie in memory is a parameter (\<open>placement\<close>).
\<close>

section \<open>Dispatch\<close>

datatype backend_request = RequestAuto | RequestScalar | RequestAvx2

datatype backend_kind = Scalar | Avx2

record capabilities =
  cap_avx2 :: bool

definition detected :: "bool \<Rightarrow> bool \<Rightarrow> capabilities" where
  "detected native_compiled cpu_has_avx2 = \<lparr>cap_avx2 = native_compiled \<and> cpu_has_avx2\<rparr>"

definition without_avx2 :: "capabilities \<Rightarrow> capabilities" where
  "without_avx2 _ = \<lparr>cap_avx2 = False\<rparr>"

definition select_backend :: "backend_request \<Rightarrow> capabilities \<Rightarrow> (kernel_error, backend_kind) result" where
  "select_backend request caps =
     (case (request, cap_avx2 caps) of
        (RequestScalar, _) \<Rightarrow> Ok Scalar
      | (RequestAuto, False) \<Rightarrow> Ok Scalar
      | (RequestAuto, True) \<Rightarrow> Ok Avx2
      | (RequestAvx2, True) \<Rightarrow> Ok Avx2
      | (RequestAvx2, False) \<Rightarrow> fail BackendUnavailable)"

section \<open>Input and workspace\<close>

definition finite_input :: "f32 list \<Rightarrow> (kernel_error, f32 list) result" where
  "finite_input input =
     rbind (rfold (\<lambda>(index, value) _. if \<not> f32_is_finite value then fail (NonFiniteInput index value) else Ok ())
       (enumerate 0 input) ()) (\<lambda>_. Ok input)"

definition workspace_new :: "usize \<Rightarrow> f32 list" where
  "workspace_new rows = replicate rows 0"

definition resize_rows :: "f32 list \<Rightarrow> usize \<Rightarrow> f32 list" where
  "resize_rows temporary rows = take rows temporary @ replicate (rows - length temporary) 0"

section \<open>The product\<close>

record prepared_gemv =
  pg_matrix :: bf16_matrix
  pg_input :: "f32 list"
  pg_backend :: backend_kind

definition with_capabilities ::
  "bf16_matrix \<Rightarrow> f32 list \<Rightarrow> backend_request \<Rightarrow> capabilities \<Rightarrow> (kernel_error, prepared_gemv) result" where
  "with_capabilities matrix input request caps =
     (if length input \<noteq> bm_columns matrix then fail (BufferLengthMismatch Input (bm_columns matrix) (length input))
      else rbind (select_backend request caps) (\<lambda>backend.
        Ok \<lparr>pg_matrix = matrix, pg_input = input, pg_backend = backend\<rparr>))"

definition prepared_new ::
  "bool \<Rightarrow> bool \<Rightarrow> bf16_matrix \<Rightarrow> f32 list \<Rightarrow> backend_request \<Rightarrow> (kernel_error, prepared_gemv) result" where
  "prepared_new native_compiled cpu_has_avx2 matrix input request =
     with_capabilities matrix input request (detected native_compiled cpu_has_avx2)"

definition require_output_lengths :: "usize \<Rightarrow> f32 list \<Rightarrow> f32 list \<Rightarrow> (kernel_error, unit) result" where
  "require_output_lengths rows temporary output =
     (if length temporary \<noteq> rows then fail (BufferLengthMismatch Workspace rows (length temporary))
      else if length output \<noteq> rows then fail (BufferLengthMismatch Output rows (length output))
      else Ok ())"

definition scalar_sum :: "16 word list \<Rightarrow> f32 list \<Rightarrow> f32" where
  "scalar_sum selected input =
     fold (\<lambda>(word, value) acc. let product = f32_mul (to_f32 word) value in f32_add acc product) (zip selected input) 0"

definition scalar_compute :: "bf16_matrix \<Rightarrow> f32 list \<Rightarrow> f32 list \<Rightarrow> (kernel_error, f32 list) result" where
  "scalar_compute matrix input output =
     rmap (\<lambda>(row, _).
       rbind (mul_usize row (bm_columns matrix)) (\<lambda>start.
       rbind (words matrix) (\<lambda>ws.
       rbind (add_u64 start (bm_columns matrix)) (\<lambda>stop.
       rbind (slice_range ws start stop) (\<lambda>selected. Ok (scalar_sum selected input))))))
     (enumerate 0 output)"

definition validate_finite_output :: "f32 list \<Rightarrow> (kernel_error, unit) result" where
  "validate_finite_output output =
     rfold (\<lambda>(index, value) _. if \<not> f32_is_finite value then fail (NonFiniteOutput index value) else Ok ())
       (enumerate 0 output) ()"

record placement =
  at_weights :: usize
  at_input :: usize
  at_workspace :: usize

record buffers =
  buf_workspace :: "f32 list"
  buf_output :: "f32 list"

definition publish :: "buffers \<Rightarrow> (kernel_error, unit) result \<times> buffers" where
  "publish b =
     (case validate_finite_output (buf_workspace b) of
        Inl e \<Rightarrow> (Inl e, b)
      | Inr _ \<Rightarrow> (Ok (), b\<lparr>buf_output := buf_workspace b\<rparr>))"

definition run_gemv ::
  "bool \<Rightarrow> bool \<Rightarrow> placement \<Rightarrow> prepared_gemv \<Rightarrow> buffers \<Rightarrow> (kernel_error, unit) result \<times> buffers" where
  "run_gemv native_compiled cpu_supports place gemv b =
     (case require_output_lengths (bm_rows (pg_matrix gemv)) (buf_workspace b) (buf_output b) of
        Inl e \<Rightarrow> (Inl e, b)
      | Inr _ \<Rightarrow>
          (case pg_backend gemv of
             Scalar \<Rightarrow>
               (case scalar_compute (pg_matrix gemv) (pg_input gemv) (buf_workspace b) of
                  Inl e \<Rightarrow> (Inl e, b)
                | Inr computed \<Rightarrow> publish (b\<lparr>buf_workspace := computed\<rparr>))
           | Avx2 \<Rightarrow>
               (case words (pg_matrix gemv) of
                  Inl e \<Rightarrow> (Inl e, b)
                | Inr ws \<Rightarrow>
                    (case ffi_gemv native_compiled cpu_supports \<lparr>sl_address = at_weights place, sl_elements = ws\<rparr>
                       \<lparr>sl_address = at_input place, sl_elements = pg_input gemv\<rparr>
                       \<lparr>sl_address = at_workspace place, sl_elements = buf_workspace b\<rparr>
                       (bm_rows (pg_matrix gemv)) (bm_columns (pg_matrix gemv)) of
                       (Inl e, computed) \<Rightarrow> (Inl e, b\<lparr>buf_workspace := computed\<rparr>)
                     | (Inr _, computed) \<Rightarrow> publish (b\<lparr>buf_workspace := computed\<rparr>)))))"

definition scalar_gemv :: "bf16_matrix \<Rightarrow> f32 list \<Rightarrow> buffers \<Rightarrow> (kernel_error, unit) result \<times> buffers" where
  "scalar_gemv matrix input b =
     (if length input \<noteq> bm_columns matrix
      then (fail (BufferLengthMismatch Input (bm_columns matrix) (length input)), b)
      else case require_output_lengths (bm_rows matrix) (buf_workspace b) (buf_output b) of
        Inl e \<Rightarrow> (Inl e, b)
      | Inr _ \<Rightarrow>
          (case scalar_compute matrix input (buf_workspace b) of
             Inl e \<Rightarrow> (Inl e, b)
           | Inr computed \<Rightarrow> publish (b\<lparr>buf_workspace := computed\<rparr>)))"

section \<open>What the product computes\<close>

definition scalar_total :: "f32 list \<Rightarrow> f32" where
  "scalar_total products = add_all products 0"

definition gemv_rows :: "backend_kind \<Rightarrow> bf16_matrix \<Rightarrow> f32 list \<Rightarrow> f32 list" where
  "gemv_rows backend matrix input =
     map (\<lambda>row. (case backend of Scalar \<Rightarrow> scalar_total | Avx2 \<Rightarrow> avx2_total)
         (row_products (row_words (logical_words matrix) (bm_columns matrix) row) input))
       [0..<bm_rows matrix]"

lemma scalar_sum_products: "scalar_sum ws xs = scalar_total (row_products ws xs)"
proof -
  have "fold (\<lambda>(word, value) acc. let product = f32_mul (to_f32 word) value in f32_add acc product) (zip ws xs) a
      = add_all (row_products ws xs) a" for a
    by (induction ws xs arbitrary: a rule: list_induct2')
      (simp_all add: add_all_def row_products_def to_f32_def widen_bf16_def Let_def)
  then show ?thesis by (simp add: scalar_sum_def scalar_total_def)
qed

lemma scalar_compute_ok:
  assumes "wf_matrix matrix" "length temporary = bm_rows matrix"
  shows "scalar_compute matrix input temporary = Ok (gemv_rows Scalar matrix input)"
proof -
  let ?c = "bm_columns matrix"
  have row: "row * ?c + ?c \<le> bm_rows matrix * ?c" "row * ?c + ?c \<le> u64_max" if "row < bm_rows matrix" for row
    using row_fits [OF that, of ?c] assms(1) by (auto simp: wf_matrix_def)
  have "scalar_compute matrix input temporary
      = Ok (map (\<lambda>(row, _). scalar_sum (row_words (logical_words matrix) ?c row) input) (enumerate 0 temporary))"
    unfolding scalar_compute_def
  proof (rule rmap_pure)
    fix x assume "x \<in> set (enumerate 0 temporary)"
    then have "x = (fst x, snd x)" "fst x < bm_rows matrix" using assms(2) by (simp_all add: in_set_enumerate_eq)
    then obtain row v where "x = (row, v)" "row < bm_rows matrix" by blast
    then show "(case x of (row, _) \<Rightarrow>
        rbind (mul_usize row ?c) (\<lambda>start. rbind (words matrix) (\<lambda>ws. rbind (add_u64 start ?c) (\<lambda>stop.
        rbind (slice_range ws start stop) (\<lambda>selected. Ok (scalar_sum selected input))))))
      = Ok ((\<lambda>(row, _). scalar_sum (row_words (logical_words matrix) ?c row) input) x)"
      using row [of row] assms(1)
      by (simp add: words_ok slice_range_def length_logical_words row_words_def)
  qed
  moreover have "map (\<lambda>(row, _). f row) (enumerate 0 temporary) = map f [0..<bm_rows matrix]" for f :: "nat \<Rightarrow> f32"
    by (rule nth_equalityI) (use assms(2) in \<open>simp_all add: nth_enumerate_eq\<close>)
  ultimately show ?thesis by (simp add: gemv_rows_def scalar_sum_products)
qed

lemma validate_finite_output_iff: "validate_finite_output xs = Ok () \<longleftrightarrow> list_all f32_is_finite xs"
proof -
  have "rfold (\<lambda>(index, value) _. if \<not> f32_is_finite value then fail (NonFiniteOutput index value) else Ok ())
      (enumerate n xs) () = Ok () \<longleftrightarrow> list_all f32_is_finite xs" for n
    by (induction xs arbitrary: n) auto
  then show ?thesis by (simp add: validate_finite_output_def)
qed

lemma validate_finite_output_graceful: "validate_finite_output xs = Inl e \<Longrightarrow> graceful e"
  unfolding validate_finite_output_def by (erule rfold_failure [where P = "\<lambda>_. True"]) (auto split: if_splits)

lemma publish_cases:
  obtains e where "publish b = (fail e, b)" "\<not> list_all f32_is_finite (buf_workspace b)"
  | "publish b = (Ok (), b\<lparr>buf_output := buf_workspace b\<rparr>)" "list_all f32_is_finite (buf_workspace b)"
proof (cases "validate_finite_output (buf_workspace b)")
  case (Inl f)
  then obtain e where "f = Err e" using validate_finite_output_graceful [OF Inl] by (cases f) auto
  then show ?thesis using Inl validate_finite_output_iff [of "buf_workspace b"] by (intro that(1)) (auto simp: publish_def)
next
  case (Inr u)
  then show ?thesis using validate_finite_output_iff [of "buf_workspace b"] by (intro that(2)) (simp_all add: publish_def)
qed

text \<open>The outcome of a product: all of the output or none of it.\<close>

definition published :: "f32 list \<Rightarrow> buffers \<Rightarrow> (kernel_error, unit) result \<times> buffers \<Rightarrow> bool" where
  "published computed b outcome \<longleftrightarrow>
     (case outcome of
        (Inr _, b') \<Rightarrow> b' = \<lparr>buf_workspace = computed, buf_output = computed\<rparr> \<and> list_all f32_is_finite computed
      | (Inl e, b') \<Rightarrow> graceful e \<and> buf_output b' = buf_output b)"

lemma publish_published: "published computed b (publish (b\<lparr>buf_workspace := computed\<rparr>))"
  by (rule publish_cases [of "b\<lparr>buf_workspace := computed\<rparr>"]) (auto simp: published_def)

lemma require_output_lengths_iff:
  "require_output_lengths rows t out = Ok u \<longleftrightarrow> length t = rows \<and> length out = rows"
  by (auto simp: require_output_lengths_def)

lemma require_output_lengths_graceful: "require_output_lengths rows t out = Inl e \<Longrightarrow> graceful e"
  by (auto simp: require_output_lengths_def split: if_splits)

lemma avx2_rows_gemv: "avx2_rows (logical_words m) input (bm_rows m) (bm_columns m) = gemv_rows Avx2 m input"
  by (simp add: avx2_rows_def gemv_rows_def)

lemma run_gemv_published:
  assumes "wf_matrix (pg_matrix g)"
  shows "published (gemv_rows (pg_backend g) (pg_matrix g) (pg_input g)) b (run_gemv native cpu place g b)"
proof (cases "require_output_lengths (bm_rows (pg_matrix g)) (buf_workspace b) (buf_output b)")
  case (Inl e)
  then show ?thesis using require_output_lengths_graceful [OF Inl] by (simp add: run_gemv_def published_def)
next
  case (Inr u)
  then have len: "length (buf_workspace b) = bm_rows (pg_matrix g)" by (simp add: require_output_lengths_iff)
  show ?thesis
  proof (cases "pg_backend g")
    case Scalar
    then show ?thesis using Inr len assms by (simp add: run_gemv_def scalar_compute_ok publish_published)
  next
    case Avx2
    let ?w = "\<lparr>sl_address = at_weights place, sl_elements = logical_words (pg_matrix g)\<rparr>"
    let ?i = "\<lparr>sl_address = at_input place, sl_elements = pg_input g\<rparr>"
    let ?o = "\<lparr>sl_address = at_workspace place, sl_elements = buf_workspace b\<rparr>"
    show ?thesis
      by (rule ffi_gemv_cases [of ?w ?i ?o "bm_rows (pg_matrix g)" "bm_columns (pg_matrix g)" native cpu])
        (use Inr Avx2 words_ok [OF assms] publish_published in
          \<open>auto simp: run_gemv_def published_def [of _ b "(Inl _, _)"] avx2_rows_gemv\<close>)
  qed
qed

section \<open>The two backends\<close>

lemma zero_sums: "fold (\<lambda>v a. f32_add a v) (replicate n 0) 0 = (0 :: f32)"
proof (induction n)
  case (Suc n)
  have "f32_add 0 0 = 0"
    by (simp add: f32_add_def f32_is_nan_def f32_is_finite_def f32_exponent_def f32_fraction_def f32_value_def
        f32_negative_def f32_magnitude_def ulps_def f32_zero_def)
  with Suc show ?case by simp
qed simp

lemma narrow_total: "length products < 8 \<Longrightarrow> avx2_total products = scalar_total products"
proof -
  assume "length products < 8"
  then have n: "length products div 8 = 0" by simp
  have "replicate 8 (0 :: f32) = 0 # replicate 7 0" by (simp add: numeral_eq_Suc)
  then show ?thesis
    unfolding avx2_total_def n Let_def
    by (simp only: lane_sums_def add_all_def scalar_total_def upt_rec [of 0 0] if_False less_irrefl fold_simps id_apply
        list.sel zero_sums mult_0_right drop_0)
qed

text \<open>
  On a grid of numbers \<open>m * 2 ^ k\<close> whose absolute values add up to less than \<open>2 ^ 24 * 2 ^ k\<close>, every order of
  addition is exact.
\<close>

definition on_grid :: "nat \<Rightarrow> f32 \<Rightarrow> bool" where
  "on_grid k x \<longleftrightarrow> f32_is_finite x \<and> 2 ^ k dvd f32_value x"

definition value_sum :: "f32 list \<Rightarrow> int" where
  "value_sum xs = (\<Sum>x\<leftarrow>xs. f32_value x)"

definition abs_sum :: "f32 list \<Rightarrow> int" where
  "abs_sum xs = (\<Sum>x\<leftarrow>xs. \<bar>f32_value x\<bar>)"

lemma sum_simps [simp]:
  "value_sum [] = 0" "value_sum (x # xs) = f32_value x + value_sum xs" "value_sum (xs @ ys) = value_sum xs + value_sum ys"
  "abs_sum [] = 0" "abs_sum (x # xs) = \<bar>f32_value x\<bar> + abs_sum xs" "abs_sum (xs @ ys) = abs_sum xs + abs_sum ys"
  by (simp_all add: value_sum_def abs_sum_def)

lemma abs_sum_nonneg: "0 \<le> abs_sum xs"
  by (induction xs) simp_all

lemma grid_add:
  assumes "on_grid k x" "on_grid k y" "\<bar>f32_value x\<bar> + \<bar>f32_value y\<bar> < 2 ^ 24 * 2 ^ k" "k \<le> 253"
  shows "on_grid k (f32_add x y)" "f32_value (f32_add x y) = f32_value x + f32_value y"
proof -
  have "2 ^ k dvd f32_value x + f32_value y" using assms by (simp add: on_grid_def)
  then obtain v where v: "f32_value x + f32_value y = v * 2 ^ k" by (metis dvd_def mult.commute)
  have "\<bar>v\<bar> * 2 ^ k = \<bar>v * 2 ^ k\<bar>" by (simp add: abs_mult)
  also have "\<dots> < 2 ^ 24 * 2 ^ k" using assms(3) unfolding v [symmetric] by linarith
  finally have "\<bar>v\<bar> < 2 ^ 24" by simp
  note exact = f32_add_exact [OF _ _ v this assms(4)]
  show "on_grid k (f32_add x y)" "f32_value (f32_add x y) = f32_value x + f32_value y"
    using exact assms(1,2) v by (auto simp: on_grid_def)
qed

lemma add_all_exact:
  assumes "list_all (on_grid k) xs" "on_grid k a" "\<bar>f32_value a\<bar> + abs_sum xs < 2 ^ 24 * 2 ^ k" "k \<le> 253"
  shows "on_grid k (add_all xs a) \<and> f32_value (add_all xs a) = f32_value a + value_sum xs"
  using assms(1-3)
proof (induction xs arbitrary: a)
  case (Cons x xs)
  have "\<bar>f32_value a\<bar> + \<bar>f32_value x\<bar> < 2 ^ 24 * 2 ^ k" using Cons.prems(3) abs_sum_nonneg [of xs] by simp
  with grid_add [of k a x] Cons.prems assms(4)
  have s: "on_grid k (f32_add a x)" "f32_value (f32_add a x) = f32_value a + f32_value x" by simp_all
  moreover have "\<bar>f32_value (f32_add a x)\<bar> + abs_sum xs < 2 ^ 24 * 2 ^ k" using Cons.prems(3) s(2) by simp
  ultimately show ?case using Cons.IH [of "f32_add a x"] Cons.prems(1) by (simp add: add_all_def)
qed (simp add: add_all_def)

lemma lanes_exact:
  assumes "length xs = length ys" "list_all (on_grid k) xs" "list_all (on_grid k) ys"
    "abs_sum xs + abs_sum ys < 2 ^ 24 * 2 ^ k" "k \<le> 253"
  shows "list_all (on_grid k) (map2 f32_add xs ys) \<and> value_sum (map2 f32_add xs ys) = value_sum xs + value_sum ys
    \<and> abs_sum (map2 f32_add xs ys) \<le> abs_sum xs + abs_sum ys"
  using assms(1-4)
proof (induction xs ys rule: list_induct2)
  case (Cons x xs y ys)
  have "\<bar>f32_value x\<bar> + \<bar>f32_value y\<bar> < 2 ^ 24 * 2 ^ k"
    using Cons.prems(3) abs_sum_nonneg [of xs] abs_sum_nonneg [of ys] by simp
  with grid_add [of k x y] Cons.prems assms(5)
  have s: "on_grid k (f32_add x y)" "f32_value (f32_add x y) = f32_value x + f32_value y" by simp_all
  have "abs_sum xs + abs_sum ys < 2 ^ 24 * 2 ^ k" using Cons.prems(3) by simp
  then show ?case using Cons.IH Cons.prems s abs_triangle_ineq [of "f32_value x" "f32_value y"] by simp
qed simp

lemma lane_sums_exact:
  assumes "list_all (on_grid k) products" "abs_sum products < 2 ^ 24 * 2 ^ k" "k \<le> 253" "8 * n \<le> length products"
  shows "length (lane_sums products 0 n (replicate 8 0)) = 8
    \<and> list_all (on_grid k) (lane_sums products 0 n (replicate 8 0))
    \<and> value_sum (lane_sums products 0 n (replicate 8 0)) = value_sum (take (8 * n) products)
    \<and> abs_sum (lane_sums products 0 n (replicate 8 0)) \<le> abs_sum (take (8 * n) products)"
  using assms(4)
proof (induction n)
  case 0
  have "f32_value 0 = 0" "f32_is_finite 0"
    by (simp_all add: f32_value_def f32_magnitude_def ulps_def f32_is_finite_def f32_exponent_def)
  then have "value_sum (replicate m 0) = 0 \<and> abs_sum (replicate m 0) = 0 \<and> list_all (on_grid k) (replicate m 0)" for m
    by (induction m) (simp_all add: on_grid_def)
  then show ?case by (simp add: lane_sums_def)
next
  case (Suc n)
  let ?lanes = "lane_sums products 0 n (replicate 8 0)" and ?block = "take 8 (drop (8 * n) products)"
  have step: "lane_sums products 0 (Suc n) (replicate 8 0) = map2 f32_add ?lanes ?block" by (simp add: lane_sums_def)
  have split: "take (8 * Suc n) products = take (8 * n) products @ ?block" by (simp add: take_add [symmetric] add.commute)
  have IH: "length ?lanes = 8" "list_all (on_grid k) ?lanes" "value_sum ?lanes = value_sum (take (8 * n) products)"
    "abs_sum ?lanes \<le> abs_sum (take (8 * n) products)" using Suc by simp_all
  have len: "length ?block = 8" using Suc.prems by simp
  have grid: "list_all (on_grid k) ?block" using assms(1) by (auto simp: list_all_iff dest!: in_set_takeD in_set_dropD)
  have "abs_sum products = abs_sum (take (8 * Suc n) products) + abs_sum (drop (8 * Suc n) products)"
    by (simp only: sum_simps(6) [symmetric] append_take_drop_id)
  then have "abs_sum ?lanes + abs_sum ?block < 2 ^ 24 * 2 ^ k"
    using IH(4) assms(2) abs_sum_nonneg [of "drop (8 * Suc n) products"] unfolding split sum_simps(6) by linarith
  from lanes_exact [OF _ IH(2) grid this assms(3)] IH len
  show ?case unfolding step split sum_simps by simp
qed

lemma totals_exact:
  assumes "list_all (on_grid k) products" "abs_sum products < 2 ^ 24 * 2 ^ k" "k \<le> 253"
  shows "f32_is_finite (scalar_total products) \<and> f32_value (scalar_total products) = value_sum products"
    "f32_is_finite (avx2_total products) \<and> f32_value (avx2_total products) = value_sum products"
proof -
  have zero: "f32_value 0 = 0" "on_grid k 0"
    by (simp_all add: on_grid_def f32_value_def f32_magnitude_def ulps_def f32_is_finite_def f32_exponent_def)
  show "f32_is_finite (scalar_total products) \<and> f32_value (scalar_total products) = value_sum products"
    using add_all_exact [OF assms(1) zero(2) _ assms(3)] assms(2) zero(1) by (simp add: scalar_total_def on_grid_def)
  define n where "n = length products div 8"
  let ?l = "lane_sums products 0 n (replicate 8 0)"
  have cut: "value_sum products = value_sum (take (8 * n) products) + value_sum (drop (8 * n) products)"
    "abs_sum products = abs_sum (take (8 * n) products) + abs_sum (drop (8 * n) products)"
    by (simp_all only: sum_simps [symmetric] append_take_drop_id)
  have l: "length ?l = 8" "list_all (on_grid k) ?l" "value_sum ?l = value_sum (take (8 * n) products)"
    "abs_sum ?l \<le> abs_sum (take (8 * n) products)"
    using lane_sums_exact [OF assms, of n] by (simp_all add: n_def)
  then obtain h t where ht: "?l = h # t" by (cases ?l) auto
  have "\<bar>f32_value h\<bar> + abs_sum t < 2 ^ 24 * 2 ^ k"
    using l(4) ht cut(2) assms(2) abs_sum_nonneg [of "drop (8 * n) products"] by simp
  with add_all_exact [of k t h] l(2) ht assms(3)
  have s: "on_grid k (add_all t h)" "f32_value (add_all t h) = value_sum (take (8 * n) products)" using l(3) by simp_all
  have "\<bar>value_sum xs\<bar> \<le> abs_sum xs" for xs by (induction xs) auto
  then have "\<bar>f32_value (add_all t h)\<bar> + abs_sum (drop (8 * n) products) < 2 ^ 24 * 2 ^ k"
    using s(2) cut(2) assms(2) by (metis add_le_cancel_right order.strict_trans1)
  moreover have "list_all (on_grid k) (drop (8 * n) products)"
    using assms(1) by (auto simp: list_all_iff dest!: in_set_dropD)
  ultimately show "f32_is_finite (avx2_total products) \<and> f32_value (avx2_total products) = value_sum products"
    using add_all_exact [OF _ s(1), of "drop (8 * n) products"] assms(3) s(2) cut(1)
    by (simp add: avx2_total_def Let_def n_def [symmetric] ht on_grid_def)
qed

end
