(* ===== verification/Kernel_Agree.thy ===== *)
theory Kernel_Agree
  imports Kernel_Gemv
begin

text \<open>
  When the two backends of the product agree to the last bit, although they add up a row in different orders: on
  rows of fewer than eight columns, and wherever no addition has to round. A sum that starts at zero is never the
  negative zero, so equal values are equal bits.
\<close>

section \<open>Signs of zero\<close>

definition negative_zero :: f32 where
  "negative_zero = 0x80000000"

lemma zero_sign: "f32_magnitude x = 0 \<Longrightarrow> x \<noteq> negative_zero \<Longrightarrow> \<not> f32_negative x"
proof
  assume "f32_magnitude x = 0" "f32_negative x" "x \<noteq> negative_zero"
  moreover from this have "unat x = unat negative_zero" using f32_unat [of x] by (simp add: negative_zero_def)
  ultimately show False by (simp add: word_unat_eq_iff)
qed

lemma value_zero_iff: "f32_value x = 0 \<longleftrightarrow> f32_magnitude x = 0"
  using ulps_eq_iff [of "f32_magnitude x" 0] by (auto simp: f32_value_def ulps_def [of 0])

lemma f32_value_inject:
  assumes "f32_value x = f32_value y" "x \<noteq> negative_zero" "y \<noteq> negative_zero" shows "x = y"
proof -
  have pos: "0 < ulps n \<longleftrightarrow> 0 < n" for n using ulps_less_iff [of 0 n] by (simp add: ulps_def [of 0])
  have sign: "f32_negative z \<longleftrightarrow> f32_value z < 0" if "z \<noteq> negative_zero" for z
    using zero_sign [of z] that pos [of "f32_magnitude z"] by (auto simp: f32_value_def)
  have "f32_negative x = f32_negative y" using sign assms by simp
  moreover from this have "f32_magnitude x = f32_magnitude y" using assms(1) by (auto simp: f32_value_def split: if_splits)
  ultimately have "unat x = unat y" by (simp add: f32_unat)
  then show ?thesis by (simp add: word_unat_eq_iff)
qed

lemma grid_add_sign:
  assumes "on_grid k x" "on_grid k y" "\<bar>f32_value x\<bar> + \<bar>f32_value y\<bar> < 2 ^ 24 * 2 ^ k" "k \<le> 253" "x \<noteq> negative_zero"
  shows "f32_add x y \<noteq> negative_zero"
proof (cases "f32_value x + f32_value y = 0")
  case True
  have fin: "f32_is_finite x" "f32_is_finite y" using assms(1,2) by (simp_all add: on_grid_def)
  then have nan: "\<not> f32_is_nan x" "\<not> f32_is_nan y" by (simp_all add: f32_is_nan_def f32_is_finite_def)
  have "\<not> (f32_negative x \<and> f32_negative y)"
  proof
    assume neg: "f32_negative x \<and> f32_negative y"
    then have "f32_value x = 0" using True by (simp add: f32_value_def)
    then have "f32_magnitude x = 0" by (simp add: value_zero_iff)
    from zero_sign [OF this assms(5)] show False using neg by simp
  qed
  then show ?thesis using True fin nan by (auto simp: f32_add_def f32_zero_def negative_zero_def)
next
  case False
  then have "f32_value (f32_add x y) \<noteq> 0" using grid_add(2) [OF assms(1-4)] by simp
  moreover have "f32_value negative_zero = 0" by (simp add: value_zero_iff negative_zero_def f32_magnitude_def)
  ultimately show ?thesis by auto
qed

section \<open>Exact sums\<close>

lemma add_all_sign:
  assumes "list_all (on_grid k) xs" "on_grid k a" "\<bar>f32_value a\<bar> + abs_sum xs < 2 ^ 24 * 2 ^ k" "k \<le> 253" "a \<noteq> negative_zero"
  shows "add_all xs a \<noteq> negative_zero"
  using assms(1-3,5)
proof (induction xs arbitrary: a)
  case (Cons x xs)
  have le: "\<bar>f32_value a\<bar> + \<bar>f32_value x\<bar> < 2 ^ 24 * 2 ^ k" using Cons.prems(3) abs_sum_nonneg [of xs] by simp
  note s = grid_add [OF _ _ le assms(4)] grid_add_sign [OF _ _ le assms(4)]
  have "\<bar>f32_value (f32_add a x)\<bar> + abs_sum xs < 2 ^ 24 * 2 ^ k" using Cons.prems s(2) by simp
  then show ?case using Cons.IH [of "f32_add a x"] Cons.prems s by (simp add: add_all_def)
qed (simp add: add_all_def)

lemma lanes_sign:
  assumes "list_all (on_grid k) xs" "list_all (on_grid k) ys" "abs_sum xs + abs_sum ys < 2 ^ 24 * 2 ^ k" "k \<le> 253"
    "negative_zero \<notin> set xs"
  shows "negative_zero \<notin> set (map2 f32_add xs ys)"
  using assms(1-3,5)
proof (induction xs ys rule: list_induct2')
  case (4 x xs y ys)
  have "\<bar>f32_value x\<bar> + \<bar>f32_value y\<bar> < 2 ^ 24 * 2 ^ k"
    using "4.prems"(3) abs_sum_nonneg [of xs] abs_sum_nonneg [of ys] by simp
  then have "f32_add x y \<noteq> negative_zero" using grid_add_sign [of k x y] "4.prems" assms(4) by auto
  moreover have "abs_sum xs + abs_sum ys < 2 ^ 24 * 2 ^ k" using "4.prems"(3) by simp
  ultimately show ?case using 4 by auto
qed simp_all

lemma lane_sums_sign:
  assumes "list_all (on_grid k) products" "abs_sum products < 2 ^ 24 * 2 ^ k" "k \<le> 253" "8 * n \<le> length products"
  shows "negative_zero \<notin> set (lane_sums products 0 n (replicate 8 0))"
  using assms(4)
proof (induction n)
  case (Suc n)
  let ?lanes = "lane_sums products 0 n (replicate 8 0)" and ?block = "take 8 (drop (8 * n) products)"
  have l: "list_all (on_grid k) ?lanes" "abs_sum ?lanes \<le> abs_sum (take (8 * n) products)"
    using lane_sums_exact [OF assms(1-3), of n] Suc.prems by simp_all
  have split: "take (8 * Suc n) products = take (8 * n) products @ ?block" by (simp add: take_add [symmetric] add.commute)
  have "abs_sum products = abs_sum (take (8 * Suc n) products) + abs_sum (drop (8 * Suc n) products)"
    by (simp only: sum_simps(6) [symmetric] append_take_drop_id)
  then have "abs_sum ?lanes + abs_sum ?block < 2 ^ 24 * 2 ^ k"
    using l(2) assms(2) abs_sum_nonneg [of "drop (8 * Suc n) products"] unfolding split sum_simps(6) by linarith
  moreover have "list_all (on_grid k) ?block" using assms(1) by (auto simp: list_all_iff dest!: in_set_takeD in_set_dropD)
  ultimately have "negative_zero \<notin> set (map2 f32_add ?lanes ?block)"
    using lanes_sign [OF l(1) _ _ assms(3)] Suc by simp
  then show ?case by (simp add: lane_sums_def)
qed (simp add: lane_sums_def negative_zero_def)

text \<open>The absolute values of the products stay so small that every partial sum is represented.\<close>

definition exact_row :: "nat \<Rightarrow> f32 list \<Rightarrow> bool" where
  "exact_row k products \<longleftrightarrow> list_all (on_grid k) products \<and> abs_sum products < 2 ^ 24 * 2 ^ k \<and> k \<le> 253"

lemma exact_totals:
  assumes "exact_row k products"
  shows "avx2_total products = scalar_total products" "f32_is_finite (scalar_total products)"
    "f32_value (scalar_total products) = value_sum products"
proof -
  have e: "list_all (on_grid k) products" "abs_sum products < 2 ^ 24 * 2 ^ k" "k \<le> 253" using assms by (simp_all add: exact_row_def)
  show "f32_is_finite (scalar_total products)" "f32_value (scalar_total products) = value_sum products"
    using totals_exact(1) [OF e] by simp_all
  have zero: "on_grid k 0" "f32_value 0 = 0" "0 \<noteq> negative_zero"
    by (simp_all add: on_grid_def f32_value_def f32_magnitude_def ulps_def f32_is_finite_def f32_exponent_def negative_zero_def)
  have scalar: "scalar_total products \<noteq> negative_zero"
    unfolding scalar_total_def by (rule add_all_sign [OF e(1) zero(1) _ e(3) zero(3)]) (use e(2) zero(2) in simp)
  define n where "n = length products div 8"
  let ?l = "lane_sums products 0 n (replicate 8 0)"
  have cut: "abs_sum products = abs_sum (take (8 * n) products) + abs_sum (drop (8 * n) products)"
    by (simp only: sum_simps [symmetric] append_take_drop_id)
  have fits: "8 * n \<le> length products" by (simp add: n_def)
  note l = lane_sums_exact [OF e fits] lane_sums_sign [OF e fits]
  then obtain h t where ht: "?l = h # t" by (cases ?l) auto
  have small: "\<bar>f32_value h\<bar> + abs_sum t \<le> abs_sum (take (8 * n) products)" using l(1) ht by simp
  then have bound: "\<bar>f32_value h\<bar> + abs_sum t < 2 ^ 24 * 2 ^ k" using cut e(2) abs_sum_nonneg [of "drop (8 * n) products"] by simp
  have grid: "list_all (on_grid k) t" "on_grid k h" "h \<noteq> negative_zero" using l ht by auto
  note s = add_all_exact [OF grid(1,2) bound e(3)] add_all_sign [OF grid(1,2) bound e(3) grid(3)]
  have "\<bar>value_sum xs\<bar> \<le> abs_sum xs" for xs by (induction xs) auto
  then have "\<bar>f32_value (add_all t h)\<bar> \<le> \<bar>f32_value h\<bar> + abs_sum t" using s(1) by (metis abs_triangle_ineq add_left_mono order_trans)
  then have "\<bar>f32_value (add_all t h)\<bar> + abs_sum (drop (8 * n) products) < 2 ^ 24 * 2 ^ k" using small cut e(2) by linarith
  moreover have "list_all (on_grid k) (drop (8 * n) products)" using e(1) by (auto simp: list_all_iff dest!: in_set_dropD)
  ultimately have "add_all (drop (8 * n) products) (add_all t h) \<noteq> negative_zero"
    using add_all_sign [OF _ _ _ e(3)] s by blast
  then have "avx2_total products \<noteq> negative_zero" by (simp add: avx2_total_def Let_def n_def [symmetric] ht)
  then show "avx2_total products = scalar_total products"
    using totals_exact [OF e] scalar by (intro f32_value_inject) simp_all
qed

section \<open>The product\<close>

text \<open>The rounded products of one row of a matrix with the input.\<close>

definition products_at :: "bf16_matrix \<Rightarrow> f32 list \<Rightarrow> usize \<Rightarrow> f32 list" where
  "products_at m input row =
     map (\<lambda>j. f32_mul (to_f32 (logical_words m ! (row * bm_columns m + j))) (input ! j)) [0..<bm_columns m]"

lemma row_products_at:
  assumes "wf_matrix m" "length input = bm_columns m" "row < bm_rows m"
  shows "row_products (row_words (logical_words m) (bm_columns m) row) input = products_at m input row"
proof -
  have "row * bm_columns m + bm_columns m \<le> length (logical_words m)"
    using row_fits [OF assms(3), of "bm_columns m"] assms(1) by (simp add: length_logical_words)
  note r = length_row_products [OF this assms(2)] row_products_nth [OF this assms(2)]
  show ?thesis by (rule nth_equalityI) (simp_all add: r products_at_def to_f32_def widen_bf16_def)
qed

lemma gemv_rows_at:
  assumes "wf_matrix m" "length input = bm_columns m"
  shows "gemv_rows backend m input =
    map (\<lambda>row. (case backend of Scalar \<Rightarrow> scalar_total | Avx2 \<Rightarrow> avx2_total) (products_at m input row)) [0..<bm_rows m]"
  unfolding gemv_rows_def using row_products_at [OF assms] by simp

lemma run_gemv_publishes:
  assumes "wf_matrix (pg_matrix g)" "length (buf_workspace b) = bm_rows (pg_matrix g)"
    "length (buf_output b) = bm_rows (pg_matrix g)"
    and "pg_backend g = Avx2 \<Longrightarrow> native \<and> cpu \<and>
      passes \<lparr>sl_address = at_weights place, sl_elements = logical_words (pg_matrix g)\<rparr>
        \<lparr>sl_address = at_input place, sl_elements = pg_input g\<rparr>
        \<lparr>sl_address = at_workspace place, sl_elements = buf_workspace b\<rparr> (bm_rows (pg_matrix g)) (bm_columns (pg_matrix g))"
  shows "run_gemv native cpu place g b = publish (b\<lparr>buf_workspace := gemv_rows (pg_backend g) (pg_matrix g) (pg_input g)\<rparr>)"
proof -
  have len: "require_output_lengths (bm_rows (pg_matrix g)) (buf_workspace b) (buf_output b) = Ok ()"
    using assms by (simp add: require_output_lengths_iff)
  show ?thesis
  proof (cases "pg_backend g")
    case Scalar
    then show ?thesis using assms len by (simp add: run_gemv_def scalar_compute_ok)
  next
    case Avx2
    with assms(4) have "gemv_checks \<lparr>sl_address = at_weights place, sl_elements = logical_words (pg_matrix g)\<rparr>
        \<lparr>sl_address = at_input place, sl_elements = pg_input g\<rparr>
        \<lparr>sl_address = at_workspace place, sl_elements = buf_workspace b\<rparr> (bm_rows (pg_matrix g)) (bm_columns (pg_matrix g))
      = Ok (bm_rows (pg_matrix g) * bm_columns (pg_matrix g) * 2, bm_columns (pg_matrix g) * 4, bm_rows (pg_matrix g) * 4)"
      by (simp add: gemv_checks_iff)
    then show ?thesis
      using Avx2 assms len words_ok [OF assms(1)]
      by (simp add: run_gemv_def ffi_gemv_def call_native_def native_status map_status_def status_from_code_def avx2_rows_gemv)
  qed
qed

end
