(* ===== verification/Kernel_Properties.thy ===== *)
theory Kernel_Properties
  imports Kernel_Agree
begin

text \<open>
  The properties of \<^verbatim>\<open>crates/runnel-kernels\<close>: what the BF16 conversions return, which matrices exist, that the
  native kernel stays inside its buffers, and what the two backends compute.
\<close>

section \<open>Conversion\<close>

text \<open>
  C14: A conversion to BF16 that succeeds rounds to nearest, ties to even: no BF16 word is closer to the number, and
  where one is as close and different in value, the result is the one with an even significand. The result is finite.
\<close>

theorem conversion_nearest:
  assumes "try_from_f32_rne x = Ok w"
  shows "bf16_is_finite w \<and>
    \<bar>f32_value x - f32_value (to_f32 w)\<bar> \<le> \<bar>f32_value x - f32_value (to_f32 v)\<bar> \<and>
    (\<bar>f32_value x - f32_value (to_f32 w)\<bar> = \<bar>f32_value x - f32_value (to_f32 v)\<bar> \<longrightarrow>
      f32_value (to_f32 v) = f32_value (to_f32 w) \<or> even (unat w))"
  using assms bf16_nearest [of x v] by (auto simp: try_from_f32_rne_def Let_def split: if_splits)

theorem conversion_nearest_witness:
  "bf16_is_finite 0x3f80 \<and>
    \<bar>f32_value 0x3f808000 - f32_value (to_f32 0x3f80)\<bar> \<le> \<bar>f32_value 0x3f808000 - f32_value (to_f32 0x3f81)\<bar>"
proof -
  have "try_from_f32_rne 0x3f808000 = Ok 0x3f80"
    by (simp add: try_from_f32_rne_def f32_is_finite_def f32_exponent_def from_f32_rne_def bf16_is_finite_def classify_def Let_def)
  from conversion_nearest [OF this, of "0x3f81"] show ?thesis by (elim conjE) (intro conjI)
qed

text \<open>
  C35: The conversion fails exactly on the numbers the error names: an infinity or NaN, or a finite number at or above
  the midpoint between the largest finite BF16 number and the next power of two, which rounds to infinity.
\<close>

theorem conversion_errors:
  "try_from_f32_rne x =
     (if \<not> f32_is_finite x then fail (NonFiniteConversionInput x)
      else if 0x7f7f8000 \<le> f32_magnitude x then fail (ConversionRoundedToInfinity x)
      else Ok (from_f32_rne x))"
  using rounds_finite_iff [of x] by (auto simp: try_from_f32_rne_def Let_def)

text \<open>
  C36: Widening a BF16 word and converting back gives the word again, for every word, NaNs with their payload included;
  a NaN never turns into an infinity by losing the low half of its payload.
\<close>

theorem widen_round_trip:
  "from_f32_rne (to_f32 w) = w \<and> (f32_is_nan x \<longrightarrow> classify (from_f32_rne x) = ClassNan)"
  using to_f32_round_trip nan_stays_nan by blast

theorem widen_round_trip_witness:
  "from_f32_rne (to_f32 0x7f81) = 0x7f81 \<and> f32_is_nan 0x7f800001 \<and> classify (from_f32_rne 0x7f800001) = ClassNan"
proof -
  have "f32_is_nan 0x7f800001" by (simp add: f32_is_nan_def f32_exponent_def f32_fraction_def)
  then show ?thesis using widen_round_trip [of "0x7f81" "0x7f800001"] by blast
qed

section \<open>Matrices\<close>

text \<open>
  C34: Every constructor either fails with an error or returns a well-formed matrix: positive dimensions whose product
  fits a machine word, storage of exactly the offset plus that many words, and finite words only.
\<close>

theorem constructors_well_formed:
  "wp graceful (from_storage rows columns storage off) wf_matrix \<and>
   wp graceful (matrix_from_le_bytes rows columns bytes) wf_matrix \<and>
   wp graceful (try_from_f32 rows columns values) wf_matrix"
  using from_storage_graceful matrix_from_le_bytes_graceful try_from_f32_graceful by blast

text \<open>
  C32: The bytes an artifact stores for a matrix give the matrix back, and every cell inside the dimensions is read from
  its row-major position; a cell outside is reported as absent. Nothing panics.
\<close>

theorem matrix_round_trip:
  assumes "wf_matrix m" "2 * (bm_rows m * bm_columns m) \<le> u64_max"
  shows "\<exists>m'. matrix_from_le_bytes (bm_rows m) (bm_columns m) (words_to_le_bytes (logical_words m)) = Ok m' \<and>
    matrix_eq m m' = Ok True \<and>
    matrix_get m' row column =
      Ok (if row < bm_rows m \<and> column < bm_columns m then Some (logical_words m ! (row * bm_columns m + column)) else None)"
proof -
  let ?m = "\<lparr>bm_rows = bm_rows m, bm_columns = bm_columns m, bm_storage = logical_words m, bm_word_offset = 0\<rparr>"
  have "wf_matrix ?m" by (rule wp_Inr [OF matrix_from_le_bytes_graceful matrix_bytes_round_trip [OF assms]])
  moreover have "logical_words ?m = logical_words m" by (simp add: logical_words_def [of ?m])
  ultimately show ?thesis
    using assms(1) by (simp add: matrix_bytes_round_trip [OF assms] matrix_eq_def words_ok matrix_get_ok)
qed

definition sample_matrix :: bf16_matrix where
  "sample_matrix = \<lparr>bm_rows = 1, bm_columns = 2, bm_storage = [0x7fc0, 0x3f80, 0x4000], bm_word_offset = 1\<rparr>"

lemma sample_matrix_wf: "wf_matrix sample_matrix"
  by (simp add: wf_matrix_def sample_matrix_def logical_words_def u64_max_def bf16_is_finite_def classify_def Let_def)

theorem matrix_round_trip_witness:
  "\<exists>m'. matrix_from_le_bytes 1 2 (words_to_le_bytes [0x3f80, 0x4000]) = Ok m' \<and>
    matrix_eq sample_matrix m' = Ok True \<and> matrix_get m' 0 1 = Ok (Some 0x4000)"
  using matrix_round_trip [OF sample_matrix_wf, of 0 1] by (simp add: sample_matrix_def logical_words_def u64_max_def)

section \<open>The native boundary\<close>

text \<open>
  C10: A call of the native kernel never reads or writes outside the storage behind its three pointers, whatever the
  addresses, lengths and dimensions are: the checks before the call stop every other one with an error, and with an
  error the output is as it was. On success the output holds the row sums of the kernel.
\<close>

theorem native_call_in_bounds:
  "case ffi_gemv native cpu weights input dest rows columns of
     (Inl e, after) \<Rightarrow> graceful e \<and> after = sl_elements dest
   | (Inr _, after) \<Rightarrow> native \<and> cpu \<and> length (sl_elements weights) = rows * columns \<and> length (sl_elements input) = columns
       \<and> length (sl_elements dest) = rows \<and> after = avx2_rows (sl_elements weights) (sl_elements input) rows columns"
  by (rule ffi_gemv_cases [of weights input dest rows columns native cpu]) (auto simp: passes_def)

text \<open>
  C37: The checks of the Rust side and of the C side agree: once the Rust side lets a call through, the C entry point
  can only report success, or that the processor lacks the instruction set, and the status is mapped to the
  corresponding result.
\<close>

theorem native_checks_redundant:
  assumes "gemv_checks weights input dest rows columns = Ok (weight_bytes, input_bytes, output_bytes)"
  shows "\<exists>after. bf16_gemv_avx2_v1 cpu weights weight_bytes input input_bytes dest output_bytes rows columns
      = Ok (if cpu then 0 else 8, after)"
  using assms native_status [of weights input dest rows columns cpu] by (auto simp: gemv_checks_iff)

theorem native_checks_redundant_witness:
  "\<exists>after. bf16_gemv_avx2_v1 True \<lparr>sl_address = 16, sl_elements = [0x3f80]\<rparr> 2 \<lparr>sl_address = 32, sl_elements = [0]\<rparr> 4
      \<lparr>sl_address = 64, sl_elements = [0]\<rparr> 4 1 1 = Ok (if True then 0 else 8, after)"
  by (rule native_checks_redundant) (simp add: gemv_checks_iff passes_def u64_max_def)

section \<open>The product\<close>

text \<open>
  C15: A prepared product publishes all of its output or none of it. On a well-formed matrix it never panics; when it
  returns an error the output is unchanged; when it succeeds the output is the vector of row sums of the chosen
  backend, every element of it finite.
\<close>

theorem gemv_all_or_nothing:
  assumes "wf_matrix (pg_matrix g)"
  shows "case run_gemv native cpu place g b of
      (Inl e, b') \<Rightarrow> graceful e \<and> buf_output b' = buf_output b
    | (Inr _, b') \<Rightarrow>
        buf_output b' = gemv_rows (pg_backend g) (pg_matrix g) (pg_input g) \<and> list_all f32_is_finite (buf_output b')"
  using run_gemv_published [OF assms, of b native cpu place]
  by (auto simp: published_def split: prod.splits sum.splits)

definition sample_gemv :: prepared_gemv where
  "sample_gemv = \<lparr>pg_matrix = sample_matrix, pg_input = [0x3f800000, 0], pg_backend = Avx2\<rparr>"

definition sample_buffers :: buffers where
  "sample_buffers = \<lparr>buf_workspace = [0], buf_output = [7]\<rparr>"

theorem gemv_all_or_nothing_witness:
  "case run_gemv True True \<lparr>at_weights = 16, at_input = 32, at_workspace = 64\<rparr> sample_gemv sample_buffers of
      (Inl e, b') \<Rightarrow> graceful e \<and> buf_output b' = buf_output sample_buffers
    | (Inr _, b') \<Rightarrow> buf_output b' = gemv_rows (pg_backend sample_gemv) (pg_matrix sample_gemv) (pg_input sample_gemv) \<and>
        list_all f32_is_finite (buf_output b')"
  by (rule gemv_all_or_nothing) (simp add: sample_gemv_def sample_matrix_wf)

text \<open>
  C27: The two backends agree where the order of the additions cannot matter. Run on the same matrix, input and buffers,
  whose checks at the native boundary pass, the scalar loop and the C kernel return the same result and leave the same
  bits in workspace and output if the rows have fewer than eight columns, or if the rounded products of each row are
  whole multiples of some \<open>2 ^ k\<close> smallest numbers whose absolute values add up to less than \<open>2 ^ 24\<close> such multiples. In
  the second case both succeed, and each output is the exact sum of its row of products.
\<close>

theorem backends_agree:
  assumes "wf_matrix m" "length input = bm_columns m" "length (buf_workspace b) = bm_rows m" "length (buf_output b) = bm_rows m"
    "gemv_checks \<lparr>sl_address = at_weights place, sl_elements = logical_words m\<rparr> \<lparr>sl_address = at_input place, sl_elements = input\<rparr>
      \<lparr>sl_address = at_workspace place, sl_elements = buf_workspace b\<rparr> (bm_rows m) (bm_columns m) = Ok sizes"
  defines "run backend \<equiv> run_gemv True True place \<lparr>pg_matrix = m, pg_input = input, pg_backend = backend\<rparr> b"
  shows "(bm_columns m < 8 \<longrightarrow> run Avx2 = run Scalar) \<and>
    ((\<forall>row<bm_rows m. \<exists>k. exact_row k (products_at m input row)) \<longrightarrow> run Avx2 = run Scalar \<and> fst (run Scalar) = Ok () \<and>
      map f32_value (buf_output (snd (run Scalar))) = map (\<lambda>row. value_sum (products_at m input row)) [0..<bm_rows m])"
proof -
  have "run backend = publish (b\<lparr>buf_workspace := gemv_rows backend m input\<rparr>)" for backend
    unfolding run_def using assms(1-5) by (subst run_gemv_publishes) (auto simp: gemv_checks_iff)
  note run = this [unfolded gemv_rows_at [OF assms(1,2)]]
  have "run Avx2 = run Scalar" if "bm_columns m < 8"
    unfolding run using that by (simp add: narrow_total products_at_def)
  moreover have "run Avx2 = run Scalar \<and> fst (run Scalar) = Ok () \<and>
      map f32_value (buf_output (snd (run Scalar))) = map (\<lambda>row. value_sum (products_at m input row)) [0..<bm_rows m]"
    if exact: "\<forall>row<bm_rows m. \<exists>k. exact_row k (products_at m input row)"
  proof -
    let ?rows = "map (\<lambda>row. scalar_total (products_at m input row)) [0..<bm_rows m]"
    have same: "map (\<lambda>row. avx2_total (products_at m input row)) [0..<bm_rows m] = ?rows" and "list_all f32_is_finite ?rows"
      using exact exact_totals by (auto simp: list_all_iff)
    then have "publish (b\<lparr>buf_workspace := ?rows\<rparr>) = (Ok (), b\<lparr>buf_workspace := ?rows, buf_output := ?rows\<rparr>)"
      by (simp add: publish_def validate_finite_output_iff [THEN iffD2])
    then show ?thesis unfolding run backend_kind.case same using exact exact_totals(3) by auto
  qed
  ultimately show ?thesis by blast
qed

definition sample_wide :: bf16_matrix where
  "sample_wide = \<lparr>bm_rows = 1, bm_columns = 9, bm_storage = replicate 9 0x3f80, bm_word_offset = 0\<rparr>"

lemma one_times_one: "f32_mul 0x3f800000 0x3f800000 = 0x3f800000"
proof -
  have len: "bit_length (2 ^ n) = Suc n" for n
    by (induction n) (simp_all add: bit_length.simps [of "2 ^ _"] bit_length.simps [of "2 * _"] bit_length.simps [of 0] bit_length.simps [of "Suc 0"])
  have "f32_round False (2 ^ 149 * 2 ^ 149) 149 = 0x3f800000"
    unfolding f32_round_def power_add [symmetric] Let_def by (simp add: len [of 149, simplified] round_half_even_def)
  then show ?thesis
    by (simp add: f32_mul_def f32_negative_def f32_magnitude_def ulps_def f32_is_finite_def f32_is_nan_def f32_exponent_def f32_fraction_def)
qed

lemma sample_wide_products: "products_at sample_wide (replicate 9 0x3f800000) 0 = replicate 9 0x3f800000"
proof -
  have "to_f32 0x3f80 = 0x3f800000" by (simp add: to_f32_def)
  then have "f32_mul (to_f32 (logical_words sample_wide ! (0 * 9 + j))) (replicate 9 0x3f800000 ! j) = 0x3f800000" if "j < 9" for j
    using that one_times_one by (simp add: logical_words_def sample_wide_def)
  then show ?thesis unfolding products_at_def by (intro nth_equalityI) (simp_all add: sample_wide_def)
qed

lemma sample_wide_exact:
  "exact_row 149 (replicate 9 0x3f800000)" "value_sum (replicate 9 0x3f800000) = 9 * 2 ^ 149"
proof -
  have one: "f32_value 0x3f800000 = 2 ^ 149" "f32_is_finite 0x3f800000"
    by (simp_all add: f32_value_def f32_negative_def f32_magnitude_def ulps_def f32_is_finite_def f32_exponent_def)
  have "value_sum (replicate n 0x3f800000) = of_nat n * 2 ^ 149 \<and> abs_sum (replicate n 0x3f800000) = of_nat n * 2 ^ 149" for n
    using one by (induction n) (simp_all add: algebra_simps)
  from this [of 9] show "exact_row 149 (replicate 9 0x3f800000)" "value_sum (replicate 9 0x3f800000) = 9 * 2 ^ 149"
    using one by (simp_all add: exact_row_def on_grid_def list_all_iff)
qed

theorem backends_agree_witness:
  "run_gemv True True \<lparr>at_weights = 16, at_input = 64, at_workspace = 128\<rparr>
      \<lparr>pg_matrix = sample_wide, pg_input = replicate 9 0x3f800000, pg_backend = Avx2\<rparr> sample_buffers =
    run_gemv True True \<lparr>at_weights = 16, at_input = 64, at_workspace = 128\<rparr>
      \<lparr>pg_matrix = sample_wide, pg_input = replicate 9 0x3f800000, pg_backend = Scalar\<rparr> sample_buffers \<and>
   map f32_value (buf_output (snd (run_gemv True True \<lparr>at_weights = 16, at_input = 64, at_workspace = 128\<rparr>
      \<lparr>pg_matrix = sample_wide, pg_input = replicate 9 0x3f800000, pg_backend = Scalar\<rparr> sample_buffers))) = [9 * 2 ^ 149]"
proof -
  let ?place = "\<lparr>at_weights = 16, at_input = 64, at_workspace = 128\<rparr>"
  have words: "logical_words sample_wide = replicate 9 0x3f80" by (simp add: logical_words_def sample_wide_def)
  have dims: "bm_rows sample_wide = 1" "bm_columns sample_wide = 9" by (simp_all add: sample_wide_def)
  have wf: "wf_matrix sample_wide"
    by (simp add: wf_matrix_def words) (simp add: sample_wide_def u64_max_def list_all_iff bf16_is_finite_def classify_def Let_def)
  have "gemv_checks \<lparr>sl_address = at_weights ?place, sl_elements = logical_words sample_wide\<rparr>
      \<lparr>sl_address = at_input ?place, sl_elements = replicate 9 0x3f800000\<rparr>
      \<lparr>sl_address = at_workspace ?place, sl_elements = buf_workspace sample_buffers\<rparr> (bm_rows sample_wide) (bm_columns sample_wide) = Ok (18, 36, 4)"
    by (simp add: gemv_checks_iff passes_def words dims sample_buffers_def u64_max_def)
  note agree = backends_agree [OF wf _ _ _ this, THEN conjunct2, THEN mp]
  have "\<forall>row<bm_rows sample_wide. \<exists>k. exact_row k (products_at sample_wide (replicate 9 0x3f800000) row)"
    using sample_wide_exact(1) sample_wide_products by (auto simp: dims)
  from agree [OF _ _ _ this] show ?thesis
    by (simp add: dims sample_buffers_def sample_wide_products sample_wide_exact(2) [simplified])
qed

end
