(* ===== verification/Spec2Isabelle.thy ===== *)
theory Spec2Isabelle
  imports Sim_Properties Format_Properties Store_Properties Kernel_Properties
begin

text \<open>
  A verification library for RunnelMoE, a Rust workspace that stores mixture-of-experts models as verified artifacts,
  serves their pages through a bounded cache and multiplies their BF16 matrices. The parts modelled here are the
  simulator of cache policies (\<^verbatim>\<open>crates/runnel-sim\<close>), the artifact format (\<^verbatim>\<open>crates/runnel-format\<close>), the
  page store (\<^verbatim>\<open>crates/runnel-store\<close>) and the kernels (\<^verbatim>\<open>crates/runnel-kernels\<close>).

  \<^bold>\<open>Conventions.\<close> \<open>Prelude\<close> has the result type with panics as values, checked and saturating arithmetic, byte and
  number formatting, and a weakest-precondition calculus: \<open>wp E m Q\<close> says that \<open>m\<close> returns a value in \<open>Q\<close> or fails in
  a way \<open>E\<close> allows, and \<open>graceful\<close> excludes panics. \<open>Ordered_Map\<close> states the contract of \<^verbatim>\<open>BTreeMap\<close> as a
  locale, proves the laws of sums over entries in it, and interprets it on sorted association lists. \<open>Action\<close> threads a
  state through fallible operations, with its own calculus. \<open>Float32\<close> gives single-precision arithmetic on bits, rounding
  exact results to nearest, ties to even.

  \<^bold>\<open>Simulator.\<close> \<open>Sim_Model\<close> (\<^verbatim>\<open>model.rs\<close>, \<^verbatim>\<open>metrics.rs\<close>, \<^verbatim>\<open>error.rs\<close>), \<open>Sim_Trace\<close>
  (\<^verbatim>\<open>trace.rs\<close>), \<open>Sim_TinyLfu\<close> and \<open>Sim_Policy\<close> (\<^verbatim>\<open>policy/mod.rs\<close>), \<open>Sim_Engine\<close> (\<^verbatim>\<open>engine.rs\<close>)
  and \<open>Sim_Oracle\<close> (\<^verbatim>\<open>oracle/mod.rs\<close>) hold the definitions, one per function. \<open>Sim_Policy_Inv\<close>,
  \<open>Sim_Engine_Inv\<close>, \<open>Sim_Engine_Run\<close> and \<open>Sim_Simulate\<close> show that an online simulation keeps its byte ledger and
  counters in step with the resident set, for every policy. \<open>Sim_Oracle_Exact\<close> shows that the dynamic program computes the
  optimum over all schedules, \<open>Sim_Belady\<close> that the replay reaches it on uniform pages. \<open>Sim_Sample\<close> evaluates a small
  trace for the witnesses and \<open>Sim_Properties\<close> states the results.

  \<^bold>\<open>Format.\<close> \<open>Format_Json\<close> (\<^verbatim>\<open>json.rs\<close>), \<open>Format_Manifest\<close> (\<^verbatim>\<open>manifest.rs\<close>, \<^verbatim>\<open>error.rs\<close>) and
  \<open>Format_Artifact\<close> (\<^verbatim>\<open>artifact.rs\<close>) hold the definitions. \<open>Format_Schema\<close> shows that every parser establishes its
  part of \<open>wf_manifest\<close>, \<open>Format_Verified\<close> what an opened artifact satisfies, and \<open>Format_Print\<close> the converse: every
  well-formed manifest is accepted. \<open>Format_Properties\<close> states the results.

  \<^bold>\<open>Store.\<close> \<open>Store_Model\<close> (\<^verbatim>\<open>error.rs\<close>, \<^verbatim>\<open>control.rs\<close>, \<^verbatim>\<open>budget.rs\<close>, \<^verbatim>\<open>metrics.rs\<close>,
  \<^verbatim>\<open>trace.rs\<close>), \<open>Store_Page\<close> (\<^verbatim>\<open>page.rs\<close>, the read functions of \<^verbatim>\<open>fs.rs\<close>) and \<open>Store_Cache\<close>
  (\<^verbatim>\<open>cache.rs\<close>, the queue of \<^verbatim>\<open>async_io.rs\<close>) hold the definitions; an operation of the cache is one critical
  section under its lock. \<open>Store_Cache_Inv\<close>, \<open>Store_Cache_Ops\<close> and \<open>Store_Cache_Demand\<close> prove the invariant
  \<open>cache_ok\<close> of every section, \<open>Store_Protocol\<close> is the abstract lease protocol, \<open>Store_Cache_View\<close> relates each
  section to it. \<open>Store_System\<close> is the step relation of cache, callers and workers, interleaved in any order, and
  \<open>Store_Guarantees\<close> derives what holds in every reachable state. \<open>Store_Read\<close>, \<open>Store_Honest\<close> and \<open>Store_Specs\<close>
  treat the verified read and the page arithmetic, \<open>Store_Lru\<close> which pages are evicted for a load, \<open>Store_Closed\<close> the
  system after a shutdown, \<open>Store_Tracing\<close> the budget and the trace sink. \<open>Store_Import\<close> has the disk accounting of an
  import (\<^verbatim>\<open>usage\<close> of \<^verbatim>\<open>layout.rs\<close>, \<^verbatim>\<open>preflight_import\<close> of \<^verbatim>\<open>cas.rs\<close>), definitions and lemmas.
  \<open>Store_Sample\<close> has a concrete run for the witnesses and \<open>Store_Properties\<close> states the results.

  \<^bold>\<open>Kernels.\<close> \<open>Kernel_Bf16\<close> (\<^verbatim>\<open>bf16.rs\<close>, \<^verbatim>\<open>error.rs\<close>), \<open>Kernel_Matrix\<close> (\<^verbatim>\<open>matrix.rs\<close>),
  \<open>Kernel_Native\<close> (\<^verbatim>\<open>native/bf16_gemv.c\<close>, \<^verbatim>\<open>ffi.rs\<close>) and \<open>Kernel_Gemv\<close> (\<^verbatim>\<open>lib.rs\<close>,
  \<^verbatim>\<open>dispatch.rs\<close>) hold definitions and lemmas; every memory access of the C code is checked against the storage
  behind its pointer. \<open>Kernel_Agree\<close> shows what a run publishes and when the order of additions cannot matter, and
  \<open>Kernel_Properties\<close> states the results.

  \<^bold>\<open>How the parts meet.\<close> The store reads objects of a verified artifact page by page: \<open>served_page_is_artifact_page\<close> and
  \<open>tensor_pages_hold_tensor\<close> connect \<open>Format_Verified\<close> with the reader, and \<open>cache_refines_protocol\<close> with
  \<open>lease_protected\<close> carry the page to its holder. The simulator is tied to the offline optimum by
  \<open>online_at_least_optimum\<close>.

  \<^bold>\<open>Parameters and bounds.\<close> SHA-256, the tokenizer of \<^verbatim>\<open>serde_json\<close>, the file system, the allocator, the clock and
  the processor are arguments of the definitions that use them; a theorem that needs more of them than their type names it
  as a hypothesis (no collision on the pages at hand, events of the text, an intact file). Loops are structural or have a
  termination proof; the positional read loop is given as many answers as the environment produces, and
  \<open>read_loop_terminates\<close> shows how many are enough. The step relation of the store lets any number of
  workers run, each with any answers of the operating system; the runs with the configured number are among them. The machine has 64-bit \<^verbatim>\<open>usize\<close>.

  \<^bold>\<open>Not modelled.\<close> Command lines, benchmarks, build scripts, experiment scripts and the Python oracles only drive or
  test the library. The trace generator draws workloads no other part relies on. The rest of the content-addressed
  store (\<^verbatim>\<open>cas.rs\<close>, \<^verbatim>\<open>layout.rs\<close>, \<^verbatim>\<open>stage.rs\<close>, \<^verbatim>\<open>source.rs\<close>) is a sequence of system calls whose
  claims are about crashes; the sources do not fix the crash semantics of the file system they need. Opening a
  \<^verbatim>\<open>StoredArtifact\<close> (\<^verbatim>\<open>open_source_internal\<close> in \<^verbatim>\<open>page.rs\<close>) goes through it; where a theorem needs the
  page tables of its objects verified, that is a hypothesis. The inference pass of
  \<^verbatim>\<open>crates/runnel-runtime\<close> depends on the rounding of \<^verbatim>\<open>exp\<close> and \<^verbatim>\<open>sqrt\<close> of the platform.
  Display text of errors is modelled where errors carry it.
\<close>

end
